(* ===== verification/QH_Prelude.thy ===== *)
theory QH_Prelude
  imports Main "HOL-Library.Word"
begin

text \<open>
  What the components share.  A Rust \<open>String\<close> is a HOL \<open>string\<close>, read as the
  UTF-8 bytes of the text (a HOL \<open>char\<close> is one byte), so \<open>len()\<close> is \<open>length\<close>.
  A \<open>Result<T, E>\<close> is the sum \<open>'e + 'a\<close> with \<open>Inl\<close> the error; the \<open>?\<close> operator is
  \<open>and_then\<close>.  Fixed-width integers are \<open>int\<close> with an explicit range test wherever
  the code uses the checked operations; the width is the first argument of
  \<open>checked\<close>.  The facts of each component that its clients use are
  collected in the named theorems below.
\<close>

named_theorems qh_num \<open>ranges and checked arithmetic\<close>
named_theorems qh_str \<open>strings: rendering, trimming, splitting\<close>
named_theorems qh_res \<open>results and options\<close>

section \<open>Results\<close>

fun and_then :: "'e + 'a \<Rightarrow> ('a \<Rightarrow> 'e + 'b) \<Rightarrow> 'e + 'b" where
  "and_then (Inl e) f = Inl e"
| "and_then (Inr a) f = f a"

fun is_ok :: "'e + 'a \<Rightarrow> bool" where
  "is_ok (Inl _) = False"
| "is_ok (Inr _) = True"

fun try_fold :: "('s \<Rightarrow> 'a \<Rightarrow> 'e + 's) \<Rightarrow> 's \<Rightarrow> 'a list \<Rightarrow> 'e + 's" where
  "try_fold f s [] = Inr s"
| "try_fold f s (x # xs) = and_then (f s x) (\<lambda>s'. try_fold f s' xs)"

fun try_map :: "('a \<Rightarrow> 'e + 'b) \<Rightarrow> 'a list \<Rightarrow> 'e + 'b list" where
  "try_map f [] = Inr []"
| "try_map f (x # xs) = and_then (f x) (\<lambda>y. and_then (try_map f xs) (\<lambda>ys. Inr (y # ys)))"

lemma and_then_Inr_iff [qh_res]:
  "and_then m f = Inr b \<longleftrightarrow> (\<exists>a. m = Inr a \<and> f a = Inr b)"
  by (cases m) auto

lemma and_then_Inl_iff [qh_res]:
  "and_then m f = Inl e \<longleftrightarrow> m = Inl e \<or> (\<exists>a. m = Inr a \<and> f a = Inl e)"
  by (cases m) auto

lemma and_then_assoc:
  "and_then (and_then m f) g = and_then m (\<lambda>x. and_then (f x) g)"
  by (cases m) auto

lemma try_fold_append:
  "try_fold f s (xs @ ys) = and_then (try_fold f s xs) (\<lambda>s'. try_fold f s' ys)"
  by (induction xs arbitrary: s) (auto simp: and_then_assoc)

lemma try_fold_invariant:
  assumes "try_fold f s xs = Inr s'" and "I s"
    and "\<And>t x t'. x \<in> set xs \<Longrightarrow> I t \<Longrightarrow> f t x = Inr t' \<Longrightarrow> I t'"
  shows "I s'"
  using assms by (induction xs arbitrary: s) (auto simp: qh_res)

lemma try_map_length [qh_res]: "try_map f xs = Inr ys \<Longrightarrow> length ys = length xs"
  by (induction xs arbitrary: ys) (auto simp: qh_res)

lemma try_map_set:
  "try_map f xs = Inr ys \<Longrightarrow> y \<in> set ys \<Longrightarrow> \<exists>x \<in> set xs. f x = Inr y"
  by (induction xs arbitrary: ys) (auto simp: qh_res)

lemma try_map_all2:
  "try_map f xs = Inr ys \<longleftrightarrow> list_all2 (\<lambda>x y. f x = Inr y) xs ys"
  by (induction xs arbitrary: ys) (auto simp: qh_res list_all2_Cons1)

section \<open>Checked arithmetic\<close>

definition in_signed :: "nat \<Rightarrow> int \<Rightarrow> bool" where
  "in_signed w x \<longleftrightarrow> - (2 ^ (w - 1)) \<le> x \<and> x < 2 ^ (w - 1)"

definition in_unsigned :: "nat \<Rightarrow> int \<Rightarrow> bool" where
  "in_unsigned w x \<longleftrightarrow> 0 \<le> x \<and> x < 2 ^ w"

definition checked :: "nat \<Rightarrow> int \<Rightarrow> int option" where
  "checked w x = (if in_signed w x then Some x else None)"

definition checked_unsigned :: "nat \<Rightarrow> int \<Rightarrow> int option" where
  "checked_unsigned w x = (if in_unsigned w x then Some x else None)"

definition saturate :: "nat \<Rightarrow> int \<Rightarrow> int" where
  "saturate w x = max (- (2 ^ (w - 1))) (min (2 ^ (w - 1) - 1) x)"

text \<open>Rust's \<open>/\<close> and \<open>%\<close> truncate toward zero.\<close>

definition quot :: "int \<Rightarrow> int \<Rightarrow> int" where
  "quot a b = sgn a * sgn b * (\<bar>a\<bar> div \<bar>b\<bar>)"

definition remn :: "int \<Rightarrow> int \<Rightarrow> int" where
  "remn a b = a - quot a b * b"

lemma checked_Some [qh_num]: "checked w x = Some y \<longleftrightarrow> in_signed w x \<and> y = x"
  by (auto simp: checked_def)

lemma checked_None [qh_num]: "checked w x = None \<longleftrightarrow> \<not> in_signed w x"
  by (auto simp: checked_def)

lemma checked_unsigned_Some [qh_num]:
  "checked_unsigned w x = Some y \<longleftrightarrow> in_unsigned w x \<and> y = x"
  by (auto simp: checked_unsigned_def)

lemma saturate_in_signed [qh_num]: "0 < w \<Longrightarrow> in_signed w (saturate w x)"
  by (auto simp: saturate_def in_signed_def)

lemma saturate_id [qh_num]: "in_signed w x \<Longrightarrow> saturate w x = x"
  by (auto simp: saturate_def in_signed_def)

lemma quot_nonneg [qh_num]: "0 \<le> a \<Longrightarrow> 0 < b \<Longrightarrow> quot a b = a div b"
  by (cases "a = 0") (auto simp: quot_def)

lemma remn_nonneg [qh_num]: "0 \<le> a \<Longrightarrow> 0 < b \<Longrightarrow> remn a b = a mod b"
  by (auto simp: remn_def quot_nonneg minus_div_mult_eq_mod)

end
