(* ===== verification/QH_Strings.thy ===== *)
theory QH_Strings
  imports QH_Prelude
begin

text \<open>
  The string operations of Rust's standard library that the code uses, on byte
  strings: rendering integers (\<open>to_string\<close>, \<open>{:05}\<close>), reading them
  (\<open>str::parse\<close>), \<open>trim\<close>, \<open>strip_prefix\<close>, \<open>strip_suffix\<close>, \<open>split_once\<close>,
  ASCII case folding and joining.  \<open>trim\<close> removes the ASCII white space; the
  non-ASCII white space Rust's also removes does not occur in what the code trims.
\<close>

section \<open>Characters\<close>

definition code :: "char \<Rightarrow> nat" where
  "code c = of_char c"

definition is_digit :: "char \<Rightarrow> bool" where
  "is_digit c \<longleftrightarrow> 48 \<le> code c \<and> code c \<le> 57"

definition is_upper :: "char \<Rightarrow> bool" where
  "is_upper c \<longleftrightarrow> 65 \<le> code c \<and> code c \<le> 90"

definition is_lower :: "char \<Rightarrow> bool" where
  "is_lower c \<longleftrightarrow> 97 \<le> code c \<and> code c \<le> 122"

definition is_alnum :: "char \<Rightarrow> bool" where
  "is_alnum c \<longleftrightarrow> is_digit c \<or> is_upper c \<or> is_lower c"

definition is_ws :: "char \<Rightarrow> bool" where
  "is_ws c \<longleftrightarrow> (9 \<le> code c \<and> code c \<le> 13) \<or> code c = 32"

definition digit_char :: "nat \<Rightarrow> char" where
  "digit_char d = char_of (48 + d)"

definition digit_val :: "char \<Rightarrow> nat" where
  "digit_val c = code c - 48"

definition to_lower :: "char \<Rightarrow> char" where
  "to_lower c = (if is_upper c then char_of (code c + 32) else c)"

definition to_upper :: "char \<Rightarrow> char" where
  "to_upper c = (if is_lower c then char_of (code c - 32) else c)"

abbreviation lowercase :: "string \<Rightarrow> string" where
  "lowercase \<equiv> map to_lower"

abbreviation uppercase :: "string \<Rightarrow> string" where
  "uppercase \<equiv> map to_upper"

definition eq_ignore_case :: "string \<Rightarrow> string \<Rightarrow> bool" where
  "eq_ignore_case s t \<longleftrightarrow> lowercase s = lowercase t"

abbreviation all_digits :: "string \<Rightarrow> bool" where
  "all_digits s \<equiv> list_all is_digit s"

lemma code_digit_char [simp]: "d < 10 \<Longrightarrow> code (digit_char d) = 48 + d"
  by (simp add: code_def digit_char_def)

lemma is_digit_digit_char [simp]: "d < 10 \<Longrightarrow> is_digit (digit_char d)"
  by (simp add: is_digit_def)

lemma digit_val_digit_char [simp]: "d < 10 \<Longrightarrow> digit_val (digit_char d) = d"
  by (simp add: digit_val_def)

lemma digit_val_less: "is_digit c \<Longrightarrow> digit_val c < 10"
  by (auto simp: is_digit_def digit_val_def)

lemma digit_char_digit_val [simp]: "is_digit c \<Longrightarrow> digit_char (digit_val c) = c"
  by (simp add: is_digit_def digit_val_def digit_char_def code_def)

lemma is_digit_not_ws: "is_digit c \<Longrightarrow> \<not> is_ws c"
  by (auto simp: is_digit_def is_ws_def)

lemma is_digit_code: "is_digit c \<Longrightarrow> code d < 48 \<or> 57 < code d \<Longrightarrow> c \<noteq> d"
  by (auto simp: is_digit_def)

section \<open>Decimal numerals\<close>

fun show_nat :: "nat \<Rightarrow> string" where
  "show_nat n = (if n < 10 then [digit_char n]
     else show_nat (n div 10) @ [digit_char (n mod 10)])"

declare show_nat.simps [simp del]

definition show_int :: "int \<Rightarrow> string" where
  "show_int i = (if i < 0 then ''-'' @ show_nat (nat (- i)) else show_nat (nat i))"

definition read_nat_from :: "nat \<Rightarrow> string \<Rightarrow> nat" where
  "read_nat_from a s = foldl (\<lambda>a c. 10 * a + digit_val c) a s"

abbreviation read_nat :: "string \<Rightarrow> nat" where
  "read_nat \<equiv> read_nat_from 0"

text \<open>\<open>format!("{:0w$}", n)\<close> pads with leading zeros to width \<open>w\<close>.\<close>

definition pad_left :: "nat \<Rightarrow> char \<Rightarrow> string \<Rightarrow> string" where
  "pad_left w c s = replicate (w - length s) c @ s"

definition show_padded :: "nat \<Rightarrow> nat \<Rightarrow> string" where
  "show_padded w n = pad_left w (digit_char 0) (show_nat n)"

lemma read_nat_from_Nil [simp]: "read_nat_from a [] = a"
  by (simp add: read_nat_from_def)

lemma read_nat_from_Cons [simp]:
  "read_nat_from a (c # s) = read_nat_from (10 * a + digit_val c) s"
  by (simp add: read_nat_from_def)

lemma read_nat_from_append [simp]:
  "read_nat_from a (s @ t) = read_nat_from (read_nat_from a s) t"
  by (simp add: read_nat_from_def)

lemma read_nat_from_scale: "read_nat_from a s = a * 10 ^ length s + read_nat s"
proof (induction s arbitrary: a)
  case (Cons c s)
  show ?case
    using Cons.IH[of "10 * a + digit_val c"] Cons.IH[of "digit_val c"]
    by (simp add: algebra_simps)
qed simp

lemma read_show_nat [qh_str, simp]: "read_nat (show_nat n) = n"
  by (induction n rule: show_nat.induct) (subst show_nat.simps, auto)

lemma all_digits_show_nat [qh_str, simp]: "all_digits (show_nat n)"
  by (induction n rule: show_nat.induct) (subst show_nat.simps, auto)

lemma show_nat_not_Nil [qh_str, simp]: "show_nat n \<noteq> []"
  by (subst show_nat.simps) auto

lemma show_nat_inject [simp]: "show_nat m = show_nat n \<longleftrightarrow> m = n"
  by (metis read_show_nat)

lemma length_show_nat_le: "0 < k \<Longrightarrow> n < 10 ^ k \<Longrightarrow> length (show_nat n) \<le> k"
proof (induction n arbitrary: k rule: show_nat.induct)
  case (1 n)
  show ?case
  proof (cases "n < 10")
    case True
    then show ?thesis using 1 by (subst show_nat.simps) auto
  next
    case False
    then obtain j where k: "k = Suc j" "0 < j"
      using 1 by (cases k; cases "k - 1") auto
    then have "n div 10 < 10 ^ j" using 1 by auto
    then have "length (show_nat (n div 10)) \<le> j" using 1 False k by auto
    then show ?thesis using False k by (subst show_nat.simps) auto
  qed
qed

lemma read_nat_less: "all_digits s \<Longrightarrow> read_nat s < 10 ^ length s"
proof (induction s rule: rev_induct)
  case (snoc c s)
  then show ?case using digit_val_less[of c] by simp
qed simp

lemma read_nat_zeros [simp]: "read_nat_from a (replicate n (digit_char 0)) = a * 10 ^ n"
  by (induction n arbitrary: a) (auto simp: algebra_simps)

section \<open>Parsing, trimming, splitting\<close>

definition parse_unsigned :: "nat \<Rightarrow> string \<Rightarrow> int option" where
  "parse_unsigned w s =
     (let ds = (case s of c # r \<Rightarrow> if c = CHR ''+'' then r else s | [] \<Rightarrow> s)
      in if ds \<noteq> [] \<and> all_digits ds then checked_unsigned w (int (read_nat ds)) else None)"

definition parse_signed :: "nat \<Rightarrow> string \<Rightarrow> int option" where
  "parse_signed w s =
     (let (neg, ds) = (case s of
            c # r \<Rightarrow> if c = CHR ''-'' then (True, r) else if c = CHR ''+'' then (False, r)
                     else (False, s)
          | [] \<Rightarrow> (False, s))
      in if ds \<noteq> [] \<and> all_digits ds
         then checked w (if neg then - int (read_nat ds) else int (read_nat ds)) else None)"

definition trim_start :: "string \<Rightarrow> string" where
  "trim_start = dropWhile is_ws"

definition trim :: "string \<Rightarrow> string" where
  "trim s = rev (trim_start (rev (trim_start s)))"

definition strip_prefix :: "string \<Rightarrow> string \<Rightarrow> string option" where
  "strip_prefix p s = (if take (length p) s = p then Some (drop (length p) s) else None)"

definition strip_suffix :: "string \<Rightarrow> string \<Rightarrow> string option" where
  "strip_suffix p s = map_option rev (strip_prefix (rev p) (rev s))"

fun split_once :: "char \<Rightarrow> string \<Rightarrow> (string \<times> string) option" where
  "split_once d [] = None"
| "split_once d (c # s) = (if c = d then Some ([], s)
     else map_option (\<lambda>(a, b). (c # a, b)) (split_once d s))"

fun join :: "string \<Rightarrow> string list \<Rightarrow> string" where
  "join sep [] = []"
| "join sep [s] = s"
| "join sep (s # t # r) = s @ sep @ join sep (t # r)"

text \<open>Text between single quotes (\<open>'{s}'\<close>) and back quotes, as the messages have it.\<close>

definition quoted :: "string \<Rightarrow> string" where
  "quoted s = CHR 0x27 # s @ [CHR 0x27]"

definition backquoted :: "string \<Rightarrow> string" where
  "backquoted s = CHR 0x60 # s @ [CHR 0x60]"

definition starts_with :: "string \<Rightarrow> string \<Rightarrow> bool" where
  "starts_with p s \<longleftrightarrow> take (length p) s = p"

lemma split_once_None [qh_str]: "split_once d s = None \<longleftrightarrow> d \<notin> set s"
  by (induction s) auto

lemma split_once_Some [qh_str]:
  "split_once d s = Some (a, b) \<longleftrightarrow> s = a @ d # b \<and> d \<notin> set a"
proof (induction s arbitrary: a)
  case (Cons c s)
  then show ?case by (cases a) (auto simp: Cons)
qed simp

lemma strip_prefix_Some [qh_str]: "strip_prefix p s = Some r \<longleftrightarrow> s = p @ r"
  by (auto simp: strip_prefix_def) (metis append_take_drop_id)

lemma strip_suffix_Some [qh_str]: "strip_suffix p s = Some r \<longleftrightarrow> s = r @ p"
proof
  assume "strip_suffix p s = Some r"
  then obtain t where t: "strip_prefix (rev p) (rev s) = Some t" "r = rev t"
    by (auto simp: strip_suffix_def)
  then have "rev s = rev p @ t" by (simp add: strip_prefix_Some)
  then show "s = r @ p" using t by (metis rev_append rev_rev_ident)
qed (simp add: strip_suffix_def strip_prefix_def)

lemma trim_no_ws [qh_str]: "list_all (\<lambda>c. \<not> is_ws c) s \<Longrightarrow> trim s = s"
proof -
  have keep: "list_all (\<lambda>c. \<not> is_ws c) t \<Longrightarrow> dropWhile is_ws t = t" for t
    by (cases t) auto
  assume s: "list_all (\<lambda>c. \<not> is_ws c) s"
  then have "list_all (\<lambda>c. \<not> is_ws c) (rev s)" by (simp add: list_all_iff)
  then show ?thesis using keep[OF s] keep[of "rev s"] by (simp add: trim_def trim_start_def)
qed

lemma parse_signed_show_int [qh_str]:
  assumes "in_signed w i" shows "parse_signed w (show_int i) = Some i"
proof -
  obtain c r where cr: "show_nat (nat \<bar>i\<bar>) = c # r" by (cases "show_nat (nat \<bar>i\<bar>)") auto
  have c: "is_digit c" using all_digits_show_nat[of "nat \<bar>i\<bar>"] cr by simp
  then have ne: "c \<noteq> CHR ''-''" "c \<noteq> CHR ''+''" by (auto simp: is_digit_def code_def)
  have rd: "read_nat (c # r) = nat \<bar>i\<bar>" using cr read_show_nat by metis
  have dg: "all_digits (c # r)" using cr all_digits_show_nat by metis
  show ?thesis
  proof (cases "i < 0")
    case True
    then have "show_int i = CHR ''-'' # c # r" using cr by (simp add: show_int_def)
    then show ?thesis using True rd dg assms by (simp add: parse_signed_def checked_def)
  next
    case False
    then have "show_int i = c # r" using cr by (simp add: show_int_def)
    then show ?thesis using False ne rd dg assms by (simp add: parse_signed_def checked_def)
  qed
qed

lemma length_pad_left: "length s \<le> w \<Longrightarrow> length (pad_left w c s) = w"
  by (simp add: pad_left_def)

end
