(* ===== verification/QH_Error.thy ===== *)
theory QH_Error
  imports QH_Strings
begin

text \<open>
  \<open>error.rs\<close>: the error type of the engine and the classification a
  whole-transfer retry is decided by.  The errors of the client libraries
  (\<open>tokio_postgres\<close>, \<open>mysql_async\<close>, \<open>reqwest\<close>, \<open>arrow\<close>) are not under \<open>src/\<close>; of them
  the model keeps what the code reads: the server error of a PostgreSQL error
  with its SQLSTATE, whether its connection is closed, its chain of causes, and the
  variant and code of a MySQL error.
\<close>

section \<open>The error values\<close>

datatype io_kind = ConnectionReset | ConnectionAborted | BrokenPipe | UnexpectedEof
  | TimedOut | OtherIoKind

datatype cause = IoCause io_kind string | OtherCause string

record db_error =
  db_severity :: string
  db_code :: string
  db_message :: string
  db_detail :: "string option"
  db_hint :: "string option"

record pg_error =
  pg_db :: "db_error option"
  pg_closed :: bool
  pg_display :: string
  pg_causes :: "cause list"

datatype mysql_error = MyServer nat string | MyIo string | MyConnectionClosed | MyOther string

datatype etl_error =
    Postgres pg_error
  | MySql mysql_error
  | ClickHouse string
  | Http string
  | Arrow string
  | Decode string
  | UnsupportedType string string string
  | Config string
  | ReadIdleTimeout string nat
  | Io string
  | Cancelled
  | Internal string
  | Context string etl_error
  | Other string
  | Panic string

text \<open>\<open>Panic\<close> is not a variant of the code's enum: it is the abort of a Rust panic, as a value.\<close>

type_synonym 'a res = "etl_error + 'a"

section \<open>Rendering\<close>

fun cause_text :: "cause \<Rightarrow> string" where
  "cause_text (IoCause _ t) = t"
| "cause_text (OtherCause t) = t"

definition fmt_pg_error :: "pg_error \<Rightarrow> string" where
  "fmt_pg_error e = (case pg_db e of
      Some db \<Rightarrow>
        db_severity db @ '' ['' @ db_code db @ ''] '' @ db_message db
          @ (case db_detail db of Some d \<Rightarrow> '' | detail: '' @ d | None \<Rightarrow> '''')
          @ (case db_hint db of Some h \<Rightarrow> '' | hint: '' @ h | None \<Rightarrow> '''')
    | None \<Rightarrow> pg_display e @ concat (map (\<lambda>c. '': '' @ cause_text c) (pg_causes e)))"

section \<open>Classification\<close>

definition sqlstate_is_transient :: "string \<Rightarrow> bool" where
  "sqlstate_is_transient c \<longleftrightarrow> c = ''40001'' \<or> c = ''57014''"

fun io_kind_is_transient :: "io_kind \<Rightarrow> bool" where
  "io_kind_is_transient OtherIoKind = False"
| "io_kind_is_transient _ = True"

text \<open>The walk of the chain of causes stops at the first I/O error.\<close>

fun causes_transient :: "cause list \<Rightarrow> bool" where
  "causes_transient [] = False"
| "causes_transient (IoCause k _ # _) = io_kind_is_transient k"
| "causes_transient (OtherCause _ # cs) = causes_transient cs"

definition pg_error_is_transient :: "pg_error \<Rightarrow> bool" where
  "pg_error_is_transient e = (case pg_db e of
      Some db \<Rightarrow> sqlstate_is_transient (db_code db)
    | None \<Rightarrow> if pg_closed e then True else causes_transient (pg_causes e))"

fun mysql_error_is_transient :: "mysql_error \<Rightarrow> bool" where
  "mysql_error_is_transient (MyServer c _) = (c \<in> {1205, 1213, 1317, 3024})"
| "mysql_error_is_transient (MyIo _) = True"
| "mysql_error_is_transient MyConnectionClosed = True"
| "mysql_error_is_transient (MyOther _) = False"

fun is_transient_source :: "etl_error \<Rightarrow> bool" where
  "is_transient_source (Postgres e) = pg_error_is_transient e"
| "is_transient_source (MySql e) = mysql_error_is_transient e"
| "is_transient_source (Context _ e) = is_transient_source e"
| "is_transient_source (ReadIdleTimeout _ _) = True"
| "is_transient_source _ = False"

definition with_context :: "string \<Rightarrow> 'a res \<Rightarrow> 'a res" where
  "with_context c r = (case r of Inl e \<Rightarrow> Inl (Context c e) | Inr a \<Rightarrow> Inr a)"

section \<open>Lemmas\<close>

fun root_cause :: "etl_error \<Rightarrow> etl_error" where
  "root_cause (Context _ e) = root_cause e"
| "root_cause e = e"

lemma root_cause_not_context: "root_cause e \<noteq> Context c e'"
  by (induction e rule: root_cause.induct) auto

lemma transient_root: "is_transient_source (root_cause e) = is_transient_source e"
  by (induction e rule: root_cause.induct) auto

lemma with_context_Inr [qh_res]: "with_context c r = Inr a \<longleftrightarrow> r = Inr a"
  by (cases r) (auto simp: with_context_def)

lemma with_context_transient:
  "with_context c r = Inl e \<Longrightarrow> \<exists>e'. r = Inl e' \<and> is_transient_source e = is_transient_source e'"
  by (cases r) (auto simp: with_context_def)

fun_cases res_bindE: "and_then m f = Inr b"

end
