(* ===== verification/QH_Warning_Kind.thy ===== *)
theory QH_Warning_Kind
  imports QH_Strings
begin

text \<open>
  The kinds of structured warning (\<open>config.rs\<close>, \<open>enum WarningKind\<close>), their stable
  names and the list of all of them, with the linear order the run's warnings
  are sorted by (the declaration order, as the derived \<open>Ord\<close> has it).
\<close>

section \<open>Kinds and names\<close>

datatype warning_kind =
    CollapsedBool
  | CoercedDate
  | CoercedDecimal
  | CoercedScalar
  | NullWatermark
  | NullKey
  | NullDefaulted
  | FullRefreshShrink
  | UnindexedWatermark
  | UnclusteredMergeTarget
  | IgnoredSourceArchive
  | IncompleteExport
  | DecimalMappingMixed
  | WatermarkNotAdvanced
  | WatermarkAheadOfSource
  | ShiftedTimestamp
  | WindowBoundsUnavailable
  | NullCheckSkipped
  | RetriedAfterPartialWrite
  | StorageWriteCountMismatch
  | UnsourcedDestinationColumn
  | AbandonedResumeMarker
  | DroppedSourceColumn
  | RecreatedDestination
  | NonReplacingIncrementalTarget
  | IgnoredTypeOverride

fun as_str :: "warning_kind \<Rightarrow> string" where
  "as_str CollapsedBool = ''collapsed_bool''"
| "as_str CoercedDate = ''coerced_date''"
| "as_str CoercedDecimal = ''coerced_decimal''"
| "as_str CoercedScalar = ''coerced_scalar''"
| "as_str NullWatermark = ''null_watermark''"
| "as_str NullKey = ''null_key''"
| "as_str NullDefaulted = ''null_defaulted''"
| "as_str FullRefreshShrink = ''full_refresh_shrink''"
| "as_str UnclusteredMergeTarget = ''unclustered_merge_target''"
| "as_str IgnoredSourceArchive = ''ignored_source_archive''"
| "as_str IncompleteExport = ''incomplete_export''"
| "as_str UnindexedWatermark = ''unindexed_watermark''"
| "as_str DecimalMappingMixed = ''decimal_mapping_mixed''"
| "as_str WatermarkNotAdvanced = ''watermark_not_advanced''"
| "as_str WatermarkAheadOfSource = ''watermark_ahead_of_source''"
| "as_str ShiftedTimestamp = ''shifted_timestamp''"
| "as_str WindowBoundsUnavailable = ''window_bounds_unavailable''"
| "as_str NullCheckSkipped = ''null_check_skipped''"
| "as_str RetriedAfterPartialWrite = ''retried_after_partial_write''"
| "as_str StorageWriteCountMismatch = ''storage_write_count_mismatch''"
| "as_str UnsourcedDestinationColumn = ''unsourced_destination_column''"
| "as_str AbandonedResumeMarker = ''abandoned_resume_marker''"
| "as_str DroppedSourceColumn = ''dropped_source_column''"
| "as_str RecreatedDestination = ''recreated_destination''"
| "as_str NonReplacingIncrementalTarget = ''non_replacing_incremental_target''"
| "as_str IgnoredTypeOverride = ''ignored_type_override''"

definition ALL_kinds :: "warning_kind list" where
  "ALL_kinds = [
    CollapsedBool, CoercedDate, CoercedDecimal,
    CoercedScalar, NullWatermark, NullKey,
    NullDefaulted, FullRefreshShrink, UnindexedWatermark,
    UnclusteredMergeTarget, IgnoredSourceArchive, IncompleteExport,
    DecimalMappingMixed, WatermarkNotAdvanced, WatermarkAheadOfSource,
    ShiftedTimestamp, WindowBoundsUnavailable, NullCheckSkipped,
    RetriedAfterPartialWrite, StorageWriteCountMismatch, UnsourcedDestinationColumn,
    AbandonedResumeMarker, DroppedSourceColumn, RecreatedDestination,
    NonReplacingIncrementalTarget, IgnoredTypeOverride]"

definition from_name :: "string \<Rightarrow> warning_kind option" where
  "from_name n = find (\<lambda>k. as_str k = n) ALL_kinds"

section \<open>Order\<close>

fun kind_rank :: "warning_kind \<Rightarrow> nat" where
  "kind_rank CollapsedBool = 0"
| "kind_rank CoercedDate = 1"
| "kind_rank CoercedDecimal = 2"
| "kind_rank CoercedScalar = 3"
| "kind_rank NullWatermark = 4"
| "kind_rank NullKey = 5"
| "kind_rank NullDefaulted = 6"
| "kind_rank FullRefreshShrink = 7"
| "kind_rank UnindexedWatermark = 8"
| "kind_rank UnclusteredMergeTarget = 9"
| "kind_rank IgnoredSourceArchive = 10"
| "kind_rank IncompleteExport = 11"
| "kind_rank DecimalMappingMixed = 12"
| "kind_rank WatermarkNotAdvanced = 13"
| "kind_rank WatermarkAheadOfSource = 14"
| "kind_rank ShiftedTimestamp = 15"
| "kind_rank WindowBoundsUnavailable = 16"
| "kind_rank NullCheckSkipped = 17"
| "kind_rank RetriedAfterPartialWrite = 18"
| "kind_rank StorageWriteCountMismatch = 19"
| "kind_rank UnsourcedDestinationColumn = 20"
| "kind_rank AbandonedResumeMarker = 21"
| "kind_rank DroppedSourceColumn = 22"
| "kind_rank RecreatedDestination = 23"
| "kind_rank NonReplacingIncrementalTarget = 24"
| "kind_rank IgnoredTypeOverride = 25"

lemma ALL_kinds_complete: "k \<in> set ALL_kinds"
  by (cases k) (simp_all add: ALL_kinds_def)

lemma ALL_kinds_rank: "map kind_rank ALL_kinds = [0..<26]"
  by (simp add: ALL_kinds_def upt_rec)

lemma kind_rank_nth: "kind_rank k < 26 \<and> ALL_kinds ! kind_rank k = k"
  by (cases k) (simp_all add: ALL_kinds_def)

lemma kind_rank_inject: "kind_rank a = kind_rank b \<Longrightarrow> a = b"
  by (metis kind_rank_nth)

instantiation warning_kind :: linorder
begin

definition less_eq_warning_kind :: "warning_kind \<Rightarrow> warning_kind \<Rightarrow> bool" where
  "less_eq_warning_kind a b \<longleftrightarrow> kind_rank a \<le> kind_rank b"

definition less_warning_kind :: "warning_kind \<Rightarrow> warning_kind \<Rightarrow> bool" where
  "less_warning_kind a b \<longleftrightarrow> kind_rank a < kind_rank b"

instance
  by standard
    (auto simp: less_eq_warning_kind_def less_warning_kind_def intro: kind_rank_inject)

end

lemma names_distinct: "distinct (map as_str ALL_kinds)"
  unfolding ALL_kinds_def by (simp only: list.map as_str.simps, code_simp)

lemma as_str_inject: "as_str a = as_str b \<Longrightarrow> a = b"
  by (metis ALL_kinds_complete distinct_map inj_onD names_distinct)

lemma from_name_Some: "from_name n = Some k \<longleftrightarrow> n = as_str k"
proof
  assume "from_name n = Some k"
  then show "n = as_str k" by (auto simp: from_name_def find_Some_iff)
next
  assume n: "n = as_str k"
  show "from_name n = Some k"
  proof (cases "from_name n")
    case None
    then show ?thesis using n ALL_kinds_complete[of k] by (auto simp: from_name_def find_None_iff)
  next
    case (Some k')
    then have "as_str k' = n" by (auto simp: from_name_def find_Some_iff)
    then show ?thesis using n Some as_str_inject by auto
  qed
qed

end
