(* ===== verification/QH_Decimal.thy ===== *)
theory QH_Decimal
  imports QH_Error QH_Warning_Kind
begin

text \<open>
  \<open>decimal.rs\<close>: exact decimals as an integer mantissa and a scale.  A mantissa is
  an \<open>int\<close> kept in the range of \<open>i128\<close> by the checked operations of the code; a
  scale is an \<open>int\<close> in the range of \<open>i32\<close> (\<open>i8\<close> in the rendering).  The last section
  is the per-column tally of lossy coercions (\<open>CoercionTally\<close>), whose 64-bit
  counters are natural numbers: no run coerces \<open>2^64\<close> values.
\<close>

section \<open>The \<open>Decimal(P, S)\<close> override\<close>

definition parse_decimal_override :: "string \<Rightarrow> (int \<times> int) option" where
  "parse_decimal_override s =
     (case strip_prefix ''Decimal('' (trim s) of None \<Rightarrow> None | Some rest \<Rightarrow>
      (case strip_suffix '')'' rest of None \<Rightarrow> None | Some rest \<Rightarrow>
      (case split_once (CHR '','') rest of None \<Rightarrow> None | Some (p_str, s_str) \<Rightarrow>
      (case parse_unsigned 8 (trim p_str) of None \<Rightarrow> None | Some precision \<Rightarrow>
      (case parse_signed 8 (trim s_str) of None \<Rightarrow> None | Some scale \<Rightarrow>
        Some (precision, scale))))))"

section \<open>Rendering\<close>

definition zeros :: "nat \<Rightarrow> string" where
  "zeros n = replicate n (digit_char 0)"

definition decimal128_to_string :: "int \<Rightarrow> int \<Rightarrow> string" where
  "decimal128_to_string value scale =
     (let negative = value < 0;
          digits = show_nat (nat \<bar>value\<bar>);
          body =
            (if scale \<le> 0 then
               (if scale = 0 then digits else digits @ zeros (nat (- scale)))
             else
               (let sc = nat scale in
                if length digits > sc then
                  (let point = length digits - sc
                   in take point digits @ ''.'' @ drop point digits)
                else ''0.'' @ zeros (sc - length digits) @ digits))
      in if negative then ''-'' @ body else body)"

section \<open>Rescaling\<close>

definition rescale_mantissa :: "int \<Rightarrow> int \<Rightarrow> int \<Rightarrow> int option" where
  "rescale_mantissa magnitude from_scale to_scale =
     (if magnitude = 0 then Some 0 else
      (case checked 32 (to_scale - from_scale) of None \<Rightarrow> None | Some diff \<Rightarrow>
       if 0 \<le> diff then
         (case checked 128 (10 ^ nat diff) of None \<Rightarrow> None | Some factor \<Rightarrow>
            checked 128 (magnitude * factor))
       else
         (case checked 32 (- diff) of None \<Rightarrow> None | Some shift \<Rightarrow>
          (case checked 128 (10 ^ nat shift) of None \<Rightarrow> Some 0 | Some divisor \<Rightarrow>
             (let quotient = quot magnitude divisor;
                  remainder = remn magnitude divisor
              in if divisor div 2 \<le> remainder then Some (quotient + 1)
                 else Some quotient)))))"

section \<open>Parsing\<close>

datatype decimal_text = DecOk bool int int | MagnitudeOverflow

definition push_digit :: "int \<Rightarrow> char \<Rightarrow> int option" where
  "push_digit magnitude digit =
     (case checked 128 (magnitude * 10) of None \<Rightarrow> None
      | Some m \<Rightarrow> checked 128 (m + int (digit_val digit)))"

fun push_int_digits :: "int \<Rightarrow> string \<Rightarrow> int option" where
  "push_int_digits m [] = Some m"
| "push_int_digits m (b # bs) =
     (case push_digit m b of Some m' \<Rightarrow> push_int_digits m' bs | None \<Rightarrow> None)"

fun push_frac_digits :: "int \<Rightarrow> int \<Rightarrow> string \<Rightarrow> int \<times> int" where
  "push_frac_digits m scale [] = (m, scale)"
| "push_frac_digits m scale (b # bs) =
     (case push_digit m b of Some m' \<Rightarrow> push_frac_digits m' (scale + 1) bs
      | None \<Rightarrow> (m, scale))"

definition valid_decimal_parts :: "string \<Rightarrow> string \<Rightarrow> bool" where
  "valid_decimal_parts int_part frac_part =
     (case (int_part = [], frac_part = []) of
        (True, True) \<Rightarrow> False
      | (False, True) \<Rightarrow> all_digits int_part
      | (True, False) \<Rightarrow> all_digits frac_part
      | (False, False) \<Rightarrow> all_digits int_part \<and> all_digits frac_part)"

definition split_sign :: "string \<Rightarrow> bool \<times> string" where
  "split_sign trimmed =
     (case strip_prefix ''-'' trimmed of
        Some r \<Rightarrow> (True, r)
      | None \<Rightarrow> (False, case strip_prefix ''+'' trimmed of Some r \<Rightarrow> r | None \<Rightarrow> trimmed))"

definition parse_decimal_text :: "string \<Rightarrow> decimal_text res" where
  "parse_decimal_text s =
     (let (negative, rest) = split_sign (trim s);
          (int_part, frac_part) =
            (case split_once (CHR ''.'') rest of Some p \<Rightarrow> p | None \<Rightarrow> (rest, []))
      in if \<not> valid_decimal_parts int_part frac_part
         then Inl (Decode (''invalid decimal text '' @ quoted s))
         else (case push_int_digits 0 int_part of
             None \<Rightarrow> Inr MagnitudeOverflow
           | Some m0 \<Rightarrow> (let (m, scale) = push_frac_digits m0 0 frac_part
                        in Inr (DecOk negative m scale))))"

section \<open>The tally of coercions\<close>

datatype coercion = NoCoercion | DateRange | DecimalOverflow | BoolCollapse

record coercion_tally =
  tally_names :: "string list"
  tally_counts :: "nat list list"

definition SLOTS :: nat where
  "SLOTS = 4"

fun slot :: "warning_kind \<Rightarrow> nat option" where
  "slot CoercedDate = Some 0"
| "slot CoercedDecimal = Some 1"
| "slot CollapsedBool = Some 2"
| "slot CoercedScalar = Some 3"
| "slot _ = None"

definition kind_of :: "nat \<Rightarrow> warning_kind" where
  "kind_of sl = (if sl = 0 then CoercedDate else if sl = 1 then CoercedDecimal
     else if sl = 2 then CollapsedBool else CoercedScalar)"

definition new_tally :: "string list \<Rightarrow> coercion_tally" where
  "new_tally names = \<lparr>tally_names = names,
     tally_counts = replicate (length names) (replicate SLOTS 0)\<rparr>"

definition tally_record :: "nat \<Rightarrow> warning_kind \<Rightarrow> coercion_tally \<Rightarrow> coercion_tally" where
  "tally_record col kind t =
     (case slot kind of
        Some sl \<Rightarrow>
          if col < length (tally_counts t)
          then t\<lparr>tally_counts := (tally_counts t)[col :=
                 (tally_counts t ! col)[sl := Suc (tally_counts t ! col ! sl)]]\<rparr>
          else t
      | None \<Rightarrow> t)"

fun record_coercion :: "nat \<Rightarrow> coercion \<Rightarrow> coercion_tally \<Rightarrow> coercion_tally" where
  "record_coercion col NoCoercion t = t"
| "record_coercion col DateRange t = tally_record col CoercedDate t"
| "record_coercion col DecimalOverflow t = tally_record col CoercedDecimal t"
| "record_coercion col BoolCollapse t = tally_record col CollapsedBool t"

definition tally_total :: "warning_kind \<Rightarrow> coercion_tally \<Rightarrow> nat" where
  "tally_total kind t =
     (case slot kind of Some sl \<Rightarrow> sum_list (map (\<lambda>c. c ! sl) (tally_counts t)) | None \<Rightarrow> 0)"

definition tally_row_entries :: "string list \<Rightarrow> nat \<times> nat list \<Rightarrow> (warning_kind \<times> string \<times> nat) list" where
  "tally_row_entries names = (\<lambda>(i, row).
     [(kind_of sl, if i < length names then names ! i else [], n).
        (sl, n) \<leftarrow> enumerate 0 row, 0 < n])"

definition tally_entries :: "coercion_tally \<Rightarrow> (warning_kind \<times> string \<times> nat) list" where
  "tally_entries t = concat (map (tally_row_entries (tally_names t)) (enumerate 0 (tally_counts t)))"

definition tally_wf :: "coercion_tally \<Rightarrow> bool" where
  "tally_wf t \<longleftrightarrow> length (tally_counts t) = length (tally_names t)
     \<and> list_all (\<lambda>r. length r = SLOTS) (tally_counts t)"

section \<open>Rescaling is exact or correctly rounded\<close>

definition round_half_up :: "int \<Rightarrow> int \<Rightarrow> int" where
  "round_half_up n d = (2 * n + d) div (2 * d)"

lemma even_div_mod_half:
  fixes m d :: int
  assumes "0 < d" and "even d"
  shows "(if d div 2 \<le> m mod d then m div d + 1 else m div d) = round_half_up m d"
proof -
  obtain e where d: "d = 2 * e" using assms by blast
  have e: "0 < e" using assms d by simp
  let ?q = "m div d" and ?r = "m mod d"
  have r: "0 \<le> ?r" "?r < d" using assms by simp_all
  have "2 * m + d = 2 * (?q * d + ?r) + d" by (simp only: div_mult_mod_eq)
  then have eq: "2 * m + d = ?q * (2 * d) + (2 * ?r + d)" by (simp only: algebra_simps)
  have "(2 * m + d) div (2 * d) = ?q + (2 * ?r + d) div (2 * d)"
    unfolding eq using assms by simp
  moreover have "(2 * ?r + d) div (2 * d) = (if d div 2 \<le> ?r then 1 else 0)"
  proof (cases "d div 2 \<le> ?r")
    case True
    then have "(2 * ?r + d) div (2 * d) = 1"
      using d r by (intro int_div_pos_eq[where r = "2 * ?r - d"]) auto
    then show ?thesis using True by simp
  next
    case False
    then have "2 * ?r + d < 2 * d" "0 \<le> 2 * ?r + d" using d r by auto
    then show ?thesis using False by simp
  qed
  ultimately show ?thesis by (simp add: round_half_up_def)
qed

lemma ten_pow_even: "0 < k \<Longrightarrow> even ((10::int) ^ k)"
  by simp

lemma in_signed_pow_mult:
  assumes "in_signed w ((m::int) * 10 ^ k)" and "0 < m"
  shows "in_signed w (10 ^ k)"
proof -
  have "(10::int) ^ k \<le> m * 10 ^ k" using assms mult_right_mono[of 1 m "10 ^ k"] by simp
  moreover have "- (2 ^ (w - 1)) \<le> (10::int) ^ k"
    by (rule order_trans[of _ 0]) simp_all
  ultimately show ?thesis using assms unfolding in_signed_def by (blast intro: le_less_trans)
qed

lemma rescale_widen:
  assumes "0 \<le> m" and "in_signed 32 (t - f)" and "f \<le> t"
  shows "rescale_mantissa m f t = checked 128 (m * 10 ^ nat (t - f))"
proof (cases "m = 0")
  case True
  then show ?thesis by (simp add: rescale_mantissa_def checked_def in_signed_def)
next
  case False
  then show ?thesis using assms in_signed_pow_mult[of 128 m "nat (t - f)"]
    by (auto simp: rescale_mantissa_def checked_def)
qed

lemma rescale_narrow:
  assumes "0 \<le> m" and "m < 2 ^ 127" and "in_signed 32 (f - t)" and "t < f"
  shows "rescale_mantissa m f t = Some (round_half_up m (10 ^ nat (f - t)))"
proof -
  let ?d = "(10::int) ^ nat (f - t)"
  have diff: "in_signed 32 (t - f)" using assms by (auto simp: in_signed_def)
  have d: "0 < ?d" "even ?d" using assms by auto
  consider "m = 0" | "m \<noteq> 0" "in_signed 128 ?d" | "m \<noteq> 0" "\<not> in_signed 128 ?d" by blast
  then show ?thesis
  proof cases
    case 1
    then show ?thesis using d by (simp add: rescale_mantissa_def round_half_up_def)
  next
    case 2
    then have "rescale_mantissa m f t =
      (if ?d div 2 \<le> m mod ?d then Some (m div ?d + 1) else Some (m div ?d))"
      using assms diff d
      by (simp add: rescale_mantissa_def checked_def quot_nonneg remn_nonneg Let_def)
    then show ?thesis using even_div_mod_half[OF d, of m] by (auto split: if_splits)
  next
    case 3
    then have big: "2 ^ 127 \<le> ?d" using d by (auto simp: in_signed_def)
    have "39 \<le> nat (f - t)"
    proof (rule ccontr)
      assume "\<not> 39 \<le> nat (f - t)"
      then have "?d \<le> 10 ^ 38" by (intro power_increasing) auto
      also have "(10::int) ^ 38 < 2 ^ 127" by simp
      finally show False using big by simp
    qed
    then have "(10::int) ^ 39 \<le> ?d" by (intro power_increasing) auto
    moreover have "(2::int) * 2 ^ 127 < 10 ^ 39" by simp
    ultimately have "2 * m < ?d" using assms by linarith
    then have "round_half_up m ?d = 0" using assms d by (simp add: round_half_up_def)
    then show ?thesis using 3 assms diff by (simp add: rescale_mantissa_def checked_def)
  qed
qed

section \<open>Reading decimal text\<close>

lemma push_digit_eq:
  assumes "is_digit b" and "0 \<le> m"
  shows "push_digit m b = checked 128 (10 * m + int (digit_val b))"
  using assms by (auto simp: push_digit_def checked_def in_signed_def)

lemma read_nat_from_mono: "a \<le> read_nat_from a s"
  by (subst read_nat_from_scale) (simp add: trans_le_add1)

lemma push_int_digits_eq:
  assumes "all_digits s" and "int n < 2 ^ 127"
  shows "push_int_digits (int n) s = checked 128 (int (read_nat_from n s))"
  using assms
proof (induction s arbitrary: n)
  case Nil
  then show ?case by (simp add: checked_def in_signed_def)
next
  case (Cons b bs)
  let ?n = "10 * n + digit_val b"
  have pd: "push_digit (int n) b = checked 128 (int ?n)" using Cons.prems by (simp add: push_digit_eq)
  show ?case
  proof (cases "int ?n < 2 ^ 127")
    case True
    then have "checked 128 (int ?n) = Some (int ?n)" by (simp add: checked_def in_signed_def)
    then show ?thesis using Cons.IH[of ?n] Cons.prems True by (simp add: pd)
  next
    case False
    then have "int (read_nat_from ?n bs) \<ge> 2 ^ 127"
      using read_nat_from_mono[of ?n bs] by linarith
    then show ?thesis using False by (simp add: pd checked_def in_signed_def)
  qed
qed

lemma push_frac_digits_eq:
  assumes "all_digits s" and "int n < 2 ^ 127"
  shows "\<exists>k \<le> length s. push_frac_digits (int n) c s = (int (read_nat_from n (take k s)), c + int k)
      \<and> int (read_nat_from n (take k s)) < 2 ^ 127
      \<and> (k < length s \<longrightarrow> 2 ^ 127 \<le> int (read_nat_from n (take (Suc k) s)))"
  using assms
proof (induction s arbitrary: n c)
  case Nil
  then show ?case by simp
next
  case (Cons b bs)
  let ?n = "10 * n + digit_val b"
  have pd: "push_digit (int n) b = checked 128 (int ?n)" using Cons.prems by (simp add: push_digit_eq)
  show ?case
  proof (cases "int ?n < 2 ^ 127")
    case True
    then have "checked 128 (int ?n) = Some (int ?n)" by (simp add: checked_def in_signed_def)
    moreover obtain k where "k \<le> length bs"
      "push_frac_digits (int ?n) (c + 1) bs = (int (read_nat_from ?n (take k bs)), c + 1 + int k)"
      "int (read_nat_from ?n (take k bs)) < 2 ^ 127"
      "k < length bs \<longrightarrow> 2 ^ 127 \<le> int (read_nat_from ?n (take (Suc k) bs))"
      using Cons.IH[of ?n "c + 1"] Cons.prems True by auto
    ultimately show ?thesis by (intro exI[of _ "Suc k"]) (simp add: pd)
  next
    case False
    then have "push_frac_digits (int n) c (b # bs) = (int n, c)"
      by (simp add: pd checked_def in_signed_def)
    then show ?thesis using False Cons.prems by (intro exI[of _ 0]) simp
  qed
qed

text \<open>The decimal text with a sign, integer digits and fractional digits.\<close>

definition decimal_text_of :: "bool \<Rightarrow> string \<Rightarrow> string \<Rightarrow> string" where
  "decimal_text_of neg i f = (if neg then ''-'' else '''') @ i @ (if f = [] then '''' else ''.'' @ f)"

lemma digits_no: "all_digits s \<Longrightarrow> \<not> is_digit c \<Longrightarrow> c \<notin> set s"
  by (auto simp: list_all_iff)

lemma sign_chars: "\<not> is_digit CHR ''.''" "\<not> is_digit CHR ''-''" "\<not> is_digit CHR ''+''"
  "\<not> is_ws CHR ''.''" "\<not> is_ws CHR ''-''"
  by (auto simp: is_digit_def is_ws_def code_def)

lemma trim_decimal_text:
  "all_digits i \<Longrightarrow> all_digits f \<Longrightarrow> trim (decimal_text_of neg i f) = decimal_text_of neg i f"
  by (rule trim_no_ws) (auto simp: decimal_text_of_def list_all_iff sign_chars is_digit_not_ws)

lemma split_sign_decimal_text:
  assumes "all_digits i" and "all_digits f"
  shows "split_sign (decimal_text_of neg i f) = (neg, i @ (if f = [] then '''' else ''.'' @ f))"
proof (cases neg)
  case True
  then show ?thesis by (simp add: split_sign_def decimal_text_of_def strip_prefix_def)
next
  case False
  let ?r = "i @ (if f = [] then '''' else ''.'' @ f)"
  have "CHR ''-'' \<noteq> c" "CHR ''+'' \<noteq> c" if "?r = c # t" for c t
    using that assms sign_chars by (cases i; cases f; fastforce)+
  then show ?thesis using False
    by (cases ?r) (auto simp: split_sign_def decimal_text_of_def strip_prefix_def split: if_splits)
qed

lemma parse_decimal_text_eq:
  assumes "all_digits i" and "all_digits f" and "i \<noteq> [] \<or> f \<noteq> []"
  shows "parse_decimal_text (decimal_text_of neg i f) =
    (case push_int_digits 0 i of None \<Rightarrow> Inr MagnitudeOverflow
     | Some m0 \<Rightarrow> (let (m, scale) = push_frac_digits m0 0 f in Inr (DecOk neg m scale)))"
proof -
  have so: "(case split_once CHR ''.'' (i @ (if f = [] then '''' else ''.'' @ f)) of
      Some p \<Rightarrow> p | None \<Rightarrow> (i @ (if f = [] then '''' else ''.'' @ f), [])) = (i, f)"
  proof (cases "f = []")
    case True
    then have "split_once CHR ''.'' i = None"
      using digits_no[OF assms(1) sign_chars(1)] by (simp add: split_once_None)
    then show ?thesis using True by simp
  next
    case False
    then have "split_once CHR ''.'' (i @ ''.'' @ f) = Some (i, f)"
      using digits_no[OF assms(1) sign_chars(1)] by (simp add: split_once_Some)
    then show ?thesis using False by simp
  qed
  have "valid_decimal_parts i f" using assms by (auto simp: valid_decimal_parts_def split: bool.splits)
  then show ?thesis
    unfolding parse_decimal_text_def trim_decimal_text[OF assms(1,2)]
      split_sign_decimal_text[OF assms(1,2)] Let_def prod.case so
    by simp
qed

lemma parse_decimal_text_cases:
  assumes "all_digits i" and "all_digits f" and "i \<noteq> [] \<or> f \<noteq> []"
  shows "if int (read_nat i) < 2 ^ 127
    then \<exists>k \<le> length f. parse_decimal_text (decimal_text_of neg i f)
           = Inr (DecOk neg (int (read_nat (i @ take k f))) (int k))
         \<and> int (read_nat (i @ take k f)) < 2 ^ 127
         \<and> (k < length f \<longrightarrow> 2 ^ 127 \<le> int (read_nat (i @ take (Suc k) f)))
    else parse_decimal_text (decimal_text_of neg i f) = Inr MagnitudeOverflow"
proof (cases "int (read_nat i) < 2 ^ 127")
  case True
  then have "push_int_digits 0 i = Some (int (read_nat i))"
    using push_int_digits_eq[OF assms(1), of 0] by (simp add: checked_def in_signed_def)
  then show ?thesis
    using True push_frac_digits_eq[OF assms(2) True, of 0] parse_decimal_text_eq[OF assms, of neg]
    by auto
next
  case False
  then have "push_int_digits 0 i = None"
    using push_int_digits_eq[OF assms(1), of 0] by (simp add: checked_def in_signed_def)
  then show ?thesis using False parse_decimal_text_eq[OF assms, of neg] by simp
qed

text \<open>Dropping a tail of digits does not move a rounding decision above the last kept digit.\<close>

lemma int_div_less_mult:
  assumes "0 < e" and "a < c * e" shows "a div e < (c::int)"
proof (rule ccontr)
  assume "\<not> a div e < c"
  then have "c * e \<le> (a div e) * e" using assms by (intro mult_right_mono) auto
  moreover have "(a div e) * e + a mod e = a" by simp
  moreover have "0 \<le> a mod e" using assms by simp
  ultimately show False using assms by linarith
qed

lemma round_half_up_tail:
  fixes m d e r :: int
  assumes "even d" and "0 < d" and "0 \<le> r" and "r < e"
  shows "round_half_up (m * e + r) (d * e) = round_half_up m d"
proof -
  have e: "0 < e" using assms by simp
  have eq: "2 * (m * e + r) + d * e = (2 * m + d) * e + 2 * r" by (simp add: algebra_simps)
  have 1: "(2 * (m * e + r) + d * e) div e = 2 * m + d + (2 * r) div e"
    unfolding eq using e by simp
  have x: "0 \<le> (2 * r) div e" "(2 * r) div e \<le> 1"
    using assms e int_div_less_mult[of e "2 * r" 2] by (auto simp: pos_imp_zdiv_nonneg_iff)
  obtain h where h: "d = 2 * h" using assms by blast
  have 2: "(2 * m + d + (2 * r) div e) div 2 = m + h" using h x by auto
  have "(2 * (m * e + r) + d * e) div (2 * (d * e)) = ((2 * m + d + (2 * r) div e) div 2) div d"
  proof -
    have "2 * (d * e) = (e * 2) * d" by simp
    then show ?thesis unfolding 1[symmetric] using e assms by (simp only: zdiv_zmult2_eq)
  qed
  moreover have "(2 * m + d) div (2 * d) = ((2 * m + d) div 2) div d"
    using assms by (simp add: zdiv_zmult2_eq)
  moreover have "(2 * m + d) div 2 = m + h" using h by auto
  ultimately show ?thesis by (simp add: round_half_up_def 2)
qed

lemma read_nat_take_drop:
  assumes "all_digits f" and "k \<le> length f"
  shows "\<exists>r < 10 ^ (length f - k).
    read_nat (i @ f) = read_nat (i @ take k f) * 10 ^ (length f - k) + r"
proof (intro exI conjI)
  have "all_digits (drop k f)" using assms by (auto simp: list_all_iff dest: in_set_dropD)
  then show "read_nat (drop k f) < 10 ^ (length f - k)" using read_nat_less[of "drop k f"] by simp
  have "read_nat (i @ f) = read_nat_from (read_nat (i @ take k f)) (drop k f)"
    by (metis append.assoc append_take_drop_id read_nat_from_append)
  then show "read_nat (i @ f) = read_nat (i @ take k f) * 10 ^ (length f - k) + read_nat (drop k f)"
    using read_nat_from_scale[of "read_nat (i @ take k f)" "drop k f"] by simp
qed

lemma read_nat_take_le: "read_nat (i @ take k f) \<le> read_nat (i @ f)"
proof -
  have "i @ f = (i @ take k f) @ drop k f" by simp
  then show ?thesis using read_nat_from_mono[of "read_nat (i @ take k f)" "drop k f"]
    by (simp only: read_nat_from_append)
qed

lemma text_round_narrow:
  assumes "all_digits i" and "all_digits f" and "i \<noteq> [] \<or> f \<noteq> []"
    and "length f < 2 ^ 31"
    and p: "parse_decimal_text (decimal_text_of neg i f) = Inr (DecOk neg' m k)"
    and "t < k" and "- (2 ^ 31) < t - int (length f)"
  shows "neg' = neg \<and> rescale_mantissa m k t
     = Some (round_half_up (int (read_nat (i @ f))) (10 ^ nat (int (length f) - t)))"
proof -
  obtain j where j: "j \<le> length f" "m = int (read_nat (i @ take j f))" "k = int j" "neg' = neg"
     "m < 2 ^ 127"
    using parse_decimal_text_cases[OF assms(1-3), of neg] p by (auto split: if_splits)
  obtain r where r: "r < 10 ^ (length f - j)"
    "read_nat (i @ f) = read_nat (i @ take j f) * 10 ^ (length f - j) + r"
    using read_nat_take_drop[OF assms(2) j(1)] by blast
  let ?e = "(10::int) ^ (length f - j)" and ?d = "(10::int) ^ nat (k - t)"
  have n: "int (read_nat (i @ f)) = m * ?e + int r" using r j by simp
  have re: "int r < ?e" using r(1) by (metis of_nat_less_iff of_nat_numeral of_nat_power)
  have "nat (int (length f) - t) = nat (k - t) + (length f - j)" using j assms by auto
  then have D: "(10::int) ^ nat (int (length f) - t) = ?d * ?e" by (simp add: power_add)
  have "rescale_mantissa m k t = Some (round_half_up m ?d)"
    using j assms by (intro rescale_narrow) (auto simp: in_signed_def)
  also have "round_half_up m ?d = round_half_up (int (read_nat (i @ f))) (?d * ?e)"
    unfolding n using assms re by (intro round_half_up_tail[symmetric]) auto
  finally show ?thesis using D j by simp
qed

lemma parse_decimal_text_fits:
  assumes "all_digits i" and "all_digits f" and "i \<noteq> [] \<or> f \<noteq> []"
    and v: "int (read_nat (i @ f)) < 2 ^ 127"
  shows "parse_decimal_text (decimal_text_of neg i f)
    = Inr (DecOk neg (int (read_nat (i @ f))) (int (length f)))"
proof -
  have "int (read_nat i) < 2 ^ 127" using v read_nat_take_le[of i 0 f] by simp
  then obtain k where k: "k \<le> length f"
      "parse_decimal_text (decimal_text_of neg i f)
        = Inr (DecOk neg (int (read_nat (i @ take k f))) (int k))"
      "k < length f \<longrightarrow> 2 ^ 127 \<le> int (read_nat (i @ take (Suc k) f))"
    using parse_decimal_text_cases[OF assms(1-3), of neg] by auto
  have "k = length f" using k(1,3) v read_nat_take_le[of i "Suc k" f] by (cases "k = length f") auto
  then show ?thesis using k(2) by simp
qed

text \<open>The text of a mantissa at any scale: its digits, with a point before the last \<open>s\<close> of them or
  \<open>- s\<close> zeros after them.\<close>

lemma decimal128_text:
  obtains i f where "decimal128_to_string v s = decimal_text_of (v < 0) i f"
    "all_digits i" "all_digits f" "i \<noteq> []" "length f = nat s"
    "read_nat (i @ f) = nat \<bar>v\<bar> * 10 ^ nat (- s)"
proof -
  let ?ds = "show_nat (nat \<bar>v\<bar>)" and ?n = "nat s"
  let ?i = "if s \<le> 0 then ?ds @ zeros (nat (- s)) else if length ?ds > ?n then take (length ?ds - ?n) ?ds else ''0''"
  let ?f = "if s \<le> 0 then [] else if length ?ds > ?n then drop (length ?ds - ?n) ?ds
            else zeros (?n - length ?ds) @ ?ds"
  have z0: "''0'' = [digit_char 0]" by code_simp
  have dig: "all_digits ?i" "all_digits ?f"
    using all_digits_show_nat[of "nat \<bar>v\<bar>"]
    by (auto simp: list_all_iff zeros_def z0 dest: in_set_takeD in_set_dropD)
  have ne: "?i \<noteq> []" by auto
  have tx: "decimal128_to_string v s = decimal_text_of (v < 0) ?i ?f"
    by (auto simp: decimal128_to_string_def decimal_text_of_def Let_def zeros_def)
  have len: "length ?f = ?n" by (auto simp: zeros_def)
  have rd: "read_nat (?i @ ?f) = nat \<bar>v\<bar> * 10 ^ nat (- s)"
  proof (cases "s \<le> 0")
    case True
    then show ?thesis by (simp add: zeros_def read_nat_from_append read_show_nat)
  next
    case False
    have "read_nat (?i @ ?f) = nat \<bar>v\<bar>"
    proof (cases "length ?ds > ?n")
      case True
      then have "?i @ ?f = ?ds" using False by auto
      then show ?thesis by (simp only: read_show_nat)
    next
      case short: False
      then have "?i @ ?f = replicate (Suc (?n - length ?ds)) (digit_char 0) @ ?ds"
        using False by (auto simp: z0 zeros_def)
      then show ?thesis by (simp only: read_nat_from_append read_nat_zeros) simp
    qed
    then show ?thesis using False by simp
  qed
  show ?thesis by (rule that[OF tx dig ne len rd])
qed

lemma parse_decimal128_to_string:
  assumes "\<bar>v\<bar> * 10 ^ nat (- s) < 2 ^ 127"
  shows "parse_decimal_text (decimal128_to_string v s) = Inr (DecOk (v < 0) (\<bar>v\<bar> * 10 ^ nat (- s)) (max s 0))"
proof (rule decimal128_text[of v s])
  fix i f
  assume tx: "decimal128_to_string v s = decimal_text_of (v < 0) i f" "all_digits i" "all_digits f" "i \<noteq> []"
    "length f = nat s" "read_nat (i @ f) = nat \<bar>v\<bar> * 10 ^ nat (- s)"
  have r: "int (read_nat (i @ f)) = \<bar>v\<bar> * 10 ^ nat (- s)" unfolding tx(6) by simp
  show ?thesis
    using parse_decimal_text_fits[OF tx(2,3) disjI1[OF tx(4)], of "v < 0"] assms r tx(1,5) by (simp add: max_def)
qed

section \<open>Properties of the conversions\<close>

text \<open>C1. Rescaling a non-negative mantissa between scales less than \<open>2 ^ 31\<close> apart is exact
  when it widens, with overflow of the \<open>i128\<close> reported as \<open>None\<close> (and only then), and
  rounds half away from zero when it narrows, also where the divisor itself
  does not fit in an \<open>i128\<close>.\<close>

theorem rescale_mantissa_correct:
  assumes "0 \<le> m" and "m < 2 ^ 127" and "- (2 ^ 31) < t - f" and "t - f < 2 ^ 31"
  shows "rescale_mantissa m f t =
    (if f \<le> t
     then (if m * 10 ^ nat (t - f) < 2 ^ 127 then Some (m * 10 ^ nat (t - f)) else None)
     else Some ((2 * m + 10 ^ nat (f - t)) div (2 * 10 ^ nat (f - t))))"
proof (cases "f \<le> t")
  case True
  moreover have "- (2 ^ 127) \<le> m * 10 ^ nat (t - f)"
    by (rule order_trans[of _ 0]) (use assms in simp_all)
  ultimately show ?thesis
    using rescale_widen[of m t f] assms by (simp add: in_signed_def checked_def)
next
  case False
  then show ?thesis
    using rescale_narrow[of m f t] assms by (simp add: in_signed_def round_half_up_def)
qed

theorem rescale_mantissa_correct_witness:
  "rescale_mantissa 25 1 0 = Some 3 \<and> rescale_mantissa 24 1 0 = Some 2
     \<and> rescale_mantissa 123 0 2 = Some 12300 \<and> rescale_mantissa 1 0 40 = None"
  using rescale_mantissa_correct[of 25 0 1] rescale_mantissa_correct[of 24 0 1]
    rescale_mantissa_correct[of 123 2 0] rescale_mantissa_correct[of 1 40 0]
  by simp



text \<open>C3. Reading decimal text keeps as many fractional digits as an \<open>i128\<close> holds; rescaling
  what was kept to a scale below the kept one gives the exact rounding of the
  whole text, whatever tail of digits was dropped.\<close>

theorem decimal_text_rounds_exactly:
  assumes "all_digits i" and "all_digits f" and "i \<noteq> [] \<or> f \<noteq> []" and "length f < 2 ^ 31"
    and "parse_decimal_text (decimal_text_of neg i f) = Inr (DecOk neg' m k)"
    and "t < k" and "- (2 ^ 31) < t - int (length f)"
  shows "neg' = neg \<and> rescale_mantissa m k t =
    Some ((2 * int (read_nat (i @ f)) + 10 ^ nat (int (length f) - t))
          div (2 * 10 ^ nat (int (length f) - t)))"
  using text_round_narrow[OF assms] by (simp add: round_half_up_def)

theorem decimal_text_rounds_exactly_witness:
  "rescale_mantissa 1129 3 2 = Some 113"
proof -
  have "parse_decimal_text (decimal_text_of False ''1'' ''129'') = Inr (DecOk False 1129 3)"
    by code_simp
  from decimal_text_rounds_exactly[OF _ _ _ _ this, of 2] show ?thesis
    by (simp add: is_digit_def code_def digit_val_def)
qed

text \<open>At the kept scale itself nothing is rounded: a 36-digit integer with \<open>.009\<close> keeps two
  fractional digits, so at scale 2 it comes out truncated, one unit below its
  correct rounding.\<close>

lemma text_truncates_at_kept_scale:
  "parse_decimal_text (''2'' @ replicate 35 CHR ''0'' @ ''.009'')
     = Inr (DecOk False (2 * 10 ^ 37) 2)
   \<and> rescale_mantissa (2 * 10 ^ 37) 2 2 = Some (2 * 10 ^ 37)
   \<and> (2 * (2 * 10 ^ 38 + 9) + 10) div (2 * 10) = (2 * 10 ^ 37 + 1 :: int)"
proof (intro conjI)
  show "parse_decimal_text (''2'' @ replicate 35 CHR ''0'' @ ''.009'')
     = Inr (DecOk False (2 * 10 ^ 37) 2)" by code_simp
qed (simp_all add: rescale_widen in_signed_def checked_def)

section \<open>Properties of the tally\<close>

fun coercion_kind :: "coercion \<Rightarrow> warning_kind option" where
  "coercion_kind NoCoercion = None"
| "coercion_kind DateRange = Some CoercedDate"
| "coercion_kind DecimalOverflow = Some CoercedDecimal"
| "coercion_kind BoolCollapse = Some CollapsedBool"

definition tally_events :: "string list \<Rightarrow> (nat \<times> coercion) list \<Rightarrow> coercion_tally" where
  "tally_events names evs = fold (\<lambda>(c, e). record_coercion c e) evs (new_tally names)"

lemma slot_less: "slot k = Some sl \<Longrightarrow> sl < SLOTS"
  by (cases k) (auto simp: SLOTS_def)

lemma kind_of_slot: "slot k = Some sl \<Longrightarrow> kind_of sl = k"
  by (cases k) (auto simp: kind_of_def)

lemma slot_kind_of: "sl < SLOTS \<Longrightarrow> slot (kind_of sl) = Some sl"
  by (auto simp: SLOTS_def kind_of_def)

lemma tally_record_wf: "tally_wf t \<Longrightarrow> tally_wf (tally_record c k t)"
  by (auto simp: tally_wf_def tally_record_def list_all_length nth_list_update split: option.splits)

lemma record_coercion_wf: "tally_wf t \<Longrightarrow> tally_wf (record_coercion c e t)"
  by (cases e) (auto simp: tally_record_wf)

lemma new_tally_wf: "tally_wf (new_tally names)"
  by (simp add: tally_wf_def new_tally_def list_all_iff)

lemma sum_list_update_Suc:
  "i < length xs \<Longrightarrow> f y = Suc (f (xs ! i)) \<Longrightarrow>
     sum_list (map f (xs[i := y])) = Suc (sum_list (map f xs))"
  by (induction xs arbitrary: i) (auto split: nat.splits)

lemma tally_total_record:
  assumes "tally_wf t"
  shows "tally_total k (tally_record c k' t) =
    tally_total k t + (if k = k' \<and> slot k \<noteq> None \<and> c < length (tally_counts t) then 1 else 0)"
proof (cases "slot k'")
  case None
  then show ?thesis by (auto simp: tally_record_def)
next
  case (Some sl)
  show ?thesis
  proof (cases "c < length (tally_counts t)")
    case False
    then show ?thesis by (auto simp: tally_record_def split: option.splits)
  next
    case c: True
    then have len: "length (tally_counts t ! c) = SLOTS"
      using assms by (auto simp: tally_wf_def list_all_length)
    show ?thesis
    proof (cases "k = k'")
      case True
      then show ?thesis
        using Some c len slot_less[OF Some] by (simp add: tally_record_def tally_total_def sum_list_update_Suc)
    next
      case False
      then have "slot k \<noteq> Some sl" using Some kind_of_slot by metis
      then have "map (\<lambda>r. r ! s) ((tally_counts t)[c := (tally_counts t ! c)[sl := Suc (tally_counts t ! c ! sl)]])
          = map (\<lambda>r. r ! s) (tally_counts t)" if "slot k = Some s" for s
        using that c by (intro nth_equalityI) (auto simp: nth_list_update)
      then show ?thesis using False Some c by (auto simp: tally_record_def tally_total_def split: option.splits)
    qed
  qed
qed

lemma record_coercion_length [simp]:
  "length (tally_counts (record_coercion c e t)) = length (tally_counts t)"
  by (cases e) (auto simp: tally_record_def split: option.splits)

lemma tally_total_coercion:
  "tally_wf t \<Longrightarrow> tally_total k (record_coercion c e t) =
    tally_total k t + (if coercion_kind e = Some k \<and> c < length (tally_counts t) then 1 else 0)"
  by (cases e) (auto simp: tally_total_record)

lemma tally_fold:
  "tally_wf t \<Longrightarrow>
    tally_wf (fold (\<lambda>(c, e). record_coercion c e) evs t)
    \<and> tally_total k (fold (\<lambda>(c, e). record_coercion c e) evs t) = tally_total k t
        + length (filter (\<lambda>(c, e). coercion_kind e = Some k \<and> c < length (tally_counts t)) evs)"
proof (induction evs arbitrary: t)
  case (Cons x evs)
  obtain c e where x: "x = (c, e)" by (cases x)
  show ?case
    using Cons.IH[OF record_coercion_wf[OF Cons.prems]] tally_total_coercion[OF Cons.prems, of k c e]
    by (simp add: x)
qed simp

definition entry_count :: "warning_kind \<Rightarrow> (warning_kind \<times> string \<times> nat) list \<Rightarrow> nat" where
  "entry_count k es = sum_list (map (\<lambda>(k', _, n). if k' = k then n else 0) es)"

lemma entry_count_row:
  assumes "length row = SLOTS"
  shows "entry_count k (tally_row_entries names (i, row))
     = (case slot k of Some sl \<Rightarrow> row ! sl | None \<Rightarrow> 0)"
proof -
  obtain a b c d where "row = [a, b, c, d]"
    using assms by (auto simp: SLOTS_def numeral_eq_Suc length_Suc_conv)
  then show ?thesis
    by (cases k) (auto simp: entry_count_def tally_row_entries_def kind_of_def)
qed

lemma entry_count_append [simp]: "entry_count k (xs @ ys) = entry_count k xs + entry_count k ys"
  by (simp add: entry_count_def)

lemma entry_count_rows:
  "list_all (\<lambda>r. length r = SLOTS) rows \<Longrightarrow>
    entry_count k (concat (map (tally_row_entries names) (enumerate j rows)))
      = (case slot k of Some sl \<Rightarrow> sum_list (map (\<lambda>c. c ! sl) rows) | None \<Rightarrow> 0)"
proof (induction rows arbitrary: j)
  case Nil
  then show ?case by (simp add: entry_count_def split: option.splits)
next
  case (Cons r rows)
  then show ?case by (auto simp: entry_count_row split: option.splits)
qed

text \<open>The tally counts every coercion of an existing column once, under its kind, ignores
  an index out of range, and its entries add up to the totals, kind by kind.\<close>

theorem coercion_tally_counts:
  "tally_total k (tally_events names evs)
     = length (filter (\<lambda>(c, e). coercion_kind e = Some k \<and> c < length names) evs)
   \<and> entry_count k (tally_entries (tally_events names evs)) = tally_total k (tally_events names evs)"
proof -
  have wf: "tally_wf (tally_events names evs)"
    using tally_fold[OF new_tally_wf] by (simp add: tally_events_def)
  have "tally_total k (new_tally names) = 0"
    by (auto simp: tally_total_def new_tally_def sum_list_replicate SLOTS_def dest!: slot_less split: option.splits)
  moreover have "length (tally_counts (new_tally names)) = length names" by (simp add: new_tally_def)
  ultimately have "tally_total k (tally_events names evs)
     = length (filter (\<lambda>(c, e). coercion_kind e = Some k \<and> c < length names) evs)"
    using tally_fold[OF new_tally_wf, where k = k and names1 = names and evs = evs] by (simp add: tally_events_def)
  moreover have "entry_count k (tally_entries (tally_events names evs)) = tally_total k (tally_events names evs)"
    using wf by (simp add: tally_entries_def entry_count_rows tally_wf_def tally_total_def)
  ultimately show ?thesis by simp
qed

end
