(* ===== verification/QH_Memory.thy ===== *)
theory QH_Memory
  imports QH_Prelude
begin

text \<open>
  \<open>memory.rs\<close>: the process-wide ceiling on in-flight batch memory, one semaphore
  permit per byte.  tokio's semaphore is the number of free permits: acquiring
  \<open>n\<close> takes them when at least \<open>n\<close> are free, dropping a permit gives its own
  back.  \<open>reserve\<close> waits, which in the model is a step that is not enabled yet.
  The locale \<open>permit_pool\<close> is the contract the insert buffer relies on.
\<close>

section \<open>The contract of a pool of permits\<close>

locale permit_pool =
  fixes acquire :: "nat \<Rightarrow> 's \<Rightarrow> ('s \<times> 'r) option"
    and release :: "'r \<Rightarrow> 's \<Rightarrow> 's"
    and free :: "'s \<Rightarrow> nat"
    and held :: "'r \<Rightarrow> nat"
  assumes acquire_free: "acquire n s = Some (s', r) \<Longrightarrow> free s = free s' + held r"
    and release_free: "free (release r s) = free s + held r"
begin

lemma acquire_le: "acquire n s = Some (s', r) \<Longrightarrow> held r \<le> free s"
  using acquire_free by simp

lemma acquire_release: "acquire n s = Some (s', r) \<Longrightarrow> free (release r s') = free s"
  by (simp add: acquire_free release_free)

lemma release_all: "free (fold release rs s) = free s + sum_list (map held rs)"
  by (induction rs arbitrary: s) (auto simp: release_free)

end

section \<open>The budget\<close>

record memory_budget =
  mb_sem :: "nat option"
  mb_total :: nat

type_synonym reservation = "nat option"

definition MAX_PERMITS :: nat where
  "MAX_PERMITS = 2 ^ 32 - 1"

definition SEM_MAX_PERMITS :: nat where
  "SEM_MAX_PERMITS = (2 ^ 64 - 1) div 8"

definition budget_new :: "nat \<Rightarrow> memory_budget" where
  "budget_new max_bytes =
     \<lparr>mb_sem = (if max_bytes = 0 then None else Some (min max_bytes SEM_MAX_PERMITS)),
      mb_total = max_bytes\<rparr>"

definition is_bounded :: "memory_budget \<Rightarrow> bool" where
  "is_bounded b \<longleftrightarrow> mb_sem b \<noteq> None"

definition want :: "memory_budget \<Rightarrow> nat \<Rightarrow> nat" where
  "want b n_bytes = max (min (min n_bytes (mb_total b)) MAX_PERMITS) 1"

definition try_reserve :: "nat \<Rightarrow> memory_budget \<Rightarrow> (memory_budget \<times> reservation) option" where
  "try_reserve n_bytes b =
     (case mb_sem b of
        None \<Rightarrow> Some (b, None)
      | Some available \<Rightarrow>
          if want b n_bytes \<le> available
          then Some (b\<lparr>mb_sem := Some (available - want b n_bytes)\<rparr>, Some (want b n_bytes))
          else None)"

definition drop_reservation :: "reservation \<Rightarrow> memory_budget \<Rightarrow> memory_budget" where
  "drop_reservation r b =
     (case (mb_sem b, r) of
        (Some available, Some n) \<Rightarrow> b\<lparr>mb_sem := Some (available + n)\<rparr>
      | _ \<Rightarrow> b)"

definition available :: "memory_budget \<Rightarrow> nat" where
  "available b = (case mb_sem b of None \<Rightarrow> 0 | Some n \<Rightarrow> n)"

definition permits :: "reservation \<Rightarrow> nat" where
  "permits r = (case r of None \<Rightarrow> 0 | Some n \<Rightarrow> n)"

text \<open>A budget and the reservations its tasks hold, each with the size of the batch it was made for.
  \<open>reserve\<close> completes, in any order tokio wakes the waiters, when the permits it wants are free.\<close>

type_synonym in_flight = "(nat \<times> reservation) list"

inductive budget_step :: "memory_budget \<times> in_flight \<Rightarrow> memory_budget \<times> in_flight \<Rightarrow> bool" where
  reserve: "try_reserve n_bytes b = Some (b', r) \<Longrightarrow> budget_step (b, rs) (b', (n_bytes, r) # rs)"
| drop: "budget_step (b, rs @ (n_bytes, r) # rs') (drop_reservation r b, rs @ rs')"

inductive budget_reach :: "nat \<Rightarrow> memory_budget \<times> in_flight \<Rightarrow> bool" for max_bytes where
  start: "budget_reach max_bytes (budget_new max_bytes, [])"
| step: "budget_reach max_bytes s \<Longrightarrow> budget_step s s' \<Longrightarrow> budget_reach max_bytes s'"

inductive_cases budget_stepE: "budget_step (b, rs) s'"

section \<open>The budget meets the contract while it is bounded\<close>

definition drop_bounded :: "reservation \<Rightarrow> memory_budget \<Rightarrow> memory_budget" where
  "drop_bounded r b = b\<lparr>mb_sem := Some (available b + permits r)\<rparr>"

interpretation pool: permit_pool try_reserve drop_bounded available permits
  by unfold_locales
    (auto simp: try_reserve_def available_def permits_def drop_bounded_def split: option.splits if_splits)

lemma drop_is_bounded_drop: "is_bounded b \<Longrightarrow> r \<noteq> None \<Longrightarrow> drop_reservation r b = drop_bounded r b"
  by (auto simp: drop_reservation_def drop_bounded_def is_bounded_def available_def permits_def)

lemma try_reserve_total: "try_reserve n b = Some (b', r) \<Longrightarrow> mb_total b' = mb_total b"
  by (auto simp: try_reserve_def split: option.splits if_splits)

lemma try_reserve_bounded:
  "try_reserve n b = Some (b', r) \<Longrightarrow> is_bounded b' = is_bounded b \<and> (r = None) = (\<not> is_bounded b)"
  by (auto simp: try_reserve_def is_bounded_def split: option.splits if_splits)

lemma drop_total [simp]: "mb_total (drop_reservation r b) = mb_total b"
  by (auto simp: drop_reservation_def split: option.splits)

definition permits_held :: "in_flight \<Rightarrow> nat" where
  "permits_held rs = sum_list (map (permits \<circ> snd) rs)"

definition bytes_in_flight :: "in_flight \<Rightarrow> nat" where
  "bytes_in_flight rs = sum_list (map fst rs)"

lemma permits_held_simps [simp]:
  "permits_held [] = 0" "permits_held (x # rs) = permits (snd x) + permits_held rs"
  "permits_held (rs @ rs') = permits_held rs + permits_held rs'"
  by (simp_all add: permits_held_def)

lemma try_reserve_permits:
  "try_reserve n b = Some (b', r) \<Longrightarrow> is_bounded b \<Longrightarrow> permits r = want b n"
  by (auto simp: try_reserve_def is_bounded_def permits_def split: option.splits if_splits)

lemma budget_invariant:
  assumes "budget_reach m s" and "0 < m"
  shows "mb_total (fst s) = m \<and> is_bounded (fst s) \<and> (\<forall>(n, r) \<in> set (snd s). r \<noteq> None \<and> permits r = want (budget_new m) n)
     \<and> available (fst s) + permits_held (snd s) = min m SEM_MAX_PERMITS"
  using assms
proof (induction rule: budget_reach.induct)
  case start
  then show ?case by (simp add: budget_new_def is_bounded_def available_def)
next
  case (step s s')
  obtain b rs where s: "s = (b, rs)" by (cases s)
  from step.hyps(2) consider
      (res) n b' r where "s' = (b', (n, r) # rs)" "try_reserve n b = Some (b', r)"
    | (dropped) rs1 n r rs2 where "rs = rs1 @ (n, r) # rs2" "s' = (drop_reservation r b, rs1 @ rs2)"
    unfolding s by (auto elim: budget_stepE)
  then show ?case
  proof cases
    case res
    have "want b n = want (budget_new m) n" using step s by (simp add: want_def budget_new_def)
    then show ?thesis
      using step s try_reserve_total[OF res(2)] try_reserve_bounded[OF res(2)] try_reserve_permits[OF res(2)]
        pool.acquire_free[OF res(2)] res(1)
      by auto
  next
    case dropped
    then show ?thesis
      using step s by (auto simp: drop_is_bounded_drop pool.release_free)
        (auto simp: is_bounded_def drop_bounded_def)
  qed
qed

lemma sum_list_le_map: "(\<And>x. x \<in> set xs \<Longrightarrow> f x \<le> g x) \<Longrightarrow> sum_list (map f xs) \<le> sum_list (map (g :: 'a \<Rightarrow> nat) xs)"
  by (induction xs) (auto intro!: add_mono)

lemma permits_held_ge: "x \<in> set rs \<Longrightarrow> y \<in> set (remove1 x rs) \<Longrightarrow> permits (snd x) + permits (snd y) \<le> permits_held rs"
proof (induction rs)
  case (Cons z rs)
  have "y \<in> set rs \<Longrightarrow> permits (snd y) \<le> permits_held rs" for y
    unfolding permits_held_def by (rule member_le_sum_list) (auto intro!: image_eqI)
  from this[of x] this[of y] show ?case
    using Cons by (auto simp: add_mono add.commute split: if_splits dest: notin_set_remove1)
qed simp

section \<open>Properties\<close>

text \<open>C4. In every reachable state of a bounded budget, whatever the order of reservations and drops,
  the batches in flight take at most the configured number of bytes, as long as none is larger than the
  budget or than the \<open>u32\<close> one reservation can hold; and while a batch larger than a budget of at most
  that size is in flight, no other is.\<close>

theorem budget_in_flight_bounded:
  assumes "budget_reach m (b, rs)" and "0 < m"
  shows "((\<forall>(n, r) \<in> set rs. n \<le> min m MAX_PERMITS) \<longrightarrow> bytes_in_flight rs \<le> m)
     \<and> (m \<le> MAX_PERMITS \<longrightarrow> (\<exists>(n, r) \<in> set rs. m < n) \<longrightarrow> length rs = 1)"
proof (intro conjI impI)
  note inv = budget_invariant[OF assms, simplified]
  have le: "permits_held rs \<le> min m SEM_MAX_PERMITS" using inv by linarith
  have w: "permits (snd x) = want (budget_new m) (fst x)" if "x \<in> set rs" for x using inv that by auto
  {
    assume "\<forall>(n, r) \<in> set rs. n \<le> min m MAX_PERMITS"
    then have "fst x \<le> (permits \<circ> snd) x" if "x \<in> set rs" for x
      using w[OF that] that by (auto simp: want_def budget_new_def)
    then have "bytes_in_flight rs \<le> permits_held rs"
      unfolding bytes_in_flight_def permits_held_def by (rule sum_list_le_map)
    then show "bytes_in_flight rs \<le> m" using le by simp
  }
  assume m: "m \<le> MAX_PERMITS" and "\<exists>(n, r) \<in> set rs. m < n"
  then obtain x where x: "x \<in> set rs" "m < fst x" by auto
  then have all: "permits (snd x) = m" using w[OF x(1)] m assms(2) by (auto simp: want_def budget_new_def)
  have "set (remove1 x rs) = {}"
  proof (rule equals0I)
    fix y assume y: "y \<in> set (remove1 x rs)"
    then have "y \<in> set rs" by (meson set_remove1_subset subsetD)
    then have "1 \<le> permits (snd y)" using w by (simp add: want_def)
    then show False using permits_held_ge[OF x(1) y] all le by simp
  qed
  then have "length rs - 1 = 0" using length_remove1[of x rs] x(1) by simp
  then show "length rs = 1" using x(1) by (cases rs) auto
qed

theorem budget_in_flight_bounded_witness:
  "(\<exists>b rs. budget_reach 100 (b, rs) \<and> map fst rs = [30, 60] \<and> bytes_in_flight rs \<le> 100)
   \<and> (\<exists>b rs. budget_reach 100 (b, rs) \<and> 5000 \<in> fst ` set rs \<and> length rs = 1)"
proof -
  have "budget_step (budget_new 100, []) (\<lparr>mb_sem = Some 40, mb_total = 100\<rparr>, [(60, Some 60)])"
    by (rule budget_step.reserve[of 60]) (simp add: try_reserve_def want_def budget_new_def MAX_PERMITS_def SEM_MAX_PERMITS_def)
  moreover have "budget_step (\<lparr>mb_sem = Some 40, mb_total = 100\<rparr>, [(60, Some 60)])
      (\<lparr>mb_sem = Some 10, mb_total = 100\<rparr>, [(30, Some 30), (60, Some 60)])"
    by (rule budget_step.reserve[of 30]) (simp add: try_reserve_def want_def MAX_PERMITS_def)
  ultimately have two: "budget_reach 100 (\<lparr>mb_sem = Some 10, mb_total = 100\<rparr>, [(30, Some 30), (60, Some 60)])"
    by (blast intro: budget_reach.intros)
  have "budget_step (budget_new 100, []) (\<lparr>mb_sem = Some 0, mb_total = 100\<rparr>, [(5000, Some 100)])"
    by (rule budget_step.reserve[of 5000]) (simp add: try_reserve_def want_def budget_new_def MAX_PERMITS_def SEM_MAX_PERMITS_def)
  then have big: "budget_reach 100 (\<lparr>mb_sem = Some 0, mb_total = 100\<rparr>, [(5000, Some 100)])"
    by (blast intro: budget_reach.intros)
  have "bytes_in_flight [(30, Some 30), (60, Some 60)] \<le> 100"
    using budget_in_flight_bounded[OF two] by (simp add: MAX_PERMITS_def)
  moreover have "length [(5000 :: nat, Some (100 :: nat))] = 1"
    using budget_in_flight_bounded[OF big] by (simp add: MAX_PERMITS_def)
  moreover have "map fst [(30 :: nat, Some (30 :: nat)), (60, Some 60)] = [30, 60]" "5000 \<in> fst ` set [(5000 :: nat, Some (100 :: nat))]"
    by simp_all
  ultimately show ?thesis using two big by (intro conjI exI) assumption+
qed

text \<open>A reservation is a \<open>u32\<close> of permits: in a budget of 8 GiB a batch of 16 GiB does not run alone.\<close>

theorem oversized_batch_not_alone:
  "\<exists>b rs. budget_reach (2 ^ 33) (b, rs) \<and> map fst rs = [2 ^ 34, 2 ^ 34]"
proof -
  have "budget_step (budget_new (2 ^ 33), []) (\<lparr>mb_sem = Some (2 ^ 33 - MAX_PERMITS), mb_total = 2 ^ 33\<rparr>, [(2 ^ 34, Some MAX_PERMITS)])"
    by (rule budget_step.reserve[of "2 ^ 34"]) (simp add: try_reserve_def want_def budget_new_def MAX_PERMITS_def SEM_MAX_PERMITS_def)
  moreover have "budget_step (\<lparr>mb_sem = Some (2 ^ 33 - MAX_PERMITS), mb_total = 2 ^ 33\<rparr>, [(2 ^ 34, Some MAX_PERMITS)])
      (\<lparr>mb_sem = Some 2, mb_total = 2 ^ 33\<rparr>, [(2 ^ 34, Some MAX_PERMITS), (2 ^ 34, Some MAX_PERMITS)])"
    by (rule budget_step.reserve[of "2 ^ 34"]) (simp add: try_reserve_def want_def MAX_PERMITS_def)
  ultimately have reach: "budget_reach (2 ^ 33) (\<lparr>mb_sem = Some 2, mb_total = 2 ^ 33\<rparr>, [(2 ^ 34, Some MAX_PERMITS), (2 ^ 34, Some MAX_PERMITS)])"
    by (blast intro: budget_reach.intros)
  show ?thesis by (rule exI, rule exI, rule conjI, rule reach) simp
qed

text \<open>C5. A reservation is never impossible: once the reservations a task waits for are dropped,
  a batch of any size, larger than the whole budget too, is reserved at once,
  with the whole budget at most.\<close>

theorem budget_no_deadlock:
  assumes "budget_reach m (b, [])" and "0 < m"
  shows "\<exists>b' r. try_reserve n_bytes b = Some (b', r) \<and> 0 < permits r \<and> permits r \<le> m"
proof -
  have inv: "mb_total b = m" "is_bounded b" "available b = min m SEM_MAX_PERMITS"
    using budget_invariant[OF assms] by auto
  moreover have "MAX_PERMITS \<le> SEM_MAX_PERMITS" by (simp add: MAX_PERMITS_def SEM_MAX_PERMITS_def)
  moreover have "1 \<le> SEM_MAX_PERMITS" by (simp add: SEM_MAX_PERMITS_def)
  ultimately have "want b n_bytes \<le> available b" using assms(2) by (auto simp: want_def)
  then show ?thesis
    using inv assms(2) by (auto simp: try_reserve_def available_def is_bounded_def permits_def want_def)
qed

theorem budget_no_deadlock_witness:
  "\<exists>b' r. try_reserve 5000 (budget_new 100) = Some (b', r) \<and> 0 < permits r \<and> permits r \<le> 100"
  using budget_no_deadlock[OF budget_reach.start[of 100]] by simp

end
