(* ===== verification/QH_Sql.thy ===== *)
theory QH_Sql
  imports QH_Error
begin

text \<open>
  The SQL text the engine generates: identifiers and string literals quoted for
  each dialect (\<open>source/postgres.rs\<close>, \<open>source/mysql.rs\<close>, \<open>ddl.rs\<close>, \<open>sync.rs\<close>), the watermark
  filter of an incremental read with its lookback (\<open>sync.rs\<close>), the keyset predicate
  of a chunk or window (\<open>source/mod.rs\<close>) and the read statements of the two row
  databases.  The abstract side is a reader of quoted text, with the escapes the
  dialects document; the locale \<open>quoting\<close> states that what a quoter writes is read
  back as the value, wherever the statement goes on.
\<close>

section \<open>Reading quoted text\<close>

record dialect =
  d_quote :: char
  d_backslash :: bool
  d_doubling :: bool
  d_multiline :: bool

definition BSL :: char where
  "BSL = CHR 0x5C"

definition APOS :: char where
  "APOS = CHR 0x27"

definition LF :: char where
  "LF = CHR 0x0A"

definition CR :: char where
  "CR = CHR 0x0D"

definition unescape :: "char \<Rightarrow> char" where
  "unescape d = (if d = CHR ''n'' then LF else if d = CHR ''r'' then CR else d)"

definition cons_fst :: "char \<Rightarrow> (string \<times> string) option \<Rightarrow> (string \<times> string) option" where
  "cons_fst c r = map_option (\<lambda>(a, b). (c # a, b)) r"

fun read_body :: "dialect \<Rightarrow> string \<Rightarrow> (string \<times> string) option" where
  "read_body d [] = None"
| "read_body d [c] =
     (if d_backslash d \<and> c = BSL then None
      else if c = d_quote d then Some ([], []) else None)"
| "read_body d (c # c' # cs) =
     (if d_backslash d \<and> c = BSL then cons_fst (unescape c') (read_body d cs)
      else if c = d_quote d then
        (if d_doubling d \<and> c' = d_quote d then cons_fst c (read_body d cs)
         else Some ([], c' # cs))
      else if \<not> d_multiline d \<and> (c = LF \<or> c = CR) then None
      else cons_fst c (read_body d (c' # cs)))"

text \<open>The quoted text at the front of \<open>s\<close>, and what follows it.\<close>

fun read_quoted :: "dialect \<Rightarrow> string \<Rightarrow> (string \<times> string) option" where
  "read_quoted d [] = None"
| "read_quoted d (c # cs) = (if c = d_quote d then read_body d cs else None)"

definition continues :: "dialect \<Rightarrow> string \<Rightarrow> bool" where
  "continues d rest \<longleftrightarrow> \<not> (d_doubling d \<and> rest \<noteq> [] \<and> hd rest = d_quote d)"

section \<open>The quoters\<close>

definition replace_char :: "char \<Rightarrow> string \<Rightarrow> string \<Rightarrow> string" where
  "replace_char c r s = concat (map (\<lambda>x. if x = c then r else [x]) s)"

definition quote_pg :: "string \<Rightarrow> string" where
  "quote_pg name = ''\"'' @ replace_char CHR ''\"'' [CHR ''\"'', CHR ''\"''] name @ ''\"''"

definition quote_my :: "string \<Rightarrow> string" where
  "quote_my name = [CHR 0x60] @ replace_char (CHR 0x60) [CHR 0x60, CHR 0x60] name @ [CHR 0x60]"

definition quote_ident :: "string \<Rightarrow> string" where
  "quote_ident name =
     [CHR 0x60] @ replace_char (CHR 0x60) [BSL, CHR 0x60] (replace_char BSL [BSL, BSL] name) @ [CHR 0x60]"

definition quote_sql_literal :: "string \<Rightarrow> string" where
  "quote_sql_literal m = [APOS] @ replace_char APOS [APOS, APOS] m @ [APOS]"

definition quote_mysql_literal :: "string \<Rightarrow> string" where
  "quote_mysql_literal m =
     [APOS] @ replace_char APOS [APOS, APOS] (replace_char BSL [BSL, BSL] m) @ [APOS]"

definition quote_clickhouse_literal :: "string \<Rightarrow> string" where
  "quote_clickhouse_literal m =
     [APOS] @ replace_char APOS [APOS, APOS] (replace_char BSL [BSL, BSL] m) @ [APOS]"

definition escape_bigquery_string :: "string \<Rightarrow> string" where
  "escape_bigquery_string s =
     replace_char CR [BSL, CHR ''r''] (replace_char LF [BSL, CHR ''n'']
       (replace_char APOS [BSL, APOS] (replace_char BSL [BSL, BSL] s)))"

text \<open>The dialects: PostgreSQL with \<open>standard_conforming_strings\<close> reads no backslash; MySQL and
  ClickHouse read both a backslash and a doubled quote; GoogleSQL reads backslashes only
  and refuses a raw line break.\<close>

definition pg_ident :: dialect where
  "pg_ident = \<lparr>d_quote = CHR ''\"'', d_backslash = False, d_doubling = True, d_multiline = True\<rparr>"

definition my_ident :: dialect where
  "my_ident = \<lparr>d_quote = CHR 0x60, d_backslash = False, d_doubling = True, d_multiline = True\<rparr>"

definition ch_ident :: dialect where
  "ch_ident = \<lparr>d_quote = CHR 0x60, d_backslash = True, d_doubling = True, d_multiline = True\<rparr>"

definition pg_literal :: dialect where
  "pg_literal = \<lparr>d_quote = APOS, d_backslash = False, d_doubling = True, d_multiline = True\<rparr>"

definition my_literal :: dialect where
  "my_literal = \<lparr>d_quote = APOS, d_backslash = True, d_doubling = True, d_multiline = True\<rparr>"

definition bq_literal :: dialect where
  "bq_literal = \<lparr>d_quote = APOS, d_backslash = True, d_doubling = False, d_multiline = False\<rparr>"

section \<open>The contract of a quoter\<close>

locale quoting =
  fixes d :: dialect
    and quote :: "string \<Rightarrow> string"
  assumes quote_read: "continues d rest \<Longrightarrow> read_quoted d (quote s @ rest) = Some (s, rest)"
begin

lemma quote_inject: "quote s = quote t \<Longrightarrow> s = t"
proof -
  assume eq: "quote s = quote t"
  have "read_quoted d (quote u @ []) = Some (u, [])" for u
    by (rule quote_read) (simp add: continues_def)
  from this[of s] this[of t] eq show "s = t" by simp
qed

lemma quote_unambiguous:
  assumes "continues d r" and "continues d r'" and eq: "quote s @ r = quote s' @ r'"
  shows "s = s' \<and> r = r'"
  using quote_read[OF assms(1), of s, unfolded eq] quote_read[OF assms(2), of s'] by simp

text \<open>A statement whose fixed text goes up to the quoted value reads that value.\<close>

lemma quote_in_statement:
  "continues d rest \<Longrightarrow> read_quoted d (drop (length pre) (pre @ quote s @ rest)) = Some (s, rest)"
  by (simp add: quote_read)

end

text \<open>One pass of escaping, and the law it has to satisfy character by character.\<close>

definition escape_chars :: "(char \<Rightarrow> string) \<Rightarrow> string \<Rightarrow> string" where
  "escape_chars e s = concat (map e s)"

definition escapes :: "dialect \<Rightarrow> (char \<Rightarrow> string) \<Rightarrow> bool" where
  "escapes d e \<longleftrightarrow> (\<forall>c.
     (e c = [c] \<and> c \<noteq> d_quote d \<and> \<not> (d_backslash d \<and> c = BSL)
        \<and> (d_multiline d \<or> (c \<noteq> LF \<and> c \<noteq> CR)))
   \<or> (d_doubling d \<and> c = d_quote d \<and> e c = [c, c] \<and> \<not> (d_backslash d \<and> c = BSL))
   \<or> (d_backslash d \<and> e c = [BSL, last (e c)] \<and> unescape (last (e c)) = c))"

lemma read_body_escape:
  assumes "escapes d e" and "continues d rest" and "\<not> (d_backslash d \<and> d_quote d = BSL)"
  shows "read_body d (escape_chars e s @ d_quote d # rest) = Some (s, rest)"
proof (induction s)
  case Nil
  show ?case
  proof (cases rest)
    case Nil
    then show ?thesis using assms(3) by (auto simp: escape_chars_def)
  next
    case (Cons c cs)
    then show ?thesis using assms by (auto simp: escape_chars_def continues_def)
  qed
next
  case (Cons c s)
  obtain y ys where tl: "escape_chars e s @ d_quote d # rest = y # ys"
    by (cases "escape_chars e s @ d_quote d # rest") auto
  have IH: "read_body d (y # ys) = Some (s, rest)" using Cons.IH tl by simp
  from assms(1) consider
      (plain) "e c = [c]" "c \<noteq> d_quote d" "\<not> (d_backslash d \<and> c = BSL)"
        "d_multiline d \<or> (c \<noteq> LF \<and> c \<noteq> CR)"
    | (double) "d_doubling d" "c = d_quote d" "e c = [c, c]" "\<not> (d_backslash d \<and> c = BSL)"
    | (backslash) x where "d_backslash d" "e c = [BSL, x]" "unescape x = c"
    unfolding escapes_def by blast
  then show ?case
  proof cases
    case plain
    have "escape_chars e (c # s) @ d_quote d # rest = c # y # ys"
      using plain tl by (simp add: escape_chars_def)
    then show ?thesis using plain IH by (auto simp: cons_fst_def)
  next
    case double
    have "escape_chars e (c # s) @ d_quote d # rest = c # c # y # ys"
      using double tl by (simp add: escape_chars_def)
    then show ?thesis using double IH by (auto simp: cons_fst_def)
  next
    case backslash
    have "escape_chars e (c # s) @ d_quote d # rest = BSL # x # y # ys"
      using backslash tl by (simp add: escape_chars_def)
    then show ?thesis using backslash IH by (auto simp: cons_fst_def)
  qed
qed

lemma replace_char_escape: "replace_char c r = escape_chars (\<lambda>x. if x = c then r else [x])"
  by (rule ext) (simp add: replace_char_def escape_chars_def)

lemma escape_escape:
  "escape_chars f (escape_chars e s) = escape_chars (\<lambda>x. escape_chars f (e x)) s"
  by (induction s) (auto simp: escape_chars_def)

lemma read_quoted_escape:
  assumes "q = escape_chars e" and "escapes d e" and "\<not> (d_backslash d \<and> d_quote d = BSL)"
    and "continues d rest"
  shows "read_quoted d ((d_quote d # q s @ [d_quote d]) @ rest) = Some (s, rest)"
  using read_body_escape[OF assms(2) assms(4,3), of s] assms(1) by simp

lemmas char_defs = BSL_def APOS_def LF_def CR_def unescape_def
lemmas dialect_defs = pg_ident_def my_ident_def ch_ident_def pg_literal_def my_literal_def bq_literal_def

text \<open>Each quoter escapes in one pass.\<close>

lemma quoting_escape:
  assumes q: "\<And>s. quote s = d_quote d # escape_chars e s @ [d_quote d]"
    and "escapes d e" and "\<not> (d_backslash d \<and> d_quote d = BSL)"
  shows "quoting d quote"
proof
  fix rest s assume "continues d rest"
  then show "read_quoted d (quote s @ rest) = Some (s, rest)"
    using read_quoted_escape[OF refl assms(2,3), of rest s] by (simp only: q)
qed

lemmas one_pass = replace_char_escape escape_escape append_Cons append_Nil dialect.select_convs

interpretation pg_id: quoting pg_ident quote_pg
proof (rule quoting_escape[where e = "\<lambda>x. if x = CHR ''\"'' then [CHR ''\"'', CHR ''\"''] else [x]"])
  show "\<not> (d_backslash pg_ident \<and> d_quote pg_ident = BSL)" by (simp add: pg_ident_def char_defs)
qed (simp only: quote_pg_def pg_ident_def one_pass,
     auto simp: escapes_def pg_ident_def char_defs replace_char_def)

interpretation my_id: quoting my_ident quote_my
proof (rule quoting_escape[where e = "\<lambda>x. if x = CHR 0x60 then [CHR 0x60, CHR 0x60] else [x]"])
  show "\<not> (d_backslash my_ident \<and> d_quote my_ident = BSL)" by (simp add: my_ident_def char_defs)
qed (simp only: quote_my_def my_ident_def one_pass,
     auto simp: escapes_def my_ident_def char_defs replace_char_def)

interpretation ch_id: quoting ch_ident quote_ident
proof (rule quoting_escape[where e = "\<lambda>x. replace_char (CHR 0x60) [BSL, CHR 0x60] (if x = BSL then [BSL, BSL] else [x])"])
  show "\<not> (d_backslash ch_ident \<and> d_quote ch_ident = BSL)" by (simp add: ch_ident_def char_defs)
qed (simp only: quote_ident_def ch_ident_def one_pass,
     auto simp: escapes_def ch_ident_def char_defs replace_char_def)

interpretation pg_lit: quoting pg_literal quote_sql_literal
proof (rule quoting_escape[where e = "\<lambda>x. if x = APOS then [APOS, APOS] else [x]"])
  show "\<not> (d_backslash pg_literal \<and> d_quote pg_literal = BSL)" by (simp add: pg_literal_def char_defs)
qed (simp only: quote_sql_literal_def pg_literal_def one_pass,
     auto simp: escapes_def pg_literal_def char_defs replace_char_def)

interpretation my_lit: quoting my_literal quote_mysql_literal
proof (rule quoting_escape[where e = "\<lambda>x. replace_char APOS [APOS, APOS] (if x = BSL then [BSL, BSL] else [x])"])
  show "\<not> (d_backslash my_literal \<and> d_quote my_literal = BSL)" by (simp add: my_literal_def char_defs)
qed (simp only: quote_mysql_literal_def my_literal_def one_pass,
     auto simp: escapes_def my_literal_def char_defs replace_char_def)

interpretation ch_lit: quoting my_literal quote_clickhouse_literal
proof (rule quoting_escape[where e = "\<lambda>x. replace_char APOS [APOS, APOS] (if x = BSL then [BSL, BSL] else [x])"])
  show "\<not> (d_backslash my_literal \<and> d_quote my_literal = BSL)" by (simp add: my_literal_def char_defs)
qed (simp only: quote_clickhouse_literal_def my_literal_def one_pass,
     auto simp: escapes_def my_literal_def char_defs replace_char_def)

interpretation bq_lit: quoting bq_literal "\<lambda>s. [APOS] @ escape_bigquery_string s @ [APOS]"
proof (rule quoting_escape[where e = "\<lambda>x. replace_char CR [BSL, CHR ''r''] (replace_char LF [BSL, CHR ''n''] (replace_char APOS [BSL, APOS] (if x = BSL then [BSL, BSL] else [x])))"])
  show "\<not> (d_backslash bq_literal \<and> d_quote bq_literal = BSL)" by (simp add: bq_literal_def char_defs)
qed (simp only: escape_bigquery_string_def bq_literal_def one_pass,
     auto simp: escapes_def bq_literal_def char_defs replace_char_def)

section \<open>Names and filters\<close>

text \<open>\<open>trim_matches(c)\<close> drops every leading and trailing \<open>c\<close>.\<close>

definition trim_matches :: "char \<Rightarrow> string \<Rightarrow> string" where
  "trim_matches c s = rev (dropWhile (\<lambda>x. x = c) (rev (dropWhile (\<lambda>x. x = c) s)))"

definition unquote :: "string \<Rightarrow> string" where
  "unquote s = trim_matches CHR ''\"'' (trim s)"

definition split_qualified :: "string \<Rightarrow> string option \<times> string" where
  "split_qualified table =
     (case split_once CHR ''.'' table of
        Some (s, t) \<Rightarrow> (Some (unquote s), unquote t)
      | None \<Rightarrow> (None, unquote table))"

definition quote_pg_table :: "string \<Rightarrow> string" where
  "quote_pg_table table =
     (case split_once CHR ''.'' table of
        Some (s, t) \<Rightarrow> quote_pg (unquote s) @ ''.'' @ quote_pg (unquote t)
      | None \<Rightarrow> quote_pg (unquote table))"

definition quote_my_table :: "string \<Rightarrow> string" where
  "quote_my_table table =
     (case split_once CHR ''.'' table of
        Some (s, t) \<Rightarrow> quote_my (trim_matches (CHR 0x60) (trim s)) @ ''.''
                       @ quote_my (trim_matches (CHR 0x60) (trim t))
      | None \<Rightarrow> quote_my (trim_matches (CHR 0x60) (trim table)))"

definition qualified_name :: "string \<Rightarrow> string \<Rightarrow> string" where
  "qualified_name db table = quote_ident db @ ''.'' @ quote_ident table"

fun combine_filters :: "string option \<Rightarrow> string option \<Rightarrow> string option" where
  "combine_filters (Some a) (Some b) = Some (''('' @ a @ '') AND ('' @ b @ '')'')"
| "combine_filters (Some a) None = Some a"
| "combine_filters None (Some b) = Some b"
| "combine_filters None None = None"

section \<open>Keyset reads\<close>

datatype keyset_bound = OrderedLimit nat | UpperBound string

record keyset =
  ks_col :: string
  ks_cursor :: "string option"
  ks_bound :: keyset_bound

definition is_integer_text :: "string \<Rightarrow> bool" where
  "is_integer_text v =
     (case v of
        [] \<Rightarrow> False
      | c # cs \<Rightarrow> if c = CHR ''-'' then cs \<noteq> [] \<and> all_digits cs else is_digit c \<and> all_digits cs)"

definition integer_literal :: "string \<Rightarrow> string" where
  "integer_literal v = (if is_integer_text v then v else show_int (- (2 ^ 63)))"

definition keyset_predicate :: "keyset \<Rightarrow> string option" where
  "keyset_predicate k =
     (let lower = map_option (\<lambda>cur. ks_col k @ '' > '' @ integer_literal cur) (ks_cursor k);
          upper = (case ks_bound k of
              UpperBound hi \<Rightarrow> Some (ks_col k @ '' <= '' @ integer_literal hi)
            | OrderedLimit _ \<Rightarrow> None)
      in case (lower, upper) of
           (Some l, Some u) \<Rightarrow> Some (l @ '' AND '' @ u)
         | (Some l, None) \<Rightarrow> Some l
         | (None, Some u) \<Rightarrow> Some u
         | (None, None) \<Rightarrow> None)"

definition keyset_order_limit :: "keyset option \<Rightarrow> string" where
  "keyset_order_limit k =
     (case k of
        Some k \<Rightarrow> (case ks_bound k of
            OrderedLimit n \<Rightarrow> '' ORDER BY '' @ ks_col k @ '' ASC LIMIT '' @ show_nat n
          | UpperBound _ \<Rightarrow> [])
      | None \<Rightarrow> [])"

section \<open>Read statements\<close>

definition projection :: "(string \<Rightarrow> string) \<Rightarrow> string option list \<Rightarrow> string list \<Rightarrow> string" where
  "projection q exprs cols =
     join '', '' (map (\<lambda>(i, c).
        case (if i < length exprs then exprs ! i else None) of
          Some e \<Rightarrow> e @ '' AS '' @ q c
        | None \<Rightarrow> q c) (enumerate 0 cols))"

definition read_filters :: "string option \<Rightarrow> string option \<Rightarrow> keyset option \<Rightarrow> string option" where
  "read_filters part extra ks =
     combine_filters part
       (combine_filters extra (case ks of Some k \<Rightarrow> keyset_predicate k | None \<Rightarrow> None))"

text \<open>\<open>None\<close> is the panic of a read with neither a table nor a query.\<close>

definition select_from :: "(string \<Rightarrow> string) \<Rightarrow> string \<Rightarrow> string option \<Rightarrow> string option \<Rightarrow> string option" where
  "select_from quote_table col_list from_table base_query =
     (case base_query of
        Some q \<Rightarrow> Some (''SELECT '' @ col_list @ '' FROM ('' @ q @ '') AS _src'')
      | None \<Rightarrow> map_option (\<lambda>t. ''SELECT '' @ col_list @ '' FROM '' @ quote_table t) from_table)"

definition where_clause :: "string option \<Rightarrow> string" where
  "where_clause f = (case f of Some f \<Rightarrow> '' WHERE '' @ f | None \<Rightarrow> [])"

definition copy_sql :: "string list \<Rightarrow> string option list \<Rightarrow> string option \<Rightarrow> string option
    \<Rightarrow> string option \<Rightarrow> string option \<Rightarrow> keyset option \<Rightarrow> string option" where
  "copy_sql columns select_exprs from_table base_query part extra_filter ks =
     map_option (\<lambda>inner. ''COPY ('' @ inner @ where_clause (read_filters part extra_filter ks)
         @ keyset_order_limit ks @ '') TO STDOUT (FORMAT binary)'')
       (select_from quote_pg_table (projection quote_pg select_exprs columns) from_table base_query)"

definition mysql_select_sql :: "string list \<Rightarrow> string option list \<Rightarrow> string option \<Rightarrow> string option
    \<Rightarrow> string option \<Rightarrow> string option \<Rightarrow> keyset option \<Rightarrow> string option" where
  "mysql_select_sql columns select_exprs from_table base_query part extra_filter ks =
     map_option (\<lambda>sql. sql @ where_clause (read_filters part extra_filter ks)
         @ keyset_order_limit ks)
       (select_from quote_my_table (projection quote_my select_exprs columns) from_table base_query)"

definition pg_max_watermark_sql :: "string option \<Rightarrow> string option \<Rightarrow> string \<Rightarrow> string option \<Rightarrow> string option" where
  "pg_max_watermark_sql from_table base_query watermark source_expr =
     (let w = (case source_expr of Some e \<Rightarrow> e | None \<Rightarrow> quote_pg watermark)
      in case base_query of
           Some q \<Rightarrow> Some (''SELECT max('' @ w @ '')::text FROM ('' @ q @ '') AS _src'')
         | None \<Rightarrow> map_option (\<lambda>t. ''SELECT max('' @ w @ '')::text FROM '' @ quote_pg_table t) from_table)"

definition pg_count_null_watermark_sql :: "string option \<Rightarrow> string option \<Rightarrow> string \<Rightarrow> string option \<Rightarrow> string option" where
  "pg_count_null_watermark_sql from_table base_query watermark source_expr =
     (let w = (case source_expr of Some e \<Rightarrow> e | None \<Rightarrow> quote_pg watermark)
      in case base_query of
           Some q \<Rightarrow> Some (''SELECT count(*) FROM ('' @ q @ '') AS _src WHERE '' @ w @ '' IS NULL'')
         | None \<Rightarrow> map_option (\<lambda>t. ''SELECT count(*) FROM '' @ quote_pg_table t
                        @ '' WHERE '' @ w @ '' IS NULL'') from_table)"

definition mysql_max_watermark_sql :: "string option \<Rightarrow> string option \<Rightarrow> string \<Rightarrow> string option \<Rightarrow> string option" where
  "mysql_max_watermark_sql from_table base_query watermark source_expr =
     (let w = (case source_expr of Some e \<Rightarrow> e | None \<Rightarrow> quote_my watermark)
      in case base_query of
           Some q \<Rightarrow> Some (''SELECT CAST(MAX('' @ w @ '') AS CHAR) FROM ('' @ q @ '') AS _src'')
         | None \<Rightarrow> map_option (\<lambda>t. ''SELECT CAST(MAX('' @ w @ '') AS CHAR) FROM ''
                        @ quote_my_table t) from_table)"

definition mysql_count_null_watermark_sql :: "string option \<Rightarrow> string option \<Rightarrow> string \<Rightarrow> string option \<Rightarrow> string option" where
  "mysql_count_null_watermark_sql from_table base_query watermark source_expr =
     (let w = (case source_expr of Some e \<Rightarrow> e | None \<Rightarrow> quote_my watermark)
      in case base_query of
           Some q \<Rightarrow> Some (''SELECT count(*) FROM ('' @ q @ '') AS _src WHERE '' @ w @ '' IS NULL'')
         | None \<Rightarrow> map_option (\<lambda>t. ''SELECT count(*) FROM '' @ quote_my_table t
                        @ '' WHERE '' @ w @ '' IS NULL'') from_table)"

definition session_setup_sql :: "nat \<Rightarrow> bool \<Rightarrow> bool \<Rightarrow> string option" where
  "session_setup_sql statement_timeout_secs utc_session read_only =
     (let vars =
        (if 0 < statement_timeout_secs
         then [''MAX_EXECUTION_TIME = '' @ show_nat (statement_timeout_secs * 1000)] else [])
        @ (if utc_session then [''time_zone = '' @ quoted ''+00:00''] else [])
        @ (if read_only then [''transaction_read_only = ON''] else [])
      in if vars \<noteq> [] then Some (''SET SESSION '' @ join '', '' vars) else None)"
section \<open>Watermark filters\<close>

definition build_watermark_filter :: "string \<Rightarrow> string option \<Rightarrow> string option \<Rightarrow> string option" where
  "build_watermark_filter col lower upper =
     (let clauses =
        (case lower of Some lb \<Rightarrow> [col @ '' > '' @ lb] | None \<Rightarrow> [])
        @ (case upper of Some ub \<Rightarrow> [col @ '' <= '' @ ub] | None \<Rightarrow> [])
      in if clauses = [] then None else Some (join '' AND '' clauses))"

definition lookback_lower_bound_pg :: "string \<Rightarrow> nat \<Rightarrow> bool \<Rightarrow> string" where
  "lookback_lower_bound_pg cursor lookback_seconds tz_aware =
     (let l = replace_char APOS [APOS, APOS] cursor
      in if lookback_seconds = 0 then quoted l
         else ''('' @ quoted l @ ''::'' @ (if tz_aware then ''timestamptz'' else ''timestamp'')
           @ '' - interval '' @ quoted (show_nat lookback_seconds @ '' seconds'') @ '')'')"

definition build_watermark_filter_pg ::
  "string \<Rightarrow> string option \<Rightarrow> string option \<Rightarrow> string option \<Rightarrow> nat \<Rightarrow> bool \<Rightarrow> string option" where
  "build_watermark_filter_pg watermark source_expr cursor snapshot_max lookback_seconds tz_aware =
     (let col = (case source_expr of Some e \<Rightarrow> e | None \<Rightarrow> quote_pg watermark)
      in build_watermark_filter col
           (map_option (\<lambda>l. lookback_lower_bound_pg l lookback_seconds tz_aware) cursor)
           (map_option quote_sql_literal snapshot_max))"

text \<open>\<open>is_datetime\<close> stands for the two \<open>chrono::NaiveDateTime::parse_from_str\<close> formats.\<close>

definition strip_zero_utc_offset :: "(string \<Rightarrow> bool) \<Rightarrow> string \<Rightarrow> string" where
  "strip_zero_utc_offset is_datetime cursor =
     (case find (\<lambda>suffix. case strip_suffix suffix cursor of
              Some naive \<Rightarrow> is_datetime naive | None \<Rightarrow> False) [''+00:00'', ''+00''] of
        Some suffix \<Rightarrow> the (strip_suffix suffix cursor)
      | None \<Rightarrow> cursor)"

definition lookback_lower_bound_mysql :: "(string \<Rightarrow> bool) \<Rightarrow> string \<Rightarrow> nat \<Rightarrow> string" where
  "lookback_lower_bound_mysql is_datetime cursor lookback_seconds =
     (let l = replace_char APOS [APOS, APOS]
                (replace_char BSL [BSL, BSL] (strip_zero_utc_offset is_datetime cursor))
      in if lookback_seconds = 0 then quoted l
         else ''(CAST('' @ quoted l @ '' AS DATETIME) - INTERVAL ''
              @ show_nat lookback_seconds @ '' SECOND)'')"

definition build_watermark_filter_mysql :: "(string \<Rightarrow> bool) \<Rightarrow>
    string \<Rightarrow> string option \<Rightarrow> string option \<Rightarrow> string option \<Rightarrow> nat \<Rightarrow> string option" where
  "build_watermark_filter_mysql is_datetime watermark source_expr cursor snapshot_max lookback_seconds =
     (let col = (case source_expr of Some e \<Rightarrow> e | None \<Rightarrow> quote_my watermark)
      in build_watermark_filter col
           (map_option (\<lambda>l. lookback_lower_bound_mysql is_datetime l lookback_seconds) cursor)
           (map_option quote_mysql_literal snapshot_max))"

text \<open>The loop that unwraps \<open>Nullable(\<dots>)\<close> and \<open>LowCardinality(\<dots>)\<close> shortens the text each time.\<close>

definition unwrap_once :: "string \<Rightarrow> string option" where
  "unwrap_once inner =
     (case strip_prefix ''Nullable('' inner of
        Some r \<Rightarrow> strip_suffix '')'' r
      | None \<Rightarrow> (case strip_prefix ''LowCardinality('' inner of
                  Some r \<Rightarrow> strip_suffix '')'' r | None \<Rightarrow> None))"

lemma dropWhile_length: "length (dropWhile P s) \<le> length s"
  by (induction s) auto

lemma trim_length: "length (trim s) \<le> length s"
  unfolding trim_def trim_start_def length_rev
  using dropWhile_length[of is_ws "rev (dropWhile is_ws s)"] dropWhile_length[of is_ws s] by simp

lemma unwrap_once_length: "unwrap_once s = Some r \<Longrightarrow> length r < length s"
  by (auto simp: unwrap_once_def strip_prefix_Some strip_suffix_Some split: option.splits)

function unwrap_type :: "string \<Rightarrow> string" where
  "unwrap_type inner = (case unwrap_once inner of Some rest \<Rightarrow> unwrap_type (trim rest) | None \<Rightarrow> inner)"
  by pat_completeness auto
termination
  by (relation "measure length") (auto dest!: unwrap_once_length intro: le_less_trans[OF trim_length])

declare unwrap_type.simps [simp del]

fun contains_dashes :: "string \<Rightarrow> bool" where
  "contains_dashes (a # b # s) = ((a = CHR ''-'' \<and> b = CHR ''-'') \<or> contains_dashes (b # s))"
| "contains_dashes _ = False"

definition type_char :: "char \<Rightarrow> bool" where
  "type_char c \<longleftrightarrow> is_alnum c \<or> c \<in> set ('' (),/_+-.'' @ [APOS])"

definition is_clickhouse_temporal_type :: "string \<Rightarrow> bool" where
  "is_clickhouse_temporal_type t \<longleftrightarrow>
     (\<not> contains_dashes t \<and> list_all type_char t) \<and> starts_with ''Date'' (unwrap_type (trim t))"

definition clickhouse_cursor_literal :: "string \<Rightarrow> string option \<Rightarrow> string" where
  "clickhouse_cursor_literal value temporal_type =
     (case temporal_type of
        Some t \<Rightarrow> ''CAST('' @ quote_clickhouse_literal value @ '' AS '' @ t @ '')''
      | None \<Rightarrow> quote_clickhouse_literal value)"

definition lookback_lower_bound_clickhouse :: "string \<Rightarrow> nat \<Rightarrow> string option \<Rightarrow> string" where
  "lookback_lower_bound_clickhouse cursor lookback_seconds temporal_type =
     (if lookback_seconds = 0 then clickhouse_cursor_literal cursor temporal_type
      else case temporal_type of
        Some _ \<Rightarrow> ''('' @ clickhouse_cursor_literal cursor temporal_type @ '' - INTERVAL ''
                  @ show_nat lookback_seconds @ '' SECOND)''
      | None \<Rightarrow> ''(toDateTime64('' @ quote_clickhouse_literal cursor @ '', 6, '' @ quoted ''UTC''
                  @ '') - INTERVAL '' @ show_nat lookback_seconds @ '' SECOND)'')"

definition filter_option :: "('a \<Rightarrow> bool) \<Rightarrow> 'a option \<Rightarrow> 'a option" where
  "filter_option p x = (case x of Some a \<Rightarrow> if p a then Some a else None | None \<Rightarrow> None)"

definition build_watermark_filter_clickhouse :: "string \<Rightarrow> string option \<Rightarrow> string option
    \<Rightarrow> string option \<Rightarrow> nat \<Rightarrow> string option \<Rightarrow> string option" where
  "build_watermark_filter_clickhouse watermark source_expr cursor snapshot_max lookback_seconds watermark_type =
     (let col = (case source_expr of Some e \<Rightarrow> e | None \<Rightarrow> quote_ident watermark);
          temporal_type = filter_option is_clickhouse_temporal_type watermark_type
      in build_watermark_filter col
           (map_option (\<lambda>l. lookback_lower_bound_clickhouse l lookback_seconds temporal_type) cursor)
           (map_option (\<lambda>u. clickhouse_cursor_literal u temporal_type) snapshot_max))"

section \<open>Properties\<close>

text \<open>C6. A value quoted as a string literal of any of the four dialects is read back by that
  dialect as exactly the value, and reading stops where the statement goes on:
  no cursor or bound can end its literal early.\<close>

theorem literals_read_back:
  assumes "rest = [] \<or> hd rest \<noteq> APOS"
  shows "read_quoted pg_literal (quote_sql_literal s @ rest) = Some (s, rest)
    \<and> read_quoted my_literal (quote_mysql_literal s @ rest) = Some (s, rest)
    \<and> read_quoted my_literal (quote_clickhouse_literal s @ rest) = Some (s, rest)
    \<and> read_quoted bq_literal (([APOS] @ escape_bigquery_string s @ [APOS]) @ rest) = Some (s, rest)"
proof (intro conjI)
  show "read_quoted pg_literal (quote_sql_literal s @ rest) = Some (s, rest)"
    by (rule pg_lit.quote_read) (use assms in \<open>auto simp: continues_def pg_literal_def\<close>)
  show "read_quoted my_literal (quote_mysql_literal s @ rest) = Some (s, rest)"
    by (rule my_lit.quote_read) (use assms in \<open>auto simp: continues_def my_literal_def\<close>)
  show "read_quoted my_literal (quote_clickhouse_literal s @ rest) = Some (s, rest)"
    by (rule ch_lit.quote_read) (use assms in \<open>auto simp: continues_def my_literal_def\<close>)
  show "read_quoted bq_literal (([APOS] @ escape_bigquery_string s @ [APOS]) @ rest) = Some (s, rest)"
    by (rule bq_lit.quote_read) (use assms in \<open>auto simp: continues_def bq_literal_def\<close>)
qed

theorem literals_read_back_witness:
  "read_quoted my_literal (quote_mysql_literal (''a'' @ [APOS, BSL]) @ '' AND 1'')
     = Some (''a'' @ [APOS, BSL], '' AND 1'')"
  using literals_read_back[of "'' AND 1''" "''a'' @ [APOS, BSL]"] by (simp add: APOS_def)

text \<open>A quoted identifier is read back as the name, in PostgreSQL, MySQL and ClickHouse, when
  no quote follows it, so two names never share a quoted form.\<close>

lemma identifiers_read_back:
  assumes "rest = [] \<or> hd rest \<noteq> CHR ''\"''" and "rest' = [] \<or> hd rest' \<noteq> CHR 0x60"
  shows "read_quoted pg_ident (quote_pg s @ rest) = Some (s, rest)
    \<and> read_quoted my_ident (quote_my s @ rest') = Some (s, rest')
    \<and> read_quoted ch_ident (quote_ident s @ rest') = Some (s, rest')"
proof (intro conjI)
  show "read_quoted pg_ident (quote_pg s @ rest) = Some (s, rest)"
    by (rule pg_id.quote_read) (use assms in \<open>auto simp: continues_def pg_ident_def\<close>)
  show "read_quoted my_ident (quote_my s @ rest') = Some (s, rest')"
    by (rule my_id.quote_read) (use assms in \<open>auto simp: continues_def my_ident_def\<close>)
  show "read_quoted ch_ident (quote_ident s @ rest') = Some (s, rest')"
    by (rule ch_id.quote_read) (use assms in \<open>auto simp: continues_def ch_ident_def\<close>)
qed

lemma is_integer_text_show_int: "is_integer_text (show_int i)"
proof (cases "show_nat (nat \<bar>i\<bar>)")
  case (Cons c r)
  have d: "all_digits (c # r)" using all_digits_show_nat[of "nat \<bar>i\<bar>"] Cons by simp
  then have "c \<noteq> CHR ''-''" by (auto simp: is_digit_def code_def)
  then show ?thesis using Cons d by (auto simp: is_integer_text_def show_int_def)
qed simp

lemma integer_literal_is_integer: "is_integer_text (integer_literal v)"
  using is_integer_text_show_int by (simp add: integer_literal_def)

text \<open>Whatever text the saved cursor and the bound hold, the predicate of a keyset read is
  \<open>col > a AND col <= b\<close> with bare integers \<open>a\<close> and \<open>b\<close>, which are the
  cursor and the bound when those are integers: nothing else reaches the statement.\<close>

theorem keyset_predicate_integers:
  "\<exists>a b. is_integer_text a \<and> is_integer_text b
     \<and> (is_integer_text cur \<longrightarrow> a = cur) \<and> (is_integer_text hi \<longrightarrow> b = hi)
     \<and> keyset_predicate \<lparr>ks_col = col, ks_cursor = Some cur, ks_bound = UpperBound hi\<rparr>
         = Some (col @ '' > '' @ a @ '' AND '' @ col @ '' <= '' @ b)
     \<and> keyset_predicate \<lparr>ks_col = col, ks_cursor = Some cur, ks_bound = OrderedLimit n\<rparr>
         = Some (col @ '' > '' @ a)"
  by (rule exI[of _ "integer_literal cur"], rule exI[of _ "integer_literal hi"])
    (simp add: integer_literal_is_integer keyset_predicate_def, simp add: integer_literal_def)

text \<open>The literal a refused cursor is replaced with is a lower bound every other key is above, so
  the read it bounds starts over; as an upper bound it matches no key but itself.\<close>

lemma refused_cursor_reads_everything:
  "keyset_predicate \<lparr>ks_col = ''id'', ks_cursor = Some ''x'', ks_bound = OrderedLimit 10\<rparr>
     = Some ''id > -9223372036854775808''
   \<and> (\<forall>key::int. in_signed 64 key \<and> key \<noteq> - 9223372036854775808 \<longrightarrow> key > - 9223372036854775808)"
proof (rule conjI)
  show "keyset_predicate \<lparr>ks_col = ''id'', ks_cursor = Some ''x'', ks_bound = OrderedLimit 10\<rparr>
     = Some ''id > -9223372036854775808''"
    by (simp add: keyset_predicate_def integer_literal_def is_integer_text_def is_digit_def code_def
          show_int_def show_nat.simps digit_char_def char_of_def bit_iff_odd)
qed (auto simp: in_signed_def)

end
