(* ===== verification/QH_Partition.thy ===== *)
theory QH_Partition
  imports QH_Sql
begin

text \<open>
  Splitting a read into key ranges for parallel streams: \<open>range_partitions\<close>
  (\<open>source/mod.rs\<close>) and the planners of the three SQL sources built on it.  A
  partition's predicate is kept as a value, with its SQL rendering and its
  meaning on a key, so the cover can be stated.  The answer of a source to the
  MIN/MAX probe is an argument of the planners.
\<close>

section \<open>Partitions\<close>

datatype part_pred = AllRows | KeyRange int int | NullKeyRows

record partition =
  part_label :: string
  part_pred :: part_pred

definition pred_text :: "string \<Rightarrow> part_pred \<Rightarrow> string option" where
  "pred_text key p =
     (case p of
        AllRows \<Rightarrow> None
      | KeyRange a b \<Rightarrow> Some (key @ '' >= '' @ show_int a @ '' AND '' @ key @ '' <= '' @ show_int b)
      | NullKeyRows \<Rightarrow> Some (key @ '' IS NULL''))"

fun selects :: "part_pred \<Rightarrow> int option \<Rightarrow> bool" where
  "selects AllRows v = True"
| "selects (KeyRange a b) v = (case v of Some k \<Rightarrow> a \<le> k \<and> k \<le> b | None \<Rightarrow> False)"
| "selects NullKeyRows v = (v = None)"

definition div_ceil :: "int \<Rightarrow> int \<Rightarrow> int" where
  "div_ceil a b = (if a mod b = 0 then a div b else a div b + 1)"

text \<open>The loop of the code, with \<open>0 < step\<close> (which \<open>max(1)\<close> gives) stated for termination.\<close>

function range_loop :: "int \<Rightarrow> int \<Rightarrow> int \<Rightarrow> nat \<Rightarrow> partition list" where
  "range_loop start hi step idx =
     (if start \<le> hi \<and> 0 < step then
        (let stop = min (start + step - 1) hi
         in \<lparr>part_label = ''range-'' @ show_nat idx, part_pred = KeyRange start stop\<rparr>
            # range_loop (stop + 1) hi step (idx + 1))
      else [])"
  by pat_completeness auto
termination
  by (relation "measure (\<lambda>(start, hi, step, idx). nat (hi - start + 1))") (auto simp: min_def)

declare range_loop.simps [simp del]

definition range_step :: "int \<Rightarrow> int \<Rightarrow> nat \<Rightarrow> int" where
  "range_step lo hi n = max (div_ceil ((hi - lo + 1) mod 2 ^ 128) (int n)) 1"

text \<open>\<open>None\<close> is the division by zero of \<open>n = 0\<close>, which no caller passes.\<close>

definition range_partitions :: "int \<Rightarrow> int \<Rightarrow> nat \<Rightarrow> partition list option" where
  "range_partitions lo hi n =
     (if n = 0 then None else Some (range_loop lo hi (range_step lo hi n) 0))"

definition single_partition :: "partition list" where
  "single_partition = [\<lparr>part_label = ''all'', part_pred = AllRows\<rparr>]"

section \<open>The planners\<close>

definition INT2 :: nat where "INT2 = 21"
definition INT4 :: nat where "INT4 = 23"
definition INT8 :: nat where "INT8 = 20"

definition pg_is_range_partitionable :: "nat \<Rightarrow> bool" where
  "pg_is_range_partitionable column_oid \<longleftrightarrow> column_oid \<in> {INT2, INT4, INT8}"

text \<open>\<open>type_code\<close>: \<open>TINY\<close> 1, \<open>SHORT\<close> 2, \<open>LONG\<close> 3, \<open>LONGLONG\<close> 8, \<open>INT24\<close> 9.\<close>

definition my_is_range_partitionable :: "nat \<Rightarrow> bool" where
  "my_is_range_partitionable column_type_id \<longleftrightarrow> column_type_id \<in> {1, 2, 9, 3, 8}"

definition null_partition :: "bool \<Rightarrow> partition list" where
  "null_partition wanted =
     (if wanted then [\<lparr>part_label = ''null-key'', part_pred = NullKeyRows\<rparr>] else [])"

definition split_range :: "int \<Rightarrow> int \<Rightarrow> nat \<Rightarrow> bool \<Rightarrow> partition list" where
  "split_range lo hi n with_null = the (range_partitions lo hi n) @ null_partition with_null"

definition pg_range_partitions ::
  "bool \<Rightarrow> nat \<Rightarrow> nat \<Rightarrow> bool \<Rightarrow> int option \<Rightarrow> (int option \<times> int option) res \<Rightarrow> partition list res" where
  "pg_range_partitions has_source_expr column_oid n column_nullable above_key probe =
     (if n \<le> 1 \<or> (\<not> has_source_expr \<and> \<not> pg_is_range_partitionable column_oid)
      then Inr single_partition
      else and_then probe (\<lambda>row.
        case row of
          (Some lo, Some hi) \<Rightarrow>
            if lo \<le> hi then
              Inr (split_range (case above_key of None \<Rightarrow> lo | Some c \<Rightarrow> c + 1) hi n
                     (column_nullable \<and> above_key = None))
            else Inr single_partition
        | _ \<Rightarrow> Inr single_partition))"

datatype mysql_value = MyInt int | MyUInt int | MyBytes string | MyNull

definition mysql_value_to_i128 :: "mysql_value \<Rightarrow> int option" where
  "mysql_value_to_i128 v =
     (case v of MyInt i \<Rightarrow> Some i | MyUInt u \<Rightarrow> Some u
      | MyBytes b \<Rightarrow> parse_signed 128 (trim b) | MyNull \<Rightarrow> None)"

definition mysql_range_partitions ::
  "bool \<Rightarrow> nat \<Rightarrow> nat \<Rightarrow> bool \<Rightarrow> int option
   \<Rightarrow> (mysql_value option \<times> mysql_value option) option res \<Rightarrow> partition list res" where
  "mysql_range_partitions has_source_expr column_type_id n column_nullable above_key probe =
     (if n \<le> 1 \<or> (\<not> has_source_expr \<and> \<not> my_is_range_partitionable column_type_id)
      then Inr single_partition
      else and_then probe (\<lambda>row.
        case row of
          Some (Some lo, Some hi) \<Rightarrow>
            (case (mysql_value_to_i128 lo, mysql_value_to_i128 hi) of
               (Some lo, Some hi) \<Rightarrow>
                 if lo \<le> hi then
                   Inr (split_range (case above_key of None \<Rightarrow> lo | Some c \<Rightarrow> c + 1) hi n
                          (column_nullable \<and> above_key = None))
                 else Inr single_partition
             | _ \<Rightarrow> Inr single_partition)
        | _ \<Rightarrow> Inr single_partition))"

definition probe_field :: "string option list \<Rightarrow> nat \<Rightarrow> int option" where
  "probe_field row i =
     (if i < length row then (case row ! i of Some s \<Rightarrow> parse_signed 128 (trim s) | None \<Rightarrow> None)
      else None)"

definition ch_range_partitions ::
  "bool \<Rightarrow> bool \<Rightarrow> nat \<Rightarrow> bool \<Rightarrow> string option list list res \<Rightarrow> partition list res" where
  "ch_range_partitions has_source_expr partitionable n column_nullable probe =
     (if n \<le> 1 \<or> (\<not> has_source_expr \<and> \<not> partitionable)
      then Inr single_partition
      else and_then probe (\<lambda>rows.
        case rows of
          [] \<Rightarrow> Inr single_partition
        | row # _ \<Rightarrow>
            if (case probe_field row 2 of Some c \<Rightarrow> c | None \<Rightarrow> 0) = 0 then Inr single_partition
            else (case (probe_field row 0, probe_field row 1) of
               (Some lo, Some hi) \<Rightarrow>
                 if lo \<le> hi then Inr (split_range lo hi n column_nullable) else Inr single_partition
             | _ \<Rightarrow> Inr single_partition)))"

section \<open>The ranges cover\<close>

definition span_of :: "partition \<Rightarrow> int list" where
  "span_of p = (case part_pred p of KeyRange a b \<Rightarrow> [a..b] | _ \<Rightarrow> [])"

lemma range_loop_cover:
  "0 < step \<Longrightarrow> concat (map span_of (range_loop start hi step idx)) = [start..hi]"
proof (induction start hi step idx rule: range_loop.induct)
  case (1 start hi step idx)
  let ?stop = "min (start + step - 1) hi"
  show ?case
  proof (cases "start \<le> hi")
    case True
    then have "concat (map span_of (range_loop start hi step idx))
        = [start..?stop] @ concat (map span_of (range_loop (?stop + 1) hi step (idx + 1)))"
      using 1 by (subst range_loop.simps) (simp add: span_of_def Let_def)
    also have "\<dots> = [start..?stop] @ [?stop + 1..hi]" using 1 True by simp
    also have "\<dots> = [start..hi]" using True 1 by (intro upto_split2[symmetric]) auto
    finally show ?thesis .
  next
    case False
    then show ?thesis by (subst range_loop.simps) simp
  qed
qed

lemma range_loop_length:
  "0 < step \<Longrightarrow> start \<le> hi + 1 \<Longrightarrow> hi - start + 1 \<le> int n * step \<Longrightarrow>
    length (range_loop start hi step idx) \<le> n"
proof (induction start hi step idx arbitrary: n rule: range_loop.induct)
  case (1 start hi step idx)
  show ?case
  proof (cases "start \<le> hi")
    case True
    let ?stop = "min (start + step - 1) hi"
    have "n \<noteq> 0" using 1 True by (cases n) auto
    then obtain m where m: "n = Suc m" by (cases n) auto
    have "hi - (?stop + 1) + 1 \<le> int m * step"
      using 1(4) m by (auto simp: algebra_simps min_def zero_le_mult_iff \<open>0 < step\<close> less_imp_le)
    then have "length (range_loop (?stop + 1) hi step (idx + 1)) \<le> m"
      using 1 True by (intro 1(1)) auto
    then show ?thesis using True m 1 by (subst range_loop.simps) (simp add: Let_def)
  next
    case False
    then show ?thesis by (subst range_loop.simps) simp
  qed
qed

lemma div_ceil_bound: "0 < b \<Longrightarrow> a \<le> b * div_ceil a b"
proof -
  assume b: "0 < b"
  have e: "b * (a div b) + a mod b = a" by simp
  have l: "a mod b < b" using b by simp
  have m: "b * (a div b + 1) = b * (a div b) + b" by (simp only: distrib_left mult_1_right)
  show ?thesis
  proof (cases "a mod b = 0")
    case True
    have "a \<le> b * (a div b)" using e True by linarith
    moreover have "div_ceil a b = a div b" using True by (simp add: div_ceil_def)
    ultimately show ?thesis by (simp only:)
  next
    case False
    have "a \<le> b * (a div b + 1)" using e l m by linarith
    moreover have "div_ceil a b = a div b + 1" using False by (simp add: div_ceil_def)
    ultimately show ?thesis by (simp only:)
  qed
qed

lemma range_step_pos: "0 < range_step lo hi n"
  by (simp add: range_step_def)

lemma range_step_bound:
  assumes "0 < n" and "lo \<le> hi" and "hi - lo + 1 < 2 ^ 128"
  shows "hi - lo + 1 \<le> int n * range_step lo hi n"
proof -
  have "(hi - lo + 1) mod 2 ^ 128 = hi - lo + 1" using assms by simp
  then have "hi - lo + 1 \<le> int n * div_ceil ((hi - lo + 1) mod 2 ^ 128) (int n)"
    using div_ceil_bound[of "int n" "hi - lo + 1"] assms by simp
  also have "\<dots> \<le> int n * range_step lo hi n"
    by (intro mult_left_mono) (auto simp: range_step_def)
  finally show ?thesis .
qed

text \<open>A list of ranges whose concatenation is an interval selects each key of it once.\<close>

lemma selects_span:
  "part_pred p = KeyRange a b \<Longrightarrow> selects (part_pred p) (Some k) \<longleftrightarrow> k \<in> set (span_of p)"
  by (simp add: span_of_def)

lemma count_spans:
  assumes "\<forall>p \<in> set ps. \<exists>a b. part_pred p = KeyRange a b"
    and "distinct (concat (map span_of ps))"
  shows "length (filter (\<lambda>p. selects (part_pred p) (Some k)) ps)
    = (if k \<in> set (concat (map span_of ps)) then 1 else 0)"
  using assms
proof (induction ps)
  case (Cons p ps)
  then obtain a b where "part_pred p = KeyRange a b" by auto
  then have "selects (part_pred p) (Some k) \<longleftrightarrow> k \<in> set (span_of p)" by (rule selects_span)
  then show ?case using Cons by auto
qed simp

lemma range_loop_ranges: "p \<in> set (range_loop start hi step idx) \<Longrightarrow> \<exists>a b. part_pred p = KeyRange a b"
proof (induction start hi step idx rule: range_loop.induct)
  case (1 start hi step idx)
  have ih: "p \<in> set (range_loop (min (start + step - 1) hi + 1) hi step (Suc idx)) \<Longrightarrow>
      \<exists>a b. part_pred p = KeyRange a b" if "start \<le> hi" "0 < step"
    using "1.IH"[OF _ refl] that by simp
  from "1.prems" show ?case
    by (subst (asm) range_loop.simps) (auto simp: Let_def split: if_splits dest: ih)
qed

lemma range_loop_null:
  "filter (\<lambda>p. selects (part_pred p) None) (range_loop start hi step idx) = []"
  using range_loop_ranges[of _ start hi step idx] by (fastforce simp: filter_empty_conv)

lemma split_range_selects:
  assumes "0 < n"
  shows "length (filter (\<lambda>p. selects (part_pred p) v) (split_range lo hi n with_null))
    = (case v of None \<Rightarrow> (if with_null then 1 else 0) | Some k \<Rightarrow> (if lo \<le> k \<and> k \<le> hi then 1 else 0))"
proof -
  have r: "the (range_partitions lo hi n) = range_loop lo hi (range_step lo hi n) 0"
    using assms by (simp add: range_partitions_def)
  show ?thesis
  proof (cases v)
    case None
    then show ?thesis by (simp add: split_range_def r range_loop_null null_partition_def)
  next
    case (Some k)
    have "length (filter (\<lambda>p. selects (part_pred p) (Some k)) (range_loop lo hi (range_step lo hi n) 0))
       = (if k \<in> {lo..hi} then 1 else 0)"
      by (subst count_spans)
        (auto simp: range_loop_cover range_step_pos dest: range_loop_ranges)
    then show ?thesis using Some by (simp add: split_range_def r null_partition_def)
  qed
qed

section \<open>Properties\<close>

text \<open>Splitting \<open>[lo, hi]\<close> into \<open>n\<close> parts returns (the loop ends, also at the largest key) at
  most \<open>n\<close> ranges that list every key of \<open>[lo, hi]\<close> exactly once, in order.\<close>

theorem range_partitions_cover:
  assumes "0 < n" and "lo \<le> hi" and "hi - lo + 1 < 2 ^ 128"
  shows "\<exists>ps. range_partitions lo hi n = Some ps \<and> concat (map span_of ps) = [lo..hi]
     \<and> length ps \<le> n"
proof -
  have "length (range_loop lo hi (range_step lo hi n) 0) \<le> n"
    by (rule range_loop_length[OF range_step_pos _ range_step_bound]) (use assms in auto)
  then show ?thesis
    using assms(1) range_loop_cover[OF range_step_pos] by (simp add: range_partitions_def)
qed

text \<open>C7. A partitioned PostgreSQL read delivers each row exactly once: a row whose key the
  probe's bounds admit is selected by one partition, also a key inserted between
  the cursor and the lowest probed one, and a NULL key by one when the column
  is nullable and the read starts from no cursor.\<close>

theorem pg_partitions_read_once:
  assumes "pg_range_partitions has_expr oid n nullable above_key (Inr (Some lo, Some hi)) = Inr ps"
    and "1 < n" and "has_expr \<or> pg_is_range_partitionable oid" and "lo \<le> hi"
  shows "length (filter (\<lambda>p. selects (part_pred p) v) ps) =
    (case v of
       None \<Rightarrow> (if nullable \<and> above_key = None then 1 else 0)
     | Some k \<Rightarrow> (if (case above_key of None \<Rightarrow> lo \<le> k | Some c \<Rightarrow> c < k) \<and> k \<le> hi then 1 else 0))"
proof -
  have "ps = split_range (case above_key of None \<Rightarrow> lo | Some c \<Rightarrow> c + 1) hi n
               (nullable \<and> above_key = None)"
    using assms by (simp add: pg_range_partitions_def split: if_splits)
  then show ?thesis
    using split_range_selects[of n v] assms(2)
    by (auto split: option.splits)
qed

theorem pg_partitions_read_once_witness:
  "\<exists>ps. pg_range_partitions False INT8 4 False (Some 10) (Inr (Some 15, Some 50)) = Inr ps
     \<and> length (filter (\<lambda>p. selects (part_pred p) (Some 12)) ps) = 1"
proof -
  have a: "pg_is_range_partitionable INT8" by (simp add: pg_is_range_partitionable_def)
  then have "\<exists>ps. pg_range_partitions False INT8 4 False (Some 10) (Inr (Some 15, Some 50)) = Inr ps"
    by (simp add: pg_range_partitions_def)
  then obtain ps where ps: "pg_range_partitions False INT8 4 False (Some 10) (Inr (Some 15, Some 50)) = Inr ps"
    by blast
  show ?thesis using pg_partitions_read_once[OF ps, of "Some 12"] a ps by auto
qed

end
