(* ===== verification/QH_Types.thy ===== *)
theory QH_Types
  imports QH_Sql
begin

text \<open>
  \<open>types.rs\<close>: the three type systems a column crosses.  \<open>data_type\<close> is the part of
  Arrow's type language the engine names; the types of a source are a PostgreSQL OID, a
  MySQL wire type, a BigQuery field type or a ClickHouse type name.  The module
  prefixes of the source (\<open>oid\<close>, \<open>bigquery\<close>, \<open>mysql\<close>, \<open>clickhouse\<close>,
  \<open>arrow_frame\<close>) became name prefixes.  How Arrow prints a type it does not map is
  an argument.
\<close>

section \<open>Arrow types and columns\<close>

datatype time_unit = Second | Millisecond | Microsecond | Nanosecond

datatype data_type =
    Boolean | Int8 | Int16 | Int32 | Int64 | UInt8 | UInt16 | UInt32 | UInt64
  | Float32 | Float64 | Utf8 | Binary | Date32
  | Timestamp time_unit "string option"
  | Decimal128 int int
  | Decimal256 int int
  | Dictionary | NestedType | NullType | OtherType string

record column_type =
  ct_name :: string
  ct_type_id :: nat
  ct_nullable :: bool
  ct_arrow :: data_type
  ct_clickhouse_inner :: string
  ct_arbitrary_precision_decimal :: bool
  ct_declared_decimal :: "(int \<times> int) option"

section \<open>The range of a ClickHouse date\<close>

definition MIN_YEAR :: int where "MIN_YEAR = 1900"
definition MAX_YEAR :: int where "MAX_YEAR = 2299"
definition MIN_DAYS :: int where "MIN_DAYS = - 25567"
definition MAX_DAYS :: int where "MAX_DAYS = 120529"
definition MIN_MICROS :: int where "MIN_MICROS = MIN_DAYS * 86400 * 1000000"
definition MAX_MICROS :: int where "MAX_MICROS = (MAX_DAYS + 1) * 86400 * 1000000 - 1"

definition year_in_range :: "int \<Rightarrow> bool" where
  "year_in_range year \<longleftrightarrow> MIN_YEAR \<le> year \<and> year \<le> MAX_YEAR"

definition days_in_range :: "int \<Rightarrow> bool" where
  "days_in_range days \<longleftrightarrow> MIN_DAYS \<le> days \<and> days \<le> MAX_DAYS"

definition micros_in_range :: "int \<Rightarrow> bool" where
  "micros_in_range micros \<longleftrightarrow> MIN_MICROS \<le> micros \<and> micros \<le> MAX_MICROS"

fun may_coerce_to_null :: "data_type \<Rightarrow> bool" where
  "may_coerce_to_null Date32 = True"
| "may_coerce_to_null (Timestamp _ _) = True"
| "may_coerce_to_null (Decimal128 _ _) = True"
| "may_coerce_to_null _ = False"

section \<open>ClickHouse nullability\<close>

definition strip_low_cardinality :: "string \<Rightarrow> string option" where
  "strip_low_cardinality t =
     (case strip_prefix ''LowCardinality('' t of Some r \<Rightarrow> strip_suffix '')'' r | None \<Rightarrow> None)"

definition wrap_clickhouse_nullable :: "string \<Rightarrow> string" where
  "wrap_clickhouse_nullable inner =
     (case strip_low_cardinality inner of
        Some stripped \<Rightarrow>
          if starts_with ''Nullable('' stripped then inner
          else ''LowCardinality(Nullable('' @ stripped @ ''))''
      | None \<Rightarrow> ''Nullable('' @ inner @ '')'')"

definition clickhouse_type :: "column_type \<Rightarrow> string" where
  "clickhouse_type c =
     (if \<not> ct_nullable c then ct_clickhouse_inner c
      else wrap_clickhouse_nullable (ct_clickhouse_inner c))"

section \<open>PostgreSQL\<close>

datatype pg_oid = OID_BOOL | OID_BYTEA | OID_NAME | OID_INT8 | OID_INT2 | OID_INT4 | OID_TEXT
  | OID_OID | OID_JSON | OID_FLOAT4 | OID_FLOAT8 | OID_BPCHAR | OID_VARCHAR | OID_DATE | OID_TIME
  | OID_TIMESTAMP | OID_TIMESTAMPTZ | OID_NUMERIC | OID_UUID | OID_JSONB

fun oid :: "pg_oid \<Rightarrow> nat" where
  "oid OID_BOOL = 16" | "oid OID_BYTEA = 17" | "oid OID_NAME = 19" | "oid OID_INT8 = 20"
| "oid OID_INT2 = 21" | "oid OID_INT4 = 23" | "oid OID_TEXT = 25" | "oid OID_OID = 26"
| "oid OID_JSON = 114" | "oid OID_FLOAT4 = 700" | "oid OID_FLOAT8 = 701" | "oid OID_BPCHAR = 1042"
| "oid OID_VARCHAR = 1043" | "oid OID_DATE = 1082" | "oid OID_TIME = 1083"
| "oid OID_TIMESTAMP = 1114" | "oid OID_TIMESTAMPTZ = 1184" | "oid OID_NUMERIC = 1700"
| "oid OID_UUID = 2950" | "oid OID_JSONB = 3802"

definition UTC :: "string" where "UTC = ''UTC''"

definition ts_utc :: data_type where "ts_utc = Timestamp Microsecond (Some UTC)"
definition ts_naive :: data_type where "ts_naive = Timestamp Microsecond None"

definition DT6_UTC :: string where
  "DT6_UTC = ''DateTime64(6, '' @ quoted UTC @ '')''"

definition map_oid :: "nat \<Rightarrow> (data_type \<times> string) option" where
  "map_oid o' =
     (if o' = oid OID_BOOL then Some (Boolean, ''Bool'')
      else if o' = oid OID_INT2 then Some (Int16, ''Int16'')
      else if o' = oid OID_INT4 then Some (Int32, ''Int32'')
      else if o' = oid OID_OID then Some (UInt32, ''UInt32'')
      else if o' = oid OID_INT8 then Some (Int64, ''Int64'')
      else if o' = oid OID_FLOAT4 then Some (Float32, ''Float32'')
      else if o' = oid OID_FLOAT8 \<or> o' = oid OID_NUMERIC then Some (Float64, ''Float64'')
      else if o' \<in> {oid OID_TEXT, oid OID_VARCHAR, oid OID_BPCHAR, oid OID_NAME, oid OID_JSON, oid OID_JSONB}
        then Some (Utf8, ''String'')
      else if o' = oid OID_UUID then Some (Utf8, ''UUID'')
      else if o' = oid OID_BYTEA then Some (Binary, ''String'')
      else if o' = oid OID_DATE then Some (Date32, ''Date32'')
      else if o' = oid OID_TIMESTAMP then Some (ts_naive, ''DateTime64(6)'')
      else if o' = oid OID_TIMESTAMPTZ then Some (ts_utc, DT6_UTC)
      else if o' = oid OID_TIME then Some (Utf8, ''String'')
      else None)"

definition is_supported :: "nat \<Rightarrow> bool" where
  "is_supported o' \<longleftrightarrow> map_oid o' \<noteq> None"

section \<open>BigQuery\<close>

datatype bq_type = BqString | BqBytes | BqInteger | BqInt64 | BqFloat | BqFloat64 | BqBoolean
  | BqBool | BqTimestamp | BqDate | BqTime | BqDatetime | BqNumeric | BqBignumeric | BqDecimal
  | BqBigdecimal | BqJson | BqRecord | BqStruct | BqInterval

definition bq_type_names :: "(string \<times> bq_type) list" where
  "bq_type_names =
     [(''STRING'', BqString), (''BYTES'', BqBytes), (''INTEGER'', BqInteger), (''INT64'', BqInteger),
      (''FLOAT'', BqFloat), (''FLOAT64'', BqFloat), (''BOOLEAN'', BqBoolean), (''BOOL'', BqBoolean),
      (''TIMESTAMP'', BqTimestamp), (''DATE'', BqDate), (''TIME'', BqTime), (''DATETIME'', BqDatetime),
      (''NUMERIC'', BqNumeric), (''DECIMAL'', BqNumeric), (''BIGNUMERIC'', BqBignumeric),
      (''BIGDECIMAL'', BqBignumeric), (''JSON'', BqJson)]"

definition parse_bq_type_name :: "string \<Rightarrow> string \<Rightarrow> bq_type res" where
  "parse_bq_type_name col decl =
     (case map_of bq_type_names (uppercase (trim decl)) of
        Some t \<Rightarrow> Inr t
      | None \<Rightarrow> Inl (Config (''column '' @ quoted col @ '': unsupported declared BigQuery type ''
          @ quoted (uppercase (trim decl)) @ ''; expected one of STRING, BYTES, INTEGER, FLOAT, ''
          @ ''BOOLEAN, TIMESTAMP, DATE, TIME, DATETIME, NUMERIC, BIGNUMERIC, JSON'')))"

fun canonical_bq_type_name :: "bq_type \<Rightarrow> string" where
  "canonical_bq_type_name BqString = ''STRING''"
| "canonical_bq_type_name BqBytes = ''BYTES''"
| "canonical_bq_type_name BqInteger = ''INTEGER''"
| "canonical_bq_type_name BqInt64 = ''INTEGER''"
| "canonical_bq_type_name BqFloat = ''FLOAT''"
| "canonical_bq_type_name BqFloat64 = ''FLOAT''"
| "canonical_bq_type_name BqBoolean = ''BOOLEAN''"
| "canonical_bq_type_name BqBool = ''BOOLEAN''"
| "canonical_bq_type_name BqTimestamp = ''TIMESTAMP''"
| "canonical_bq_type_name BqDate = ''DATE''"
| "canonical_bq_type_name BqTime = ''TIME''"
| "canonical_bq_type_name BqDatetime = ''DATETIME''"
| "canonical_bq_type_name BqNumeric = ''NUMERIC''"
| "canonical_bq_type_name BqBignumeric = ''BIGNUMERIC''"
| "canonical_bq_type_name BqJson = ''JSON''"
| "canonical_bq_type_name _ = ''STRING''"

fun bq_map_type :: "bq_type \<Rightarrow> (nat \<times> data_type \<times> string) option" where
  "bq_map_type BqString = Some (1, Utf8, ''String'')"
| "bq_map_type BqJson = Some (1, Utf8, ''String'')"
| "bq_map_type BqBytes = Some (2, Binary, ''String'')"
| "bq_map_type BqInteger = Some (3, Int64, ''Int64'')"
| "bq_map_type BqInt64 = Some (3, Int64, ''Int64'')"
| "bq_map_type BqFloat = Some (4, Float64, ''Float64'')"
| "bq_map_type BqFloat64 = Some (4, Float64, ''Float64'')"
| "bq_map_type BqBoolean = Some (5, Boolean, ''Bool'')"
| "bq_map_type BqBool = Some (5, Boolean, ''Bool'')"
| "bq_map_type BqTimestamp = Some (6, ts_utc, DT6_UTC)"
| "bq_map_type BqDate = Some (7, Date32, ''Date32'')"
| "bq_map_type BqTime = Some (8, Utf8, ''String'')"
| "bq_map_type BqDatetime = Some (9, ts_naive, ''DateTime64(6)'')"
| "bq_map_type BqNumeric = Some (10, Float64, ''Float64'')"
| "bq_map_type BqBignumeric = Some (11, Float64, ''Float64'')"
| "bq_map_type BqDecimal = Some (11, Float64, ''Float64'')"
| "bq_map_type BqBigdecimal = Some (11, Float64, ''Float64'')"
| "bq_map_type _ = None"

fun arrow_to_bigquery_type :: "data_type \<Rightarrow> bq_type option" where
  "arrow_to_bigquery_type Boolean = Some BqBoolean"
| "arrow_to_bigquery_type Int8 = Some BqInteger"
| "arrow_to_bigquery_type Int16 = Some BqInteger"
| "arrow_to_bigquery_type Int32 = Some BqInteger"
| "arrow_to_bigquery_type Int64 = Some BqInteger"
| "arrow_to_bigquery_type UInt8 = Some BqInteger"
| "arrow_to_bigquery_type UInt16 = Some BqInteger"
| "arrow_to_bigquery_type UInt32 = Some BqInteger"
| "arrow_to_bigquery_type UInt64 = Some BqInteger"
| "arrow_to_bigquery_type Float32 = Some BqFloat"
| "arrow_to_bigquery_type Float64 = Some BqFloat"
| "arrow_to_bigquery_type Utf8 = Some BqString"
| "arrow_to_bigquery_type Binary = Some BqBytes"
| "arrow_to_bigquery_type Date32 = Some BqDate"
| "arrow_to_bigquery_type (Timestamp Microsecond None) = Some BqDatetime"
| "arrow_to_bigquery_type (Timestamp Microsecond (Some _)) = Some BqTimestamp"
| "arrow_to_bigquery_type (Decimal128 _ _) = Some BqNumeric"
| "arrow_to_bigquery_type _ = None"

section \<open>MySQL\<close>

datatype my_type = MYSQL_TYPE_DECIMAL | MYSQL_TYPE_TINY | MYSQL_TYPE_SHORT | MYSQL_TYPE_LONG
  | MYSQL_TYPE_FLOAT | MYSQL_TYPE_DOUBLE | MYSQL_TYPE_NULL | MYSQL_TYPE_TIMESTAMP
  | MYSQL_TYPE_LONGLONG | MYSQL_TYPE_INT24 | MYSQL_TYPE_DATE | MYSQL_TYPE_TIME
  | MYSQL_TYPE_DATETIME | MYSQL_TYPE_YEAR | MYSQL_TYPE_NEWDATE | MYSQL_TYPE_VARCHAR
  | MYSQL_TYPE_BIT | MYSQL_TYPE_TIMESTAMP2 | MYSQL_TYPE_DATETIME2 | MYSQL_TYPE_TIME2
  | MYSQL_TYPE_JSON | MYSQL_TYPE_NEWDECIMAL | MYSQL_TYPE_ENUM | MYSQL_TYPE_SET
  | MYSQL_TYPE_TINY_BLOB | MYSQL_TYPE_MEDIUM_BLOB | MYSQL_TYPE_LONG_BLOB | MYSQL_TYPE_BLOB
  | MYSQL_TYPE_VAR_STRING | MYSQL_TYPE_STRING | MYSQL_TYPE_GEOMETRY | MYSQL_TYPE_OTHER

definition map_mysql_type :: "my_type \<Rightarrow> bool \<Rightarrow> bool \<Rightarrow> bool \<Rightarrow> (data_type \<times> string) option" where
  "map_mysql_type col_type is_unsigned is_tinyint1 is_binary =
     (let int_of = (\<lambda>u us s ss. Some (if is_unsigned then (u, us) else (s, ss)));
          text_of = Some (if is_binary then Binary else Utf8, ''String'')
      in case col_type of
        MYSQL_TYPE_TINY \<Rightarrow>
          if is_tinyint1 then Some (Boolean, ''Bool'') else int_of UInt8 ''UInt8'' Int8 ''Int8''
      | MYSQL_TYPE_SHORT \<Rightarrow> int_of UInt16 ''UInt16'' Int16 ''Int16''
      | MYSQL_TYPE_YEAR \<Rightarrow> int_of UInt16 ''UInt16'' Int16 ''Int16''
      | MYSQL_TYPE_INT24 \<Rightarrow> int_of UInt32 ''UInt32'' Int32 ''Int32''
      | MYSQL_TYPE_LONG \<Rightarrow> int_of UInt32 ''UInt32'' Int32 ''Int32''
      | MYSQL_TYPE_LONGLONG \<Rightarrow> int_of UInt64 ''UInt64'' Int64 ''Int64''
      | MYSQL_TYPE_FLOAT \<Rightarrow> Some (Float32, ''Float32'')
      | MYSQL_TYPE_DOUBLE \<Rightarrow> Some (Float64, ''Float64'')
      | MYSQL_TYPE_DECIMAL \<Rightarrow> Some (Float64, ''Float64'')
      | MYSQL_TYPE_NEWDECIMAL \<Rightarrow> Some (Float64, ''Float64'')
      | MYSQL_TYPE_VARCHAR \<Rightarrow> text_of
      | MYSQL_TYPE_VAR_STRING \<Rightarrow> text_of
      | MYSQL_TYPE_STRING \<Rightarrow> text_of
      | MYSQL_TYPE_ENUM \<Rightarrow> Some (Utf8, ''String'')
      | MYSQL_TYPE_SET \<Rightarrow> Some (Utf8, ''String'')
      | MYSQL_TYPE_JSON \<Rightarrow> Some (Utf8, ''String'')
      | MYSQL_TYPE_TINY_BLOB \<Rightarrow> text_of
      | MYSQL_TYPE_MEDIUM_BLOB \<Rightarrow> text_of
      | MYSQL_TYPE_LONG_BLOB \<Rightarrow> text_of
      | MYSQL_TYPE_BLOB \<Rightarrow> text_of
      | MYSQL_TYPE_DATE \<Rightarrow> Some (Date32, ''Date32'')
      | MYSQL_TYPE_NEWDATE \<Rightarrow> Some (Date32, ''Date32'')
      | MYSQL_TYPE_DATETIME \<Rightarrow> Some (ts_utc, DT6_UTC)
      | MYSQL_TYPE_DATETIME2 \<Rightarrow> Some (ts_utc, DT6_UTC)
      | MYSQL_TYPE_TIMESTAMP \<Rightarrow> Some (ts_utc, DT6_UTC)
      | MYSQL_TYPE_TIMESTAMP2 \<Rightarrow> Some (ts_utc, DT6_UTC)
      | MYSQL_TYPE_TIME \<Rightarrow> Some (Utf8, ''String'')
      | MYSQL_TYPE_TIME2 \<Rightarrow> Some (Utf8, ''String'')
      | MYSQL_TYPE_BIT \<Rightarrow> Some (Binary, ''String'')
      | _ \<Rightarrow> None)"

end
