(* ===== verification/QH_Ch_Types.thy ===== *)
theory QH_Ch_Types
  imports QH_Types
begin

text \<open>
  The ClickHouse half of \<open>types.rs\<close>: reading a \<open>DESCRIBE\<close>-reported type name
  (\<open>map_ch_type\<close>), the type a column is \<open>CAST\<close> to so that it arrives as the Arrow type
  planned for it (\<open>arrow_to_ch_cast_type\<close>), and the schema of an in-memory frame built on
  the latter (\<open>arrow_frame\<close>).  The theorem of the theory is that the first two stay in
  lockstep.
\<close>

section \<open>Type names\<close>

fun find_char :: "char \<Rightarrow> string \<Rightarrow> nat option" where
  "find_char c [] = None"
| "find_char c (x # xs) = (if x = c then Some 0 else map_option Suc (find_char c xs))"

definition rfind_char :: "char \<Rightarrow> string \<Rightarrow> nat option" where
  "rfind_char c s = map_option (\<lambda>i. length s - 1 - i) (find_char c (rev s))"

fun split_all :: "char \<Rightarrow> string \<Rightarrow> string list" where
  "split_all c [] = [[]]"
| "split_all c (x # xs) =
     (if x = c then [] # split_all c xs
      else (case split_all c xs of h # t \<Rightarrow> (x # h) # t | [] \<Rightarrow> [[x]]))"

definition trim_end :: "string \<Rightarrow> string" where
  "trim_end s = rev (dropWhile is_ws (rev s))"

definition strip_wrapper :: "string \<Rightarrow> string \<Rightarrow> string option" where
  "strip_wrapper t name =
     (case strip_prefix name t of None \<Rightarrow> None | Some rest \<Rightarrow>
      (case strip_prefix ''('' rest of None \<Rightarrow> None | Some rest \<Rightarrow> strip_suffix '')'' rest))"

lemma strip_wrapper_length: "strip_wrapper t name = Some r \<Longrightarrow> length r < length t"
  by (auto simp: strip_wrapper_def strip_prefix_Some strip_suffix_Some split: option.splits)

function split_nullable :: "string \<Rightarrow> string \<times> bool" where
  "split_nullable t0 =
     (let t = trim t0 in
      case strip_wrapper t ''Nullable'' of
        Some inner \<Rightarrow> (trim inner, True)
      | None \<Rightarrow>
          (case strip_wrapper t ''LowCardinality'' of
             Some inner \<Rightarrow>
               (let (inner', nullable) = split_nullable inner
                in (''LowCardinality('' @ inner' @ '')'', nullable))
           | None \<Rightarrow> (t, False)))"
  by pat_completeness auto
termination
  by (relation "measure length")
    (auto dest!: strip_wrapper_length intro: less_le_trans[OF _ trim_length])

declare split_nullable.simps [simp del]

definition base_name :: "string \<Rightarrow> string" where
  "base_name t = (case find_char CHR ''('' t of Some i \<Rightarrow> trim_end (take i t) | None \<Rightarrow> t)"

definition type_args :: "string \<Rightarrow> string list" where
  "type_args t =
     (case find_char CHR ''('' t of None \<Rightarrow> [] | Some opn \<Rightarrow>
      (case rfind_char CHR '')'' t of None \<Rightarrow> [] | Some cls \<Rightarrow>
        if cls \<le> opn + 1 then []
        else map trim (split_all CHR '','' (drop (opn + 1) (take cls t)))))"

definition unquote_arg :: "string \<Rightarrow> string" where
  "unquote_arg s = trim_matches APOS (trim s)"

definition sized_decimal_precision :: "string \<Rightarrow> int option" where
  "sized_decimal_precision base =
     (if base = ''Decimal32'' then Some 9 else if base = ''Decimal64'' then Some 18
      else if base = ''Decimal128'' then Some 38 else None)"

section \<open>Reading a type name\<close>

record ch_column =
  ch_type_id :: nat
  ch_arrow :: data_type
  ch_inner :: string
  ch_nullable :: bool
  ch_arbitrary_precision :: bool

definition CH_DECIMAL :: nat where "CH_DECIMAL = 12"

definition ch_is_range_partitionable :: "nat \<Rightarrow> bool" where
  "ch_is_range_partitionable i \<longleftrightarrow> i \<in> {2, 3, 4, 5, 6, 7, 8, 9}"

definition ch_simple_types :: "(string \<times> (nat \<times> data_type)) list" where
  "ch_simple_types =
     [(''Bool'', (1, Boolean)), (''Boolean'', (1, Boolean)),
      (''Int8'', (2, Int8)), (''Int16'', (3, Int16)), (''Int32'', (4, Int32)), (''Int64'', (5, Int64)),
      (''UInt8'', (6, UInt8)), (''UInt16'', (7, UInt16)), (''UInt32'', (8, UInt32)), (''UInt64'', (9, UInt64)),
      (''Float32'', (10, Float32)), (''Float64'', (11, Float64)),
      (''String'', (13, Utf8)), (''FixedString'', (13, Utf8)), (''UUID'', (14, Utf8)),
      (''IPv4'', (18, Utf8)), (''IPv6'', (18, Utf8)),
      (''Enum'', (17, Utf8)), (''Enum8'', (17, Utf8)), (''Enum16'', (17, Utf8)),
      (''Date'', (15, Date32)), (''Date32'', (15, Date32))]"

definition ch_datetime_tz :: "string \<Rightarrow> string" where
  "ch_datetime_tz payload =
     (case type_args payload of
        [] \<Rightarrow> UTC
      | args \<Rightarrow> (let a = unquote_arg (last args)
                in if CHR ''/'' \<in> set a \<or> eq_ignore_case a UTC then a else UTC))"

definition ch_decimal_type :: "string \<Rightarrow> string \<Rightarrow> (nat \<times> data_type) option" where
  "ch_decimal_type base payload =
     (case (case (sized_decimal_precision base, type_args payload) of
              (Some p, [s]) \<Rightarrow> map_option (\<lambda>s. (p, s)) (parse_signed 8 s)
            | (None, [p, s]) \<Rightarrow>
                (case parse_unsigned 8 p of None \<Rightarrow> None
                 | Some p \<Rightarrow> map_option (\<lambda>s. (p, s)) (parse_signed 8 s))
            | _ \<Rightarrow> None) of
        None \<Rightarrow> None
      | Some (p, s) \<Rightarrow>
          if p = 0 \<or> 38 < p \<or> s < 0 \<or> p < s then None else Some (CH_DECIMAL, Decimal128 p s))"

definition ch_base_type :: "string \<Rightarrow> (nat \<times> data_type) option" where
  "ch_base_type payload =
     (let base = base_name payload in
      case map_of ch_simple_types base of
        Some r \<Rightarrow> Some r
      | None \<Rightarrow>
          if base = ''DateTime'' \<or> base = ''DateTime64''
            then Some (16, Timestamp Microsecond (Some (ch_datetime_tz payload)))
          else if base \<in> {''Decimal'', ''Decimal32'', ''Decimal64'', ''Decimal128''}
            then ch_decimal_type base payload
          else None)"

definition map_ch_type :: "string \<Rightarrow> ch_column option" where
  "map_ch_type declared =
     (let (inner, nullable) = split_nullable declared;
          payload = (case strip_wrapper inner ''LowCardinality'' of Some p \<Rightarrow> p | None \<Rightarrow> inner)
      in map_option (\<lambda>(i, arrow).
           \<lparr>ch_type_id = i, ch_arrow = arrow, ch_inner = inner, ch_nullable = nullable,
            ch_arbitrary_precision = (i = CH_DECIMAL)\<rparr>)
         (ch_base_type payload))"

section \<open>The cast a column is read through\<close>

fun arrow_to_ch_cast_type :: "data_type \<Rightarrow> string option" where
  "arrow_to_ch_cast_type Boolean = Some ''Bool''"
| "arrow_to_ch_cast_type Int8 = Some ''Int8''"
| "arrow_to_ch_cast_type Int16 = Some ''Int16''"
| "arrow_to_ch_cast_type Int32 = Some ''Int32''"
| "arrow_to_ch_cast_type Int64 = Some ''Int64''"
| "arrow_to_ch_cast_type UInt8 = Some ''UInt8''"
| "arrow_to_ch_cast_type UInt16 = Some ''UInt16''"
| "arrow_to_ch_cast_type UInt32 = Some ''UInt32''"
| "arrow_to_ch_cast_type UInt64 = Some ''UInt64''"
| "arrow_to_ch_cast_type Float32 = Some ''Float32''"
| "arrow_to_ch_cast_type Float64 = Some ''Float64''"
| "arrow_to_ch_cast_type Utf8 = Some ''String''"
| "arrow_to_ch_cast_type Binary = Some ''String''"
| "arrow_to_ch_cast_type Date32 = Some ''Date32''"
| "arrow_to_ch_cast_type (Timestamp _ tz) =
     Some (''DateTime64(6, ''
       @ quoted (replace_char APOS [BSL, APOS] (case tz of Some z \<Rightarrow> z | None \<Rightarrow> UTC)) @ '')'')"
| "arrow_to_ch_cast_type (Decimal128 p s) =
     Some (''Decimal('' @ show_int p @ '', '' @ show_int s @ '')'')"
| "arrow_to_ch_cast_type _ = None"

section \<open>The schema of a frame\<close>

definition ch_type_for :: "data_type \<Rightarrow> string option" where
  "ch_type_for arrow =
     (case arrow of
        Timestamp u tz \<Rightarrow>
          if u \<noteq> Microsecond then None
          else (case tz of None \<Rightarrow> Some ''DateTime64(6)'' | Some _ \<Rightarrow> arrow_to_ch_cast_type arrow)
      | _ \<Rightarrow> arrow_to_ch_cast_type arrow)"

definition frame_unsupported :: "(data_type \<Rightarrow> string) \<Rightarrow> string \<Rightarrow> data_type \<Rightarrow> etl_error" where
  "frame_unsupported show_type column arrow =
     (let hint = (case arrow of
          Timestamp u _ \<Rightarrow> if u \<noteq> Microsecond
            then '' - quickhouse standardises on microsecond timestamps; cast the column first'' else []
        | Dictionary \<Rightarrow> '' - decode the dictionary first''
        | NestedType \<Rightarrow> '' - nested types have no destination column type; serialize it''
        | Decimal256 _ _ \<Rightarrow> '' - quickhouse has no Decimal256''
        | NullType \<Rightarrow> '' - the column holds only nulls, so there is no type to infer; give it one''
        | _ \<Rightarrow> [])
      in UnsupportedType ''DataFrame'' column (show_type arrow @ hint))"

record frame_field =
  ff_name :: string
  ff_type :: data_type
  ff_nullable :: bool

fun frame_columns :: "(data_type \<Rightarrow> string) \<Rightarrow> string list \<Rightarrow> frame_field list \<Rightarrow> column_type list res" where
  "frame_columns show_type seen [] = Inr []"
| "frame_columns show_type seen (f # fs) =
     (if ff_name f \<in> set seen
      then Inl (Config (''duplicate column '' @ quoted (ff_name f) @ '' in the frame''))
      else case ch_type_for (ff_type f) of
          None \<Rightarrow> Inl (frame_unsupported show_type (ff_name f) (ff_type f))
        | Some inner \<Rightarrow>
            and_then (frame_columns show_type (ff_name f # seen) fs) (\<lambda>cs.
              Inr (\<lparr>ct_name = ff_name f, ct_type_id = 0, ct_nullable = ff_nullable f,
                    ct_arrow = ff_type f, ct_clickhouse_inner = inner,
                    ct_arbitrary_precision_decimal =
                      (case ff_type f of Decimal128 _ _ \<Rightarrow> True | _ \<Rightarrow> False),
                    ct_declared_decimal = None\<rparr> # cs)))"

definition columns_from_arrow_schema :: "(data_type \<Rightarrow> string) \<Rightarrow> frame_field list \<Rightarrow> column_type list res" where
  "columns_from_arrow_schema show_type frame_fields =
     and_then (frame_columns show_type [] frame_fields) (\<lambda>cols.
       if cols = [] then Inl (Config ''the frame has no columns; there is nothing to transfer'')
       else Inr cols)"

section \<open>The two mappings agree\<close>

definition decodable_arrow :: "data_type \<Rightarrow> bool" where
  "decodable_arrow a \<longleftrightarrow>
     (case a of
        Timestamp u tz \<Rightarrow> u = Microsecond \<and> tz \<noteq> None
      | Decimal128 p s \<Rightarrow> 1 \<le> p \<and> p \<le> 38 \<and> 0 \<le> s \<and> s \<le> p
      | Binary \<Rightarrow> False | Decimal256 _ _ \<Rightarrow> False | Dictionary \<Rightarrow> False | NestedType \<Rightarrow> False
      | NullType \<Rightarrow> False | OtherType _ \<Rightarrow> False
      | _ \<Rightarrow> True)"

lemma simple_types_decodable: "(n, (i, a)) \<in> set ch_simple_types \<Longrightarrow> decodable_arrow a"
  by (auto simp: ch_simple_types_def decodable_arrow_def)

lemma parse_unsigned_nonneg: "parse_unsigned w s = Some x \<Longrightarrow> 0 \<le> x"
  by (auto simp: parse_unsigned_def checked_unsigned_def in_unsigned_def Let_def split: if_splits)

lemma ch_decimal_type_decodable: "ch_decimal_type base payload = Some (i, a) \<Longrightarrow> decodable_arrow a"
  by (auto simp: ch_decimal_type_def decodable_arrow_def sized_decimal_precision_def
      dest: parse_unsigned_nonneg split: option.splits list.splits if_splits prod.splits)

lemma ch_base_type_decodable: "ch_base_type payload = Some (i, a) \<Longrightarrow> decodable_arrow a"
  by (auto simp: ch_base_type_def Let_def decodable_arrow_def[of "Timestamp _ _"]
      dest: ch_decimal_type_decodable map_of_SomeD intro: simple_types_decodable
      split: option.splits if_splits)

definition plain_tz :: "string \<Rightarrow> bool" where
  "plain_tz z \<longleftrightarrow> list_all (\<lambda>c. is_alnum c \<or> c \<in> set ''/_+-'') z
     \<and> (CHR ''/'' \<in> set z \<or> eq_ignore_case z UTC)"

lemma dropWhile_hd: "s \<noteq> [] \<Longrightarrow> \<not> P (hd s) \<Longrightarrow> dropWhile P s = s"
  by (cases s) auto

lemma trim_ends: "s \<noteq> [] \<Longrightarrow> \<not> is_ws (hd s) \<Longrightarrow> \<not> is_ws (last s) \<Longrightarrow> trim s = s"
  by (simp add: trim_def trim_start_def dropWhile_hd hd_rev)

lemma find_char_append: "c \<notin> set a \<Longrightarrow> find_char c (a @ c # b) = Some (length a)"
  by (induction a) auto

lemma rfind_char_last: "rfind_char c (s @ [c]) = Some (length s)"
  by (simp add: rfind_char_def)

lemma split_all_none: "c \<notin> set a \<Longrightarrow> split_all c a = [a]"
  by (induction a) auto

lemma split_all_append: "c \<notin> set a \<Longrightarrow> split_all c (a @ c # b) = a # split_all c b"
  by (induction a) auto

lemma show_int_chars: "c \<in> set (show_int i) \<Longrightarrow> is_digit c \<or> c = CHR ''-''"
  using all_digits_show_nat[of "nat i"] all_digits_show_nat[of "nat (- i)"]
  by (auto simp: show_int_def list_all_iff split: if_splits)

lemma trim_show_int: "trim (show_int i) = show_int i"
proof (rule trim_no_ws)
  have "\<not> is_ws CHR ''-''" by (simp add: is_ws_def code_def)
  then have "\<not> is_ws c" if "c \<in> set (show_int i)" for c
    using show_int_chars[OF that] is_digit_not_ws by blast
  then show "list_all (\<lambda>c. \<not> is_ws c) (show_int i)" by (simp add: list_all_iff)
qed

lemma show_int_no: "\<not> is_digit c \<Longrightarrow> c \<noteq> CHR ''-'' \<Longrightarrow> c \<notin> set (show_int i)"
  using show_int_chars by blast

lemma show_int_not_Nil: "show_int i \<noteq> []"
  by (simp add: show_int_def)

lemma parse_unsigned_show_int:
  assumes "in_unsigned w i" shows "parse_unsigned w (show_int i) = Some i"
proof -
  have i: "0 \<le> i" using assms by (simp add: in_unsigned_def)
  obtain c r where cr: "show_nat (nat i) = c # r" by (cases "show_nat (nat i)") auto
  have dg: "all_digits (c # r)" using cr all_digits_show_nat by metis
  then have "c \<noteq> CHR ''+''" by (auto simp: is_digit_def code_def)
  moreover have "read_nat (c # r) = nat i" using cr read_show_nat by metis
  ultimately show ?thesis using i cr dg assms
    by (simp add: parse_unsigned_def show_int_def checked_unsigned_def)
qed

lemma split_nullable_plain:
  assumes "trim t = t" and "strip_wrapper t ''Nullable'' = None" and "strip_wrapper t ''LowCardinality'' = None"
  shows "split_nullable t = (t, False)"
  using assms by (subst split_nullable.simps) simp

lemma type_args_params:
  assumes "CHR ''('' \<notin> set name" and "body \<noteq> []"
  shows "type_args (name @ ''('' @ body @ '')'') = map trim (split_all CHR '','' body)"
proof -
  have o: "find_char CHR ''('' (name @ ''('' @ body @ '')'') = Some (length name)"
    using find_char_append[OF assms(1)] by simp
  have c: "rfind_char CHR '')'' (name @ ''('' @ body @ '')'') = Some (length name + 1 + length body)"
    using rfind_char_last[of "CHR '')''" "name @ ''('' @ body"] by simp
  show ?thesis unfolding type_args_def o c using assms(2) by simp
qed

lemma base_name_params:
  "CHR ''('' \<notin> set name \<Longrightarrow> trim_end name = name \<Longrightarrow> base_name (name @ ''('' @ rest) = name"
  using find_char_append[of "CHR ''(''" name rest] by (simp add: base_name_def)

lemma map_ch_type_payload:
  assumes "split_nullable t = (t, False)" and "strip_wrapper t ''LowCardinality'' = None"
    and "ch_base_type t = Some (i, a)"
  shows "\<exists>c. map_ch_type t = Some c \<and> ch_arrow c = a \<and> \<not> ch_nullable c"
  using assms by (simp add: map_ch_type_def)

lemma cast_decimal:
  assumes "1 \<le> p" and "p \<le> 38" and "0 \<le> s" and "s \<le> p"
  shows "\<exists>c. map_ch_type (''Decimal('' @ show_int p @ '', '' @ show_int s @ '')'') = Some c
    \<and> ch_arrow c = Decimal128 p s \<and> \<not> ch_nullable c"
proof -
  let ?body = "show_int p @ '', '' @ show_int s"
  let ?t = "''Decimal'' @ ''('' @ ?body @ '')''"
  have nc: "CHR '','' \<notin> set (show_int i)" for i
    by (rule show_int_no) (auto simp: is_digit_def code_def)
  have "split_all CHR '','' ?body = [show_int p, '' '' @ show_int s]"
    using split_all_append[OF nc] split_all_none[of "CHR '',''" "'' '' @ show_int s"] nc by simp
  moreover have "trim ('' '' @ show_int s) = show_int s"
    using trim_show_int[of s] by (simp add: trim_def trim_start_def is_ws_def code_def)
  ultimately have args: "type_args ?t = [show_int p, show_int s]"
    using type_args_params[of "''Decimal''" ?body] show_int_not_Nil by (simp add: trim_show_int)
  have base: "base_name ?t = ''Decimal''"
    using base_name_params[of "''Decimal''" "?body @ '')''"] by (simp add: trim_end_def is_ws_def code_def)
  have pu: "parse_unsigned 8 (show_int p) = Some p" "parse_signed 8 (show_int s) = Some s"
    using assms by (auto intro!: parse_unsigned_show_int parse_signed_show_int simp: in_unsigned_def in_signed_def)
  have "ch_decimal_type ''Decimal'' ?t = Some (CH_DECIMAL, Decimal128 p s)"
    unfolding ch_decimal_type_def args using assms pu by (simp add: sized_decimal_precision_def)
  then have "ch_base_type ?t = Some (CH_DECIMAL, Decimal128 p s)"
    unfolding ch_base_type_def Let_def base by (simp add: ch_simple_types_def)
  moreover have w: "strip_wrapper ?t n = None" if "n \<in> {''Nullable'', ''LowCardinality''}" for n
    using that by (auto simp: strip_wrapper_def strip_prefix_def)
  moreover have "trim ?t = ?t" by (rule trim_ends) (auto simp: is_ws_def code_def)
  then have "split_nullable ?t = (?t, False)" by (rule split_nullable_plain) (rule w, simp)+
  ultimately show ?thesis using map_ch_type_payload[of ?t] by simp
qed

lemma plain_tz_chars:
  assumes "plain_tz z" and "c \<in> set z"
  shows "\<not> is_ws c \<and> c \<noteq> CHR '','' \<and> c \<noteq> CHR ''('' \<and> c \<noteq> CHR '')'' \<and> c \<noteq> APOS"
proof -
  have "is_alnum c \<or> c \<in> set ''/_+-''" using assms by (auto simp: plain_tz_def list_all_iff)
  then show ?thesis
    by (auto simp: is_alnum_def is_digit_def is_upper_def is_lower_def is_ws_def code_def APOS_def)
qed

lemma replace_char_absent: "c \<notin> set s \<Longrightarrow> replace_char c r s = s"
  by (induction s) (auto simp: replace_char_def)

lemma cast_datetime:
  assumes "plain_tz z"
  shows "\<exists>c. map_ch_type (''DateTime64(6, '' @ quoted z @ '')'') = Some c
    \<and> ch_arrow c = Timestamp Microsecond (Some z) \<and> \<not> ch_nullable c"
proof -
  note zc = plain_tz_chars[OF assms]
  let ?body = "''6, '' @ quoted z"
  let ?t = "''DateTime64'' @ ''('' @ ?body @ '')''"
  have qn: "CHR '','' \<notin> set (quoted z)" "\<And>x. x \<in> set (quoted z) \<Longrightarrow> \<not> is_ws x"
    using zc by (auto simp: quoted_def is_ws_def code_def)
  have "split_all CHR '','' ?body = [''6'', '' '' @ quoted z]"
    using split_all_none[of "CHR '',''" "'' '' @ quoted z"] qn by simp
  moreover have tq: "trim (quoted z) = quoted z" using qn by (intro trim_no_ws) (auto simp: list_all_iff)
  moreover have "trim ('' '' @ quoted z) = quoted z"
    using tq by (simp add: trim_def trim_start_def is_ws_def code_def)
  moreover have "trim ''6'' = ''6''" by code_simp
  ultimately have args: "type_args ?t = [''6'', quoted z]"
    using type_args_params[of "''DateTime64''" ?body] by simp
  have nz: "dropWhile (\<lambda>x. x = APOS) (rev z) = rev z" "dropWhile (\<lambda>x. x = APOS) z = z" "z \<noteq> []"
    using zc assms by (auto simp: plain_tz_def eq_ignore_case_def UTC_def dropWhile_eq_self_iff hd_rev
        intro: hd_in_set last_in_set)
  have "hd z \<noteq> APOS" using nz(3) zc by (metis hd_in_set)
  then have hd: "dropWhile (\<lambda>x. x = APOS) (z @ [APOS]) = z @ [APOS]"
    using nz(3) by (intro dropWhile_hd) auto
  have "unquote_arg (quoted z) = z"
    unfolding unquote_arg_def tq by (simp add: trim_matches_def quoted_def[folded APOS_def] hd nz)
  then have tz: "ch_datetime_tz ?t = z"
    using assms unfolding ch_datetime_tz_def args by (auto simp: plain_tz_def Let_def)
  have base: "base_name ?t = ''DateTime64''"
    using base_name_params[of "''DateTime64''" "?body @ '')''"] by (simp add: trim_end_def is_ws_def code_def)
  have "ch_base_type ?t = Some (16, Timestamp Microsecond (Some z))"
    unfolding ch_base_type_def Let_def base tz by (simp add: ch_simple_types_def)
  moreover have w: "strip_wrapper ?t n = None" if "n \<in> {''Nullable'', ''LowCardinality''}" for n
    using that by (auto simp: strip_wrapper_def strip_prefix_def)
  moreover have "trim ?t = ?t" by (rule trim_ends) (auto simp: is_ws_def code_def)
  then have "split_nullable ?t = (?t, False)" by (rule split_nullable_plain) (rule w, simp)+
  ultimately show ?thesis using map_ch_type_payload[of ?t] by simp
qed

lemma simple_roundtrip:
  "list_all (\<lambda>a. case arrow_to_ch_cast_type a of None \<Rightarrow> False
      | Some t \<Rightarrow> (case map_ch_type t of None \<Rightarrow> False | Some c \<Rightarrow> ch_arrow c = a \<and> \<not> ch_nullable c))
    [Boolean, Int8, Int16, Int32, Int64, UInt8, UInt16, UInt32, UInt64, Float32, Float64, Utf8, Date32]"
  by code_simp

text \<open>C10. Every type a ClickHouse column is read as has a cast, and reading the cast's name gives
  the same Arrow type, not nullable: the two mappings are in lockstep, for every
  declared type with a time zone of ordinary characters.\<close>

theorem ch_types_lockstep:
  assumes "map_ch_type declared = Some c"
    and "\<And>u z. ch_arrow c = Timestamp u (Some z) \<Longrightarrow> plain_tz z"
  shows "\<exists>t c'. arrow_to_ch_cast_type (ch_arrow c) = Some t \<and> map_ch_type t = Some c'
     \<and> ch_arrow c' = ch_arrow c \<and> \<not> ch_nullable c'"
proof -
  have d: "decodable_arrow (ch_arrow c)"
    using assms(1) by (auto simp: map_ch_type_def ch_base_type_decodable split: prod.splits)
  show ?thesis
  proof (cases "ch_arrow c")
    case (Timestamp u tz)
    then obtain z where z: "u = Microsecond" "tz = Some z" "plain_tz z"
      using d assms(2) by (auto simp: decodable_arrow_def)
    then have "APOS \<notin> set z" using plain_tz_chars by blast
    then show ?thesis using cast_datetime[OF z(3)] z Timestamp by (auto simp: replace_char_absent)
  next
    case (Decimal128 p s)
    then show ?thesis using cast_decimal[of p s] d by (auto simp: decodable_arrow_def)
  qed (use d simple_roundtrip in \<open>auto simp: decodable_arrow_def split: option.splits\<close>)
qed

theorem ch_types_lockstep_witness:
  "\<exists>t c'. arrow_to_ch_cast_type (Decimal128 18 4) = Some t \<and> map_ch_type t = Some c'
     \<and> ch_arrow c' = Decimal128 18 4 \<and> \<not> ch_nullable c'"
proof -
  have "map_option ch_arrow (map_ch_type ''Nullable(Decimal64(4))'') = Some (Decimal128 18 4)"
    by code_simp
  then obtain c where "map_ch_type ''Nullable(Decimal64(4))'' = Some c" "ch_arrow c = Decimal128 18 4"
    by (cases "map_ch_type ''Nullable(Decimal64(4))''") auto
  from ch_types_lockstep[OF this(1)] this(2) show ?thesis by simp
qed

end
