(* ===== verification/QH_Copy_Values.thy ===== *)
theory QH_Copy_Values
  imports QH_Types QH_Decimal
begin

text \<open>
  The value half of \<open>decode.rs\<close>: one non-NULL field of a PostgreSQL binary \<open>COPY\<close> row
  decoded into the cell its column builder appends.  A field's bytes are a
  \<open>string\<close>, one \<open>char\<close> per byte.  A cell of a float column holds the IEEE bits; the
  conversion of a \<open>numeric\<close>'s base-10000 digits to the nearest \<open>f64\<close>
  (\<open>numeric_digits_to_f64\<close>) is the argument \<open>f64_bits\<close>.  Arithmetic that Rust wraps in a
  release build (a negative length cast to \<open>usize\<close>) is written out.
\<close>

section \<open>Bytes\<close>

definition be_unsigned :: "string \<Rightarrow> int" where
  "be_unsigned s = foldl (\<lambda>a c. 256 * a + int (code c)) 0 s"

definition be_signed :: "nat \<Rightarrow> string \<Rightarrow> int" where
  "be_signed w s = (let u = be_unsigned s in if 2 ^ (w - 1) \<le> u then u - 2 ^ w else u)"

definition short_field :: "string \<Rightarrow> string \<Rightarrow> nat \<Rightarrow> etl_error" where
  "short_field n ty got =
     Internal (''expected '' @ n @ ''-byte '' @ ty @ '' field, got '' @ show_nat got @ '' byte(s)'')"

definition read_i16 :: "string \<Rightarrow> int res" where
  "read_i16 buf = (if length buf < 2 then Inl (short_field ''a 2'' ''int2'' (length buf))
     else Inr (be_signed 16 (take 2 buf)))"

definition read_i32 :: "string \<Rightarrow> int res" where
  "read_i32 buf = (if length buf < 4 then Inl (short_field ''a 4'' ''int4'' (length buf))
     else Inr (be_signed 32 (take 4 buf)))"

definition read_i64 :: "string \<Rightarrow> int res" where
  "read_i64 buf = (if length buf < 8 then Inl (short_field ''an 8'' ''int8'' (length buf))
     else Inr (be_signed 64 (take 8 buf)))"

text \<open>\<open>std::str::from_utf8\<close>: the well-formed byte sequences of the Unicode standard.\<close>

definition cont :: "nat \<Rightarrow> nat \<Rightarrow> char \<Rightarrow> bool" where
  "cont lo hi c \<longleftrightarrow> lo \<le> code c \<and> code c \<le> hi"

definition utf8_head2 :: "char \<Rightarrow> char \<Rightarrow> bool" where
  "utf8_head2 a b \<longleftrightarrow> cont 194 223 a \<and> cont 128 191 b"

definition utf8_head3 :: "char \<Rightarrow> char \<Rightarrow> char \<Rightarrow> bool" where
  "utf8_head3 a b c \<longleftrightarrow>
     ((code a = 224 \<and> cont 160 191 b) \<or> ((cont 225 236 a \<or> cont 238 239 a) \<and> cont 128 191 b)
      \<or> (code a = 237 \<and> cont 128 159 b)) \<and> cont 128 191 c"

definition utf8_head4 :: "char \<Rightarrow> char \<Rightarrow> char \<Rightarrow> char \<Rightarrow> bool" where
  "utf8_head4 a b c d \<longleftrightarrow>
     ((code a = 240 \<and> cont 144 191 b) \<or> (cont 241 243 a \<and> cont 128 191 b)
      \<or> (code a = 244 \<and> cont 128 143 b)) \<and> cont 128 191 c \<and> cont 128 191 d"

fun valid_utf8 :: "string \<Rightarrow> bool" where
  "valid_utf8 [] = True"
| "valid_utf8 (a # s) =
     (if code a < 128 then valid_utf8 s
      else case s of
        [] \<Rightarrow> False
      | b # s2 \<Rightarrow>
          if utf8_head2 a b then valid_utf8 s2
          else case s2 of
            [] \<Rightarrow> False
          | c # s3 \<Rightarrow>
              if utf8_head3 a b c then valid_utf8 s3
              else case s3 of
                [] \<Rightarrow> False
              | d # s4 \<Rightarrow> if utf8_head4 a b c d then valid_utf8 s4 else False)"

section \<open>Text renderings\<close>

definition hex_digit :: "nat \<Rightarrow> char" where
  "hex_digit n = (if n < 10 then char_of (48 + n) else char_of (87 + n))"

definition hex_byte :: "char \<Rightarrow> string" where
  "hex_byte c = [hex_digit (code c div 16), hex_digit (code c mod 16)]"

definition format_uuid :: "string \<Rightarrow> string" where
  "format_uuid b = concat (map (\<lambda>(i, byte).
     (if i \<in> {4, 6, 8, 10} then ''-'' else []) @ hex_byte byte) (enumerate 0 b))"

definition format_pg_time :: "int \<Rightarrow> string" where
  "format_pg_time micros0 =
     (let micros = max micros0 0;
          sub = micros mod 1000000;
          total_secs = micros div 1000000;
          h = total_secs div 3600; m = (total_secs mod 3600) div 60; s = total_secs mod 60;
          hms = show_padded 2 (nat h) @ '':'' @ show_padded 2 (nat m) @ '':'' @ show_padded 2 (nat s)
      in if 0 < sub then hms @ ''.'' @ show_padded 6 (nat sub) else hms)"

section \<open>Numerics\<close>

datatype numeric_wire = NumValue bool int int | NumMagnitudeOverflow | NanOrInf

definition num_digit :: "string \<Rightarrow> nat \<Rightarrow> int" where
  "num_digit buf i = be_signed 16 (take 2 (drop (8 + 2 * i) buf))"

fun push_places :: "int \<Rightarrow> int \<Rightarrow> int \<Rightarrow> int list \<Rightarrow> int \<times> int" where
  "push_places magnitude kept digit [] = (magnitude, kept)"
| "push_places magnitude kept digit (place # places) =
     (case (case checked 128 (magnitude * 10) of None \<Rightarrow> None
            | Some m \<Rightarrow> checked 128 (m + remn (quot digit place) 10)) of
        Some m \<Rightarrow> push_places m (kept + 1) digit places
      | None \<Rightarrow> (magnitude, kept))"

text \<open>The digit loop from group \<open>i\<close> on; \<open>fuel\<close> is the number of groups left.\<close>

datatype numeric_loop = LoopEnd int | LoopCut int int | LoopOverflow

fun numeric_groups :: "string \<Rightarrow> int \<Rightarrow> int \<Rightarrow> nat \<Rightarrow> nat \<Rightarrow> numeric_loop" where
  "numeric_groups buf weight magnitude i 0 = LoopEnd magnitude"
| "numeric_groups buf weight magnitude i (Suc fuel) =
     (let digit = num_digit buf i in
      case (case checked 128 (magnitude * 10000) of None \<Rightarrow> None
            | Some m \<Rightarrow> checked 128 (m + digit)) of
        Some m \<Rightarrow> numeric_groups buf weight m (Suc i) fuel
      | None \<Rightarrow>
          if int i \<le> weight then LoopOverflow
          else (let (m, kept) = push_places magnitude 0 digit [1000, 100, 10, 1]
                in LoopCut m ((int i - 1 - weight) * 4 + kept)))"

definition truncated_header :: "nat \<Rightarrow> etl_error" where
  "truncated_header got =
     Internal (''truncated numeric header: expected at least 8 bytes, got '' @ show_nat got)"

definition truncated_digits :: "nat \<Rightarrow> etl_error" where
  "truncated_digits got = Internal (''truncated numeric digits: got '' @ show_nat got)"

definition parse_numeric_wire :: "string \<Rightarrow> numeric_wire res" where
  "parse_numeric_wire buf =
     (if length buf < 8 then Inl (truncated_header (length buf))
      else
        let ndigits = be_signed 16 (take 2 buf);
            weight = be_signed 16 (take 2 (drop 2 buf));
            sign = be_unsigned (take 2 (drop 4 buf))
        in if sign \<in> {0xC000, 0xD000, 0xF000} then Inr NanOrInf
           else if int (length buf) < (8 + 2 * ndigits) mod 2 ^ 64 then Inl (truncated_digits (length buf))
           else
             let groups = (if ndigits < 0 then (length buf - 8) div 2 else nat ndigits)
             in case numeric_groups buf weight 0 0 groups of
                  LoopOverflow \<Rightarrow> Inr NumMagnitudeOverflow
                | LoopCut magnitude native_scale \<Rightarrow> Inr (NumValue (sign = 0x4000) magnitude native_scale)
                | LoopEnd magnitude \<Rightarrow>
                    if ndigits < 0 then Inl (Panic ''index out of bounds'')
                    else Inr (NumValue (sign = 0x4000) magnitude ((ndigits - 1 - weight) * 4)))"

definition decode_numeric :: "(string \<Rightarrow> int \<Rightarrow> int res) \<Rightarrow> string \<Rightarrow> int res" where
  "decode_numeric f64_bits buf =
     (if length buf < 8 then Inl (truncated_header (length buf))
      else
        let ndigits = be_signed 16 (take 2 buf);
            weight = be_signed 16 (take 2 (drop 2 buf));
            sign = be_unsigned (take 2 (drop 4 buf))
        in if sign = 0xC000 then Inr 0x7FF8000000000000
           else if sign = 0xD000 then Inr 0x7FF0000000000000
           else if sign = 0xF000 then Inr 0xFFF0000000000000
           else if ndigits < 0 then
             (if int (length buf) < (8 + 2 * ndigits) mod 2 ^ 64 then Inl (truncated_digits (length buf))
              else Inl (Panic ''range end out of bounds''))
           else if length buf < 8 + nat ndigits * 2 then Inl (truncated_digits (length buf))
           else and_then (f64_bits (take (nat ndigits * 2) (drop 8 buf)) weight) (\<lambda>magnitude.
             Inr (if sign = 0x4000 then (magnitude + 2 ^ 63) mod 2 ^ 64 else magnitude)))"

section \<open>Builders and cells\<close>

datatype builder = BBool | BI16 | BI32 | BI64 | BU32 | BF32 | BF64 | BStr | BBin | BDate
  | BTs "string option" | BDecimal int int

datatype cell = CNull | CBool bool | CInt int | CFloat int | CStr string | CBin string
  | CDate int | CTs int | CDec int

text \<open>Arrow's check of a builder's precision and scale.\<close>

definition decimal_params_ok :: "int \<Rightarrow> int \<Rightarrow> bool" where
  "decimal_params_ok p s \<longleftrightarrow> 1 \<le> p \<and> p \<le> 38 \<and> s \<le> 38 \<and> (0 < s \<longrightarrow> s \<le> p)"

fun new_builder :: "data_type \<Rightarrow> builder res" where
  "new_builder Boolean = Inr BBool"
| "new_builder Int16 = Inr BI16"
| "new_builder Int32 = Inr BI32"
| "new_builder Int64 = Inr BI64"
| "new_builder UInt32 = Inr BU32"
| "new_builder Float32 = Inr BF32"
| "new_builder Float64 = Inr BF64"
| "new_builder Utf8 = Inr BStr"
| "new_builder Binary = Inr BBin"
| "new_builder Date32 = Inr BDate"
| "new_builder (Timestamp Microsecond tz) = Inr (BTs tz)"
| "new_builder (Decimal128 p s) =
     (if decimal_params_ok p s then Inr (BDecimal p s) else Inl (Arrow ''invalid precision or scale''))"
| "new_builder _ = Inl (Internal ''no column builder for Arrow type'')"

definition decimal_cell :: "int \<Rightarrow> int \<Rightarrow> numeric_wire \<Rightarrow> cell \<times> coercion" where
  "decimal_cell p s w =
     (case w of
        NumValue negative magnitude native_scale \<Rightarrow>
          (case rescale_mantissa magnitude native_scale s of
             Some m \<Rightarrow>
               (let signed = (if negative then - m else m)
                in if \<bar>signed\<bar> < 10 ^ nat p then (CDec signed, NoCoercion) else (CNull, DecimalOverflow))
           | None \<Rightarrow> (CNull, DecimalOverflow))
      | _ \<Rightarrow> (CNull, DecimalOverflow))"

definition PG_EPOCH_DAYS :: int where "PG_EPOCH_DAYS = 10957"
definition PG_EPOCH_MICROS :: int where "PG_EPOCH_MICROS = 946684800000000"

definition plain :: "(int \<Rightarrow> cell) \<Rightarrow> int res \<Rightarrow> (cell \<times> coercion) res" where
  "plain f r = and_then r (\<lambda>v. Inr (f v, NoCoercion))"

definition append_value :: "(string \<Rightarrow> int \<Rightarrow> int res) \<Rightarrow> builder \<Rightarrow> nat \<Rightarrow> string \<Rightarrow> (cell \<times> coercion) res" where
  "append_value f64_bits b pg_oid buf =
     (case b of
        BBool \<Rightarrow> Inr (CBool (case buf of x # _ \<Rightarrow> code x \<noteq> 0 | [] \<Rightarrow> False), NoCoercion)
      | BI16 \<Rightarrow> plain CInt (read_i16 buf)
      | BI32 \<Rightarrow> plain CInt (read_i32 buf)
      | BI64 \<Rightarrow> plain CInt (read_i64 buf)
      | BU32 \<Rightarrow> plain (\<lambda>v. CInt (v mod 2 ^ 32)) (read_i32 buf)
      | BF32 \<Rightarrow> plain (\<lambda>v. CFloat (v mod 2 ^ 32)) (read_i32 buf)
      | BF64 \<Rightarrow>
          if pg_oid = oid OID_NUMERIC then plain CFloat (decode_numeric f64_bits buf)
          else plain (\<lambda>v. CFloat (v mod 2 ^ 64)) (read_i64 buf)
      | BStr \<Rightarrow>
          if pg_oid = oid OID_TIME then plain (\<lambda>v. CStr (format_pg_time v)) (read_i64 buf)
          else if pg_oid = oid OID_UUID \<and> length buf = 16 then Inr (CStr (format_uuid buf), NoCoercion)
          else (let bytes = (if pg_oid = oid OID_JSONB \<and> buf \<noteq> [] then tl buf else buf)
                in if valid_utf8 bytes then Inr (CStr bytes, NoCoercion)
                   else Inl (Decode ''invalid utf8''))
      | BBin \<Rightarrow> Inr (CBin buf, NoCoercion)
      | BDate \<Rightarrow> and_then (read_i32 buf) (\<lambda>v.
          let days = saturate 32 (v + PG_EPOCH_DAYS)
          in Inr (if days_in_range days then (CDate days, NoCoercion) else (CNull, DateRange)))
      | BTs _ \<Rightarrow> and_then (read_i64 buf) (\<lambda>v.
          let micros = saturate 64 (v + PG_EPOCH_MICROS)
          in Inr (if micros_in_range micros then (CTs micros, NoCoercion) else (CNull, DateRange)))
      | BDecimal p s \<Rightarrow> and_then (parse_numeric_wire buf) (\<lambda>w. Inr (decimal_cell p s w)))"

section \<open>A numeric is read exactly, or cut below its last kept digit\<close>

definition base10000 :: "int \<Rightarrow> int list \<Rightarrow> int" where
  "base10000 a ds = foldl (\<lambda>a d. 10000 * a + d) a ds"

lemma base10000_simps [simp]:
  "base10000 a [] = a" "base10000 a (d # ds) = base10000 (10000 * a + d) ds"
  by (simp_all add: base10000_def)

text \<open>\<open>v\<close> at scale \<open>s\<close> is \<open>full\<close> at scale \<open>full_scale\<close> without a tail of its last digits.\<close>

definition cut_of :: "int \<Rightarrow> int \<Rightarrow> int \<Rightarrow> int \<Rightarrow> bool" where
  "cut_of v s full full_scale \<longleftrightarrow>
     s \<le> full_scale \<and> (\<exists>r. 0 \<le> r \<and> r < 10 ^ nat (full_scale - s)
       \<and> full = v * 10 ^ nat (full_scale - s) + r)"

text \<open>A cut that keeps every digit an \<open>i128\<close> holds: one more would be too many.\<close>

definition tight_cut :: "int \<Rightarrow> int \<Rightarrow> int \<Rightarrow> int \<Rightarrow> bool" where
  "tight_cut v s full full_scale \<longleftrightarrow>
     cut_of v s full full_scale \<and> (s < full_scale \<longrightarrow> 2 ^ 127 \<le> full div 10 ^ nat (full_scale - s - 1))"

lemma base10000_scale: "base10000 a ds = a * 10000 ^ length ds + base10000 0 ds"
proof (induction ds arbitrary: a)
  case (Cons d ds)
  show ?case using Cons.IH[of "10000 * a + d"] Cons.IH[of d] by (simp add: algebra_simps)
qed simp

lemma base10000_bounds:
  "list_all (\<lambda>d. 0 \<le> d \<and> d < 10000) ds \<Longrightarrow> 0 \<le> base10000 0 ds \<and> base10000 0 ds < 10000 ^ length ds"
proof (induction ds)
  case (Cons d ds)
  have "base10000 0 (d # ds) = d * 10000 ^ length ds + base10000 0 ds"
    using base10000_scale[of d ds] by simp
  moreover have "0 \<le> d * 10000 ^ length ds" using Cons.prems by simp
  moreover have "d * 10000 ^ length ds \<le> 9999 * 10000 ^ length ds"
    using Cons.prems by (intro mult_right_mono) auto
  moreover have "0 \<le> base10000 0 ds" "base10000 0 ds < 10000 ^ length ds" using Cons by auto
  ultimately show ?case unfolding length_Cons power_Suc by linarith
qed simp

lemma base10000_ge:
  assumes "0 \<le> a" and "list_all (\<lambda>d. 0 \<le> d \<and> d < 10000) ds"
  shows "a \<le> base10000 a ds"
proof -
  have "a * 1 \<le> a * 10000 ^ length ds" using assms(1) by (intro mult_left_mono) auto
  then show ?thesis using base10000_scale[of a ds] base10000_bounds[OF assms(2)] by simp
qed

lemma push_one:
  assumes "0 \<le> m" and "0 \<le> digit" and "0 < p"
  shows "push_places m k digit (p # ps) =
    (if 10 * m + digit div p mod 10 < 2 ^ 127
     then push_places (10 * m + digit div p mod 10) (k + 1) digit ps else (m, k))"
proof -
  have "remn (quot digit p) 10 = digit div p mod 10"
    using assms by (simp add: quot_nonneg remn_nonneg pos_imp_zdiv_nonneg_iff)
  then show ?thesis using assms by (auto simp: checked_def in_signed_def mult.commute)
qed

lemma push_places_cut:
  assumes "0 \<le> digit" and "digit < 10000" and "0 \<le> m" and "m < 2 ^ 127"
  shows "\<exists>k v. push_places m 0 digit [1000, 100, 10, 1] = (v, k) \<and> 0 \<le> v \<and> v < 2 ^ 127
     \<and> tight_cut v k (10000 * m + digit) 4"
proof -
  define m1 where "m1 = 10 * m + digit div 1000 mod 10"
  define m2 where "m2 = 10 * m1 + digit div 100 mod 10"
  define m3 where "m3 = 10 * m2 + digit div 10 mod 10"
  define m4 where "m4 = 10 * m3 + digit div 1 mod 10"
  have split10: "digit div p = 10 * (digit div (p * 10)) + (digit div p) mod 10" if "0 < p" for p
    using that by (simp add: zdiv_zmult2_eq)
  have pos: "0 \<le> m1" "0 \<le> m2" "0 \<le> m3" "0 \<le> m4"
    using assms by (simp_all add: m1_def m2_def m3_def m4_def)
  note one = push_one[OF _ assms(1)]
  have p1: "push_places m 0 digit [1000, 100, 10, 1]
      = (if m1 < 2 ^ 127 then push_places m1 1 digit [100, 10, 1] else (m, 0))"
    using one[OF assms(3), of 1000 0 "[100, 10, 1]", folded m1_def] by simp
  have p2: "push_places m1 1 digit [100, 10, 1]
      = (if m2 < 2 ^ 127 then push_places m2 2 digit [10, 1] else (m1, 1))"
    using one[OF pos(1), of 100 1 "[10, 1]", folded m2_def] by simp
  have p3: "push_places m2 2 digit [10, 1] = (if m3 < 2 ^ 127 then push_places m3 3 digit [1] else (m2, 2))"
    using one[OF pos(2), of 10 2 "[1]", folded m3_def] by simp
  have p4: "push_places m3 3 digit [1] = (if m4 < 2 ^ 127 then (m4, 4) else (m3, 3))"
    using one[OF pos(3), of 1 3 "[]", folded m4_def] by simp
  note p = p1 p2 p3 p4
  have v1: "m1 = 10 * m + digit div 1000" using assms by (simp add: m1_def)
  have v2: "m2 = 100 * m + digit div 100" using split10[of 100] by (simp add: m2_def v1)
  have v3: "m3 = 1000 * m + digit div 10" using split10[of 10] by (simp add: m3_def v2)
  have v4: "m4 = 10000 * m + digit" using split10[of 1] by (simp add: m4_def v3)
  have cut: "cut_of v k (10000 * m + digit) 4"
    if "k \<le> 4" "10000 * m + digit = v * p + digit mod p" "p = 10 ^ nat (4 - k)" for v k p
    using that by (auto simp: cut_of_def)
  have c0: "cut_of m 0 (10000 * m + digit) 4"
    by (rule cut[where p = 10000]) (use assms in simp_all)
  have c1: "cut_of m1 1 (10000 * m + digit) 4" unfolding v1
    by (rule cut[where p = 1000]) (use div_mult_mod_eq[of digit 1000] in simp_all)
  have c2: "cut_of m2 2 (10000 * m + digit) 4" unfolding v2
    by (rule cut[where p = 100]) (use div_mult_mod_eq[of digit 100] in simp_all)
  have c3: "cut_of m3 3 (10000 * m + digit) 4" unfolding v3
    by (rule cut[where p = 10]) (use div_mult_mod_eq[of digit 10] in simp_all)
  have c4: "cut_of m4 4 (10000 * m + digit) 4" unfolding v4
    by (rule cut[where p = 1]) simp_all
  have n1: "(10000 * m + digit) div 1000 = m1" unfolding v1
    using div_mult_self1[of 1000 digit "10 * m"] by (simp add: algebra_simps)
  have n2: "(10000 * m + digit) div 100 = m2" unfolding v2
    using div_mult_self1[of 100 digit "100 * m"] by (simp add: algebra_simps)
  have n3: "(10000 * m + digit) div 10 = m3" unfolding v3
    using div_mult_self1[of 10 digit "1000 * m"] by (simp add: algebra_simps)
  have t0: "\<not> m1 < 2 ^ 127 \<Longrightarrow> tight_cut m 0 (10000 * m + digit) 4" using c0 n1 by (simp add: tight_cut_def)
  have t1: "\<not> m2 < 2 ^ 127 \<Longrightarrow> tight_cut m1 1 (10000 * m + digit) 4" using c1 n2 by (simp add: tight_cut_def)
  have t2: "\<not> m3 < 2 ^ 127 \<Longrightarrow> tight_cut m2 2 (10000 * m + digit) 4" using c2 n3 by (simp add: tight_cut_def)
  have t3: "\<not> m4 < 2 ^ 127 \<Longrightarrow> tight_cut m3 3 (10000 * m + digit) 4" using c3 v4 by (simp add: tight_cut_def)
  have t4: "tight_cut m4 4 (10000 * m + digit) 4" using c4 by (simp add: tight_cut_def)
  consider "\<not> m1 < 2 ^ 127" | "m1 < 2 ^ 127" "\<not> m2 < 2 ^ 127" | "m1 < 2 ^ 127" "m2 < 2 ^ 127" "\<not> m3 < 2 ^ 127"
    | "m1 < 2 ^ 127" "m2 < 2 ^ 127" "m3 < 2 ^ 127" "\<not> m4 < 2 ^ 127"
    | "m1 < 2 ^ 127" "m2 < 2 ^ 127" "m3 < 2 ^ 127" "m4 < 2 ^ 127" by blast
  then show ?thesis
  proof cases
    case 1
    then have "push_places m 0 digit [1000, 100, 10, 1] = (m, 0)" unfolding p by (simp only: if_False)
    then show ?thesis using t0 1 assms(3,4) by blast
  next
    case 2
    then have "push_places m 0 digit [1000, 100, 10, 1] = (m1, 1)" unfolding p by (simp only: if_True if_False)
    then show ?thesis using t1 2 pos by blast
  next
    case 3
    then have "push_places m 0 digit [1000, 100, 10, 1] = (m2, 2)" unfolding p by (simp only: if_True if_False)
    then show ?thesis using t2 3 pos by blast
  next
    case 4
    then have "push_places m 0 digit [1000, 100, 10, 1] = (m3, 3)" unfolding p by (simp only: if_True if_False)
    then show ?thesis using t3 4 pos by blast
  next
    case 5
    then have "push_places m 0 digit [1000, 100, 10, 1] = (m4, 4)" unfolding p by (simp only: if_True)
    then show ?thesis using t4 5 pos by blast
  qed
qed

lemma cut_of_append:
  assumes "cut_of v s full fs" and "list_all (\<lambda>d. 0 \<le> d \<and> d < 10000) ds"
  shows "cut_of v s (base10000 full ds) (fs + 4 * int (length ds))"
proof -
  obtain r where r: "s \<le> fs" "0 \<le> r" "r < 10 ^ nat (fs - s)" "full = v * 10 ^ nat (fs - s) + r"
    using assms(1) by (auto simp: cut_of_def)
  let ?n = "length ds" and ?b = "base10000 0 ds"
  have b: "0 \<le> ?b" "?b < 10000 ^ ?n" using base10000_bounds[OF assms(2)] by auto
  have "nat (fs + 4 * int ?n - s) = nat (fs - s) + 4 * ?n" using r by auto
  then have p: "(10::int) ^ nat (fs + 4 * int ?n - s) = 10 ^ nat (fs - s) * 10000 ^ ?n"
    by (simp add: power_add power_mult)
  have "base10000 full ds = v * (10 ^ nat (fs - s) * 10000 ^ ?n) + (r * 10000 ^ ?n + ?b)"
    using base10000_scale[of full ds] r by (simp add: algebra_simps)
  moreover have "r * 10000 ^ ?n + ?b < 10 ^ nat (fs - s) * 10000 ^ ?n"
  proof -
    have "(r + 1) * 10000 ^ ?n \<le> 10 ^ nat (fs - s) * 10000 ^ ?n"
      using r by (intro mult_right_mono) auto
    then show ?thesis using b by (simp add: algebra_simps)
  qed
  moreover have "0 \<le> r * 10000 ^ ?n + ?b" using r b by simp
  ultimately show ?thesis using r unfolding cut_of_def p by auto
qed

lemma tight_cut_append:
  assumes "tight_cut v s full fs" and "s < fs" and "list_all (\<lambda>d. 0 \<le> d \<and> d < 10000) ds"
  shows "tight_cut v s (base10000 full ds) (fs + 4 * int (length ds))"
proof -
  let ?n = "length ds" and ?b = "base10000 0 ds" and ?p = "10 ^ nat (fs - s - 1) :: int"
  have b: "0 \<le> ?b" "?b < 10000 ^ ?n" using base10000_bounds[OF assms(3)] by auto
  have "nat (fs + 4 * int ?n - s - 1) = 4 * ?n + nat (fs - s - 1)" using assms(2) by simp
  then have "base10000 full ds div 10 ^ nat (fs + 4 * int ?n - s - 1)
      = base10000 full ds div 10000 ^ ?n div ?p"
    by (simp add: power_add power_mult zdiv_zmult2_eq)
  also have "base10000 full ds div 10000 ^ ?n = full"
    using base10000_scale[of full ds] b by simp
  finally show ?thesis using assms cut_of_append[of v s full fs ds] by (simp add: tight_cut_def)
qed

lemma numeric_groups_cut:
  assumes "list_all (\<lambda>d. 0 \<le> d \<and> d < 10000) (map (num_digit buf) [i..<i + fuel])"
    and "0 \<le> m" and "m < 2 ^ 127"
  shows "case numeric_groups buf w m i fuel of
      LoopEnd v \<Rightarrow> v = base10000 m (map (num_digit buf) [i..<i + fuel]) \<and> 0 \<le> v \<and> v < 2 ^ 127
    | LoopCut v s \<Rightarrow> 0 \<le> v \<and> v < 2 ^ 127
        \<and> tight_cut v s (base10000 m (map (num_digit buf) [i..<i + fuel])) (4 * (int (i + fuel) - 1 - w))
    | LoopOverflow \<Rightarrow> 2 ^ 127 \<le> base10000 m (map (num_digit buf) [i..<i + fuel])"
  using assms
proof (induction fuel arbitrary: i m)
  case 0
  then show ?case by simp
next
  case (Suc fuel)
  let ?d = "num_digit buf i" and ?ds = "map (num_digit buf) [Suc i..<Suc i + fuel]"
  have ds: "map (num_digit buf) [i..<i + Suc fuel] = ?d # ?ds" by (simp add: upt_rec)
  have d: "0 \<le> ?d" "?d < 10000" "list_all (\<lambda>d. 0 \<le> d \<and> d < 10000) ?ds"
    using Suc.prems(1) unfolding ds by auto
  have len: "length ?ds = fuel" by (simp del: upt_Suc)
  have step: "(case checked 128 (m * 10000) of None \<Rightarrow> None | Some a \<Rightarrow> checked 128 (a + ?d))
      = (if 10000 * m + ?d < 2 ^ 127 then Some (10000 * m + ?d) else None)"
    using Suc.prems d by (auto simp: checked_def in_signed_def)
  show ?case
  proof (cases "10000 * m + ?d < 2 ^ 127")
    case True
    have eq: "numeric_groups buf w m i (Suc fuel) = numeric_groups buf w (10000 * m + ?d) (Suc i) fuel"
      using True by (simp add: step Let_def)
    have "0 \<le> 10000 * m + ?d" using Suc.prems d by simp
    from Suc.IH[OF d(3) this True] show ?thesis
      unfolding eq ds unfolding base10000_simps add_Suc add_Suc_right .
  next
    case False
    show ?thesis
    proof (cases "int i \<le> w")
      case True
      then have eq: "numeric_groups buf w m i (Suc fuel) = LoopOverflow"
        using False by (simp add: step Let_def)
      have "0 \<le> 10000 * m + ?d" using Suc.prems d by simp
      then have "2 ^ 127 \<le> base10000 (10000 * m + ?d) ?ds"
        using base10000_ge[OF _ d(3)] False by fastforce
      then have "2 ^ 127 \<le> base10000 m (?d # ?ds)" by (simp only: base10000_simps)
      then show ?thesis unfolding eq ds numeric_loop.case .
    next
      case f2: False
      obtain k v where kv: "push_places m 0 ?d [1000, 100, 10, 1] = (v, k)" "0 \<le> v" "v < 2 ^ 127"
          "tight_cut v k (10000 * m + ?d) 4"
        using push_places_cut[OF d(1,2) Suc.prems(2,3)] by blast
      have eq: "numeric_groups buf w m i (Suc fuel) = LoopCut v ((int i - 1 - w) * 4 + k)"
        using False f2 kv by (simp add: step Let_def)
      have "k < 4" using kv(3,4) False by (cases "k = 4") (auto simp: tight_cut_def cut_of_def)
      then have "tight_cut v k (base10000 (10000 * m + ?d) ?ds) (4 + 4 * int fuel)"
        using tight_cut_append[OF kv(4) _ d(3)] unfolding len by blast
      then have "tight_cut v ((int i - 1 - w) * 4 + k) (base10000 m (?d # ?ds)) (4 * (int (i + Suc fuel) - 1 - w))"
        by (simp add: tight_cut_def cut_of_def algebra_simps)
      then show ?thesis unfolding eq ds numeric_loop.case using kv by blast
    qed
  qed
qed

definition wire_digits :: "string \<Rightarrow> int list" where
  "wire_digits buf = map (num_digit buf) [0..<nat (be_signed 16 (take 2 buf))]"

definition wire_scale :: "string \<Rightarrow> int" where
  "wire_scale buf = 4 * (be_signed 16 (take 2 buf) - 1 - be_signed 16 (take 2 (drop 2 buf)))"

lemma be_unsigned_append: "be_unsigned (s @ [c]) = 256 * be_unsigned s + int (code c)"
  by (simp add: be_unsigned_def)

lemma code_less: "code c < 256"
  by (cases c) (simp add: code_def)

lemma be_unsigned_bounds: "0 \<le> be_unsigned s \<and> be_unsigned s < 256 ^ length s"
proof (induction s rule: rev_induct)
  case Nil
  show ?case by (simp add: be_unsigned_def)
next
  case (snoc c s)
  then show ?case using code_less[of c] by (simp add: be_unsigned_append)
qed

lemma be_signed_16: "length s \<le> 2 \<Longrightarrow> - 32768 \<le> be_signed 16 s \<and> be_signed 16 s < 32768"
proof -
  assume "length s \<le> 2"
  then have "(256::int) ^ length s \<le> 256 ^ 2" by (intro power_increasing) auto
  then show ?thesis using be_unsigned_bounds[of s] by (auto simp: be_signed_def Let_def)
qed

lemma parse_numeric_wire_cut:
  assumes "parse_numeric_wire buf = Inr (NumValue neg m s)"
    and "0 \<le> be_signed 16 (take 2 buf)"
    and "list_all (\<lambda>d. 0 \<le> d \<and> d < 10000) (wire_digits buf)"
  shows "0 \<le> m \<and> m < 2 ^ 127 \<and> tight_cut m s (base10000 0 (wire_digits buf)) (wire_scale buf)
    \<and> neg = (be_unsigned (take 2 (drop 4 buf)) = 0x4000)"
proof -
  let ?n = "be_signed 16 (take 2 buf)" and ?w = "be_signed 16 (take 2 (drop 2 buf))"
  have g: "case numeric_groups buf ?w 0 0 (nat ?n) of
      LoopEnd v \<Rightarrow> v = base10000 0 (wire_digits buf) \<and> 0 \<le> v \<and> v < 2 ^ 127
    | LoopCut v s \<Rightarrow> 0 \<le> v \<and> v < 2 ^ 127 \<and> tight_cut v s (base10000 0 (wire_digits buf)) (wire_scale buf)
    | LoopOverflow \<Rightarrow> 2 ^ 127 \<le> base10000 0 (wire_digits buf)"
  proof -
    have sc: "4 * (int (nat ?n) - 1 - ?w) = wire_scale buf" using assms(2) by (simp add: wire_scale_def)
    from numeric_groups_cut[of buf 0 "nat ?n" 0 ?w] assms(3)
    show ?thesis unfolding add_0 wire_digits_def[symmetric] sc by (simp only: order_refl) simp
  qed
  have "(case numeric_groups buf ?w 0 0 (nat ?n) of
          LoopOverflow \<Rightarrow> Inr NumMagnitudeOverflow
        | LoopCut magnitude native_scale \<Rightarrow>
            Inr (NumValue (be_unsigned (take 2 (drop 4 buf)) = 0x4000) magnitude native_scale)
        | LoopEnd magnitude \<Rightarrow>
            if ?n < 0 then Inl (Panic ''index out of bounds'')
            else Inr (NumValue (be_unsigned (take 2 (drop 4 buf)) = 0x4000) magnitude ((?n - 1 - ?w) * 4)))
      = Inr (NumValue neg m s)"
    using assms(1,2) by (simp add: parse_numeric_wire_def Let_def split: if_splits)
  then show ?thesis using g assms(2)
    by (auto simp: tight_cut_def cut_of_def wire_scale_def split: numeric_loop.splits)
qed

text \<open>C11. A PostgreSQL \<open>numeric\<close> on the wire, of any number of digits below 10000, is parsed with its sign; when
  it fits an \<open>i128\<close> its magnitude and scale are exact, and otherwise it is the longest prefix of its digits that
  fits.  Rescaled to a scale below the one kept it is the exact rounding, half away from zero, of the
  number on the wire, whatever was cut off.\<close>

theorem numeric_wire_rounds_exactly:
  assumes "parse_numeric_wire buf = Inr (NumValue neg m s)"
    and "0 \<le> be_signed 16 (take 2 buf)"
    and "list_all (\<lambda>d. 0 \<le> d \<and> d < 10000) (wire_digits buf)"
  shows "neg = (be_unsigned (take 2 (drop 4 buf)) = 0x4000)
    \<and> m < 2 ^ 127 \<and> s \<le> wire_scale buf
    \<and> m = base10000 0 (wire_digits buf) div 10 ^ nat (wire_scale buf - s)
    \<and> (s < wire_scale buf \<longrightarrow> 2 ^ 127 \<le> base10000 0 (wire_digits buf) div 10 ^ nat (wire_scale buf - s - 1))
    \<and> (- 128 \<le> t \<longrightarrow> t < s \<longrightarrow> rescale_mantissa m s t = Some
         ((2 * base10000 0 (wire_digits buf) + 10 ^ nat (wire_scale buf - t))
           div (2 * 10 ^ nat (wire_scale buf - t))))"
proof -
  let ?V = "base10000 0 (wire_digits buf)" and ?S = "wire_scale buf"
  note cut = parse_numeric_wire_cut[OF assms]
  obtain r where c: "0 \<le> m" "m < 2 ^ 127" "s \<le> ?S" "0 \<le> r" "r < 10 ^ nat (?S - s)"
      "?V = m * 10 ^ nat (?S - s) + r"
    using cut by (auto simp: tight_cut_def cut_of_def)
  have "rescale_mantissa m s t = Some ((2 * ?V + 10 ^ nat (?S - t)) div (2 * 10 ^ nat (?S - t)))"
    if t: "- 128 \<le> t" "t < s"
  proof -
    have "?S \<le> 4 * (32768 + 32768)"
      using be_signed_16[of "take 2 buf"] be_signed_16[of "take 2 (drop 2 buf)"]
      by (simp add: wire_scale_def)
    then have "rescale_mantissa m s t = Some (round_half_up m (10 ^ nat (s - t)))"
      using c t by (intro rescale_narrow) (auto simp: in_signed_def)
    also have "round_half_up m (10 ^ nat (s - t)) = round_half_up ?V (10 ^ nat (s - t) * 10 ^ nat (?S - s))"
      unfolding c(6) using c t by (intro round_half_up_tail[symmetric]) auto
    also have "(10::int) ^ nat (s - t) * 10 ^ nat (?S - s) = 10 ^ nat (?S - t)"
      using c t by (simp flip: power_add nat_add_distrib)
    finally show ?thesis by (simp add: round_half_up_def)
  qed
  moreover have "m = ?V div 10 ^ nat (?S - s)" using c(4-6) by simp
  ultimately show ?thesis using cut c(2,3) by (auto simp: tight_cut_def)
qed

text \<open>The wire form of \<open>1.2345 6789\<close>: three groups at weight 0.\<close>

definition sample_numeric :: string where
  "sample_numeric = map char_of [0, 3, 0, 0, 0, 0, 0, 8, 0, 1, 9, 41, 26, 133 :: nat]"

theorem numeric_wire_rounds_exactly_witness:
  "parse_numeric_wire sample_numeric = Inr (NumValue False 123456789 8)
     \<and> rescale_mantissa 123456789 8 4 = Some 12346"
proof -
  have p: "parse_numeric_wire sample_numeric = Inr (NumValue False 123456789 8)" by code_simp
  have d: "wire_digits sample_numeric = [1, 2345, 6789]" by code_simp
  have s: "wire_scale sample_numeric = 8" by code_simp
  have n: "0 \<le> be_signed 16 (take 2 sample_numeric)" by code_simp
  have l: "list_all (\<lambda>d. 0 \<le> d \<and> d < 10000) (wire_digits sample_numeric)" unfolding d by simp
  note r = numeric_wire_rounds_exactly[OF p n l, of 4, THEN conjunct2, THEN conjunct2, THEN conjunct2,
      THEN conjunct2, THEN conjunct2]
  show ?thesis using p r by (simp add: d s)
qed

end
