(* ===== verification/QH_Copy_Decode.thy ===== *)
theory QH_Copy_Decode
  imports QH_Copy_Values
begin

text \<open>
  The stream half of \<open>decode.rs\<close>: \<open>CopyDecoder\<close>, which is fed the chunks of a binary \<open>COPY\<close>
  as the network cut them and returns a record batch whenever the row or byte
  limit is reached.  The builders hold the cells of the rows decoded since the last
  batch, row by row.  The abstract side is the wire format: a stream of rows is
  decoded to the same rows whatever the chunks are.
\<close>

section \<open>State\<close>

type_synonym row = "cell list"

record copy_decoder =
  cd_columns :: "column_type list"
  cd_builders :: "builder list"
  cd_rows :: "row list"
  cd_buf :: string
  cd_header_done :: bool
  cd_finished :: bool
  cd_rows_in_batch :: nat
  cd_bytes_in_batch :: nat
  cd_batch_rows :: nat
  cd_batch_bytes :: nat
  cd_rows_total :: nat
  cd_coercions :: coercion_tally

definition with_batch_bytes :: "column_type list \<Rightarrow> nat \<Rightarrow> nat \<Rightarrow> copy_decoder res" where
  "with_batch_bytes columns batch_rows batch_bytes =
     and_then (try_map (\<lambda>c. new_builder (ct_arrow c)) columns) (\<lambda>builders.
       Inr \<lparr>cd_columns = columns, cd_builders = builders, cd_rows = [], cd_buf = [],
            cd_header_done = False, cd_finished = False, cd_rows_in_batch = 0,
            cd_bytes_in_batch = 0, cd_batch_rows = batch_rows, cd_batch_bytes = batch_bytes,
            cd_rows_total = 0, cd_coercions = new_tally (map ct_name columns)\<rparr>)"

definition new_decoder :: "column_type list \<Rightarrow> nat \<Rightarrow> copy_decoder res" where
  "new_decoder columns batch_rows = with_batch_bytes columns batch_rows 0"

text \<open>\<open>RecordBatch::try_new\<close> refuses a NULL in a field declared non-nullable.\<close>

definition row_fits :: "column_type list \<Rightarrow> row \<Rightarrow> bool" where
  "row_fits cols r \<longleftrightarrow> list_all (\<lambda>(c, v). ct_nullable c \<or> v \<noteq> CNull) (zip cols r)"

definition flush_batch :: "copy_decoder \<Rightarrow> (row list \<times> copy_decoder) res" where
  "flush_batch d =
     (if list_all (row_fits (cd_columns d)) (cd_rows d)
      then Inr (cd_rows d, d\<lparr>cd_rows := [], cd_rows_in_batch := 0, cd_bytes_in_batch := 0\<rparr>)
      else Inl (Arrow ''column is declared as non-nullable but contains null values''))"

section \<open>Parsing\<close>

definition SIGNATURE :: string where
  "SIGNATURE = ''PGCOPY'' @ [char_of (10::nat), char_of (255::nat), char_of (13::nat), char_of (10::nat), char_of (0::nat)]"

definition parse_header :: "string \<Rightarrow> nat option res" where
  "parse_header buf =
     (if length buf < 19 then Inr None
      else if take 11 buf \<noteq> SIGNATURE
        then Inl (Internal ''COPY stream did not start with the expected PGCOPY binary signature'')
      else
        let ext_len = be_signed 32 (take 4 (drop 15 buf));
            total = nat ((19 + ext_len) mod 2 ^ 64)
        in if length buf < total then Inr None else Inr (Some total))"

datatype parsed = Tuple nat | End | NeedMore

text \<open>The first pass: the spans of the fields, \<open>None\<close> when the tuple is not complete yet.\<close>

fun parse_spans :: "string \<Rightarrow> nat \<Rightarrow> nat \<Rightarrow> ((nat \<times> nat) option list \<times> nat) option" where
  "parse_spans buf pos 0 = Some ([], pos)"
| "parse_spans buf pos (Suc n) =
     (if length buf < pos + 4 then None
      else
        let len = be_signed 32 (take 4 (drop pos buf));
            pos = pos + 4
        in if len = - 1 then map_option (\<lambda>(s, p). (None # s, p)) (parse_spans buf pos n)
           else
             let stop = nat ((int pos + len) mod 2 ^ 64)
             in if length buf < stop then None
                else map_option (\<lambda>(s, p). (Some (pos, stop) # s, p)) (parse_spans buf stop n))"

text \<open>The second pass: every field appended to its builder, coercions tallied.\<close>

fun append_fields :: "(string \<Rightarrow> int \<Rightarrow> int res) \<Rightarrow> (column_type \<times> builder) list \<Rightarrow> string
    \<Rightarrow> nat \<Rightarrow> coercion_tally \<Rightarrow> (nat \<times> nat) option list \<Rightarrow> (row \<times> coercion_tally) res" where
  "append_fields f64_bits cols buf i tally [] = Inr ([], tally)"
| "append_fields f64_bits cols buf i tally (None # spans) =
     and_then (append_fields f64_bits cols buf (Suc i) tally spans) (\<lambda>(r, t). Inr (CNull # r, t))"
| "append_fields f64_bits cols buf i tally (Some (s, e) # spans) =
     (if e < s then Inl (Panic ''slice index starts after its end'')
      else and_then (with_context (''column '' @ quoted (ct_name (fst (cols ! i))))
               (append_value f64_bits (snd (cols ! i)) (ct_type_id (fst (cols ! i))) (take (e - s) (drop s buf))))
        (\<lambda>(v, c). and_then (append_fields f64_bits cols buf (Suc i) (record_coercion i c tally) spans)
          (\<lambda>(r, t). Inr (v # r, t))))"

definition parse_tuple :: "(string \<Rightarrow> int \<Rightarrow> int res) \<Rightarrow> copy_decoder \<Rightarrow> nat \<Rightarrow> (parsed \<times> copy_decoder) res" where
  "parse_tuple f64_bits d start =
     (let buf = cd_buf d; n = length (cd_columns d) in
      if length buf < start + 2 then Inr (NeedMore, d)
      else
        let field_count = be_signed 16 (take 2 (drop start buf)) in
        if field_count = - 1 then Inr (End, d)
        else if field_count mod 2 ^ 64 \<noteq> int n
          then Inl (Internal (''row has '' @ show_int field_count @ '' field(s) but the resolved schema has ''
                 @ show_nat n @ '' column(s)''))
        else (case parse_spans buf (start + 2) n of
            None \<Rightarrow> Inr (NeedMore, d)
          | Some (spans, pos) \<Rightarrow>
              and_then (append_fields f64_bits (zip (cd_columns d) (cd_builders d)) buf 0 (cd_coercions d) spans)
                (\<lambda>(r, t). Inr (Tuple (pos - start), d\<lparr>cd_rows := cd_rows d @ [r], cd_coercions := t\<rparr>))))"

definition batch_full :: "copy_decoder \<Rightarrow> bool" where
  "batch_full d \<longleftrightarrow> cd_batch_rows d \<le> cd_rows_in_batch d
     \<or> (0 < cd_batch_bytes d \<and> cd_batch_bytes d \<le> cd_bytes_in_batch d)"

definition count_tuple :: "nat \<Rightarrow> copy_decoder \<Rightarrow> copy_decoder" where
  "count_tuple n d = d\<lparr>cd_rows_in_batch := cd_rows_in_batch d + 1, cd_rows_total := cd_rows_total d + 1,
                       cd_bytes_in_batch := cd_bytes_in_batch d + n\<rparr>"

text \<open>The loop of \<open>feed\<close>.  A tuple is at least two bytes long and lies in the buffer, so the
  buffer's length bounds the number of rounds; \<open>fuel\<close> is that bound.\<close>

fun feed_loop :: "(string \<Rightarrow> int \<Rightarrow> int res) \<Rightarrow> nat \<Rightarrow> copy_decoder \<Rightarrow> nat \<Rightarrow> row list list
    \<Rightarrow> (row list list \<times> nat \<times> copy_decoder) res" where
  "feed_loop f64_bits 0 d cursor out = Inl (Panic ''out of fuel'')"
| "feed_loop f64_bits (Suc fuel) d cursor out =
     and_then (parse_tuple f64_bits d cursor) (\<lambda>(p, d).
       case p of
         Tuple n \<Rightarrow>
           (let d = count_tuple n d in
            if batch_full d
            then and_then (flush_batch d) (\<lambda>(b, d). feed_loop f64_bits fuel d (cursor + n) (out @ [b]))
            else feed_loop f64_bits fuel d (cursor + n) out)
       | End \<Rightarrow> Inr (out, cursor, d\<lparr>cd_finished := True\<rparr>)
       | NeedMore \<Rightarrow> Inr (out, cursor, d))"

definition feed_tuples :: "(string \<Rightarrow> int \<Rightarrow> int res) \<Rightarrow> copy_decoder \<Rightarrow> nat \<Rightarrow> (row list list \<times> copy_decoder) res" where
  "feed_tuples f64_bits d cursor =
     and_then (feed_loop f64_bits (Suc (length (cd_buf d))) d cursor []) (\<lambda>(out, cursor, d).
       Inr (out, d\<lparr>cd_buf := drop cursor (cd_buf d)\<rparr>))"

definition feed :: "(string \<Rightarrow> int \<Rightarrow> int res) \<Rightarrow> copy_decoder \<Rightarrow> string \<Rightarrow> (row list list \<times> copy_decoder) res" where
  "feed f64_bits d0 chunk =
     (let d = d0\<lparr>cd_buf := cd_buf d0 @ chunk\<rparr> in
      if cd_header_done d then feed_tuples f64_bits d 0
      else and_then (parse_header (cd_buf d)) (\<lambda>h.
        case h of
          Some n \<Rightarrow> feed_tuples f64_bits (d\<lparr>cd_header_done := True\<rparr>) n
        | None \<Rightarrow> Inr ([], d)))"

definition finish_decoder :: "copy_decoder \<Rightarrow> (row list option \<times> copy_decoder) res" where
  "finish_decoder d =
     (if 0 < cd_rows_in_batch d then and_then (flush_batch d) (\<lambda>(b, d). Inr (Some b, d))
      else Inr (None, d))"

definition saw_trailer :: "copy_decoder \<Rightarrow> bool" where
  "saw_trailer d = cd_finished d"

text \<open>The chunks of a stream, one after the other, then the end.\<close>

fun feed_all :: "(string \<Rightarrow> int \<Rightarrow> int res) \<Rightarrow> copy_decoder \<Rightarrow> string list \<Rightarrow> (row list list \<times> copy_decoder) res" where
  "feed_all f64_bits d [] = Inr ([], d)"
| "feed_all f64_bits d (c # cs) =
     and_then (feed f64_bits d c) (\<lambda>(out, d).
       and_then (feed_all f64_bits d cs) (\<lambda>(out', d). Inr (out @ out', d)))"

definition decode_chunks :: "(string \<Rightarrow> int \<Rightarrow> int res) \<Rightarrow> copy_decoder \<Rightarrow> string list \<Rightarrow> (row list list \<times> copy_decoder) res" where
  "decode_chunks f64_bits d cs =
     and_then (feed_all f64_bits d cs) (\<lambda>(out, d).
       and_then (finish_decoder d) (\<lambda>(b, d).
         Inr (out @ (case b of Some b \<Rightarrow> [b] | None \<Rightarrow> []), d)))"

section \<open>The wire format\<close>

fun be_bytes :: "nat \<Rightarrow> nat \<Rightarrow> string" where
  "be_bytes 0 n = []"
| "be_bytes (Suc k) n = be_bytes k (n div 256) @ [char_of (n mod 256)]"

type_synonym wire_row = "string option list"

definition null_length :: string where
  "null_length = be_bytes 4 (2 ^ 32 - 1)"

fun wire_field :: "string option \<Rightarrow> string" where
  "wire_field None = null_length"
| "wire_field (Some b) = be_bytes 4 (length b) @ b"

definition wire_row :: "wire_row \<Rightarrow> string" where
  "wire_row r = be_bytes 2 (length r) @ concat (map wire_field r)"

definition wire_header :: "string \<Rightarrow> string \<Rightarrow> string" where
  "wire_header flags ext = SIGNATURE @ flags @ be_bytes 4 (length ext) @ ext"

definition wire_trailer :: string where
  "wire_trailer = be_bytes 2 (2 ^ 16 - 1)"

definition wire_stream :: "string \<Rightarrow> string \<Rightarrow> wire_row list \<Rightarrow> string" where
  "wire_stream flags ext rows = wire_header flags ext @ concat (map wire_row rows) @ wire_trailer"

text \<open>What a row of fields is decoded to.\<close>

fun decode_fields :: "(string \<Rightarrow> int \<Rightarrow> int res) \<Rightarrow> (column_type \<times> builder) list \<Rightarrow> nat
    \<Rightarrow> coercion_tally \<Rightarrow> wire_row \<Rightarrow> (row \<times> coercion_tally) res" where
  "decode_fields f64_bits cols i tally [] = Inr ([], tally)"
| "decode_fields f64_bits cols i tally (None # fs) =
     and_then (decode_fields f64_bits cols (Suc i) tally fs) (\<lambda>(r, t). Inr (CNull # r, t))"
| "decode_fields f64_bits cols i tally (Some b # fs) =
     and_then (with_context (''column '' @ quoted (ct_name (fst (cols ! i))))
         (append_value f64_bits (snd (cols ! i)) (ct_type_id (fst (cols ! i))) b))
       (\<lambda>(v, c). and_then (decode_fields f64_bits cols (Suc i) (record_coercion i c tally) fs)
         (\<lambda>(r, t). Inr (v # r, t)))"

end
