(* ===== verification/QH_Copy_Laws.thy ===== *)
theory QH_Copy_Laws
  imports QH_Copy_Decode
begin

text \<open>
  What \<open>CopyDecoder\<close> promises: a well-formed binary \<open>COPY\<close> stream is decoded row by row, with
  the same batches, the same errors and the same end mark however the network cuts it into
  chunks; and the batches hold every row once, in order, none above the row limit.
\<close>

section \<open>The specification: row by row\<close>

fun absorb :: "(string \<Rightarrow> int \<Rightarrow> int res) \<Rightarrow> copy_decoder \<Rightarrow> wire_row list \<Rightarrow> (row list list \<times> copy_decoder) res" where
  "absorb f64_bits d [] = Inr ([], d)"
| "absorb f64_bits d (w # ws) =
     and_then (decode_fields f64_bits (zip (cd_columns d) (cd_builders d)) 0 (cd_coercions d) w)
       (\<lambda>(r, t).
         let d = count_tuple (length (wire_row w)) (d\<lparr>cd_rows := cd_rows d @ [r], cd_coercions := t\<rparr>) in
         if batch_full d
         then and_then (flush_batch d) (\<lambda>(b, d).
                and_then (absorb f64_bits d ws) (\<lambda>(bs, d). Inr (b # bs, d)))
         else absorb f64_bits d ws)"

definition wf_wire_row :: "nat \<Rightarrow> wire_row \<Rightarrow> bool" where
  "wf_wire_row n r \<longleftrightarrow> length r = n \<and> n < 2 ^ 15
     \<and> list_all (\<lambda>f. case f of None \<Rightarrow> True | Some b \<Rightarrow> length b < 2 ^ 31) r"

section \<open>Bytes of the wire\<close>

lemma length_be_bytes [simp]: "length (be_bytes k n) = k"
  by (induction k arbitrary: n) auto

lemma code_char_of [simp]: "code (char_of (n::nat)) = n mod 256"
  by (simp add: code_def)

lemma be_unsigned_snoc [simp]: "be_unsigned (s @ [c]) = 256 * be_unsigned s + int (code c)"
  by (simp add: be_unsigned_def)

lemma be_unsigned_be_bytes: "be_unsigned (be_bytes k n) = int (n mod 256 ^ k)"
proof (induction k arbitrary: n)
  case 0
  show ?case by (simp add: be_unsigned_def)
next
  case (Suc k)
  have "n mod 256 ^ Suc k = 256 * (n div 256 mod 256 ^ k) + n mod 256"
    by (simp add: mod_mult2_eq)
  then show ?case by (simp add: Suc)
qed

lemma be_signed_be_bytes_32: "n < 2 ^ 31 \<Longrightarrow> be_signed 32 (be_bytes 4 n) = int n"
  by (simp add: be_signed_def be_unsigned_be_bytes)

lemma be_signed_be_bytes_16: "n < 2 ^ 15 \<Longrightarrow> be_signed 16 (be_bytes 2 n) = int n"
  by (simp add: be_signed_def be_unsigned_be_bytes)

lemma be_signed_null: "be_signed 32 (null_length) = - 1"
  by (simp add: be_signed_def be_unsigned_be_bytes null_length_def)

lemma length_null_length [simp]: "length null_length = 4"
  by (simp add: null_length_def)

lemma be_signed_trailer: "be_signed 16 wire_trailer = - 1"
  by (simp add: be_signed_def be_unsigned_be_bytes wire_trailer_def)

section \<open>One tuple\<close>

fun spans_of :: "nat \<Rightarrow> wire_row \<Rightarrow> (nat \<times> nat) option list" where
  "spans_of pos [] = []"
| "spans_of pos (None # fs) = None # spans_of (pos + 4) fs"
| "spans_of pos (Some b # fs) = Some (pos + 4, pos + 4 + length b) # spans_of (pos + 4 + length b) fs"

lemma parse_spans_complete:
  assumes "list_all (\<lambda>f. case f of None \<Rightarrow> True | Some b \<Rightarrow> length b < 2 ^ 31) r"
    and "buf = pre @ concat (map wire_field r) @ post" and "length buf < 2 ^ 63"
  shows "parse_spans buf (length pre) (length r)
    = Some (spans_of (length pre) r, length pre + length (concat (map wire_field r)))"
  using assms
proof (induction r arbitrary: pre)
  case (Cons f fs)
  show ?case
  proof (cases f)
    case None
    have b: "buf = (pre @ null_length) @ concat (map wire_field fs) @ post"
      using Cons.prems(2) None by simp
    then have "parse_spans buf (length pre + 4) (length fs) = Some (spans_of (length pre + 4) fs,
        length pre + 4 + length (concat (map wire_field fs)))"
      using Cons.IH[OF _ b] Cons.prems by simp
    moreover have "take 4 (drop (length pre) buf) = null_length" unfolding b by simp
    moreover have "length pre + 4 \<le> length buf" unfolding b by simp
    ultimately show ?thesis using None
      by (simp add: be_signed_null Let_def)
  next
    case (Some v)
    have b: "buf = (pre @ be_bytes 4 (length v) @ v) @ concat (map wire_field fs) @ post"
      using Cons.prems(2) Some by simp
    have v: "length v < 2 ^ 31" using Cons.prems(1) Some by simp
    have "parse_spans buf (length pre + 4 + length v) (length fs)
      = Some (spans_of (length pre + 4 + length v) fs,
        length pre + 4 + length v + length (concat (map wire_field fs)))"
      using Cons.IH[OF _ b] Cons.prems by (simp add: add.assoc)
    moreover have "take 4 (drop (length pre) buf) = be_bytes 4 (length v)" unfolding b by simp
    moreover have l: "length pre + 4 + length v \<le> length buf" unfolding b by simp
    moreover have "(int (length pre) + 4 + int (length v)) mod 2 ^ 64 = int (length pre + 4 + length v)"
      using l Cons.prems(3) by simp
    ultimately show ?thesis using Some v
      by (simp add: be_signed_be_bytes_32 Let_def nat_int_add del: of_nat_add)
  qed
qed simp

lemma parse_spans_extend:
  "parse_spans buf pos n = Some (s, p) \<Longrightarrow> pos \<le> length buf \<Longrightarrow>
    parse_spans (buf @ x) pos n = Some (s, p) \<and> p \<le> length buf"
proof (induction n arbitrary: pos s p)
  case (Suc n)
  let ?len = "be_signed 32 (take 4 (drop pos buf))"
  have l: "pos + 4 \<le> length buf" using Suc.prems by (auto split: if_splits)
  then have t: "take 4 (drop pos (buf @ x)) = take 4 (drop pos buf)" by simp
  show ?case
  proof (cases "?len = - 1")
    case True
    then show ?thesis using Suc l t by (fastforce simp: Let_def)
  next
    case False
    let ?stop = "nat ((int pos + 4 + ?len) mod 2 ^ 64)"
    have "?stop \<le> length buf" using Suc.prems l False by (auto simp: Let_def add.assoc split: if_splits)
    then show ?thesis using Suc l t False
      by (auto simp: Let_def add.assoc split: if_splits dest: Suc.IH)
  qed
qed simp

lemma append_fields_decode:
  assumes "buf = pre @ concat (map wire_field r) @ post"
  shows "append_fields f64_bits cols buf i t (spans_of (length pre) r) = decode_fields f64_bits cols i t r"
  using assms
proof (induction r arbitrary: pre i t)
  case (Cons f fs)
  show ?case
  proof (cases f)
    case None
    have b: "buf = (pre @ null_length) @ concat (map wire_field fs) @ post"
      using Cons.prems None by simp
    show ?thesis using Cons.IH[OF b] None by simp
  next
    case (Some v)
    have b: "buf = (pre @ be_bytes 4 (length v) @ v) @ concat (map wire_field fs) @ post"
      using Cons.prems Some by simp
    have "take (length v) (drop (length pre + 4) buf) = v" unfolding b by simp
    moreover have "append_fields f64_bits cols buf i t (spans_of (length pre + 4 + length v) fs)
        = decode_fields f64_bits cols i t fs" for i t
      using Cons.IH[OF b, of i t] by (simp add: add.assoc)
    ultimately show ?thesis using Some by simp
  qed
qed simp

definition decoder_ok :: "copy_decoder \<Rightarrow> bool" where
  "decoder_ok d \<longleftrightarrow> length (cd_columns d) < 2 ^ 15"

definition append_row :: "copy_decoder \<Rightarrow> row \<times> coercion_tally \<Rightarrow> copy_decoder" where
  "append_row d rt = d\<lparr>cd_rows := cd_rows d @ [fst rt], cd_coercions := snd rt\<rparr>"

lemma wire_row_split: "wire_row r = be_bytes 2 (length r) @ concat (map wire_field r)"
  by (simp add: wire_row_def)

lemma take2_wire: "take 2 (drop (length pre) (pre @ be_bytes 2 n @ post)) = be_bytes 2 n"
  by simp

lemma parse_tuple_complete:
  assumes "decoder_ok d" and "wf_wire_row (length (cd_columns d)) w"
    and "cd_buf d = pre @ wire_row w @ post" and "length (cd_buf d) < 2 ^ 63"
  shows "parse_tuple f d (length pre) =
    and_then (decode_fields f (zip (cd_columns d) (cd_builders d)) 0 (cd_coercions d) w)
      (\<lambda>rt. Inr (Tuple (length (wire_row w)), append_row d rt))"
proof -
  let ?n = "length (cd_columns d)"
  have n: "length w = ?n" "?n < 2 ^ 15" using assms by (auto simp: wf_wire_row_def decoder_ok_def)
  have b: "cd_buf d = pre @ be_bytes 2 ?n @ concat (map wire_field w) @ post"
    using assms(3) n by (simp add: wire_row_split)
  have b': "cd_buf d = (pre @ be_bytes 2 ?n) @ concat (map wire_field w) @ post" using b by simp
  have fc: "be_signed 16 (take 2 (drop (length pre) (cd_buf d))) = int ?n"
    unfolding b take2_wire using n by (simp add: be_signed_be_bytes_16)
  have l: "\<not> length (cd_buf d) < length pre + 2" unfolding b by simp
  have sp: "parse_spans (cd_buf d) (length pre + 2) ?n
      = Some (spans_of (length pre + 2) w, length pre + 2 + length (concat (map wire_field w)))"
    using parse_spans_complete[OF _ b' assms(4)] assms(2) n by (simp add: wf_wire_row_def)
  have ap: "append_fields f cols (cd_buf d) i t (spans_of (length pre + 2) w) = decode_fields f cols i t w"
    for cols i t using append_fields_decode[OF b', of f cols i t] by simp
  have "length pre + 2 + length (concat (map wire_field w)) - length pre = length (wire_row w)"
    by (simp add: wire_row_split)
  moreover have "int ?n mod 2 ^ 64 = int ?n" "int ?n \<noteq> - 1" using n by simp_all
  ultimately show ?thesis
    using l unfolding parse_tuple_def Let_def fc
    by (simp add: sp ap append_row_def case_prod_unfold del: add_2_eq_Suc add_2_eq_Suc')
qed

lemma wire_row_length: "2 \<le> length (wire_row w)"
  by (simp add: wire_row_split)

lemma parse_tuple_incomplete:
  assumes "decoder_ok d" and "wf_wire_row (length (cd_columns d)) w"
    and "cd_buf d = pre @ q" and "q @ x = wire_row w @ y" and "length q < length (wire_row w)"
    and "length (cd_buf d) + length (wire_row w) < 2 ^ 63"
  shows "parse_tuple f d (length pre) = Inr (NeedMore, d)"
proof (cases "length q < 2")
  case True
  then show ?thesis using assms(3) by (simp add: parse_tuple_def)
next
  case False
  let ?n = "length (cd_columns d)"
  have n: "length w = ?n" "?n < 2 ^ 15" using assms by (auto simp: wf_wire_row_def decoder_ok_def)
  obtain z where z: "wire_row w = q @ z"
    using assms(4,5) by (metis append_eq_append_conv_if append_take_drop_id less_imp_le_nat take_all_iff append_eq_conv_conj)
  have "take 2 q = take 2 (wire_row w)" using False z by simp
  also have "\<dots> = be_bytes 2 ?n" using n by (simp add: wire_row_split)
  finally have q2: "take 2 q = be_bytes 2 ?n" .
  have fc: "be_signed 16 (take 2 (drop (length pre) (cd_buf d))) = int ?n"
    using assms(3) q2 n by (simp add: be_signed_be_bytes_16)
  have full: "cd_buf d @ z = (pre @ be_bytes 2 ?n) @ concat (map wire_field w) @ []"
    using assms(3) z n by (simp add: wire_row_split)
  have len: "length (cd_buf d @ z) < 2 ^ 63"
    using assms(6) z by simp
  have sp: "parse_spans (cd_buf d @ z) (length pre + 2) ?n
      = Some (spans_of (length pre + 2) w, length pre + 2 + length (concat (map wire_field w)))"
    using parse_spans_complete[OF _ full len] assms(2) n by (simp add: wf_wire_row_def)
  have "parse_spans (cd_buf d) (length pre + 2) ?n = None"
  proof (rule ccontr)
    assume "parse_spans (cd_buf d) (length pre + 2) ?n \<noteq> None"
    then obtain s p where s: "parse_spans (cd_buf d) (length pre + 2) ?n = Some (s, p)" by auto
    have "length pre + 2 \<le> length (cd_buf d)" using assms(3) False by simp
    from parse_spans_extend[OF s this, of z] sp
    have "length pre + 2 + length (concat (map wire_field w)) \<le> length (cd_buf d)" by simp
    then show False using assms(3,5) by (simp add: wire_row_split)
  qed
  moreover have "int ?n mod 2 ^ 64 = int ?n" "int ?n \<noteq> - 1" using n by simp_all
  moreover have "\<not> length (cd_buf d) < length pre + 2" using assms(3) False by simp
  ultimately show ?thesis unfolding parse_tuple_def Let_def fc by simp
qed

lemma parse_tuple_trailer:
  assumes "cd_buf d = pre @ q" and "q @ x = wire_trailer"
  shows "parse_tuple f d (length pre) = Inr (if q = wire_trailer then End else NeedMore, d)"
proof (cases "q = wire_trailer")
  case True
  have "take 2 (drop (length pre) (cd_buf d)) = wire_trailer"
    using assms True by (simp add: wire_trailer_def)
  moreover have "\<not> length (cd_buf d) < length pre + 2" using assms True by (simp add: wire_trailer_def)
  ultimately show ?thesis using True unfolding parse_tuple_def Let_def by (simp add: be_signed_trailer)
next
  case False
  have "length q + length x = 2" using arg_cong[OF assms(2), of length] by (simp add: wire_trailer_def)
  moreover have "x \<noteq> []" using False assms(2) by auto
  ultimately have "length q < 2" by (cases x) auto
  then show ?thesis using False assms(1) by (simp add: parse_tuple_def)
qed

text \<open>What is left of a body after its complete rows: nothing of a row is whole.\<close>

definition body :: "wire_row list \<Rightarrow> string" where
  "body ws = concat (map wire_row ws) @ wire_trailer"

fun partial :: "string \<Rightarrow> wire_row list \<Rightarrow> bool" where
  "partial q [] = True"
| "partial q (w # ws) = (length q < length (wire_row w))"

lemma parse_tuple_partial:
  assumes "decoder_ok d" and "list_all (wf_wire_row (length (cd_columns d))) ws"
    and "cd_buf d = pre @ q" and "q @ x = body ws" and "partial q ws"
    and "length (cd_buf d) + length (body ws) < 2 ^ 63"
  shows "parse_tuple f d (length pre)
    = Inr (if ws = [] \<and> q = wire_trailer then End else NeedMore, d)"
proof (cases ws)
  case Nil
  then show ?thesis using parse_tuple_trailer[OF assms(3), of x f] assms(4) by (simp add: body_def)
next
  case (Cons w ws')
  have "q @ x = wire_row w @ body ws'" using assms(4) Cons by (simp add: body_def)
  then show ?thesis
    using parse_tuple_incomplete[of d w pre q x "body ws'" f] assms Cons by (simp add: body_def)
qed

lemma body_prefix:
  "p @ x = body ws \<Longrightarrow> \<exists>us vs q. ws = us @ vs \<and> p = concat (map wire_row us) @ q
     \<and> q @ x = body vs \<and> partial q vs"
proof (induction ws arbitrary: p)
  case Nil
  then show ?case by (intro exI[of _ "[]"] exI[of _ p]) simp
next
  case (Cons w ws)
  show ?case
  proof (cases "length p < length (wire_row w)")
    case True
    then show ?thesis using Cons.prems
      by (intro exI[of _ "[]"] exI[of _ "w # ws"] exI[of _ p]) simp
  next
    case False
    have e: "p @ x = wire_row w @ body ws" using Cons.prems by (simp add: body_def)
    let ?p' = "drop (length (wire_row w)) p"
    have "take (length (wire_row w)) p = wire_row w"
      using arg_cong[OF e, of "take (length (wire_row w))"] False by simp
    then have p: "p = wire_row w @ ?p'" by (metis append_take_drop_id)
    then obtain p' where p': "p = wire_row w @ p'" by blast
    then have p'2: "p' @ x = body ws" using e by simp
    obtain us vs q where "ws = us @ vs" "p' = concat (map wire_row us) @ q" "q @ x = body vs" "partial q vs"
      using Cons.IH[OF p'2] by blast
    then show ?thesis using p' by (intro exI[of _ "w # us"] exI[of _ vs] exI[of _ q]) simp
  qed
qed

section \<open>Feeding refines row by row\<close>

text \<open>What the machine keeps of the rows does not depend on the buffer or the end mark.\<close>

definition put :: "string \<Rightarrow> bool \<Rightarrow> bool \<Rightarrow> copy_decoder \<Rightarrow> copy_decoder" where
  "put b h fin d = d\<lparr>cd_buf := b, cd_header_done := h, cd_finished := fin\<rparr>"

definition lift2 :: "('d \<Rightarrow> 'd) \<Rightarrow> ('b \<times> 'd) res \<Rightarrow> ('b \<times> 'd) res" where
  "lift2 g r = and_then r (\<lambda>(bs, d). Inr (bs, g d))"

lemma put_put [simp]: "put b h fin (put b' h' fin' d) = put b h fin d"
  by (simp add: put_def)

lemma put_select [simp]:
  "cd_columns (put b h fin d) = cd_columns d" "cd_builders (put b h fin d) = cd_builders d"
  "cd_coercions (put b h fin d) = cd_coercions d" "cd_buf (put b h fin d) = b"
  "cd_header_done (put b h fin d) = h" "cd_finished (put b h fin d) = fin"
  "cd_rows (put b h fin d) = cd_rows d" "cd_rows_in_batch (put b h fin d) = cd_rows_in_batch d"
  "decoder_ok (put b h fin d) = decoder_ok d"
  by (simp_all add: put_def decoder_ok_def)

definition step_row :: "copy_decoder \<Rightarrow> wire_row \<Rightarrow> row \<times> coercion_tally \<Rightarrow> copy_decoder" where
  "step_row d w rt = count_tuple (length (wire_row w)) (append_row d rt)"

lemma step_row_put: "step_row (put b h fin d) w rt = put b h fin (step_row d w rt)"
  by (simp add: step_row_def put_def append_row_def count_tuple_def)

lemma batch_full_put: "batch_full (put b h fin d) = batch_full d"
  by (simp add: batch_full_def put_def)

lemma flush_batch_put: "flush_batch (put b h fin d) = lift2 (put b h fin) (flush_batch d)"
  by (simp add: flush_batch_def put_def lift2_def)

definition flushed :: "copy_decoder \<Rightarrow> (row list list \<times> copy_decoder) res" where
  "flushed d = (if batch_full d then and_then (flush_batch d) (\<lambda>(b, d). Inr ([b], d)) else Inr ([], d))"

lemma absorb_Cons:
  "absorb f d (w # ws) =
    and_then (decode_fields f (zip (cd_columns d) (cd_builders d)) 0 (cd_coercions d) w) (\<lambda>rt.
      and_then (flushed (step_row d w rt)) (\<lambda>(bs, d').
        and_then (absorb f d' ws) (\<lambda>(bs', d''). Inr (bs @ bs', d''))))"
proof -
  have [simp]: "and_then x Inr = x" for x :: "'z res" by (cases x) auto
  have [simp]: "(\<lambda>(b, d). Inr (b, d)) = Inr" by auto
  show ?thesis
    by (auto simp: step_row_def append_row_def flushed_def Let_def and_then_assoc case_prod_unfold
        intro!: arg_cong[of _ _ "and_then _"] ext)
qed

lemma flush_batch_fields:
  "flush_batch d = Inr (b, d') \<Longrightarrow> cd_columns d' = cd_columns d \<and> cd_builders d' = cd_builders d
     \<and> cd_buf d' = cd_buf d \<and> cd_header_done d' = cd_header_done d \<and> cd_finished d' = cd_finished d"
  by (auto simp: flush_batch_def split: if_splits)

lemma flushed_fields:
  "flushed d = Inr (bs, d') \<Longrightarrow> cd_columns d' = cd_columns d \<and> cd_builders d' = cd_builders d
     \<and> cd_buf d' = cd_buf d \<and> cd_header_done d' = cd_header_done d \<and> cd_finished d' = cd_finished d"
  by (auto simp: flushed_def qh_res dest: flush_batch_fields split: if_splits)

lemma step_row_fields [simp]:
  "cd_columns (step_row d w rt) = cd_columns d" "cd_builders (step_row d w rt) = cd_builders d"
  "cd_buf (step_row d w rt) = cd_buf d" "cd_header_done (step_row d w rt) = cd_header_done d"
  "cd_finished (step_row d w rt) = cd_finished d"
  by (simp_all add: step_row_def append_row_def count_tuple_def)

lemma absorb_fields:
  "absorb f d ws = Inr (bs, d') \<Longrightarrow> cd_columns d' = cd_columns d \<and> cd_builders d' = cd_builders d
     \<and> cd_buf d' = cd_buf d \<and> cd_header_done d' = cd_header_done d \<and> cd_finished d' = cd_finished d"
proof (induction ws arbitrary: d bs)
  case (Cons w ws)
  from Cons.prems obtain rt bs1 d1 bs2 where
    "flushed (step_row d w rt) = Inr (bs1, d1)" "absorb f d1 ws = Inr (bs2, d')"
    unfolding absorb_Cons by (auto simp: qh_res)
  then show ?case using flushed_fields[of "step_row d w rt"] Cons.IH[of d1 bs2] by simp
qed simp

lemma lift2_and_then:
  "lift2 g (and_then r k) = and_then r (\<lambda>x. lift2 g (k x))"
  by (cases r) (auto simp: lift2_def)

lemma flushed_put: "flushed (put b h fin d) = lift2 (put b h fin) (flushed d)"
  by (cases "flush_batch d") (auto simp: flushed_def batch_full_put flush_batch_put lift2_def)

lemma absorb_put: "absorb f (put b h fin d) ws = lift2 (put b h fin) (absorb f d ws)"
proof (induction ws arbitrary: d)
  case Nil
  show ?case by (simp add: lift2_def)
next
  case (Cons w ws)
  have "and_then (flushed (step_row (put b h fin d) w rt)) (\<lambda>(bs, d').
          and_then (absorb f d' ws) (\<lambda>(bs', d''). Inr (bs @ bs', d'')))
      = lift2 (put b h fin) (and_then (flushed (step_row d w rt)) (\<lambda>(bs, d').
          and_then (absorb f d' ws) (\<lambda>(bs', d''). Inr (bs @ bs', d''))))" for rt
  proof (cases "flushed (step_row d w rt)")
    case (Inr p)
    obtain bs d1 where p: "p = (bs, d1)" by (cases p)
    show ?thesis using Cons[of d1] Inr p
      by (cases "absorb f d1 ws") (auto simp: step_row_put flushed_put lift2_def)
  qed (simp add: step_row_put flushed_put lift2_def)
  then show ?case unfolding absorb_Cons lift2_and_then by simp
qed

lemma absorb_append:
  "absorb f d (us @ ws) = and_then (absorb f d us) (\<lambda>(bs, d').
     and_then (absorb f d' ws) (\<lambda>(bs', d''). Inr (bs @ bs', d'')))"
proof (induction us arbitrary: d)
  case Nil
  show ?case by (cases "absorb f d ws") auto
next
  case (Cons u us)
  show ?case unfolding append_Cons absorb_Cons
    by (auto simp: Cons and_then_assoc case_prod_unfold intro!: arg_cong[of _ _ "and_then _"] ext)
qed

lemma feed_loop_rows:
  assumes "decoder_ok d" and "list_all (wf_wire_row (length (cd_columns d))) (us @ vs)"
    and "cd_buf d = pre @ concat (map wire_row us) @ q" and "q @ x = body vs" and "partial q vs"
    and "length us < fuel" and "length (cd_buf d) + length (body vs) < 2 ^ 63"
  shows "feed_loop f fuel d (length pre) out =
    and_then (absorb f d us) (\<lambda>(bs, d').
      Inr (out @ bs, length pre + length (concat (map wire_row us)),
           if vs = [] \<and> q = wire_trailer then d'\<lparr>cd_finished := True\<rparr> else d'))"
  using assms
proof (induction us arbitrary: d pre fuel out)
  case Nil
  then obtain k where k: "fuel = Suc k" by (cases fuel) auto
  have "parse_tuple f d (length pre) = Inr (if vs = [] \<and> q = wire_trailer then End else NeedMore, d)"
    using Nil by (intro parse_tuple_partial[of d vs pre q x]) auto
  then show ?case by (simp add: k)
next
  case (Cons u us)
  then obtain k where k: "fuel = Suc k" by (cases fuel) auto
  have b: "cd_buf d = pre @ wire_row u @ (concat (map wire_row us) @ q)" using Cons.prems by simp
  have pt: "parse_tuple f d (length pre) =
    and_then (decode_fields f (zip (cd_columns d) (cd_builders d)) 0 (cd_coercions d) u)
      (\<lambda>rt. Inr (Tuple (length (wire_row u)), append_row d rt))"
    using Cons.prems by (intro parse_tuple_complete[OF _ _ b]) auto
  have next': "feed_loop f k d1 (length pre + length (wire_row u)) out' =
      and_then (absorb f d1 us) (\<lambda>(bs, d').
        Inr (out' @ bs, length pre + length (wire_row u) + length (concat (map wire_row us)),
           if vs = [] \<and> q = wire_trailer then d'\<lparr>cd_finished := True\<rparr> else d'))"
    if "cd_columns d1 = cd_columns d" "cd_buf d1 = cd_buf d" for d1 out'
  proof -
    have "feed_loop f k d1 (length (pre @ wire_row u)) out' =
      and_then (absorb f d1 us) (\<lambda>(bs, d').
        Inr (out' @ bs, length (pre @ wire_row u) + length (concat (map wire_row us)),
           if vs = [] \<and> q = wire_trailer then d'\<lparr>cd_finished := True\<rparr> else d'))"
      using that Cons.prems k by (intro Cons.IH) (auto simp: decoder_ok_def b)
    then show ?thesis by simp
  qed
  have rest: "(case Tuple (length (wire_row u)) of
         Tuple n \<Rightarrow>
           (let d = count_tuple n (append_row d rt) in
            if batch_full d
            then and_then (flush_batch d) (\<lambda>(b, d). feed_loop f k d (length pre + n) (out @ [b]))
            else feed_loop f k d (length pre + n) out)
       | End \<Rightarrow> Inr (out, length pre, (append_row d rt)\<lparr>cd_finished := True\<rparr>)
       | NeedMore \<Rightarrow> Inr (out, length pre, append_row d rt))
     = and_then (flushed (step_row d u rt)) (\<lambda>(bs, d').
         feed_loop f k d' (length pre + length (wire_row u)) (out @ bs))" for rt
    by (auto simp: step_row_def flushed_def Let_def and_then_assoc case_prod_unfold)
  have "feed_loop f fuel d (length pre) out =
    and_then (decode_fields f (zip (cd_columns d) (cd_builders d)) 0 (cd_coercions d) u) (\<lambda>rt.
      and_then (flushed (step_row d u rt)) (\<lambda>(bs, d').
         feed_loop f k d' (length pre + length (wire_row u)) (out @ bs)))"
    unfolding k feed_loop.simps(2) pt and_then_assoc by (simp only: and_then.simps prod.case rest)
  also have "\<dots> = and_then (decode_fields f (zip (cd_columns d) (cd_builders d)) 0 (cd_coercions d) u) (\<lambda>rt.
      and_then (flushed (step_row d u rt)) (\<lambda>(bs, d').
         and_then (absorb f d' us) (\<lambda>(bs', d').
        Inr ((out @ bs) @ bs', length pre + length (wire_row u) + length (concat (map wire_row us)),
           if vs = [] \<and> q = wire_trailer then d'\<lparr>cd_finished := True\<rparr> else d'))))"
  proof (rule arg_cong[of _ _ "and_then _"], rule ext)
    fix rt
    show "and_then (flushed (step_row d u rt)) (\<lambda>(bs, d').
         feed_loop f k d' (length pre + length (wire_row u)) (out @ bs)) =
      and_then (flushed (step_row d u rt)) (\<lambda>(bs, d').
         and_then (absorb f d' us) (\<lambda>(bs', d').
        Inr ((out @ bs) @ bs', length pre + length (wire_row u) + length (concat (map wire_row us)),
           if vs = [] \<and> q = wire_trailer then d'\<lparr>cd_finished := True\<rparr> else d')))"
    proof (cases "flushed (step_row d u rt)")
      case (Inr p)
      then show ?thesis using flushed_fields[of "step_row d u rt" "fst p" "snd p"] next'[of "snd p"]
        by (cases p) simp
    qed simp
  qed
  finally show ?case
    unfolding absorb_Cons by (simp add: and_then_assoc case_prod_unfold add.assoc cong: if_cong)
qed

lemma length_rows_bytes: "length us \<le> length (concat (map wire_row us))"
proof (induction us)
  case (Cons u us)
  then show ?case using wire_row_length[of u] by simp
qed simp

text \<open>One feed after the header: the rows now whole are absorbed, the rest is kept.\<close>

lemma feed_tuples_rows:
  assumes "decoder_ok d" and "list_all (wf_wire_row (length (cd_columns d))) (us @ vs)"
    and "cd_buf d = pre @ concat (map wire_row us) @ q" and "q @ x = body vs" and "partial q vs"
    and "length (cd_buf d) + length (body vs) < 2 ^ 63"
  shows "feed_tuples f d (length pre) =
    lift2 (put q (cd_header_done d) (cd_finished d \<or> (vs = [] \<and> q = wire_trailer))) (absorb f d us)"
proof -
  have fuel: "length us < Suc (length (cd_buf d))"
    using length_rows_bytes[of us] assms(3) by simp
  show ?thesis
  proof (cases "absorb f d us")
    case (Inl e)
    then show ?thesis
      unfolding feed_tuples_def feed_loop_rows[OF assms(1-5) fuel assms(6)] by (simp add: lift2_def)
  next
    case (Inr p)
    obtain bs d' where p: "p = (bs, d')" by (cases p)
    have "drop (length pre + length (concat (map wire_row us))) (cd_buf d) = q"
      unfolding assms(3) by simp
    then show ?thesis using Inr p absorb_fields[of f d us bs d']
      unfolding feed_tuples_def feed_loop_rows[OF assms(1-5) fuel assms(6)]
      by (auto simp: lift2_def put_def split: if_splits)
  qed
qed

lemma lift2_bind: "and_then (lift2 g r) (\<lambda>(bs, d). k bs d) = and_then r (\<lambda>(bs, d). k bs (g d))"
  by (cases r) (auto simp: lift2_def)

text \<open>Any way of cutting what is left of the body gives the same batches and the same state.\<close>

lemma feed_all_body:
  assumes "decoder_ok d" and "list_all (wf_wire_row (length (cd_columns d))) ws"
    and "cd_header_done d" and "cd_buf d @ concat cs = body ws" and "partial (cd_buf d) ws"
    and "cd_finished d \<longleftrightarrow> cd_buf d = wire_trailer \<and> ws = []"
    and "2 * length (body ws) < 2 ^ 63"
  shows "feed_all f d cs = lift2 (put wire_trailer True True) (absorb f d ws)"
  using assms
proof (induction cs arbitrary: d ws)
  case Nil
  then have "ws = []" by (cases ws) (auto simp: body_def)
  moreover have "put wire_trailer True True d = d"
    using Nil \<open>ws = []\<close> by (auto simp: put_def body_def)
  ultimately show ?case by (simp add: lift2_def)
next
  case (Cons c cs)
  have "(cd_buf d @ c) @ concat cs = body ws" using Cons.prems by simp
  from body_prefix[OF this] obtain us vs q where s: "ws = us @ vs"
     "cd_buf d @ c = concat (map wire_row us) @ q" "q @ concat cs = body vs" "partial q vs" by blast
  let ?d = "put (cd_buf d @ c) True (cd_finished d) d"
  let ?fin = "cd_finished d \<or> (vs = [] \<and> q = wire_trailer)"
  have dd: "d\<lparr>cd_buf := cd_buf d @ c\<rparr> = ?d" using Cons.prems(3) by (simp add: put_def)
  have lens: "length (cd_buf d @ c) + length (body vs) < 2 ^ 63"
  proof -
    have "length (cd_buf d @ c) \<le> length (body ws)"
      using arg_cong[OF \<open>(cd_buf d @ c) @ concat cs = body ws\<close>, of length] by simp
    moreover have "length (body vs) \<le> length (body ws)" using s(1) by (simp add: body_def)
    ultimately show ?thesis using Cons.prems(7) by linarith
  qed
  have fd: "feed f d c = lift2 (put q True ?fin) (absorb f d us)"
  proof -
    have "feed f d c = feed_tuples f ?d (length ([]::string))"
      using Cons.prems(3) by (simp add: feed_def Let_def dd)
    also have "\<dots> = lift2 (put q True ?fin) (absorb f ?d us)"
      using feed_tuples_rows[of ?d us vs "[]" q "concat cs" f] Cons.prems s lens by simp
    also have "\<dots> = lift2 (put q True ?fin) (absorb f d us)"
      by (cases "absorb f d us") (auto simp: absorb_put lift2_def)
    finally show ?thesis .
  qed
  have fin: "?fin \<longleftrightarrow> q = wire_trailer \<and> vs = []"
  proof -
    have "q = wire_trailer \<and> vs = []" if "cd_finished d"
    proof -
      have "cd_buf d = wire_trailer" "ws = []" using that Cons.prems(6) by auto
      then show ?thesis using s Cons.prems(4) by (auto simp: body_def)
    qed
    then show ?thesis by blast
  qed
  show ?case
  proof (cases "absorb f d us")
    case (Inl e)
    then show ?thesis by (simp add: fd s(1) absorb_append lift2_def)
  next
    case (Inr p)
    obtain bs d' where p: "p = (bs, d')" by (cases p)
    have fields: "cd_columns d' = cd_columns d" using absorb_fields[of f d us bs d'] Inr p by simp
    have vb: "2 * length (body vs) < 2 ^ 63" using Cons.prems(7) s(1) by (simp add: body_def)
    have "feed_all f (put q True ?fin d') cs = lift2 (put wire_trailer True True) (absorb f (put q True ?fin d') vs)"
      using Cons.prems s fin fields vb by (intro Cons.IH) (auto simp: decoder_ok_def)
    also have "\<dots> = lift2 (put wire_trailer True True) (absorb f d' vs)"
      by (cases "absorb f d' vs") (auto simp: absorb_put lift2_def)
    finally have ih: "feed_all f (put q True ?fin d') cs = lift2 (put wire_trailer True True) (absorb f d' vs)" .
    show ?thesis using Inr p
      by (cases "absorb f d' vs") (auto simp: fd s(1) absorb_append lift2_def ih)
  qed
qed

section \<open>The header\<close>

lemma signature_length [simp]: "length SIGNATURE = 11"
  by (simp add: SIGNATURE_def)

lemma wire_header_length: "length flags = 4 \<Longrightarrow> length (wire_header flags ext) = 19 + length ext"
  by (simp add: wire_header_def)

lemma parse_header_prefix:
  assumes "length flags = 4" and "length ext < 2 ^ 31" and "p @ x = wire_header flags ext @ y"
  shows "parse_header p = Inr (if length p < length (wire_header flags ext) then None
     else Some (length (wire_header flags ext)))"
proof (cases "length p < 19")
  case True
  then show ?thesis using wire_header_length[OF assms(1)] by (simp add: parse_header_def)
next
  case False
  have "take 19 p = take 19 (wire_header flags ext @ y)"
    using arg_cong[OF assms(3), of "take 19"] False by simp
  also have "\<dots> = SIGNATURE @ flags @ be_bytes 4 (length ext)"
    using assms(1) by (simp add: wire_header_def)
  finally have t: "take 19 p = SIGNATURE @ flags @ be_bytes 4 (length ext)" .
  have "take 11 p = take 11 (take 19 p)" "take 4 (drop 15 p) = drop 15 (take 19 p)"
    by (simp_all add: drop_take)
  then have "take 11 p = SIGNATURE" "take 4 (drop 15 p) = be_bytes 4 (length ext)"
    unfolding t using assms(1) by simp_all
  moreover have "nat ((19 + int (length ext)) mod 2 ^ 64) = 19 + length ext" using assms(2) by simp
  ultimately show ?thesis
    using False wire_header_length[OF assms(1), of ext] assms(2)
    by (simp add: parse_header_def be_signed_be_bytes_32 Let_def)
qed

lemma feed_all_stream:
  assumes "decoder_ok d" and "list_all (wf_wire_row (length (cd_columns d))) ws"
    and "\<not> cd_header_done d" and "\<not> cd_finished d"
    and "length flags = 4" and "length ext < 2 ^ 31"
    and "cd_buf d @ concat cs = wire_stream flags ext ws"
    and "length (cd_buf d) < length (wire_header flags ext)"
    and "2 * length (wire_stream flags ext ws) < 2 ^ 63"
  shows "feed_all f d cs = lift2 (put wire_trailer True True) (absorb f d ws)"
  using assms
proof (induction cs arbitrary: d)
  case Nil
  then show ?case by (simp add: wire_stream_def)
next
  case (Cons c cs)
  let ?H = "wire_header flags ext" and ?p = "cd_buf d @ c"
  have e: "?p @ concat cs = ?H @ body ws" using Cons.prems(7) by (simp add: wire_stream_def body_def)
  note ph = parse_header_prefix[OF Cons.prems(5,6) e]
  let ?d = "put ?p False False d"
  have dd: "d\<lparr>cd_buf := ?p\<rparr> = ?d" using Cons.prems(3,4) by (simp add: put_def)
  show ?case
  proof (cases "length ?p < length ?H")
    case True
    have "feed f d c = Inr ([], ?d)" using Cons.prems(3) True by (simp add: feed_def Let_def ph dd)
    moreover have "feed_all f ?d cs = lift2 (put wire_trailer True True) (absorb f ?d ws)"
      using Cons.prems True e by (intro Cons.IH) (auto simp: wire_stream_def body_def)
    ultimately show ?thesis by (cases "absorb f d ws") (auto simp: absorb_put lift2_def)
  next
    case False
    then obtain r where r: "?p = ?H @ r" "r @ concat cs = body ws"
    proof -
      have "take (length ?H) ?p = ?H" using arg_cong[OF e, of "take (length ?H)"] False by simp
      then have "?p = ?H @ drop (length ?H) ?p" by (metis append_take_drop_id)
      then show ?thesis using that e by (metis append.assoc append_same_eq same_append_eq)
    qed
    from body_prefix[OF r(2)] obtain us vs q where s: "ws = us @ vs"
       "r = concat (map wire_row us) @ q" "q @ concat cs = body vs" "partial q vs" by blast
    let ?d1 = "put ?p True False d" and ?fin = "vs = [] \<and> q = wire_trailer"
    have lens: "length ?p + length (body vs) < 2 ^ 63" "2 * length (body vs) < 2 ^ 63"
    proof -
      have "length ?p \<le> length (wire_stream flags ext ws)" "length (body vs) \<le> length (wire_stream flags ext ws)"
        using arg_cong[OF e, of length] s(1) by (simp_all add: wire_stream_def body_def)
      then show "length ?p + length (body vs) < 2 ^ 63" "2 * length (body vs) < 2 ^ 63"
        using Cons.prems(9) by linarith+
    qed
    have "?d\<lparr>cd_header_done := True\<rparr> = ?d1" by (cases d) (simp add: put_def)
    then have "feed f d c = feed_tuples f ?d1 (length ?H)"
      using Cons.prems(3) False by (simp add: feed_def Let_def ph dd)
    also have "\<dots> = lift2 (put q True ?fin) (absorb f ?d1 us)"
      using feed_tuples_rows[of ?d1 us vs ?H q "concat cs" f] Cons.prems s r lens by simp
    also have "\<dots> = lift2 (put q True ?fin) (absorb f d us)"
      by (cases "absorb f d us") (auto simp: absorb_put lift2_def)
    finally have fd: "feed f d c = lift2 (put q True ?fin) (absorb f d us)" .
    show ?thesis
    proof (cases "absorb f d us")
      case (Inl e)
      then show ?thesis by (simp add: fd s(1) absorb_append lift2_def)
    next
      case (Inr p)
      obtain bs d' where p: "p = (bs, d')" by (cases p)
      have fields: "cd_columns d' = cd_columns d" using absorb_fields[of f d us bs d'] Inr p by simp
      have "feed_all f (put q True ?fin d') cs
          = lift2 (put wire_trailer True True) (absorb f (put q True ?fin d') vs)"
        using Cons.prems s fields lens by (intro feed_all_body) (auto simp: decoder_ok_def)
      also have "\<dots> = lift2 (put wire_trailer True True) (absorb f d' vs)"
        by (cases "absorb f d' vs") (auto simp: absorb_put lift2_def)
      finally have ih: "feed_all f (put q True ?fin d') cs
          = lift2 (put wire_trailer True True) (absorb f d' vs)" .
      show ?thesis using Inr p
        by (cases "absorb f d' vs") (auto simp: fd s(1) absorb_append lift2_def ih)
    qed
  qed
qed

section \<open>Batches\<close>

text \<open>The rows of a stream and their coercions, without any batching.\<close>

fun decode_rows :: "(string \<Rightarrow> int \<Rightarrow> int res) \<Rightarrow> (column_type \<times> builder) list
    \<Rightarrow> coercion_tally \<Rightarrow> wire_row list \<Rightarrow> (row list \<times> coercion_tally) res" where
  "decode_rows f64_bits cols t [] = Inr ([], t)"
| "decode_rows f64_bits cols t (w # ws) =
     and_then (decode_fields f64_bits cols 0 t w) (\<lambda>(r, t).
       and_then (decode_rows f64_bits cols t ws) (\<lambda>(rs, t). Inr (r # rs, t)))"

definition batch_inv :: "copy_decoder \<Rightarrow> bool" where
  "batch_inv d \<longleftrightarrow> cd_rows_in_batch d = length (cd_rows d) \<and> length (cd_rows d) < max 1 (cd_batch_rows d)"

definition decoder_config :: "copy_decoder \<Rightarrow> column_type list \<times> builder list \<times> nat" where
  "decoder_config d = (cd_columns d, cd_builders d, cd_batch_rows d)"

lemma flushed_step:
  assumes "flushed (step_row d w rt) = Inr (bs, d')" and "batch_inv d"
  shows "batch_inv d'" "decoder_config d' = decoder_config d" "cd_rows d @ [fst rt] = concat bs @ cd_rows d'"
    "cd_coercions d' = snd rt" "cd_rows_total d' = Suc (cd_rows_total d)"
    "\<forall>b \<in> set bs. b \<noteq> [] \<and> length b \<le> max 1 (cd_batch_rows d) \<and> list_all (row_fits (cd_columns d)) b"
  using assms
  by (auto simp: flushed_def flush_batch_def step_row_def append_row_def count_tuple_def batch_full_def
      batch_inv_def decoder_config_def max_def split: if_splits)

lemma flushed_ok:
  assumes "list_all (row_fits (cd_columns d)) (cd_rows d @ [fst rt])"
  shows "\<exists>bs d'. flushed (step_row d w rt) = Inr (bs, d')"
  using assms by (auto simp: flushed_def flush_batch_def step_row_def append_row_def count_tuple_def)

abbreviation decoder_cols :: "copy_decoder \<Rightarrow> (column_type \<times> builder) list" where
  "decoder_cols d \<equiv> zip (cd_columns d) (cd_builders d)"

lemma absorb_rows:
  assumes "absorb f d ws = Inr (bs, d')" and "batch_inv d"
  shows "batch_inv d' \<and> decoder_config d' = decoder_config d \<and> cd_rows_total d' = cd_rows_total d + length ws \<and>
    (\<forall>b \<in> set bs. b \<noteq> [] \<and> length b \<le> max 1 (cd_batch_rows d) \<and> list_all (row_fits (cd_columns d)) b) \<and>
    (\<exists>rs. decode_rows f (decoder_cols d) (cd_coercions d) ws = Inr (rs, cd_coercions d')
      \<and> cd_rows d @ rs = concat bs @ cd_rows d')"
  using assms
proof (induction ws arbitrary: d bs)
  case (Cons w ws)
  from Cons.prems(1) obtain rt bs1 d1 bs2 where
    e: "decode_fields f (decoder_cols d) 0 (cd_coercions d) w = Inr rt"
    "flushed (step_row d w rt) = Inr (bs1, d1)" "absorb f d1 ws = Inr (bs2, d')" "bs = bs1 @ bs2"
    unfolding absorb_Cons by (auto simp: qh_res)
  note s = flushed_step[OF e(2) Cons.prems(2)]
  obtain rs where "batch_inv d'" "decoder_config d' = decoder_config d1"
      "cd_rows_total d' = cd_rows_total d1 + length ws"
      "\<forall>b \<in> set bs2. b \<noteq> [] \<and> length b \<le> max 1 (cd_batch_rows d1) \<and> list_all (row_fits (cd_columns d1)) b"
    and rs: "decode_rows f (decoder_cols d1) (cd_coercions d1) ws = Inr (rs, cd_coercions d')"
      "cd_rows d1 @ rs = concat bs2 @ cd_rows d'"
    using Cons.IH[OF e(3) s(1)] by blast
  moreover have "decode_rows f (decoder_cols d) (cd_coercions d) (w # ws) = Inr (fst rt # rs, cd_coercions d')"
    using rs(1) s(2,4) e(1) by (cases rt) (simp add: decoder_config_def)
  moreover have "cd_rows d @ fst rt # rs = concat bs @ cd_rows d'"
    using rs(2) s(3) e(4) by (metis append.assoc append_Cons append_Nil concat_append)
  ultimately show ?case using s e(4) by (auto simp: decoder_config_def)
qed simp

lemma absorb_succeeds:
  assumes "decode_rows f (decoder_cols d) (cd_coercions d) ws = Inr (rs, t)" and "batch_inv d"
    and "list_all (row_fits (cd_columns d)) (cd_rows d @ rs)"
  shows "\<exists>bs d'. absorb f d ws = Inr (bs, d')"
  using assms
proof (induction ws arbitrary: d rs)
  case (Cons w ws)
  from Cons.prems(1) obtain rt rs' where
    e: "decode_fields f (decoder_cols d) 0 (cd_coercions d) w = Inr rt"
    "decode_rows f (decoder_cols d) (snd rt) ws = Inr (rs', t)" "rs = fst rt # rs'"
    by (auto simp: qh_res)
  obtain bs1 d1 where f1: "flushed (step_row d w rt) = Inr (bs1, d1)"
    using flushed_ok[of d rt w] Cons.prems(3) e(3) by auto
  note s = flushed_step[OF f1 Cons.prems(2)]
  have r: "cd_rows d @ rs = concat bs1 @ cd_rows d1 @ rs'"
    using s(3) e(3) by (metis append.assoc append_Cons append_Nil)
  have "\<exists>bs d'. absorb f d1 ws = Inr (bs, d')"
    using Cons.prems(3) s(2,4) e(2) unfolding r
    by (intro Cons.IH[OF _ s(1), of rs']) (simp_all add: decoder_config_def)
  then show ?case unfolding absorb_Cons using e(1) f1 by auto
qed simp

section \<open>A fresh decoder\<close>

lemma with_batch_bytes_fresh:
  assumes "with_batch_bytes cols rows bytes = Inr d"
  shows "batch_inv d" "\<not> cd_header_done d" "\<not> cd_finished d" "cd_buf d = []" "cd_rows d = []"
    "cd_columns d = cols" "cd_rows_total d = 0" "cd_coercions d = new_tally (map ct_name cols)"
    "cd_batch_rows d = rows"
  using assms by (auto simp: with_batch_bytes_def qh_res batch_inv_def)

text \<open>C8. A fresh decoder fed a well-formed binary COPY stream, cut into chunks in any way at
  all, emits the batches that decoding its rows one by one emits, fails with the same error
  where that fails, and otherwise has seen the trailer.\<close>

theorem feed_chunking_independent:
  assumes "with_batch_bytes cols rows bytes = Inr d" and "length cols < 2 ^ 15"
    and "list_all (wf_wire_row (length cols)) ws"
    and "length flags = 4" and "length ext < 2 ^ 31"
    and "concat cs = wire_stream flags ext ws" and "2 * length (wire_stream flags ext ws) < 2 ^ 63"
  shows "map_sum id (\<lambda>(bs, d'). (bs, saw_trailer d', put [] False False d')) (feed_all f d cs)
    = map_sum id (\<lambda>(bs, d'). (bs, True, d')) (absorb f d ws)"
proof -
  note fr = with_batch_bytes_fresh[OF assms(1)]
  have "feed_all f d cs = lift2 (put wire_trailer True True) (absorb f d ws)"
    using assms fr by (intro feed_all_stream[of d ws flags ext]) (auto simp: decoder_ok_def wire_header_def)
  moreover have "d' = put [] False False d'"
    if "absorb f d ws = Inr (bs, d')" for bs d'
    using absorb_fields[OF that] fr by (cases d') (simp add: put_def)
  ultimately show ?thesis
    by (cases "absorb f d ws") (auto simp: lift2_def saw_trailer_def)
qed

text \<open>C9. Decoding a well-formed stream to its end succeeds exactly when every row decodes and
  fits the declared nullability; then the batches, joined, are the decoded rows in order,
  none is empty or longer than the row limit, and the row count and the coercion tally are those of
  the whole stream.\<close>

theorem decode_chunks_all_rows:
  assumes "with_batch_bytes cols rows bytes = Inr d" and "length cols < 2 ^ 15"
    and "list_all (wf_wire_row (length cols)) ws"
    and "length flags = 4" and "length ext < 2 ^ 31"
    and "concat cs = wire_stream flags ext ws" and "2 * length (wire_stream flags ext ws) < 2 ^ 63"
  shows "case decode_chunks f d cs of
      Inr (bs, d') \<Rightarrow>
        decode_rows f (decoder_cols d) (new_tally (map ct_name cols)) ws = Inr (concat bs, cd_coercions d')
        \<and> saw_trailer d' \<and> cd_rows_total d' = length ws
        \<and> (\<forall>b \<in> set bs. b \<noteq> [] \<and> length b \<le> max 1 rows \<and> list_all (row_fits cols) b)
    | Inl e \<Rightarrow>
        \<not> (\<exists>rs t. decode_rows f (decoder_cols d) (new_tally (map ct_name cols)) ws = Inr (rs, t)
          \<and> list_all (row_fits cols) rs)"
proof -
  note fr = with_batch_bytes_fresh[OF assms(1)]
  have fa: "feed_all f d cs = lift2 (put wire_trailer True True) (absorb f d ws)"
    using assms fr by (intro feed_all_stream[of d ws flags ext]) (auto simp: decoder_ok_def wire_header_def)
  show ?thesis
  proof (cases "absorb f d ws")
    case (Inl e)
    then show ?thesis using absorb_succeeds[of f d ws] fr
      by (auto simp: decode_chunks_def fa lift2_def)
  next
    case (Inr p)
    obtain bs d1 where p: "absorb f d ws = Inr (bs, d1)" using Inr by (cases p) auto
    obtain rs where r: "batch_inv d1" "decoder_config d1 = decoder_config d" "cd_rows_total d1 = length ws"
        "\<forall>b \<in> set bs. b \<noteq> [] \<and> length b \<le> max 1 rows \<and> list_all (row_fits cols) b"
        "decode_rows f (decoder_cols d) (new_tally (map ct_name cols)) ws = Inr (rs, cd_coercions d1)"
        "rs = concat bs @ cd_rows d1"
      using absorb_rows[OF p fr(1)] fr by auto
    have fit: "list_all (row_fits cols) (concat bs)" using r(4) by (auto simp: list_all_iff)
    note c = decode_chunks_def finish_decoder_def flush_batch_def fa p lift2_def put_def saw_trailer_def
    have cfg: "cd_columns d1 = cols" "cd_batch_rows d1 = rows"
      using r(2) fr by (auto simp: decoder_config_def)
    consider "cd_rows d1 = []" | "cd_rows d1 \<noteq> []" "list_all (row_fits cols) (cd_rows d1)"
      | "cd_rows d1 \<noteq> []" "\<not> list_all (row_fits cols) (cd_rows d1)" by blast
    then show ?thesis
    proof cases
      case 1
      then show ?thesis using r by (auto simp: c batch_inv_def)
    next
      case 2
      then show ?thesis using r cfg by (auto simp: c batch_inv_def)
    next
      case 3
      then show ?thesis using r cfg fit by (auto simp: c batch_inv_def)
    qed
  qed
qed

definition sample_columns :: "column_type list" where
  "sample_columns =
     [\<lparr>ct_name = ''id'', ct_type_id = oid OID_INT4, ct_nullable = False, ct_arrow = Int32,
       ct_clickhouse_inner = ''Int32'', ct_arbitrary_precision_decimal = False, ct_declared_decimal = None\<rparr>,
      \<lparr>ct_name = ''note'', ct_type_id = oid OID_TEXT, ct_nullable = True, ct_arrow = Utf8,
       ct_clickhouse_inner = ''String'', ct_arbitrary_precision_decimal = False, ct_declared_decimal = None\<rparr>]"

definition sample_decoder :: copy_decoder where
  "sample_decoder = \<lparr>cd_columns = sample_columns, cd_builders = [BI32, BStr], cd_rows = [], cd_buf = [],
            cd_header_done = False, cd_finished = False, cd_rows_in_batch = 0,
            cd_bytes_in_batch = 0, cd_batch_rows = 2, cd_batch_bytes = 0,
            cd_rows_total = 0, cd_coercions = new_tally [''id'', ''note'']\<rparr>"

definition sample_rows :: "wire_row list" where
  "sample_rows = [[Some (be_bytes 4 7), Some ''ab''], [Some (be_bytes 4 8), None], [Some (be_bytes 4 9), Some []]]"

definition sample_stream :: string where
  "sample_stream = wire_stream (be_bytes 4 0) [] sample_rows"

definition sample_chunks :: "string list" where
  "sample_chunks = [take 5 sample_stream, take 30 (drop 5 sample_stream), drop 35 sample_stream]"

definition no_f64 :: "string \<Rightarrow> int \<Rightarrow> int res" where
  "no_f64 t e = Inl (Decode t)"

lemma sample_fresh: "with_batch_bytes sample_columns 2 0 = Inr sample_decoder"
  by (simp add: with_batch_bytes_def sample_columns_def sample_decoder_def)

lemma sample_wf:
  "length sample_columns < 2 ^ 15" "list_all (wf_wire_row (length sample_columns)) sample_rows"
  "length (be_bytes 4 0) = 4" "length ([]::string) < 2 ^ 31"
  "concat sample_chunks = wire_stream (be_bytes 4 0) [] sample_rows"
  "2 * length (wire_stream (be_bytes 4 0) [] sample_rows) < 2 ^ 63"
proof -
  show "concat sample_chunks = wire_stream (be_bytes 4 0) [] sample_rows"
    by (simp add: sample_chunks_def flip: sample_stream_def append_assoc take_add)
  show "length sample_columns < 2 ^ 15" "length (be_bytes 4 0) = 4" "length ([]::string) < 2 ^ 31"
    by (simp_all add: sample_columns_def)
  show "list_all (wf_wire_row (length sample_columns)) sample_rows"
    by (simp add: sample_columns_def sample_rows_def wf_wire_row_def)
  show "2 * length (wire_stream (be_bytes 4 0) [] sample_rows) < 2 ^ 63"
    by (simp add: wire_stream_def sample_rows_def wire_row_def wire_header_def wire_trailer_def SIGNATURE_def)
qed

definition sample_batches :: "row list list" where
  "sample_batches = [[[CInt 7, CStr ''ab''], [CInt 8, CNull]], [[CInt 9, CStr []]]]"

lemma sample_decode:
  "map_sum id fst (decode_rows no_f64 (decoder_cols sample_decoder) (new_tally (map ct_name sample_columns)) sample_rows)
     = Inr (concat sample_batches)"
  by code_simp

lemma sample_decoded:
  obtains r where "decode_rows no_f64 (decoder_cols sample_decoder) (new_tally (map ct_name sample_columns)) sample_rows
     = Inr (concat sample_batches, r)"
  using sample_decode
  by (cases "decode_rows no_f64 (decoder_cols sample_decoder) (new_tally (map ct_name sample_columns)) sample_rows") auto

lemma sample_fits: "list_all (row_fits sample_columns) (concat sample_batches)"
  by code_simp

lemma sample_absorbed:
  obtains bs d' where "absorb no_f64 sample_decoder sample_rows = Inr (bs, d')"
proof -
  note fr = with_batch_bytes_fresh[OF sample_fresh]
  obtain r where r: "decode_rows no_f64 (decoder_cols sample_decoder) (new_tally (map ct_name sample_columns)) sample_rows
     = Inr (concat sample_batches, r)" by (rule sample_decoded)
  have "\<exists>bs d'. absorb no_f64 sample_decoder sample_rows = Inr (bs, d')"
    by (rule absorb_succeeds[of _ _ _ "concat sample_batches" r]) (use r fr sample_fits in \<open>simp_all only: append_Nil\<close>)
  then show ?thesis using that by blast
qed

theorem feed_chunking_independent_witness:
  "\<exists>bs d'. feed_all no_f64 sample_decoder sample_chunks = Inr (bs, d') \<and> saw_trailer d'"
proof -
  note t = feed_chunking_independent[OF sample_fresh sample_wf, of no_f64]
  obtain bs d' where a: "absorb no_f64 sample_decoder sample_rows = Inr (bs, d')" by (rule sample_absorbed)
  show ?thesis using t unfolding a
    by (cases "feed_all no_f64 sample_decoder sample_chunks") auto
qed

theorem decode_chunks_all_rows_witness:
  "\<exists>bs d'. decode_chunks no_f64 sample_decoder sample_chunks = Inr (bs, d')
     \<and> concat bs = concat sample_batches \<and> saw_trailer d' \<and> cd_rows_total d' = 3"
proof -
  note t = decode_chunks_all_rows[OF sample_fresh sample_wf, of no_f64]
  have l: "length sample_rows = 3" by (simp add: sample_rows_def)
  obtain r where r: "decode_rows no_f64 (decoder_cols sample_decoder) (new_tally (map ct_name sample_columns)) sample_rows
     = Inr (concat sample_batches, r)" by (rule sample_decoded)
  show ?thesis
  proof (cases "decode_chunks no_f64 sample_decoder sample_chunks")
    case (Inl e)
    then show ?thesis using t sample_fits r by auto
  next
    case (Inr p)
    then show ?thesis using t r l by (cases p) (auto simp del: concat.simps)
  qed
qed

end
