(* ===== verification/QH_Copy_Typed.thy ===== *)
theory QH_Copy_Typed
  imports QH_Copy_Laws
begin

text \<open>
  The typing of the decoder's output: every cell of a batch is a value of its column's Arrow type.
\<close>

section \<open>The values of an Arrow type\<close>

definition cell_of_type :: "data_type \<Rightarrow> cell \<Rightarrow> bool" where
  "cell_of_type t v =
     (case v of
        CNull \<Rightarrow> True
      | CBool _ \<Rightarrow> t = Boolean
      | CInt i \<Rightarrow> (t = Int16 \<and> in_signed 16 i) \<or> (t = Int32 \<and> in_signed 32 i) \<or> (t = Int64 \<and> in_signed 64 i)
          \<or> (t = UInt32 \<and> in_unsigned 32 i)
      | CFloat i \<Rightarrow> (t = Float32 \<and> in_unsigned 32 i) \<or> (t = Float64 \<and> in_unsigned 64 i)
      | CStr s \<Rightarrow> t = Utf8 \<and> valid_utf8 s
      | CBin _ \<Rightarrow> t = Binary
      | CDate d \<Rightarrow> t = Date32 \<and> days_in_range d
      | CTs m \<Rightarrow> (case t of Timestamp u _ \<Rightarrow> u = Microsecond \<and> micros_in_range m | _ \<Rightarrow> False)
      | CDec m \<Rightarrow> (case t of Decimal128 p _ \<Rightarrow> \<bar>m\<bar> < 10 ^ nat p | _ \<Rightarrow> False))"

lemma cell_simps:
  "cell_of_type t CNull" "cell_of_type Boolean (CBool x)" "cell_of_type Binary (CBin s)"
  "cell_of_type Int16 (CInt i) = in_signed 16 i" "cell_of_type Int32 (CInt i) = in_signed 32 i"
  "cell_of_type Int64 (CInt i) = in_signed 64 i" "cell_of_type UInt32 (CInt i) = in_unsigned 32 i"
  "cell_of_type Float32 (CFloat i) = in_unsigned 32 i" "cell_of_type Float64 (CFloat i) = in_unsigned 64 i"
  "cell_of_type Utf8 (CStr s) = valid_utf8 s" "cell_of_type Date32 (CDate i) = days_in_range i"
  "cell_of_type (Timestamp Microsecond tz) (CTs i) = micros_in_range i"
  by (simp_all add: cell_of_type_def)

definition row_typed :: "column_type list \<Rightarrow> row \<Rightarrow> bool" where
  "row_typed cols r \<longleftrightarrow> list_all2 (\<lambda>c v. cell_of_type (ct_arrow c) v) cols r"

section \<open>Values\<close>

lemma be_signed_range:
  assumes "0 < w" "length s * 8 = w" shows "in_signed w (be_signed w s)"
proof -
  have "(256::int) ^ length s = 2 ^ w" using assms(2) by (simp add: power_mult[of 2 8 "length s", simplified] mult.commute[of "length s"] flip: assms(2))
  then have b: "0 \<le> be_unsigned s" "be_unsigned s < 2 ^ w" using be_unsigned_bounds[of s] by simp_all
  have "(2::int) ^ w = 2 * 2 ^ (w - 1)" using assms(1) by (simp flip: power_Suc)
  then show ?thesis using b by (simp add: be_signed_def in_signed_def Let_def)
qed

lemma read_ranges:
  "read_i16 buf = Inr v \<Longrightarrow> in_signed 16 v"
  "read_i32 buf = Inr v \<Longrightarrow> in_signed 32 v"
  "read_i64 buf = Inr v \<Longrightarrow> in_signed 64 v"
  using be_signed_range[of 16 "take 2 buf"] be_signed_range[of 32 "take 4 buf"] be_signed_range[of 64 "take 8 buf"]
  by (auto simp: read_i16_def read_i32_def read_i64_def split: if_splits)

lemma ascii_utf8: "list_all (\<lambda>c. code c < 128) s \<Longrightarrow> valid_utf8 s"
  by (induction s) simp_all

lemma ascii_digits: "all_digits s \<Longrightarrow> list_all (\<lambda>c. code c < 128) s"
  by (auto simp: list_all_iff is_digit_def code_def)

lemma ascii_padded: "list_all (\<lambda>c. code c < 128) (show_padded w n)"
proof -
  have "list_all (\<lambda>c. code c < 128) (show_nat n)" by (intro ascii_digits all_digits_show_nat)
  then show ?thesis by (auto simp: show_padded_def pad_left_def digit_char_def code_def list_all_iff)
qed

lemma format_pg_time_utf8: "valid_utf8 (format_pg_time v)"
  by (rule ascii_utf8) (simp add: format_pg_time_def Let_def ascii_padded, simp add: code_def)

lemma hex_ascii: "n < 16 \<Longrightarrow> code (hex_digit n) < 128"
  by (auto simp: hex_digit_def)

lemma format_uuid_utf8: "valid_utf8 (format_uuid b)"
proof (rule ascii_utf8)
  have "code c div 16 < 16" for c using code_less[of c] by (simp add: less_mult_imp_div_less)
  then have "list_all (\<lambda>c. code c < 128) (hex_byte c)" for c by (simp add: hex_byte_def hex_ascii)
  then show "list_all (\<lambda>c. code c < 128) (format_uuid b)"
    by (auto simp: format_uuid_def list_all_iff code_def split: if_splits)
qed

text \<open>The digits of a numeric as an \<open>f64\<close> are 64 bits.\<close>

definition f64_word :: "(string \<Rightarrow> int \<Rightarrow> int res) \<Rightarrow> bool" where
  "f64_word f \<longleftrightarrow> (\<forall>s w v. f s w = Inr v \<longrightarrow> in_unsigned 64 v)"

lemma decode_numeric_range: "f64_word f \<Longrightarrow> decode_numeric f buf = Inr v \<Longrightarrow> in_unsigned 64 v"
  by (auto simp: decode_numeric_def f64_word_def in_unsigned_def Let_def qh_res split: if_splits)

lemma decimal_cell_typed: "decimal_cell p s w = (v, c) \<Longrightarrow> cell_of_type (Decimal128 p s) v"
  by (auto simp: decimal_cell_def cell_of_type_def Let_def split: numeric_wire.splits option.splits if_splits)

lemma append_value_typed:
  assumes "new_builder t = Inr b" "f64_word f" "append_value f b oid' buf = Inr (v, c)"
  shows "cell_of_type t v"
proof -
  have u: "in_unsigned 32 (x mod 2 ^ 32)" "in_unsigned 64 (x mod 2 ^ 64)" for x :: int
    by (simp_all add: in_unsigned_def)
  show ?thesis using assms
    by (cases t rule: new_builder.cases)
      (auto simp: append_value_def plain_def qh_res Let_def u[simplified] format_pg_time_utf8 format_uuid_utf8
        read_ranges decode_numeric_range decimal_cell_typed split: if_splits simp: cell_simps)
qed

section \<open>Rows and batches\<close>

definition typed_decoder :: "copy_decoder \<Rightarrow> bool" where
  "typed_decoder d \<longleftrightarrow> list_all2 (\<lambda>c b. new_builder (ct_arrow c) = Inr b) (cd_columns d) (cd_builders d)
     \<and> list_all (row_typed (cd_columns d)) (cd_rows d)"

definition batch_typed :: "column_type list \<Rightarrow> row list \<Rightarrow> bool" where
  "batch_typed cols rows \<longleftrightarrow> list_all (\<lambda>r. row_typed cols r \<and> row_fits cols r) rows"

lemma parse_spans_length: "parse_spans buf pos n = Some (s, p) \<Longrightarrow> length s = n"
  by (induction n arbitrary: pos s p) (auto simp: Let_def split: if_splits)

lemma append_fields_typed:
  assumes "f64_word f" "list_all2 (\<lambda>c b. new_builder (ct_arrow c) = Inr b) cols bs"
    and "i + length spans = length cols"
    and "append_fields f (zip cols bs) buf i t spans = Inr (r, t')"
  shows "row_typed (drop i cols) r"
  using assms(3,4)
proof (induction spans arbitrary: i t r)
  case (Cons s spans)
  have i: "i < length cols" "i < length bs" "Suc i + length spans = length cols"
    using Cons.prems(1) list_all2_lengthD[OF assms(2)] by simp_all
  have d: "drop i cols = cols ! i # drop (Suc i) cols" using i by (simp add: Cons_nth_drop_Suc)
  have b: "new_builder (ct_arrow (cols ! i)) = Inr (bs ! i)" by (rule list_all2_nthD[OF assms(2) i(1)])
  obtain v r' t1 where r: "r = v # r'" "append_fields f (zip cols bs) buf (Suc i) t1 spans = Inr (r', t')"
    and v: "cell_of_type (ct_arrow (cols ! i)) v"
  proof (cases s)
    case None
    then show ?thesis using Cons.prems(2) that by (auto simp: qh_res cell_simps)
  next
    case (Some p)
    then show ?thesis using Cons.prems(2) that i append_value_typed[OF b assms(1)]
      by (cases p) (fastforce simp: qh_res with_context_def split: if_splits sum.splits)
  qed
  show ?case using Cons.IH[OF i(3) r(2)] v unfolding r(1) d row_typed_def by simp
qed (simp add: row_typed_def)

lemma parse_tuple_typed:
  assumes "parse_tuple f d start = Inr (p, d')" "f64_word f" "typed_decoder d"
  shows "typed_decoder d' \<and> cd_columns d' = cd_columns d"
  using assms append_fields_typed[of f "cd_columns d" "cd_builders d" 0]
  by (auto simp: parse_tuple_def Let_def qh_res typed_decoder_def dest!: parse_spans_length
      split: if_splits option.splits)

lemma flush_typed:
  assumes "flush_batch d = Inr (b, d')" "typed_decoder d"
  shows "typed_decoder d' \<and> cd_columns d' = cd_columns d \<and> batch_typed (cd_columns d) b"
  using assms by (auto simp: flush_batch_def typed_decoder_def batch_typed_def list_all_iff split: if_splits)

lemma count_typed: "typed_decoder (count_tuple n d) = typed_decoder d" "cd_columns (count_tuple n d) = cd_columns d"
  by (simp_all add: count_tuple_def typed_decoder_def)

lemma feed_loop_typed:
  assumes "feed_loop f fuel d cursor out = Inr (out', cursor', d')" "f64_word f" "typed_decoder d"
    and "list_all (batch_typed (cd_columns d)) out"
  shows "typed_decoder d' \<and> cd_columns d' = cd_columns d \<and> list_all (batch_typed (cd_columns d)) out'"
  using assms(1,3,4)
proof (induction fuel arbitrary: d cursor out)
  case (Suc fuel)
  obtain p d1 where p: "parse_tuple f d cursor = Inr (p, d1)" using Suc.prems(1) by (auto simp: qh_res)
  note d1 = parse_tuple_typed[OF p assms(2) Suc.prems(2)]
  show ?case
  proof (cases p)
    case (Tuple n)
    let ?d = "count_tuple n d1"
    have t: "typed_decoder ?d" "cd_columns ?d = cd_columns d" using d1 by (simp_all add: count_typed)
    show ?thesis
    proof (cases "batch_full ?d")
      case True
      then obtain b d2 where b: "flush_batch ?d = Inr (b, d2)" "feed_loop f fuel d2 (cursor + n) (out @ [b]) = Inr (out', cursor', d')"
        using Suc.prems(1) p Tuple by (auto simp: qh_res Let_def)
      note d2 = flush_typed[OF b(1) t(1)]
      show ?thesis using Suc.IH[OF b(2)] d2 t(2) Suc.prems(3) by simp
    next
      case False
      then have "feed_loop f fuel ?d (cursor + n) out = Inr (out', cursor', d')"
        using Suc.prems(1) p Tuple by (simp add: Let_def)
      then show ?thesis using Suc.IH[of ?d] t Suc.prems(3) by simp
    qed
  next
    case End
    then show ?thesis using Suc.prems p d1 by (auto simp: typed_decoder_def)
  next
    case NeedMore
    then show ?thesis using Suc.prems p d1 by auto
  qed
qed simp

lemma feed_typed:
  assumes "feed f d chunk = Inr (out, d')" "f64_word f" "typed_decoder d"
  shows "typed_decoder d' \<and> cd_columns d' = cd_columns d \<and> list_all (batch_typed (cd_columns d)) out"
proof -
  have tuples: "typed_decoder d' \<and> cd_columns d' = cd_columns d1 \<and> list_all (batch_typed (cd_columns d1)) out"
    if tuples: "feed_tuples f d1 n = Inr (out, d')" "typed_decoder d1" for d1 n
  proof -
    obtain c d2 where "feed_loop f (Suc (length (cd_buf d1))) d1 n [] = Inr (out, c, d2)"
      "d' = d2\<lparr>cd_buf := drop c (cd_buf d2)\<rparr>" using tuples(1) by (auto simp: feed_tuples_def qh_res simp del: feed_loop.simps)
    with feed_loop_typed[OF _ assms(2) tuples(2)] show ?thesis by (fastforce simp: typed_decoder_def)
  qed
  have t: "typed_decoder (d\<lparr>cd_buf := b\<rparr>)" "typed_decoder (d\<lparr>cd_buf := b, cd_header_done := h\<rparr>)" for b h
    using assms(3) by (simp_all add: typed_decoder_def)
  show ?thesis using assms(1) tuples t by (fastforce simp: feed_def Let_def qh_res split: if_splits option.splits)
qed

lemma feed_all_typed:
  assumes "feed_all f d cs = Inr (out, d')" "f64_word f" "typed_decoder d"
  shows "typed_decoder d' \<and> cd_columns d' = cd_columns d \<and> list_all (batch_typed (cd_columns d)) out"
  using assms(1,3)
proof (induction cs arbitrary: d out)
  case (Cons c cs)
  obtain o1 d1 o2 where f: "feed f d c = Inr (o1, d1)" "feed_all f d1 cs = Inr (o2, d')" "out = o1 @ o2"
    using Cons.prems(1) by (auto simp: qh_res)
  show ?case using feed_typed[OF f(1) assms(2) Cons.prems(2)] Cons.IH[OF f(2)] f(3) by simp
qed simp

text \<open>C29. Every batch the decoder returns is well typed: its rows have one cell per column, each a
  value of the column's Arrow type in range (a date ClickHouse can hold, valid UTF-8, a mantissa
  within the precision), and no NULL in a column declared without.\<close>

theorem decoded_batches_typed:
  assumes "with_batch_bytes columns batch_rows batch_bytes = Inr d" "f64_word f"
    and "decode_chunks f d chunks = Inr (batches, d')"
  shows "list_all (batch_typed columns) batches"
proof -
  have d: "typed_decoder d" "cd_columns d = columns"
    using assms(1) by (auto simp: with_batch_bytes_def qh_res typed_decoder_def try_map_all2)
  obtain out d1 b where o: "feed_all f d chunks = Inr (out, d1)" "finish_decoder d1 = Inr (b, d')"
    "batches = out @ (case b of Some b \<Rightarrow> [b] | None \<Rightarrow> [])"
    using assms(3) by (auto simp: decode_chunks_def qh_res)
  note t = feed_all_typed[OF o(1) assms(2) d(1)]
  then show ?thesis using o(2,3) d(2) flush_typed[of d1]
    by (auto simp: finish_decoder_def qh_res split: if_splits)
qed

lemma sample_decodes:
  "\<exists>bs d'. decode_chunks no_f64 sample_decoder sample_chunks = Inr (bs, d') \<and> concat bs = concat sample_batches"
proof -
  note fr = with_batch_bytes_fresh[OF sample_fresh]
  obtain bs d1 where a: "absorb no_f64 sample_decoder sample_rows = Inr (bs, d1)" by (rule sample_absorbed)
  obtain r where r: "decode_rows no_f64 (decoder_cols sample_decoder) (new_tally (map ct_name sample_columns)) sample_rows
     = Inr (concat sample_batches, r)" by (rule sample_decoded)
  have rows: "concat sample_batches = concat bs @ cd_rows d1" "cd_columns d1 = sample_columns" "batch_inv d1"
    using absorb_rows[OF a fr(1)] fr r by (auto simp: decoder_config_def)
  have "feed_all no_f64 sample_decoder sample_chunks = lift2 (put wire_trailer True True) (absorb no_f64 sample_decoder sample_rows)"
    using fr sample_wf by (intro feed_all_stream[of _ _ "be_bytes 4 0" "[]"]) (auto simp: decoder_ok_def wire_header_def)
  moreover have "list_all (row_fits sample_columns) (cd_rows d1)" using sample_fits rows(1) by simp
  ultimately show ?thesis using rows unfolding a
    by (cases "cd_rows d1 = []") (auto simp: decode_chunks_def lift2_def put_def finish_decoder_def flush_batch_def batch_inv_def)
qed

theorem decoded_batches_typed_witness:
  "\<exists>bs. list_all (batch_typed sample_columns) bs \<and> concat bs = concat sample_batches"
proof -
  obtain bs d' where d: "decode_chunks no_f64 sample_decoder sample_chunks = Inr (bs, d')" "concat bs = concat sample_batches"
    using sample_decodes by blast
  have "f64_word no_f64" by (simp add: f64_word_def no_f64_def)
  from decoded_batches_typed[OF sample_fresh this d(1)] d(2) show ?thesis by blast
qed

end
