(* ===== verification/QH_Float.thy ===== *)
theory QH_Float
  imports Complex_Main QH_Prelude
begin

text \<open>
  Rust's arithmetic on doubles.  A double is a rational, an infinity or not-a-number.  An operation is the exact one
  followed by a rounding \<open>rnd\<close>, an argument: the facts proved over these definitions hold for
  every rounding.  Casts to integers saturate and send not-a-number to 0.
\<close>

datatype f64 = Fin rat | PosInf | NegInf | NaN

fun f64_lt :: "f64 \<Rightarrow> f64 \<Rightarrow> bool" where
  "f64_lt (Fin a) (Fin b) \<longleftrightarrow> a < b"
| "f64_lt NaN _ \<longleftrightarrow> False"
| "f64_lt _ NaN \<longleftrightarrow> False"
| "f64_lt NegInf b \<longleftrightarrow> b \<noteq> NegInf"
| "f64_lt PosInf _ \<longleftrightarrow> False"
| "f64_lt _ PosInf \<longleftrightarrow> True"
| "f64_lt _ NegInf \<longleftrightarrow> False"

definition f64_le :: "f64 \<Rightarrow> f64 \<Rightarrow> bool" where
  "f64_le a b \<longleftrightarrow> f64_lt a b \<or> (a = b \<and> a \<noteq> NaN)"

definition f64_min :: "f64 \<Rightarrow> f64 \<Rightarrow> f64" where
  "f64_min a b = (if a = NaN then b else if b = NaN then a else if f64_lt a b then a else b)"

definition f64_max :: "f64 \<Rightarrow> f64 \<Rightarrow> f64" where
  "f64_max a b = (if a = NaN then b else if b = NaN then a else if f64_lt a b then b else a)"

definition f64_clamp :: "f64 \<Rightarrow> f64 \<Rightarrow> f64 \<Rightarrow> f64" where
  "f64_clamp x lo hi = (if f64_lt x lo then lo else if f64_lt hi x then hi else x)"

fun signed_inf :: "rat \<Rightarrow> f64 \<Rightarrow> f64" where
  "signed_inf q PosInf = (if q = 0 then NaN else if 0 < q then PosInf else NegInf)"
| "signed_inf q NegInf = (if q = 0 then NaN else if 0 < q then NegInf else PosInf)"
| "signed_inf q _ = NaN"

fun f64_mul :: "(rat \<Rightarrow> f64) \<Rightarrow> f64 \<Rightarrow> f64 \<Rightarrow> f64" where
  "f64_mul rnd (Fin a) (Fin b) = rnd (a * b)"
| "f64_mul rnd NaN _ = NaN"
| "f64_mul rnd _ NaN = NaN"
| "f64_mul rnd (Fin a) i = signed_inf a i"
| "f64_mul rnd i (Fin b) = signed_inf b i"
| "f64_mul rnd i j = (if i = j then PosInf else NegInf)"

fun f64_div :: "(rat \<Rightarrow> f64) \<Rightarrow> f64 \<Rightarrow> f64 \<Rightarrow> f64" where
  "f64_div rnd (Fin a) (Fin b) = (if b = 0 then signed_inf a PosInf else rnd (a / b))"
| "f64_div rnd NaN _ = NaN"
| "f64_div rnd _ NaN = NaN"
| "f64_div rnd (Fin a) _ = Fin 0"
| "f64_div rnd i (Fin b) = (if b < 0 then signed_inf (- 1) i else i)"
| "f64_div rnd _ _ = NaN"

text \<open>\<open>round\<close> takes halves away from zero.\<close>

fun f64_round :: "f64 \<Rightarrow> f64" where
  "f64_round (Fin q) = Fin (if 0 \<le> q then of_int \<lfloor>q + 1 / 2\<rfloor> else of_int (- \<lfloor>1 / 2 - q\<rfloor>))"
| "f64_round x = x"

fun f64_ceil :: "f64 \<Rightarrow> f64" where
  "f64_ceil (Fin q) = Fin (of_int \<lceil>q\<rceil>)"
| "f64_ceil x = x"

fun f64_as_u64 :: "f64 \<Rightarrow> nat" where
  "f64_as_u64 (Fin q) = (if q \<le> 0 then 0 else if 2 ^ 64 \<le> q then 2 ^ 64 - 1 else nat \<lfloor>q\<rfloor>)"
| "f64_as_u64 PosInf = 2 ^ 64 - 1"
| "f64_as_u64 _ = 0"

lemma f64_as_u64_bound [qh_num]: "f64_as_u64 x < 2 ^ 64"
proof (cases x)
  case (Fin q)
  show ?thesis
  proof (cases "0 < q \<and> q < 2 ^ 64")
    case True
    then have "nat \<lfloor>q\<rfloor> < 2 ^ 64" by (simp add: nat_less_iff)
    then show ?thesis using Fin by simp
  qed (use Fin in auto)
qed auto

lemma f64_as_u64_ceil: "f64_as_u64 (f64_ceil (Fin q)) = min (2 ^ 64 - 1) (nat \<lceil>q\<rceil>)"
proof (cases "0 < \<lceil>q\<rceil>")
  case True
  show ?thesis
  proof (cases "\<lceil>q\<rceil> < 2 ^ 64")
    case lt: True
    then have r: "(of_int \<lceil>q\<rceil> :: rat) < 2 ^ 64" by (metis of_int_less_iff of_int_numeral of_int_power)
    then have "nat \<lceil>q\<rceil> \<le> 2 ^ 64 - 1" using lt by (simp add: nat_le_iff)
    then show ?thesis using True r by (simp add: min_absorb2)
  next
    case False
    then have r: "(2 ^ 64 :: rat) \<le> of_int \<lceil>q\<rceil>"
      by (metis not_less of_int_le_iff of_int_numeral of_int_power)
    then have "2 ^ 64 - 1 \<le> nat \<lceil>q\<rceil>" using False by (simp add: le_nat_iff)
    then show ?thesis using True r by (simp add: min_absorb1)
  qed
next
  case False
  then show ?thesis by simp
qed

end
