(* ===== verification/QH_F64.thy ===== *)
theory QH_F64
  imports QH_Float "HOL-Library.Log_Nat"
begin

text \<open>
  The arithmetic of \<open>f64\<close> the value comparison uses, computed on rationals: \<open>round_f64\<close> is the
  double nearest a rational, ties to the even significand, the rounding the operations take in the code.  The two zeros
  are one value here; nothing in the program tells them apart.  The lemmas bound the rounding error.
\<close>

section \<open>Rounding\<close>

definition round_half_even :: "rat \<Rightarrow> int" where
  "round_half_even q =
     (let f = \<lfloor>q\<rfloor>; r = q - of_int f in
      if r < 1 / 2 then f else if 1 / 2 < r then f + 1 else if even f then f else f + 1)"

definition log2_floor :: "rat \<Rightarrow> int" where
  "log2_floor q =
     (let (n, d) = quotient_of q; e = int (floorlog 2 (nat \<bar>n\<bar>)) - int (floorlog 2 (nat d)) in
      if \<bar>q\<bar> < 2 powi e then e - 1 else e)"

text \<open>The exponent of the last place of a double of \<open>q\<close>'s size: 53 bits of significand, down to the subnormals.\<close>

definition last_place :: "rat \<Rightarrow> int" where
  "last_place q = max (log2_floor q - 52) (- 1074)"

definition rounded :: "rat \<Rightarrow> rat" where
  "rounded q = of_int (round_half_even (q / 2 powi last_place q)) * 2 powi last_place q"

definition round_f64 :: "rat \<Rightarrow> f64" where
  "round_f64 q =
     (if 2 ^ 1024 \<le> rounded q then PosInf
      else if rounded q \<le> - (2 ^ 1024) then NegInf
      else Fin (rounded q))"

section \<open>The operations\<close>

fun f64_abs :: "f64 \<Rightarrow> f64" where
  "f64_abs (Fin a) = Fin \<bar>a\<bar>"
| "f64_abs NegInf = PosInf"
| "f64_abs a = a"

fun f64_add :: "f64 \<Rightarrow> f64 \<Rightarrow> f64" where
  "f64_add (Fin a) (Fin b) = round_f64 (a + b)"
| "f64_add NaN _ = NaN"
| "f64_add _ NaN = NaN"
| "f64_add PosInf NegInf = NaN"
| "f64_add NegInf PosInf = NaN"
| "f64_add (Fin _) b = b"
| "f64_add a _ = a"

fun f64_neg :: "f64 \<Rightarrow> f64" where
  "f64_neg (Fin a) = Fin (- a)"
| "f64_neg PosInf = NegInf"
| "f64_neg NegInf = PosInf"
| "f64_neg NaN = NaN"

definition f64_sub :: "f64 \<Rightarrow> f64 \<Rightarrow> f64" where
  "f64_sub a b = f64_add a (f64_neg b)"

definition f64_eq :: "f64 \<Rightarrow> f64 \<Rightarrow> bool" where
  "f64_eq a b \<longleftrightarrow> a = b \<and> a \<noteq> NaN"

section \<open>The error of one rounding\<close>

lemma round_half_even_error: "\<bar>of_int (round_half_even q) - q\<bar> \<le> 1 / 2"
  unfolding round_half_even_def Let_def
  using floor_correct[of q] by (auto simp: abs_le_iff)

lemma round_half_even_int [simp]: "round_half_even (of_int i) = i"
  by (simp add: round_half_even_def)

lemma round_half_even_mono: "p \<le> q \<Longrightarrow> round_half_even p \<le> round_half_even q"
proof -
  assume le: "p \<le> q"
  show ?thesis
  proof (cases "\<lfloor>p\<rfloor> = \<lfloor>q\<rfloor>")
    case True
    then show ?thesis using le by (auto simp: round_half_even_def Let_def)
  next
    case False
    then have "\<lfloor>p\<rfloor> + 1 \<le> \<lfloor>q\<rfloor>" using floor_mono[OF le] by simp
    then show ?thesis by (auto simp: round_half_even_def Let_def)
  qed
qed

lemma round_half_even_minus: "round_half_even (- q) = - round_half_even q"
proof (cases "q \<in> \<int>")
  case True
  then obtain i where "q = of_int i" by (auto simp: Ints_def)
  then show ?thesis by (metis of_int_minus round_half_even_int)
next
  case False
  then have "\<lfloor>- q\<rfloor> = - \<lfloor>q\<rfloor> - 1"
    using ceiling_altdef[of q] by (simp add: ceiling_def split: if_splits) (metis Ints_of_int)
  then show ?thesis
    by (auto simp: round_half_even_def Let_def)
qed

lemma two_powi_pos [simp]: "0 < (2::rat) powi e" by simp

lemma log2_floor_bounds:
  assumes "q \<noteq> 0"
  shows "2 powi log2_floor q \<le> \<bar>q\<bar>" and "\<bar>q\<bar> < 2 powi (log2_floor q + 1)"
proof -
  obtain n d where nd: "quotient_of q = (n, d)" by fastforce
  have d: "0 < d" using quotient_of_denom_pos[OF nd] .
  have q: "q = of_int n / of_int d" using quotient_of_div[OF nd] .
  have n: "n \<noteq> 0" using q assms by auto
  let ?a = "floorlog 2 (nat \<bar>n\<bar>)" and ?b = "floorlog 2 (nat d)"
  let ?e = "int ?a - int ?b"
  have A: "2 ^ (?a - 1) \<le> nat \<bar>n\<bar>" "nat \<bar>n\<bar> < 2 ^ ?a" "0 < ?a"
    using floorlog_bounds[of "nat \<bar>n\<bar>" 2] n by (auto simp: floorlog_def)
  have B: "2 ^ (?b - 1) \<le> nat d" "nat d < 2 ^ ?b" "0 < ?b"
    using floorlog_bounds[of "nat d" 2] d by (auto simp: floorlog_def)
  have cast: "(of_nat (nat \<bar>n\<bar>) :: rat) = \<bar>of_int n\<bar>" "(of_nat (nat d) :: rat) = of_int d"
    using d by (simp_all add: of_nat_nat)
  have A': "(2::rat) ^ (?a - 1) \<le> \<bar>of_int n\<bar>" "\<bar>of_int n\<bar> < (2::rat) ^ ?a"
    using A(1,2)[folded of_nat_le_iff[where 'a = rat] of_nat_less_iff[where 'a = rat]] cast by simp_all
  have B': "(2::rat) ^ (?b - 1) \<le> of_int d" "of_int d < (2::rat) ^ ?b"
    using B(1,2)[folded of_nat_le_iff[where 'a = rat] of_nat_less_iff[where 'a = rat]] cast by simp_all
  have absq: "\<bar>q\<bar> = \<bar>of_int n\<bar> / of_int d" using q d by (simp add: abs_divide)
  have pe: "(2::rat) powi (?e + 1) = 2 ^ ?a / 2 ^ (?b - 1)" "(2::rat) powi (?e - 1) = 2 ^ (?a - 1) / 2 ^ ?b"
    using A(3) B(3) by (simp_all add: power_int_diff power_int_add power_diff)
  have up: "\<bar>q\<bar> < 2 powi (?e + 1)" unfolding absq pe
    by (rule frac_less) (use A' B' d in auto)
  have lo: "2 powi (?e - 1) < \<bar>q\<bar>" unfolding absq pe
    by (rule frac_less2) (use A' B' d in auto)
  have "log2_floor q = (if \<bar>q\<bar> < 2 powi ?e then ?e - 1 else ?e)"
    by (simp add: log2_floor_def nd Let_def)
  then show "2 powi log2_floor q \<le> \<bar>q\<bar>" "\<bar>q\<bar> < 2 powi (log2_floor q + 1)"
    using up lo by (auto simp: not_less)
qed

lemma log2_floor_unique:
  assumes "2 powi e \<le> \<bar>q\<bar>" and "\<bar>q\<bar> < 2 powi (e + 1)"
  shows "log2_floor q = e"
proof -
  have q: "q \<noteq> 0" using assms(1) two_powi_pos[of e] by (auto simp: not_le[symmetric] simp del: two_powi_pos)
  note b = log2_floor_bounds[OF q]
  have "(2::rat) powi e < 2 powi (log2_floor q + 1)" "(2::rat) powi log2_floor q < 2 powi (e + 1)"
    using assms b by linarith+
  then have "e < log2_floor q + 1" "log2_floor q < e + 1"
    using power_int_increasing[of _ _ "2::rat"] by (metis linorder_not_le one_le_numeral)+
  then show ?thesis by simp
qed

lemma log2_floor_minus [simp]: "log2_floor (- q) = log2_floor q"
proof (cases "q = 0")
  case False
  show ?thesis using log2_floor_bounds[OF False] by (intro log2_floor_unique) simp_all
qed simp

lemma log2_floor_mono:
  assumes "p \<noteq> 0" and "\<bar>p\<bar> \<le> \<bar>q\<bar>"
  shows "log2_floor p \<le> log2_floor q"
proof (rule ccontr)
  assume "\<not> ?thesis"
  then have "log2_floor q + 1 \<le> log2_floor p" by simp
  then have "(2::rat) powi (log2_floor q + 1) \<le> 2 powi log2_floor p" by (rule power_int_increasing) simp
  also have "\<dots> \<le> \<bar>p\<bar>" using log2_floor_bounds[OF assms(1)] by simp
  also have "\<dots> \<le> \<bar>q\<bar>" by fact
  also have "\<dots> < 2 powi (log2_floor q + 1)" using log2_floor_bounds[of q] assms by auto
  finally show False by simp
qed

lemma rounded_0 [simp]: "rounded 0 = 0"
  by (simp add: rounded_def round_half_even_def)

lemma rounded_minus [simp]: "rounded (- q) = - rounded q"
  by (simp add: rounded_def last_place_def round_half_even_minus flip: minus_divide_left)

lemma rounded_error: "\<bar>rounded q - q\<bar> \<le> 2 powi last_place q / 2"
proof -
  let ?u = "2 powi last_place q :: rat"
  have "rounded q - q = (of_int (round_half_even (q / ?u)) - q / ?u) * ?u"
    by (simp add: rounded_def left_diff_distrib)
  then have "\<bar>rounded q - q\<bar> = \<bar>of_int (round_half_even (q / ?u)) - q / ?u\<bar> * ?u"
    by (simp only: abs_mult) simp
  also have "\<dots> \<le> 1 / 2 * ?u" by (rule mult_right_mono[OF round_half_even_error]) simp
  finally show ?thesis by simp
qed

text \<open>In the normal range one rounding is off by at most one part in \<open>2 ^ 53\<close>.\<close>

lemma rounded_relative:
  assumes "2 powi (- 1022) \<le> \<bar>q\<bar>"
  shows "\<bar>rounded q - q\<bar> \<le> \<bar>q\<bar> / 2 ^ 53"
proof -
  have q: "q \<noteq> 0" using assms two_powi_pos[of "- 1022"] by auto
  have "log2_floor (2 powi (- 1022)) = - 1022"
    by (rule log2_floor_unique) (simp_all add: power_int_add)
  then have e: "- 1022 \<le> log2_floor q"
    using log2_floor_mono[of "2 powi (- 1022)" q] assms by simp
  have "(2::rat) powi (log2_floor q - 52) / 2 = 2 powi log2_floor q / 2 ^ 53"
    by (simp add: power_int_diff)
  also have "\<dots> \<le> \<bar>q\<bar> / 2 ^ 53"
    using log2_floor_bounds(1)[OF q] by (rule divide_right_mono) simp
  finally show ?thesis using rounded_error[of q] e by (simp add: last_place_def)
qed

lemma rounded_grid:
  assumes "q = of_int i * 2 powi k" and "last_place q \<le> k"
  shows "rounded q = q"
proof -
  have "q / 2 powi last_place q = of_int i * 2 powi (k - last_place q)"
    by (simp add: assms(1) power_int_diff)
  also have "\<dots> = of_int (i * 2 ^ nat (k - last_place q))"
    using assms(2) by (simp add: power_int_nonneg_exp)
  finally have "rounded q = of_int (i * 2 ^ nat (k - last_place q)) * 2 powi last_place q"
    by (simp only: rounded_def round_half_even_int)
  also have "\<dots> = of_int i * (2 powi (k - last_place q) * 2 powi last_place q)"
    using assms(2) by (simp add: power_int_nonneg_exp)
  also have "\<dots> = q" by (simp add: assms(1) flip: power_int_add)
  finally show ?thesis .
qed

lemma rounded_exact:
  assumes "\<bar>i\<bar> \<le> 2 ^ 53" and "- 1074 \<le> k"
  shows "rounded (of_int i * 2 powi k) = of_int i * 2 powi k"
proof -
  have small: "rounded (of_int j * 2 powi e) = of_int j * 2 powi e" if "\<bar>j\<bar> < 2 ^ 53" "- 1074 \<le> e" for j e
  proof (cases "j = 0")
    case False
    let ?q = "of_int j * 2 powi e :: rat"
    have q: "?q \<noteq> 0" using False by simp
    have "\<bar>of_int j\<bar> < (2::rat) ^ 53" using that(1) by (metis of_int_abs of_int_less_iff of_int_numeral of_int_power)
    then have "\<bar>?q\<bar> < 2 ^ 53 * 2 powi e" by (simp add: abs_mult)
    also have "\<dots> = 2 powi (e + 53)" by (simp add: power_int_add)
    finally have "2 powi log2_floor ?q < (2::rat) powi (e + 53)"
      using log2_floor_bounds(1)[OF q] by linarith
    then have "log2_floor ?q < e + 53"
      using power_int_increasing[of "e + 53" "log2_floor ?q" "2::rat"] by fastforce
    then show ?thesis by (intro rounded_grid[OF refl]) (use that in \<open>simp add: last_place_def\<close>)
  qed simp
  show ?thesis
  proof (cases "\<bar>i\<bar> = 2 ^ 53")
    case True
    from True have "\<bar>i\<bar> = 9007199254740992" by simp
    then have "i = 9007199254740992 \<or> i = - 9007199254740992" by linarith
    then have "\<exists>j. i = 2 * j \<and> \<bar>j\<bar> < 2 ^ 53" by (elim disjE; intro exI[of _ "i div 2"]) simp_all
    then obtain j where j: "i = 2 * j" "\<bar>j\<bar> < 2 ^ 53" by blast
    have "(of_int i :: rat) * 2 powi k = of_int j * 2 powi (k + 1)"
      unfolding j(1) by (simp add: power_int_add)
    then show ?thesis using small[OF j(2), of "k + 1"] assms(2) by simp
  qed (use small assms in auto)
qed

lemma rounded_int: "\<bar>i\<bar> \<le> 2 ^ 53 \<Longrightarrow> rounded (of_int i) = of_int i"
  using rounded_exact[of i 0] by simp

section \<open>Rounding keeps the order\<close>

lemma rounded_grid_le:
  "q \<le> of_int i * 2 powi last_place q \<Longrightarrow> rounded q \<le> of_int i * 2 powi last_place q"
  "of_int i * 2 powi last_place q \<le> q \<Longrightarrow> of_int i * 2 powi last_place q \<le> rounded q"
proof -
  let ?u = "2 powi last_place q :: rat"
  show "q \<le> of_int i * ?u \<Longrightarrow> rounded q \<le> of_int i * ?u"
    using round_half_even_mono[of "q / ?u" "of_int i"] by (simp add: rounded_def pos_divide_le_eq)
  show "of_int i * ?u \<le> q \<Longrightarrow> of_int i * ?u \<le> rounded q"
    using round_half_even_mono[of "of_int i" "q / ?u"] by (simp add: rounded_def pos_le_divide_eq)
qed

lemma rounded_nonneg: "0 \<le> q \<Longrightarrow> 0 \<le> rounded q"
  using rounded_grid_le(2)[of 0 q] by simp

lemma rounded_mono_pos:
  assumes "0 < p" and "p \<le> q"
  shows "rounded p \<le> rounded q"
proof (cases "last_place p = last_place q")
  case True
  have "p / 2 powi last_place q \<le> q / 2 powi last_place q" using assms(2) by (simp add: divide_right_mono)
  then show ?thesis unfolding rounded_def True by (simp add: round_half_even_mono)
next
  case False
  have l: "log2_floor p \<le> log2_floor q" using assms by (intro log2_floor_mono) auto
  with False have e: "last_place p < last_place q" "last_place q = log2_floor q - 52" "log2_floor p < log2_floor q"
    by (auto simp: last_place_def max_def split: if_splits)
  let ?b = "2 powi log2_floor q :: rat"
  have grid: "?b = of_int (2 ^ nat (log2_floor q - e)) * 2 powi e" if "e \<le> log2_floor q" for e
    using that by (simp add: flip: power_int_nonneg_exp power_int_add)
  have "p < 2 powi (log2_floor p + 1)" using log2_floor_bounds(2)[of p] assms(1) by simp
  also have "\<dots> \<le> ?b" using e(3) by (intro power_int_increasing) auto
  finally have "rounded p \<le> ?b"
    using rounded_grid_le(1)[of p "2 ^ nat (log2_floor q - last_place p)"] grid[of "last_place p"] e by simp
  also have "?b \<le> rounded q"
    using rounded_grid_le(2)[of "2 ^ nat (log2_floor q - last_place q)" q] grid[of "last_place q"] e
      log2_floor_bounds(1)[of q] assms by simp
  finally show ?thesis .
qed

lemma rounded_mono: "p \<le> q \<Longrightarrow> rounded p \<le> rounded q"
proof -
  assume le: "p \<le> q"
  consider "0 < p" | "p \<le> 0" "0 \<le> q" | "q < 0" by linarith
  then show ?thesis
  proof cases
    case 2
    have "rounded p \<le> 0" using rounded_nonneg[of "- p"] 2 by simp
    then show ?thesis using rounded_nonneg[of q] 2 by simp
  next
    case 3
    then show ?thesis using rounded_mono_pos[of "- q" "- p"] le by simp
  qed (use le rounded_mono_pos in blast)
qed

lemma rounded_power: "rounded (2 ^ n) = 2 ^ n"
  using rounded_exact[of 1 "int n"] by simp

lemma round_f64_Fin: "\<bar>q\<bar> \<le> 2 ^ 1023 \<Longrightarrow> round_f64 q = Fin (rounded q)"
proof -
  assume q: "\<bar>q\<bar> \<le> 2 ^ 1023"
  then have "rounded q \<le> rounded (2 ^ 1023)" "rounded (- q) \<le> rounded (2 ^ 1023)"
    by (intro rounded_mono; simp)+
  then have "rounded q \<le> 2 ^ 1023" "- rounded q \<le> 2 ^ 1023" by (simp_all only: rounded_power rounded_minus)
  moreover have "(2::rat) ^ 1023 < 2 ^ 1024" by (rule power_strict_increasing) simp_all
  ultimately have "\<not> 2 ^ 1024 \<le> rounded q" "\<not> rounded q \<le> - (2 ^ 1024)" by linarith+
  then show ?thesis by (simp add: round_f64_def)
qed

lemma round_f64_int: "\<bar>i\<bar> \<le> 2 ^ 53 \<Longrightarrow> round_f64 (of_int i) = Fin (of_int i)"
proof -
  assume i: "\<bar>i\<bar> \<le> 2 ^ 53"
  then have "\<bar>of_int i\<bar> \<le> (2::rat) ^ 53" by (metis of_int_abs of_int_le_iff of_int_numeral of_int_power)
  also have "(2::rat) ^ 53 \<le> 2 ^ 1023" by (rule power_increasing) simp_all
  finally show ?thesis using round_f64_Fin rounded_int[OF i] by simp
qed

end
