(* ===== verification/QH_Host.thy ===== *)
theory QH_Host
  imports Complex_Main QH_Strings QH_F64
begin

text \<open>
  \<open>host.rs\<close>: what the machine offers.  The files the code reads are arguments (\<open>None\<close> when
  reading fails).  The share of the memory limit is computed in doubles, as the code does.
\<close>

section \<open>CPUs and memory\<close>

definition available_cpus :: "nat option \<Rightarrow> nat" where
  "available_cpus probe = (case probe of Some n \<Rightarrow> n | None \<Rightarrow> 1)"

record host_files =
  hf_cgroup_v2 :: "string option"
  hf_cgroup_v1 :: "string option"
  hf_meminfo :: "string option"

definition parse_usize :: "string \<Rightarrow> nat option" where
  "parse_usize s = map_option nat (parse_unsigned 64 s)"

definition cgroup_v2_limit :: "host_files \<Rightarrow> nat option" where
  "cgroup_v2_limit h = Option.bind (hf_cgroup_v2 h) (\<lambda>raw. parse_usize (trim raw))"

definition cgroup_v1_limit :: "host_files \<Rightarrow> nat option" where
  "cgroup_v1_limit h = Option.bind (hf_cgroup_v1 h) (\<lambda>raw.
     Option.bind (parse_usize (trim raw)) (\<lambda>v. if v < 2 ^ 50 then Some v else None))"

fun split_words :: "string \<Rightarrow> string \<Rightarrow> string list" where
  "split_words acc [] = (if acc = [] then [] else [rev acc])"
| "split_words acc (c # cs) =
     (if is_ws c then (if acc = [] then split_words [] cs else rev acc # split_words [] cs)
      else split_words (c # acc) cs)"

fun split_lines :: "string \<Rightarrow> string \<Rightarrow> string list" where
  "split_lines acc [] = (if acc = [] then [] else [rev acc])"
| "split_lines acc (c # cs) =
     (if c = char_of (10::nat) then rev acc # split_lines [] cs else split_lines (c # acc) cs)"

definition mem_total :: "host_files \<Rightarrow> nat option" where
  "mem_total h = Option.bind (hf_meminfo h) (\<lambda>meminfo.
     Option.bind (find (\<lambda>l. strip_prefix ''MemTotal:'' l \<noteq> None) (split_lines [] meminfo)) (\<lambda>line.
     (case split_words [] line of
        _ # w # _ \<Rightarrow> Option.bind (parse_usize w) (\<lambda>kb. if kb * 1024 < 2 ^ 64 then Some (kb * 1024) else None)
      | _ \<Rightarrow> None)))"

definition memory_limit_bytes :: "host_files \<Rightarrow> nat option" where
  "memory_limit_bytes h =
     (case (case cgroup_v2_limit h of Some v \<Rightarrow> Some v | None \<Rightarrow> cgroup_v1_limit h) of
        Some v \<Rightarrow> Some v
      | None \<Rightarrow> mem_total h)"

definition memory_fraction_bytes :: "host_files \<Rightarrow> f64 \<Rightarrow> nat option" where
  "memory_fraction_bytes h fraction =
     (if fraction = NaN \<or> f64_le fraction (Fin 0) then None
      else map_option (\<lambda>limit. f64_as_u64 (f64_mul round_f64 (round_f64 (of_nat limit)) (f64_min fraction (Fin 1))))
             (memory_limit_bytes h))"

lemma memory_limit_sources:
  "memory_limit_bytes h = None \<longleftrightarrow> cgroup_v2_limit h = None \<and> cgroup_v1_limit h = None \<and> mem_total h = None"
  by (auto simp: memory_limit_bytes_def split: option.splits)

lemma f64_as_u64_floor: "0 \<le> q \<Longrightarrow> q < 2 ^ 64 \<Longrightarrow> f64_as_u64 (Fin q) = nat \<lfloor>q\<rfloor>"
  by auto

text \<open>A share of a limit a double holds exactly: at most the limit, and the share asked for up to a byte and
  the rounding of one product.\<close>

lemma share_of_limit:
  assumes "l \<le> 2 ^ 53" and "0 < q" and "q \<le> 1"
  shows "f64_as_u64 (f64_mul round_f64 (round_f64 (of_nat l)) (Fin q)) \<le> l"
    "of_nat l * q * (1 - 1 / 2 ^ 53) - 1 \<le> of_nat (f64_as_u64 (f64_mul round_f64 (round_f64 (of_nat l)) (Fin q)))"
proof -
  let ?x = "of_nat l * q :: rat"
  have l: "round_f64 (of_nat l) = Fin (of_nat l)" using round_f64_int[of "int l"] assms(1) by simp
  have x: "0 \<le> ?x" "?x \<le> of_nat l" using assms by (simp_all add: mult_left_le)
  have lr: "of_nat l \<le> (2::rat) ^ 53" using assms(1) by (metis of_nat_le_iff of_nat_numeral of_nat_power)
  have "(2::rat) ^ 53 \<le> 2 ^ 1023" by (rule power_increasing) simp_all
  then have r: "round_f64 ?x = Fin (rounded ?x)" using x lr by (intro round_f64_Fin) auto
  have le: "0 \<le> rounded ?x" "rounded ?x \<le> of_nat l"
    using rounded_nonneg[OF x(1)] rounded_mono[OF x(2)] rounded_int[of "int l"] assms(1) by simp_all
  have "(2::rat) ^ 53 < 2 ^ 64" by simp
  then have eq: "f64_as_u64 (f64_mul round_f64 (round_f64 (of_nat l)) (Fin q)) = nat \<lfloor>rounded ?x\<rfloor>"
    unfolding l f64_mul.simps(1) r using le lr by (intro f64_as_u64_floor) linarith+
  show "f64_as_u64 (f64_mul round_f64 (round_f64 (of_nat l)) (Fin q)) \<le> l"
    unfolding eq using le(2) by (simp add: nat_le_iff floor_le_iff)
  have fl: "rounded ?x - 1 \<le> of_nat (nat \<lfloor>rounded ?x\<rfloor>)"
    using le(1) floor_correct[of "rounded ?x"] by (simp add: of_nat_nat)
  show "?x * (1 - 1 / 2 ^ 53) - 1 \<le> of_nat (f64_as_u64 (f64_mul round_f64 (round_f64 (of_nat l)) (Fin q)))"
  proof (cases "2 powi (- 1022) \<le> \<bar>?x\<bar>")
    case True
    have "\<bar>rounded ?x - ?x\<bar> \<le> ?x / 2 ^ 53" using rounded_relative[OF True] x(1) by (simp only: abs_of_nonneg)
    then have "?x - ?x / 2 ^ 53 \<le> rounded ?x" by linarith
    moreover have "?x * (1 - 1 / 2 ^ 53) = ?x - ?x / 2 ^ 53" unfolding right_diff_distrib by simp
    ultimately show ?thesis unfolding eq using fl by linarith
  next
    case False
    have "(2::rat) powi (- 1022) \<le> 2 powi 0" by (rule power_int_increasing) simp_all
    then have "?x \<le> 1" using False x(1) by simp
    then have "?x * (1 - 1 / 2 ^ 53) \<le> 1 * 1" using x(1) by (intro mult_mono) simp_all
    then show ?thesis unfolding eq by simp
  qed
qed



end
