(* ===== verification/QH_Config.thy ===== *)
theory QH_Config
  imports QH_Host QH_Warning_Kind QH_Error
begin

text \<open>
  The transfer configuration of \<open>config.rs\<close>: its record, \<open>normalize\<close>, the identities a run is
  saved under, and the validation every transfer passes first.  A hash map is an
  association list.  A rejected configuration carries the leading words of the
  code's message.  \<open>validate_with\<close> is written as the list of its tests, in the order the
  code makes them.
\<close>

section \<open>The record\<close>

datatype source_shape = Db | Api | Frame
datatype dest_kind = DestClickHouse | DestBigQuery | DestCsv
datatype sync_mode = Full | Incremental | Append
datatype watermark_seed = NoSeed | SeedValue string | CurrentMax

fun keeps_cursor :: "sync_mode \<Rightarrow> bool" where
  "keeps_cursor Full = False"
| "keeps_cursor Incremental = True"
| "keeps_cursor Append = True"

record transfer_config =
  cfg_source_table :: "string option"
  cfg_source_query :: "string option"
  cfg_dest_table :: string
  cfg_state_key :: "string option"
  cfg_mode :: sync_mode
  cfg_watermark :: "string option"
  cfg_watermark_source_expr :: "string option"
  cfg_lookback_seconds :: nat
  cfg_seed_watermark :: watermark_seed
  cfg_advance_watermark :: bool
  cfg_key :: "string list"
  cfg_create_if_missing :: bool
  cfg_engine :: "string option"
  cfg_order_by :: "string list"
  cfg_partition_by :: "string option"
  cfg_primary_key :: "string list"
  cfg_merge_prune_partition_by :: "string option"
  cfg_merge_prune_key_range :: bool
  cfg_merge_prune_key_list_max :: nat
  cfg_delete_stale_in_window :: bool
  cfg_allow_full_refresh_shrink :: bool
  cfg_parallelism :: nat
  cfg_batch_rows :: nat
  cfg_batch_bytes :: nat
  cfg_max_memory_fraction :: f64
  cfg_insert_bytes :: nat
  cfg_max_memory_bytes :: nat
  cfg_partition_column :: "string option"
  cfg_partition_source_expr :: "string option"
  cfg_read_max_rows_per_sec :: "nat option"
  cfg_read_idle_timeout_secs :: nat
  cfg_chunk_rows :: "nat option"
  cfg_keyset_not_null :: bool
  cfg_retry_max_attempts :: nat
  cfg_fail_on_warnings :: "warning_kind list"
  cfg_probe_max_cost :: f64
  cfg_read_window_rows :: "nat option"
  cfg_window_target_secs :: "f64 option"
  cfg_windowed :: bool
  cfg_window_bounds :: "(int \<times> int) option"
  cfg_column_transforms :: "(string \<times> string) list"
  cfg_column_transform_types :: "(string \<times> string) list"
  cfg_evolve_schema :: bool
  cfg_state_table_name :: string
  cfg_staging_suffix :: string
  cfg_application_name :: string
  cfg_type_overrides :: "(string \<times> string) list"
  cfg_rename :: "(string \<times> string) list"
  cfg_include :: "string list"
  cfg_exclude :: "string list"
  cfg_not_null :: "string list"
  cfg_source_archive_ignored :: bool
  cfg_numeric_as_decimal :: "string option"
  cfg_tinyint1_as_bool :: bool

section \<open>The effective configuration\<close>

definition effective_engine :: "transfer_config \<Rightarrow> string" where
  "effective_engine cfg =
     (case cfg_engine cfg of
        Some e \<Rightarrow> e
      | None \<Rightarrow> (case cfg_mode cfg of Incremental \<Rightarrow> ''ReplacingMergeTree'' | _ \<Rightarrow> ''MergeTree''))"

definition normalize :: "nat option \<Rightarrow> host_files \<Rightarrow> transfer_config \<Rightarrow> transfer_config" where
  "normalize cpus host cfg0 =
     (let cfg = (if cfg_parallelism cfg0 = 0 then cfg0\<lparr>cfg_parallelism := available_cpus cpus\<rparr> else cfg0);
          cfg = (case memory_fraction_bytes host (cfg_max_memory_fraction cfg) of
                   Some bytes \<Rightarrow> cfg\<lparr>cfg_max_memory_bytes := bytes\<rparr>
                 | None \<Rightarrow> cfg)
      in if cfg_mode cfg = Full
         then cfg\<lparr>cfg_watermark := None, cfg_watermark_source_expr := None, cfg_seed_watermark := NoSeed,
                  cfg_chunk_rows := None, cfg_keyset_not_null := False\<rparr>
         else cfg)"

fun or_else :: "'a option \<Rightarrow> 'a option \<Rightarrow> 'a option" where
  "or_else (Some a) b = Some a"
| "or_else None b = b"

definition effective_state_key :: "transfer_config \<Rightarrow> string" where
  "effective_state_key cfg =
     (case or_else (cfg_state_key cfg) (or_else (cfg_source_table cfg) (cfg_source_query cfg)) of
        Some s \<Rightarrow> s | None \<Rightarrow> [])"

definition keyset_column :: "transfer_config \<Rightarrow> string option" where
  "keyset_column cfg =
     or_else (cfg_partition_column cfg) (case cfg_key cfg of k # _ \<Rightarrow> Some k | [] \<Rightarrow> None)"

definition windowed_read :: "transfer_config \<Rightarrow> bool" where
  "windowed_read cfg \<longleftrightarrow> cfg_windowed cfg \<or> cfg_window_bounds cfg \<noteq> None"

section \<open>The identity of a chunked read\<close>

fun le_bytes :: "nat \<Rightarrow> nat \<Rightarrow> nat list" where
  "le_bytes 0 n = []"
| "le_bytes (Suc k) n = n mod 256 # le_bytes k (n div 256)"

text \<open>The bytes of one part, tagged and length-prefixed, and those of all the parts.\<close>

fun part_bytes :: "string option \<Rightarrow> nat list" where
  "part_bytes None = [0]"
| "part_bytes (Some s) = 1 # le_bytes 8 (length s) @ map code s"

definition read_id_parts :: "transfer_config \<Rightarrow> string option list" where
  "read_id_parts cfg =
     [cfg_source_table cfg, cfg_source_query cfg, keyset_column cfg, cfg_watermark cfg, cfg_watermark_source_expr cfg]"

definition fnv_feed :: "64 word \<Rightarrow> nat list \<Rightarrow> 64 word" where
  "fnv_feed hash bytes = foldl (\<lambda>h b. (xor h (of_nat b)) * 0x00000100000001b3) hash bytes"

fun hex_word :: "nat \<Rightarrow> nat \<Rightarrow> string" where
  "hex_word 0 n = []"
| "hex_word (Suc k) n = hex_word k (n div 16) @ [(if n mod 16 < 10 then char_of (48 + n mod 16) else char_of (87 + n mod 16))]"

definition chunk_read_id :: "transfer_config \<Rightarrow> string" where
  "chunk_read_id cfg =
     hex_word 16 (unat (fnv_feed 0xcbf29ce484222325 (concat (map part_bytes (read_id_parts cfg)))))"

lemma le_bytes_length [simp]: "length (le_bytes k n) = k"
  by (induction k arbitrary: n) auto

lemma le_bytes_inj: "n < 256 ^ k \<Longrightarrow> m < 256 ^ k \<Longrightarrow> le_bytes k n = le_bytes k m \<Longrightarrow> n = m"
proof (induction k arbitrary: n m)
  case (Suc k)
  have "n div 256 < 256 ^ k" "m div 256 < 256 ^ k"
    using Suc.prems by (simp_all add: less_mult_imp_div_less mult.commute)
  then have "n div 256 = m div 256" using Suc by auto
  moreover have "n mod 256 = m mod 256" using Suc.prems by simp
  ultimately show ?case by (metis mult_div_mod_eq)
qed simp

lemma part_bytes_inj:
  assumes "part_bytes p @ x = part_bytes q @ y"
    and "\<And>s. p = Some s \<Longrightarrow> length s < 2 ^ 64" and "\<And>s. q = Some s \<Longrightarrow> length s < 2 ^ 64"
  shows "p = q \<and> x = y"
proof (cases p; cases q)
  fix s t
  assume pq: "p = Some s" "q = Some t"
  have e: "le_bytes 8 (length s) @ map code s @ x = le_bytes 8 (length t) @ map code t @ y"
    using assms(1) pq by simp
  then have "le_bytes 8 (length s) = le_bytes 8 (length t)" and e2: "map code s @ x = map code t @ y"
    by (simp_all add: append_eq_append_conv)
  then have "length s = length t"
    using le_bytes_inj[of "length s" 8 "length t"] assms(2,3) pq by simp
  then have "map code s = map code t" "x = y" using e2 by simp_all
  then show ?thesis using pq by (auto simp: code_def inj_map_eq_map inj_def)
qed (use assms in auto)

lemma parts_bytes_inj:
  assumes "concat (map part_bytes ps) = concat (map part_bytes qs)" and "length ps = length qs"
    and "\<And>s. Some s \<in> set ps \<union> set qs \<Longrightarrow> length s < 2 ^ 64"
  shows "ps = qs"
  using assms
proof (induction ps arbitrary: qs)
  case (Cons p ps)
  then obtain q qs' where q: "qs = q # qs'" by (cases qs) auto
  have "p = q \<and> concat (map part_bytes ps) = concat (map part_bytes qs')"
    using Cons.prems q by (intro part_bytes_inj) auto
  then show ?case using Cons q by auto
qed simp

section \<open>Validation\<close>

type_synonym 'a rule = "bool \<times> string"

text \<open>\<open>if test { return Err(config(message)) }\<close>, one after the other.\<close>

fun first_broken :: "(bool \<times> string) list \<Rightarrow> unit res" where
  "first_broken [] = Inr ()"
| "first_broken ((broken, msg) # rules) = (if broken then Inl (Config msg) else first_broken rules)"

definition not_db_rules :: "transfer_config \<Rightarrow> (bool \<times> string) list" where
  "not_db_rules cfg =
     [(cfg_column_transforms cfg \<noteq> [], ''column_transforms is not supported''),
      (cfg_column_transform_types cfg \<noteq> [], ''column_transform_types is not supported''),
      (cfg_chunk_rows cfg \<noteq> None, ''chunk_rows (keyset resumable reads) is not supported''),
      (0 < cfg_lookback_seconds cfg, ''lookback_seconds is not supported''),
      (windowed_read cfg, ''windowed=True and window_bounds (a sweep of key windows) are not supported'')]"

definition frame_only_rules :: "transfer_config \<Rightarrow> (bool \<times> string) list" where
  "frame_only_rules cfg =
     [(cfg_source_table cfg \<noteq> None \<or> cfg_source_query cfg \<noteq> None,
         ''source_table/source_query do not apply to a DataFrame source''),
      (cfg_partition_source_expr cfg \<noteq> None \<or> cfg_watermark_source_expr cfg \<noteq> None,
         ''partition_source_expr/watermark_source_expr do not apply to a DataFrame source''),
      (cfg_partition_column cfg \<noteq> None, ''partition_column does not apply to a DataFrame source''),
      (cfg_read_max_rows_per_sec cfg \<noteq> None, ''read_max_rows_per_sec does not apply to a DataFrame source''),
      (0 < cfg_read_idle_timeout_secs cfg, ''read_idle_timeout_secs does not apply to a DataFrame source''),
      (cfg_seed_watermark cfg \<noteq> NoSeed \<or> \<not> cfg_advance_watermark cfg,
         ''seed_watermark/advance_watermark do not apply to a DataFrame source''),
      (1 < cfg_retry_max_attempts cfg, ''retry_max_attempts does not apply to a DataFrame source'')]"

definition validate_frame_only :: "transfer_config \<Rightarrow> unit res" where
  "validate_frame_only cfg = first_broken (frame_only_rules cfg)"

definition shape_rules :: "source_shape \<Rightarrow> bool \<Rightarrow> transfer_config \<Rightarrow> (bool \<times> string) list" where
  "shape_rules shape db_append_allowed cfg =
     [(shape = Db \<and> cfg_source_table cfg = None \<and> cfg_source_query cfg = None,
         ''either source_table or source_query must be set'')]
   @ (if shape \<noteq> Db then not_db_rules cfg else [])
   @ [(cfg_mode cfg \<in> {Incremental, Append} \<and> cfg_watermark cfg = None \<and> shape \<noteq> Frame,
         ''watermark column is required for incremental and append mode''),
      (shape = Frame \<and> cfg_mode cfg = Incremental \<and> cfg_key cfg = [] \<and> cfg_watermark cfg = None,
         ''incremental from a DataFrame upserts on key= alone, so key is required''),
      (0 < cfg_lookback_seconds cfg \<and> cfg_mode cfg \<noteq> Incremental,
         ''lookback_seconds only applies to incremental mode''),
      (cfg_mode cfg = Append \<and> shape = Db \<and> \<not> db_append_allowed,
         ''append mode is currently supported only for HTTP API sources'')]
   @ (if shape = Frame then frame_only_rules cfg else [])"

definition cursor_rules :: "transfer_config \<Rightarrow> (bool \<times> string) list" where
  "cursor_rules cfg =
     (let cursor_mode = cfg_mode cfg \<in> {Incremental, Append} in
     [(cfg_seed_watermark cfg \<noteq> NoSeed \<and> \<not> cursor_mode,
         ''seed_watermark only applies to incremental or append mode''),
      (\<not> cfg_advance_watermark cfg \<and> \<not> cursor_mode,
         ''advance_watermark=false only applies to incremental or append mode''),
      (0 < cfg_lookback_seconds cfg \<and> cfg_key cfg = [] \<and> cfg_order_by cfg = [],
         ''lookback_seconds requires key or order_by''),
      (f64_lt (cfg_max_memory_fraction cfg) (Fin 0) \<or> f64_lt (Fin 1) (cfg_max_memory_fraction cfg),
         ''max_memory_fraction must be between 0.0 (use max_memory_bytes as given) and 1.0''),
      (cfg_batch_rows cfg = 0, ''batch_rows must be >= 1''),
      (cfg_max_memory_bytes cfg \<noteq> 0 \<and> cfg_max_memory_bytes cfg < 64 * 1024,
         ''max_memory_bytes must be 0 (unbounded) or >= 65536''),
      (cfg_read_max_rows_per_sec cfg = Some 0, ''read_max_rows_per_sec must be None (unlimited) or >= 1''),
      (cfg_chunk_rows cfg = Some 0, ''chunk_rows must be None (one-shot) or >= 1''),
      (cfg_chunk_rows cfg \<noteq> None \<and> cfg_mode cfg \<noteq> Incremental,
         ''chunk_rows (keyset resumable reads) only applies to incremental mode''),
      (cfg_keyset_not_null cfg \<and> (cfg_chunk_rows cfg = None \<or> cfg_source_query cfg = None),
         ''keyset_not_null only applies to chunk_rows with a source_query''),
      (cfg_chunk_rows cfg \<noteq> None \<and> keyset_column cfg = None,
         ''chunk_rows requires a keyset ordering column: set partition_column or key'')])"

definition window_rules :: "transfer_config \<Rightarrow> (bool \<times> string) list" where
  "window_rules cfg =
     [(cfg_mode cfg \<noteq> Incremental, ''windowed=True and window_bounds only apply to incremental mode''),
      (cfg_chunk_rows cfg \<noteq> None, ''windowed=True and window_bounds are not supported together with chunk_rows''),
      (1 < cfg_parallelism cfg, ''windowed=True and window_bounds read single-stream''),
      (cfg_partition_source_expr cfg \<noteq> None,
         ''windowed=True and window_bounds read single-stream, so partition_source_expr can't apply''),
      (keyset_column cfg = None, ''windowed=True and window_bounds sweep windows of a key''),
      (cfg_read_window_rows cfg = Some 0, ''read_window_rows=0 turns the windowed read off'')]"

definition bounds_rules :: "transfer_config \<Rightarrow> int \<times> int \<Rightarrow> (bool \<times> string) list" where
  "bounds_rules cfg lohi =
     [(snd lohi < fst lohi, ''window_bounds is empty: lo can't be greater than hi''),
      (cfg_advance_watermark cfg, ''window_bounds needs advance_watermark=False''),
      (cfg_delete_stale_in_window cfg, ''window_bounds is not supported together with delete_stale_in_window'')]"

text \<open>The destination name a column lands under.\<close>

definition landed :: "transfer_config \<Rightarrow> string \<Rightarrow> string" where
  "landed cfg column = (case map_of (cfg_rename cfg) column of Some d \<Rightarrow> d | None \<Rightarrow> column)"

fun unwrap_or_default :: "string option \<Rightarrow> string" where
  "unwrap_or_default (Some s) = s"
| "unwrap_or_default None = []"

definition delete_rules :: "source_shape \<Rightarrow> transfer_config \<Rightarrow> (bool \<times> string) list" where
  "delete_rules shape cfg =
     [(cfg_mode cfg \<noteq> Incremental, ''delete_stale_in_window only applies to incremental mode''),
      (cfg_merge_prune_partition_by cfg = None, ''delete_stale_in_window requires merge_prune_partition_by''),
      (cfg_chunk_rows cfg \<noteq> None, ''delete_stale_in_window is not supported together with chunk_rows''),
      (shape \<noteq> Frame \<and> landed cfg (unwrap_or_default (cfg_watermark cfg)) \<noteq> unwrap_or_default (cfg_merge_prune_partition_by cfg),
         ''delete_stale_in_window needs watermark to be the merge_prune_partition_by column''),
      (cfg_watermark_source_expr cfg \<noteq> None,
         ''delete_stale_in_window is not supported together with watermark_source_expr'')]"

definition validate_with :: "source_shape \<Rightarrow> bool \<Rightarrow> transfer_config \<Rightarrow> unit res" where
  "validate_with shape db_append_allowed cfg =
     first_broken
       (shape_rules shape db_append_allowed cfg
        @ cursor_rules cfg
        @ (if windowed_read cfg then window_rules cfg else [])
        @ (case cfg_window_bounds cfg of Some lohi \<Rightarrow> bounds_rules cfg lohi | None \<Rightarrow> [])
        @ (if cfg_delete_stale_in_window cfg then delete_rules shape cfg else []))"

definition validate :: "transfer_config \<Rightarrow> unit res" where
  "validate cfg = validate_with Db False cfg"

definition validate_api :: "transfer_config \<Rightarrow> unit res" where
  "validate_api cfg = validate_with Api False cfg"

definition validate_frame :: "transfer_config \<Rightarrow> unit res" where
  "validate_frame cfg = validate_with Frame False cfg"

definition validate_for :: "source_shape \<Rightarrow> dest_kind \<Rightarrow> transfer_config \<Rightarrow> unit res" where
  "validate_for shape dest cfg = validate_with shape (dest = DestCsv) cfg"

section \<open>What an accepted configuration promises\<close>

lemma first_broken_ok: "first_broken rules = Inr () \<longleftrightarrow> list_all (\<lambda>r. \<not> fst r) rules"
  by (induction rules rule: first_broken.induct) auto

lemmas validation_rules = shape_rules_def not_db_rules_def frame_only_rules_def cursor_rules_def
  window_rules_def bounds_rules_def delete_rules_def

lemma validate_for_ok:
  "validate_for shape dest cfg = Inr () \<longleftrightarrow>
     list_all (\<lambda>r. \<not> fst r) (shape_rules shape (dest = DestCsv) cfg)
     \<and> list_all (\<lambda>r. \<not> fst r) (cursor_rules cfg)
     \<and> (windowed_read cfg \<longrightarrow> list_all (\<lambda>r. \<not> fst r) (window_rules cfg))
     \<and> (\<forall>lohi. cfg_window_bounds cfg = Some lohi \<longrightarrow> list_all (\<lambda>r. \<not> fst r) (bounds_rules cfg lohi))
     \<and> (cfg_delete_stale_in_window cfg \<longrightarrow> list_all (\<lambda>r. \<not> fst r) (delete_rules shape cfg))"
  by (auto simp: validate_for_def validate_with_def first_broken_ok split: option.splits)

definition sample_config :: transfer_config where
  "sample_config = \<lparr>
    cfg_source_table = Some ''orders'', cfg_source_query = None, cfg_dest_table = ''orders'', cfg_state_key = None,
    cfg_mode = Incremental, cfg_watermark = Some ''updated_at'', cfg_watermark_source_expr = None,
    cfg_lookback_seconds = 60, cfg_seed_watermark = NoSeed, cfg_advance_watermark = True, cfg_key = [''id''],
    cfg_create_if_missing = True, cfg_engine = None, cfg_order_by = [], cfg_partition_by = None, cfg_primary_key = [],
    cfg_merge_prune_partition_by = Some ''updated_at'', cfg_merge_prune_key_range = True, cfg_merge_prune_key_list_max = 0,
    cfg_delete_stale_in_window = True, cfg_allow_full_refresh_shrink = False, cfg_parallelism = 1, cfg_batch_rows = 1000,
    cfg_batch_bytes = 0, cfg_max_memory_fraction = Fin 0, cfg_insert_bytes = 0, cfg_max_memory_bytes = 0,
    cfg_partition_column = None, cfg_partition_source_expr = None, cfg_read_max_rows_per_sec = None,
    cfg_read_idle_timeout_secs = 0, cfg_chunk_rows = None, cfg_keyset_not_null = False, cfg_retry_max_attempts = 1,
    cfg_fail_on_warnings = [], cfg_probe_max_cost = Fin 0, cfg_read_window_rows = None, cfg_window_target_secs = None,
    cfg_windowed = True, cfg_window_bounds = None, cfg_column_transforms = [], cfg_column_transform_types = [],
    cfg_evolve_schema = False, cfg_state_table_name = ''_quickhouse_state'', cfg_staging_suffix = ''_staging'',
    cfg_application_name = ''quickhouse'', cfg_type_overrides = [], cfg_rename = [], cfg_include = [],
    cfg_exclude = [], cfg_not_null = [], cfg_source_archive_ignored = False, cfg_numeric_as_decimal = None,
    cfg_tinyint1_as_bool = True\<rparr>"

text \<open>C12. The bytes hashed into the identity of a chunked read determine the read: two
  configurations that feed the same bytes agree on table, query, keyset column,
  watermark and watermark expression.\<close>

theorem read_id_bytes_distinct:
  assumes "concat (map part_bytes (read_id_parts cfg)) = concat (map part_bytes (read_id_parts cfg'))"
    and "\<forall>s. Some s \<in> set (read_id_parts cfg) \<union> set (read_id_parts cfg') \<longrightarrow> length s < 2 ^ 64"
  shows "cfg_source_table cfg = cfg_source_table cfg' \<and> cfg_source_query cfg = cfg_source_query cfg'
     \<and> keyset_column cfg = keyset_column cfg' \<and> cfg_watermark cfg = cfg_watermark cfg'
     \<and> cfg_watermark_source_expr cfg = cfg_watermark_source_expr cfg'"
proof -
  have "read_id_parts cfg = read_id_parts cfg'"
    using assms by (intro parts_bytes_inj) (auto simp: read_id_parts_def)
  then show ?thesis by (simp add: read_id_parts_def)
qed

theorem read_id_bytes_distinct_witness:
  "keyset_column sample_config = keyset_column (sample_config\<lparr>cfg_state_key := Some ''k''\<rparr>)"
proof -
  have "keyset_column sample_config = Some ''id''" by (simp add: sample_config_def keyset_column_def)
  then have "\<forall>s. Some s \<in> set (read_id_parts sample_config) \<union> set (read_id_parts (sample_config\<lparr>cfg_state_key := Some ''k''\<rparr>))
      \<longrightarrow> length s < 2 ^ 64"
    by (simp add: read_id_parts_def sample_config_def keyset_column_def)
  moreover have "read_id_parts sample_config = read_id_parts (sample_config\<lparr>cfg_state_key := Some ''k''\<rparr>)"
    by (simp add: read_id_parts_def keyset_column_def)
  ultimately show ?thesis
    using read_id_bytes_distinct[of sample_config "sample_config\<lparr>cfg_state_key := Some ''k''\<rparr>"] by simp
qed

end
