(* ===== verification/QH_Ddl.thy ===== *)
theory QH_Ddl
  imports QH_Config QH_Sql QH_Ch_Types
begin

text \<open>
  \<open>ddl.rs\<close>: the ClickHouse statements a transfer creates its tables with, and what the
  code reads back out of an engine clause.  Beside the statements are the names their clauses
  use, which the plan of a transfer has to keep non-nullable.
\<close>

section \<open>Engines\<close>

definition ROW_MERGING_ENGINES :: "string list" where
  "ROW_MERGING_ENGINES = [''ReplacingMergeTree'', ''CollapsingMergeTree'',
     ''VersionedCollapsingMergeTree'', ''SummingMergeTree'', ''AggregatingMergeTree'']"

definition strip_replicated :: "string \<Rightarrow> string" where
  "strip_replicated family = (case strip_prefix ''Replicated'' family of Some f \<Rightarrow> f | None \<Rightarrow> family)"

definition is_row_merging_engine :: "string \<Rightarrow> bool" where
  "is_row_merging_engine engine \<longleftrightarrow>
     strip_replicated (trim (hd (split_all CHR ''('' engine))) \<in> set ROW_MERGING_ENGINES"

text \<open>The arguments of an engine, split at the commas outside single quotes.\<close>

fun split_args :: "string \<Rightarrow> bool \<Rightarrow> string \<Rightarrow> string list" where
  "split_args current in_quotes [] = [rev current]"
| "split_args current in_quotes (c # cs) =
     (if c = APOS then split_args (c # current) (\<not> in_quotes) cs
      else if c = CHR '','' \<and> \<not> in_quotes then rev current # split_args [] in_quotes cs
      else split_args (c # current) in_quotes cs)"

definition strip_quotes :: "char \<Rightarrow> string \<Rightarrow> string option" where
  "strip_quotes q p = (case strip_prefix [q] p of None \<Rightarrow> None | Some r \<Rightarrow> strip_suffix [q] r)"

definition bare_name :: "string \<Rightarrow> string" where
  "bare_name p =
     (case or_else (strip_quotes (CHR 0x60) p) (strip_quotes (CHR 0x22) p) of Some n \<Rightarrow> n | None \<Rightarrow> p)"

definition engine_parameter_columns :: "string \<Rightarrow> string list" where
  "engine_parameter_columns engine_text =
     (case split_once CHR ''('' engine_text of
        None \<Rightarrow> []
      | Some (family, args) \<Rightarrow>
          if strip_replicated (trim family)
             \<notin> {''ReplacingMergeTree'', ''CollapsingMergeTree'', ''VersionedCollapsingMergeTree''}
          then []
          else
            let args = trim_end args;
                args = (case strip_suffix '')'' args of Some a \<Rightarrow> a | None \<Rightarrow> args)
            in map bare_name (filter (\<lambda>p. p \<noteq> [] \<and> \<not> starts_with [APOS] p)
                 (map trim (split_args [] False args))))"

section \<open>Tables\<close>

definition order_columns :: "transfer_config \<Rightarrow> string list" where
  "order_columns cfg = (if cfg_order_by cfg \<noteq> [] then cfg_order_by cfg
     else if cfg_key cfg \<noteq> [] then cfg_key cfg else [])"

definition engine_clause :: "transfer_config \<Rightarrow> string" where
  "engine_clause cfg =
     (if effective_engine cfg = ''ReplacingMergeTree'' then
        (case (cfg_watermark cfg, cfg_mode cfg) of
           (Some w, Incremental) \<Rightarrow> ''ReplacingMergeTree('' @ quote_ident w @ '')''
         | _ \<Rightarrow> ''ReplacingMergeTree'')
      else effective_engine cfg)"

definition column_definitions :: "column_type list \<Rightarrow> string" where
  "column_definitions columns =
     join ('','' @ [LF]) (map (\<lambda>c. ''    '' @ quote_ident (ct_name c) @ '' '' @ clickhouse_type c) columns)"

definition create_table :: "string \<Rightarrow> string \<Rightarrow> column_type list \<Rightarrow> transfer_config \<Rightarrow> string res" where
  "create_table db table columns cfg =
     (if columns = [] then Inl (Config ''cannot create a table with no columns'')
      else if order_columns cfg = [] \<and> is_row_merging_engine (effective_engine cfg)
        then Inl (Config (''engine '' @ effective_engine cfg @ '' needs a sorting key, but neither `key` nor `order_by` was set''))
      else Inr (''CREATE TABLE IF NOT EXISTS '' @ qualified_name db table @ [LF] @ ''('' @ [LF]
        @ column_definitions columns @ [LF] @ '')'' @ [LF] @ ''ENGINE = '' @ engine_clause cfg
        @ (if cfg_primary_key cfg \<noteq> []
           then [LF] @ ''PRIMARY KEY ('' @ join '', '' (map quote_ident (cfg_primary_key cfg)) @ '')'' else [])
        @ (case cfg_partition_by cfg of Some pb \<Rightarrow> [LF] @ ''PARTITION BY '' @ pb | None \<Rightarrow> [])
        @ [LF] @ ''ORDER BY ('' @
          (if order_columns cfg = [] then ''tuple()'' else join '', '' (map quote_ident (order_columns cfg))) @ '')''))"

definition create_state_table :: "string \<Rightarrow> string \<Rightarrow> string" where
  "create_state_table db state_table =
     ''CREATE TABLE IF NOT EXISTS '' @ qualified_name db state_table @ [LF] @ ''('' @ [LF]
     @ ''    source_table String,'' @ [LF]
     @ ''    dest_table   String,'' @ [LF]
     @ ''    last_watermark String,'' @ [LF]
     @ ''    rows UInt64,'' @ [LF]
     @ ''    chunk_cursor String DEFAULT '' @ [APOS, APOS] @ '','' @ [LF]
     @ ''    chunk_upper String DEFAULT '' @ [APOS, APOS] @ '','' @ [LF]
     @ ''    chunk_read String DEFAULT '' @ [APOS, APOS] @ '','' @ [LF]
     @ ''    run_ts DateTime64(3) DEFAULT now64(3)'' @ [LF]
     @ '')'' @ [LF] @ ''ENGINE = ReplacingMergeTree(run_ts)'' @ [LF] @ ''ORDER BY (source_table, dest_table)''"

definition CHUNK_RESUME_COLUMNS :: "string list" where
  "CHUNK_RESUME_COLUMNS = [''chunk_cursor'', ''chunk_upper'', ''chunk_read'']"

definition state_table_needs_migration :: "string list \<Rightarrow> bool" where
  "state_table_needs_migration existing \<longleftrightarrow> list_ex (\<lambda>c. c \<notin> set existing) CHUNK_RESUME_COLUMNS"

definition migrate_state_table :: "string \<Rightarrow> string \<Rightarrow> string" where
  "migrate_state_table db state_table =
     ''ALTER TABLE '' @ qualified_name db state_table
     @ '' ADD COLUMN IF NOT EXISTS chunk_cursor String DEFAULT '' @ [APOS, APOS]
     @ '', ADD COLUMN IF NOT EXISTS chunk_upper String DEFAULT '' @ [APOS, APOS]
     @ '', ADD COLUMN IF NOT EXISTS chunk_read String DEFAULT '' @ [APOS, APOS]"

definition add_column :: "string \<Rightarrow> string \<Rightarrow> column_type \<Rightarrow> string" where
  "add_column db table column =
     ''ALTER TABLE '' @ qualified_name db table @ '' ADD COLUMN IF NOT EXISTS ''
     @ quote_ident (ct_name column) @ '' '' @ wrap_clickhouse_nullable (ct_clickhouse_inner column)"

section \<open>The columns a table's clauses name\<close>

definition engine_clause_columns :: "transfer_config \<Rightarrow> string list" where
  "engine_clause_columns cfg =
     (if effective_engine cfg = ''ReplacingMergeTree'' then
        (case (cfg_watermark cfg, cfg_mode cfg) of (Some w, Incremental) \<Rightarrow> [w] | _ \<Rightarrow> [])
      else engine_parameter_columns (effective_engine cfg))"

definition sorting_columns :: "transfer_config \<Rightarrow> string list" where
  "sorting_columns cfg = order_columns cfg @ cfg_primary_key cfg"

lemma order_columns_named:
  "x \<in> set (sorting_columns cfg) \<Longrightarrow>
     x \<in> set (cfg_key cfg) \<union> set (cfg_order_by cfg) \<union> set (cfg_primary_key cfg)"
  by (auto simp: sorting_columns_def order_columns_def split: if_splits)

lemma create_table_ok:
  "create_table db table columns cfg = Inr stmt \<Longrightarrow>
     columns \<noteq> [] \<and> (is_row_merging_engine (effective_engine cfg) \<longrightarrow> order_columns cfg \<noteq> [])"
  by (auto simp: create_table_def simp del: append.simps split: if_splits)

end
