(* ===== verification/QH_Transform.thy ===== *)
theory QH_Transform
  imports QH_Ddl QH_Decimal "HOL-Library.List_Lexorder" "HOL-Library.Char_ord"
begin

text \<open>
  \<open>transform.rs\<close>: from the resolved source columns and the configuration to the plan of a
  transfer: what is read, and under which name, type and nullability it lands.  Hash
  maps are association lists; the map of an existing table's column types is looked up in its
  order where the code takes any match.
\<close>

section \<open>Datetime types\<close>

definition extract_quoted_tz :: "string \<Rightarrow> string option" where
  "extract_quoted_tz s =
     (case split_once APOS s of None \<Rightarrow> None | Some (_, rest) \<Rightarrow>
      (case split_once APOS rest of None \<Rightarrow> None | Some (tz, _) \<Rightarrow> Some tz))"

definition datetime_override_tz :: "string \<Rightarrow> string option option" where
  "datetime_override_tz dest_type =
     (let trimmed = trim dest_type; upper = uppercase trimmed in
      if upper = ''TIMESTAMP'' then Some (Some UTC)
      else if upper = ''DATETIME'' then Some None
      else if starts_with ''DATETIME'' upper then Some (extract_quoted_tz trimmed)
      else None)"

definition clickhouse_datetime_spelling :: "string \<Rightarrow> string" where
  "clickhouse_datetime_spelling dest_type =
     (let trimmed = trim dest_type in
      if eq_ignore_case trimmed ''DATETIME'' \<and> trimmed \<noteq> ''DateTime'' then ''DateTime64(6)''
      else if eq_ignore_case trimmed ''TIMESTAMP'' then DT6_UTC
      else dest_type)"

definition column_transform_type_names :: "(string \<times> data_type) list" where
  "column_transform_type_names =
     [(''Boolean'', Boolean), (''Bool'', Boolean), (''Int16'', Int16), (''Int32'', Int32),
      (''Int64'', Int64), (''UInt32'', UInt32), (''Float32'', Float32), (''Float64'', Float64),
      (''Utf8'', Utf8), (''String'', Utf8), (''Text'', Utf8), (''Binary'', Binary),
      (''Date32'', Date32), (''Date'', Date32)]"

definition parse_column_transform_type :: "string \<Rightarrow> data_type option" where
  "parse_column_transform_type name = map_of column_transform_type_names name"

section \<open>Decimals\<close>

text \<open>Arrow's \<open>validate_decimal_precision_and_scale\<close> for \<open>Decimal128\<close>.\<close>

definition decimal128_params_ok :: "int \<Rightarrow> int \<Rightarrow> bool" where
  "decimal128_params_ok p s \<longleftrightarrow> 1 \<le> p \<and> p \<le> 38 \<and> s \<le> 38 \<and> (0 < s \<longrightarrow> s \<le> p)"

definition resolve_decimal_promotion :: "string \<Rightarrow> dest_kind \<Rightarrow> string \<Rightarrow> (int \<times> int) option res" where
  "resolve_decimal_promotion inner_type dest dest_name =
     (case parse_decimal_override inner_type of
        Some (p, s) \<Rightarrow>
          if decimal128_params_ok p s then Inr (Some (p, s))
          else Inl (Config (''column '' @ quoted dest_name @ '': type_overrides '' @ quoted inner_type
                 @ '' is not a valid Decimal128(P,S) override''))
      | None \<Rightarrow>
          if dest = DestBigQuery \<and> eq_ignore_case (trim inner_type) ''NUMERIC'' then Inr (Some (38, 9))
          else Inr None)"

datatype existing_columns = NoTable | Known "(string \<times> string) list" | Unknown

fun type_of_column :: "existing_columns \<Rightarrow> string \<Rightarrow> string option" where
  "type_of_column (Known cols) name =
     or_else (map_of cols name) (map_option snd (find (\<lambda>kv. eq_ignore_case (fst kv) name) cols))"
| "type_of_column _ name = None"

datatype existing_decimals = NoDecimals | AllDecimal | AllFloat | MixedDecimals "string list" "string list"

definition decimal_fits :: "int \<Rightarrow> int \<Rightarrow> dest_kind \<Rightarrow> bool" where
  "decimal_fits p s dest \<longleftrightarrow> \<not> (dest = DestBigQuery \<and> (9 < s \<or> 29 < p - s))"

fun contains_text :: "string \<Rightarrow> string \<Rightarrow> bool" where
  "contains_text p [] = (p = [])"
| "contains_text p (c # cs) = (starts_with p (c # cs) \<or> contains_text p cs)"

definition is_decimal_type :: "string \<Rightarrow> bool" where
  "is_decimal_type dest_type \<longleftrightarrow>
     (let upper = uppercase dest_type
      in contains_text ''DECIMAL'' upper \<or> starts_with ''NUMERIC'' upper \<or> starts_with ''BIGNUMERIC'' upper)"

definition included_columns :: "transfer_config \<Rightarrow> column_type list \<Rightarrow> column_type list" where
  "included_columns cfg source =
     filter (\<lambda>c. ct_name c \<notin> set (cfg_exclude cfg))
       (filter (\<lambda>c. cfg_include cfg = [] \<or> ct_name c \<in> set (cfg_include cfg)) source)"

definition declared_candidate :: "transfer_config \<Rightarrow> dest_kind \<Rightarrow> column_type \<Rightarrow> bool" where
  "declared_candidate cfg dest c \<longleftrightarrow>
     (case ct_declared_decimal c of
        None \<Rightarrow> False
      | Some (p, s) \<Rightarrow>
          map_of (cfg_type_overrides cfg) (ct_name c) = None
          \<and> map_of (cfg_type_overrides cfg) (landed cfg (ct_name c)) = None
          \<and> decimal_fits p s dest)"

definition existing_decimals :: "column_type list \<Rightarrow> transfer_config \<Rightarrow> dest_kind \<Rightarrow> existing_columns \<Rightarrow> existing_decimals" where
  "existing_decimals source cfg dest existing =
     (if dest = DestCsv then NoDecimals
      else
        let candidates = map (\<lambda>c. landed cfg (ct_name c))
              (filter (declared_candidate cfg dest) (included_columns cfg source));
            decimals = filter (\<lambda>n. \<exists>t \<in> set_option (type_of_column existing n). is_decimal_type t) candidates;
            floats = filter (\<lambda>n. \<exists>t \<in> set_option (type_of_column existing n). \<not> is_decimal_type t) candidates
        in if decimals = [] \<and> floats = [] then NoDecimals
           else if floats = [] then AllDecimal
           else if decimals = [] then AllFloat
           else MixedDecimals (sort decimals) (sort floats))"

definition declared_decimal_default :: "column_type \<Rightarrow> string \<Rightarrow> dest_kind \<Rightarrow> existing_columns
    \<Rightarrow> existing_decimals \<Rightarrow> string option" where
  "declared_decimal_default c dest_name dest existing decimals =
     (case ct_declared_decimal c of
        None \<Rightarrow> None
      | Some (p, s) \<Rightarrow>
          if (case existing of
                NoTable \<Rightarrow> True
              | Unknown \<Rightarrow> False
              | Known _ \<Rightarrow>
                  (case type_of_column existing dest_name of
                     Some dest_type \<Rightarrow> is_decimal_type dest_type
                   | None \<Rightarrow> decimals \<noteq> AllFloat))
             \<and> decimal_fits p s dest
          then Some (''Decimal('' @ show_int p @ '', '' @ show_int s @ '')'')
          else None)"

section \<open>Key columns\<close>

definition same_name :: "dest_kind \<Rightarrow> string \<Rightarrow> string \<Rightarrow> bool" where
  "same_name dest a b = (if dest = DestBigQuery then eq_ignore_case a b else a = b)"

fun ensure_key_columns_of :: "dest_kind \<Rightarrow> column_type list \<Rightarrow> string list \<Rightarrow> unit res" where
  "ensure_key_columns_of dest dest_columns [] = Inr ()"
| "ensure_key_columns_of dest dest_columns (k # ks) =
     (if list_ex (\<lambda>c. same_name dest (ct_name c) k) dest_columns
      then ensure_key_columns_of dest dest_columns ks
      else Inl (Config (''key column '' @ quoted k @ '' is not a destination column'')))"

definition ensure_key_columns :: "transfer_config \<Rightarrow> dest_kind \<Rightarrow> column_type list \<Rightarrow> unit res" where
  "ensure_key_columns cfg dest dest_columns = ensure_key_columns_of dest dest_columns (cfg_key cfg)"

section \<open>The plan\<close>

record select_plan =
  sp_source_columns :: "string list"
  sp_source_select_exprs :: "string option list"
  sp_dest_columns :: "column_type list"

definition forced_columns :: "transfer_config \<Rightarrow> string list" where
  "forced_columns cfg = cfg_key cfg @ cfg_order_by cfg @ cfg_primary_key cfg @ cfg_not_null cfg"

definition planned_inner :: "transfer_config \<Rightarrow> dest_kind \<Rightarrow> existing_columns \<Rightarrow> existing_decimals
    \<Rightarrow> column_type \<Rightarrow> string" where
  "planned_inner cfg dest existing decimals c =
     (let dest_name = landed cfg (ct_name c);
          inner_type =
            (case or_else (map_of (cfg_type_overrides cfg) (ct_name c))
                  (or_else (map_of (cfg_type_overrides cfg) dest_name)
                  (or_else (if ct_arbitrary_precision_decimal c then cfg_numeric_as_decimal cfg else None)
                           (declared_decimal_default c dest_name dest existing decimals))) of
               Some t \<Rightarrow> t
             | None \<Rightarrow> ct_clickhouse_inner c)
      in if dest = DestClickHouse then clickhouse_datetime_spelling inner_type else inner_type)"

definition planned_arrow :: "transfer_config \<Rightarrow> dest_kind \<Rightarrow> string \<Rightarrow> column_type \<Rightarrow> data_type res" where
  "planned_arrow cfg dest inner_type c =
     (case map_of (cfg_column_transform_types cfg) (ct_name c) of
        Some name \<Rightarrow>
          (case parse_column_transform_type name of
             Some t \<Rightarrow> Inr t
           | None \<Rightarrow> Inl (Config (''column_transform_types['' @ quoted (ct_name c) @ ''] = '' @ quoted name
               @ '' is not a recognized decode type'')))
      | None \<Rightarrow>
          if ct_arbitrary_precision_decimal c then
            and_then (resolve_decimal_promotion inner_type dest (landed cfg (ct_name c))) (\<lambda>ps.
              Inr (case ps of Some (p, s) \<Rightarrow> Decimal128 p s | None \<Rightarrow> ct_arrow c))
          else
            (case ct_arrow c of
               Timestamp _ _ \<Rightarrow>
                 (case datetime_override_tz inner_type of
                    Some tz \<Rightarrow> Inr (Timestamp Microsecond tz)
                  | None \<Rightarrow> Inr (ct_arrow c))
             | _ \<Rightarrow> Inr (ct_arrow c)))"

definition force_non_nullable :: "transfer_config \<Rightarrow> dest_kind \<Rightarrow> column_type \<Rightarrow> bool" where
  "force_non_nullable cfg dest c \<longleftrightarrow>
     (let dest_name = landed cfg (ct_name c);
          is_key = dest_name \<in> set (forced_columns cfg);
          is_watermark = cfg_watermark cfg = Some (ct_name c);
          is_ch_version_column = is_watermark \<and> effective_engine cfg = ''ReplacingMergeTree'' \<and> dest = DestClickHouse;
          is_engine_column = dest = DestClickHouse \<and> dest_name \<in> set (engine_parameter_columns (effective_engine cfg))
      in dest \<noteq> DestCsv \<and> (is_key \<or> is_ch_version_column \<or> is_engine_column))"

definition planned_nullable :: "transfer_config \<Rightarrow> dest_kind \<Rightarrow> bool \<Rightarrow> column_type \<Rightarrow> data_type \<Rightarrow> bool" where
  "planned_nullable cfg dest may_coerce c arrow \<longleftrightarrow>
     (if force_non_nullable cfg dest c then False
      else if dest = DestCsv then True
      else ct_nullable c \<or> (may_coerce \<and> may_coerce_to_null arrow)
           \<or> (cfg_watermark cfg = Some (ct_name c) \<and> dest \<noteq> DestClickHouse))"

definition plan_column :: "transfer_config \<Rightarrow> dest_kind \<Rightarrow> bool \<Rightarrow> existing_columns \<Rightarrow> existing_decimals
    \<Rightarrow> column_type \<Rightarrow> column_type res" where
  "plan_column cfg dest may_coerce existing decimals c =
     (let inner_type = planned_inner cfg dest existing decimals c in
      and_then (planned_arrow cfg dest inner_type c) (\<lambda>arrow.
        Inr (c\<lparr>ct_name := landed cfg (ct_name c), ct_nullable := planned_nullable cfg dest may_coerce c arrow,
               ct_arrow := arrow, ct_clickhouse_inner := inner_type\<rparr>)))"

definition plan_checks :: "transfer_config \<Rightarrow> column_type list \<Rightarrow> column_type list \<Rightarrow> unit res" where
  "plan_checks cfg source included =
     first_broken
       ([(included = [], ''column selection (include/exclude) left no columns to transfer'')]
        @ map (\<lambda>want. (want \<notin> set (map ct_name source), ''include column not found in source'')) (cfg_include cfg)
        @ concat (map (\<lambda>(col, e).
            [(col \<notin> set (map ct_name included), ''column_transforms references a column which isn't in the transferred set''),
             (trim e = [], ''column_transforms is an empty expression'')]) (cfg_column_transforms cfg))
        @ map (\<lambda>(col, _). (map_of (cfg_column_transforms cfg) col = None,
            ''column_transform_types has no matching column_transforms entry'')) (cfg_column_transform_types cfg))"

definition plan_for_destination :: "column_type list \<Rightarrow> transfer_config \<Rightarrow> dest_kind \<Rightarrow> bool
    \<Rightarrow> existing_columns \<Rightarrow> select_plan res" where
  "plan_for_destination source cfg dest may_coerce existing0 =
     (let existing = (if dest = DestCsv then NoTable else existing0);
          included = included_columns cfg source;
          decimals = existing_decimals source cfg dest existing
      in and_then (plan_checks cfg source included) (\<lambda>_.
         and_then (try_map (plan_column cfg dest may_coerce existing decimals) included) (\<lambda>dest_columns.
         and_then (ensure_key_columns cfg dest dest_columns) (\<lambda>_.
           Inr \<lparr>sp_source_columns = map ct_name included,
                sp_source_select_exprs = map (\<lambda>c. map_of (cfg_column_transforms cfg) (ct_name c)) included,
                sp_dest_columns = dest_columns\<rparr>))))"

definition plan_with :: "column_type list \<Rightarrow> transfer_config \<Rightarrow> dest_kind \<Rightarrow> bool \<Rightarrow> select_plan res" where
  "plan_with source cfg dest may_coerce = plan_for_destination source cfg dest may_coerce NoTable"

definition plan :: "column_type list \<Rightarrow> transfer_config \<Rightarrow> dest_kind \<Rightarrow> select_plan res" where
  "plan source cfg dest = plan_with source cfg dest True"

section \<open>What a plan guarantees\<close>

lemma first_broken_Inr: "first_broken rules = Inr u \<longleftrightarrow> list_all (\<lambda>r. \<not> fst r) rules"
  by (cases u) (simp add: first_broken_ok)

lemma plan_for_destination_ok:
  assumes "plan_for_destination source cfg dest mc existing = Inr p"
  defines "ex \<equiv> (if dest = DestCsv then NoTable else existing)"
  shows "sp_source_columns p = map ct_name (included_columns cfg source)"
    "sp_source_select_exprs p = map (\<lambda>c. map_of (cfg_column_transforms cfg) (ct_name c)) (included_columns cfg source)"
    "list_all2 (\<lambda>c d. plan_column cfg dest mc ex (existing_decimals source cfg dest ex) c = Inr d)
       (included_columns cfg source) (sp_dest_columns p)"
    "included_columns cfg source \<noteq> []"
    "ensure_key_columns cfg dest (sp_dest_columns p) = Inr ()"
  using assms(1)
  by (auto simp: plan_for_destination_def Let_def qh_res try_map_all2 ex_def plan_checks_def first_broken_Inr)

lemma plan_column_ok:
  "plan_column cfg dest mc ex decimals c = Inr d \<Longrightarrow>
     ct_name d = landed cfg (ct_name c) \<and> ct_type_id d = ct_type_id c
     \<and> ct_clickhouse_inner d = planned_inner cfg dest ex decimals c
     \<and> planned_arrow cfg dest (ct_clickhouse_inner d) c = Inr (ct_arrow d)
     \<and> ct_nullable d = planned_nullable cfg dest mc c (ct_arrow d)"
  by (auto simp: plan_column_def Let_def qh_res)

lemma ensure_key_columns_ok:
  "ensure_key_columns_of dest cols ks = Inr u \<longleftrightarrow>
     (\<forall>k \<in> set ks. \<exists>c \<in> set cols. same_name dest (ct_name c) k)"
  by (induction ks) (auto simp: list_ex_iff)

lemma plan_names:
  assumes "plan_for_destination source cfg dest mc existing = Inr p"
  shows "map ct_name (sp_dest_columns p) = map (landed cfg) (map ct_name (included_columns cfg source))"
  using plan_for_destination_ok(3)[OF assms] by (induction rule: list_all2_induct) (auto dest: plan_column_ok)

definition sample_source :: "column_type list" where
  "sample_source =
     [\<lparr>ct_name = ''id'', ct_type_id = 20, ct_nullable = True, ct_arrow = Int64,
       ct_clickhouse_inner = ''Int64'', ct_arbitrary_precision_decimal = False, ct_declared_decimal = None\<rparr>,
      \<lparr>ct_name = ''amount'', ct_type_id = 1700, ct_nullable = False, ct_arrow = Float64,
       ct_clickhouse_inner = ''Float64'', ct_arbitrary_precision_decimal = True, ct_declared_decimal = Some (15, 2)\<rparr>,
      \<lparr>ct_name = ''updated_at'', ct_type_id = 1114, ct_nullable = True, ct_arrow = ts_naive,
       ct_clickhouse_inner = ''DateTime64(6)'', ct_arbitrary_precision_decimal = False, ct_declared_decimal = None\<rparr>]"

lemma sample_plan_exists: "is_ok (plan_for_destination sample_source sample_config DestClickHouse True NoTable)"
  by code_simp

lemma sample_included: "map ct_name (included_columns sample_config sample_source) = [''id'', ''amount'', ''updated_at'']"
  by code_simp

lemma sample_landed: "landed sample_config n = n"
  by (simp add: landed_def sample_config_def)

lemma sample_plan:
  obtains p where "plan_for_destination sample_source sample_config DestClickHouse True NoTable = Inr p"
    "map ct_name (sp_dest_columns p) = [''id'', ''amount'', ''updated_at'']"
proof (cases "plan_for_destination sample_source sample_config DestClickHouse True NoTable")
  case (Inl e)
  then show ?thesis using sample_plan_exists by simp
next
  case (Inr p)
  have "map (landed sample_config) ns = ns" for ns by (induction ns) (simp_all add: sample_landed)
  then show ?thesis using that[OF Inr] plan_names[OF Inr] by (simp only: sample_included)
qed

lemma zip_planned:
  assumes "plan_for_destination source cfg dest mc existing = Inr p"
    and "(s, d) \<in> set (zip (sp_source_columns p) (sp_dest_columns p))"
  obtains c ex decimals where "c \<in> set (included_columns cfg source)" "ct_name c = s"
    "plan_column cfg dest mc ex decimals c = Inr d"
proof -
  note ok = plan_for_destination_ok[OF assms(1)]
  obtain i where i: "i < length (included_columns cfg source)" "i < length (sp_dest_columns p)"
      "s = ct_name (included_columns cfg source ! i)" "d = sp_dest_columns p ! i"
    using assms(2) ok(1) by (auto simp: set_zip)
  then show ?thesis using that[OF nth_mem[OF i(1)]] list_all2_nthD[OF ok(3) i(1)] by auto
qed

text \<open>C13. In a plan for ClickHouse no column whose destination name is in the sorting key, the primary
  key or the parameters of the engine is nullable, which ClickHouse would refuse; this is for a column
  that is not given the watermark's name by a rename (a column landing under that name has to be the
  watermark column itself).\<close>

theorem clickhouse_key_columns_not_null:
  assumes "plan_for_destination source cfg DestClickHouse mc existing = Inr p"
    and "(s, d) \<in> set (zip (sp_source_columns p) (sp_dest_columns p))"
    and "ct_name d \<in> set (sorting_columns cfg) \<or> ct_name d \<in> set (engine_clause_columns cfg)"
    and "cfg_watermark cfg = Some (ct_name d) \<Longrightarrow> s = ct_name d"
  shows "\<not> ct_nullable d"
proof -
  obtain c ex decimals where c: "ct_name c = s" "plan_column cfg DestClickHouse mc ex decimals c = Inr d"
    using zip_planned[OF assms(1,2)] by metis
  note d = plan_column_ok[OF c(2)]
  have "force_non_nullable cfg DestClickHouse c"
    using assms(3)
  proof
    assume "ct_name d \<in> set (sorting_columns cfg)"
    from order_columns_named[OF this] show ?thesis
      using d by (auto simp: force_non_nullable_def forced_columns_def)
  next
    assume "ct_name d \<in> set (engine_clause_columns cfg)"
    then consider (version) w where "cfg_watermark cfg = Some w" "ct_name d = w"
          "effective_engine cfg = ''ReplacingMergeTree''"
      | (parameter) "ct_name d \<in> set (engine_parameter_columns (effective_engine cfg))"
      unfolding engine_clause_columns_def
      by (cases "cfg_watermark cfg"; cases "cfg_mode cfg") (auto split: if_splits)
    then show ?thesis
    proof cases
      case version
      then show ?thesis using assms(4) c(1) by (simp add: force_non_nullable_def Let_def)
    next
      case parameter
      then show ?thesis using d by (simp add: force_non_nullable_def Let_def)
    qed
  qed
  then show ?thesis using d by (simp add: planned_nullable_def)
qed

theorem clickhouse_key_columns_not_null_witness:
  "\<exists>p d. plan_for_destination sample_source sample_config DestClickHouse True NoTable = Inr p
     \<and> hd (sp_dest_columns p) = d \<and> ct_name d = ''id'' \<and> \<not> ct_nullable d"
proof (rule sample_plan)
  fix p
  assume p: "plan_for_destination sample_source sample_config DestClickHouse True NoTable = Inr p"
    "map ct_name (sp_dest_columns p) = [''id'', ''amount'', ''updated_at'']"
  obtain d ds where d: "sp_dest_columns p = d # ds" "ct_name d = ''id''"
    using p(2) by (cases "sp_dest_columns p") auto
  have s: "sp_source_columns p = [''id'', ''amount'', ''updated_at'']"
    using plan_for_destination_ok(1)[OF p(1)] by (simp only: sample_included)
  have z: "(''id'', d) \<in> set (zip (sp_source_columns p) (sp_dest_columns p))" unfolding s d(1) by simp
  have k: "ct_name d \<in> set (sorting_columns sample_config)"
    unfolding d(2) by code_simp
  have "\<not> ct_nullable d"
    by (rule clickhouse_key_columns_not_null[OF p(1) z]) (use k d(2) in auto)
  then show ?thesis using p(1) d by auto
qed

section \<open>Planning again against the table just created\<close>

lemma contains_text_append: "contains_text p s \<Longrightarrow> contains_text p (a @ s)"
  by (induction a) auto

lemma contains_text_prefix: "contains_text p (p @ s)"
proof (cases "p @ s")
  case (Cons c cs)
  have "take (length p) (p @ s) = p" by simp
  then show ?thesis by (simp add: Cons starts_with_def)
qed simp

lemma is_decimal_type_Decimal: "is_decimal_type (a @ ''Decimal('' @ b)"
proof -
  have u: "uppercase ''Decimal('' = ''DECIMAL'' @ ''(''" by code_simp
  have "uppercase (a @ ''Decimal('' @ b) = uppercase a @ ''DECIMAL'' @ ''('' @ uppercase b"
    by (simp only: map_append u append.assoc)
  then show ?thesis
    by (simp only: is_decimal_type_def Let_def contains_text_append contains_text_prefix simp_thms)
qed


lemma clickhouse_type_Decimal:
  assumes "ct_clickhouse_inner c = ''Decimal('' @ b"
  shows "is_decimal_type (clickhouse_type c)"
proof -
  have "strip_low_cardinality (''Decimal('' @ b) = None"
    by (simp add: strip_low_cardinality_def strip_prefix_def)
  then have w: "wrap_clickhouse_nullable (''Decimal('' @ b) = ''Nullable('' @ (''Decimal('' @ b @ '')'')"
    by (simp only: wrap_clickhouse_nullable_def option.case append.assoc)
  show ?thesis
    unfolding clickhouse_type_def assms w
    using is_decimal_type_Decimal[of "[]" b] is_decimal_type_Decimal[of "''Nullable(''" "b @ '')''"]
    by (simp only: append_Nil split: if_split) simp
qed

abbreviation decimal_name :: "int \<Rightarrow> int \<Rightarrow> string" where
  "decimal_name p s \<equiv> ''Decimal('' @ show_int p @ '', '' @ show_int s @ '')''"

lemma spelling_Decimal: "clickhouse_datetime_spelling (decimal_name p s) = decimal_name p s"
proof -
  have t: "trim (decimal_name p s) = decimal_name p s"
    by (rule trim_ends) (simp_all add: is_ws_def code_def)
  have n: "\<not> eq_ignore_case (decimal_name p s) ''DATETIME''" "\<not> eq_ignore_case (decimal_name p s) ''TIMESTAMP''"
    by (simp_all add: eq_ignore_case_def to_lower_def is_upper_def code_def)
  show ?thesis by (simp only: clickhouse_datetime_spelling_def Let_def t n simp_thms if_False)
qed

definition created_types :: "select_plan \<Rightarrow> (string \<times> string) list" where
  "created_types p = map (\<lambda>c. (ct_name c, clickhouse_type c)) (sp_dest_columns p)"

lemma created_type_of:
  assumes "list_all2 (\<lambda>c d. plan_column cfg DestClickHouse mc NoTable decimals c = Inr d) cs (sp_dest_columns p)"
    and "distinct (map ct_name (sp_dest_columns p))" and "c \<in> set cs"
  shows "\<exists>d. plan_column cfg DestClickHouse mc NoTable decimals c = Inr d
    \<and> map_of (created_types p) (landed cfg (ct_name c)) = Some (clickhouse_type d)"
proof -
  obtain i where i: "i < length cs" "c = cs ! i" using assms(3) by (auto simp: in_set_conv_nth)
  define d where "d = sp_dest_columns p ! i"
  have d: "d \<in> set (sp_dest_columns p)" "plan_column cfg DestClickHouse mc NoTable decimals c = Inr d"
    using i list_all2_nthD[OF assms(1) i(1)] list_all2_lengthD[OF assms(1)] by (simp_all add: d_def)
  have "distinct (map fst (created_types p))"
    using assms(2) by (simp add: created_types_def comp_def)
  moreover have "(ct_name d, clickhouse_type d) \<in> set (created_types p)"
    using d(1) by (auto simp: created_types_def)
  ultimately have "map_of (created_types p) (ct_name d) = Some (clickhouse_type d)"
    by (rule map_of_is_SomeI)
  then show ?thesis using d(2) plan_column_ok[OF d(2)] by auto
qed

lemma planned_inner_stable:
  assumes "plan_column cfg DestClickHouse mc NoTable dec0 c = Inr d"
    and "type_of_column existing (landed cfg (ct_name c)) = Some (clickhouse_type d)" and "existing \<noteq> Unknown"
  shows "planned_inner cfg DestClickHouse existing dec1 c = planned_inner cfg DestClickHouse NoTable dec0 c"
proof -
  let ?n = "landed cfg (ct_name c)"
  let ?pre = "or_else (map_of (cfg_type_overrides cfg) (ct_name c)) (or_else (map_of (cfg_type_overrides cfg) ?n)
     (if ct_arbitrary_precision_decimal c then cfg_numeric_as_decimal cfg else None))"
  have split: "planned_inner cfg DestClickHouse ex dec c = clickhouse_datetime_spelling
     (case or_else ?pre (declared_decimal_default c ?n DestClickHouse ex dec) of
        Some t \<Rightarrow> t | None \<Rightarrow> ct_clickhouse_inner c)" for ex dec
    by (cases "map_of (cfg_type_overrides cfg) (ct_name c)"; cases "map_of (cfg_type_overrides cfg) ?n";
        cases "cfg_numeric_as_decimal cfg") (simp_all add: planned_inner_def Let_def)
  show ?thesis
  proof (cases ?pre)
    case (Some t)
    then show ?thesis unfolding split by simp
  next
    case None
    have "declared_decimal_default c ?n DestClickHouse existing dec1
        = declared_decimal_default c ?n DestClickHouse NoTable dec0"
    proof (cases "ct_declared_decimal c")
      case (Some ps)
      obtain a b where ps: "ps = (a, b)" by (cases ps)
      have "declared_decimal_default c ?n DestClickHouse NoTable dec0 = Some (decimal_name a b)"
        using Some ps by (simp add: declared_decimal_default_def decimal_fits_def)
      then have "planned_inner cfg DestClickHouse NoTable dec0 c = decimal_name a b"
        unfolding split None or_else.simps by (simp only: option.case spelling_Decimal)
      then have "ct_clickhouse_inner d = decimal_name a b" using plan_column_ok[OF assms(1)] by metis
      then have "is_decimal_type (clickhouse_type d)" by (rule clickhouse_type_Decimal)
      then show ?thesis using assms(2,3) Some ps
        by (cases existing) (simp_all add: declared_decimal_default_def decimal_fits_def)
    qed (simp add: declared_decimal_default_def)
    then show ?thesis unfolding split by simp
  qed
qed

lemma try_map_cong:
  "(\<And>x. x \<in> set xs \<Longrightarrow> f x = g x) \<Longrightarrow> try_map f xs = try_map g xs"
  by (induction xs) auto

text \<open>C14. Planning a transfer again against the ClickHouse table its first plan created gives the
  same plan: no default changes the type of a column that already exists.\<close>

theorem plan_stable_on_created_table:
  assumes "plan_for_destination source cfg DestClickHouse mc NoTable = Inr p"
    and "distinct (map ct_name (sp_dest_columns p))"
  shows "plan_for_destination source cfg DestClickHouse mc (Known (created_types p)) = Inr p"
proof -
  let ?ex = "Known (created_types p)" and ?inc = "included_columns cfg source"
  let ?dec0 = "existing_decimals source cfg DestClickHouse NoTable"
  let ?dec1 = "existing_decimals source cfg DestClickHouse ?ex"
  note ok = plan_for_destination_ok[OF assms(1)]
  have all2: "list_all2 (\<lambda>c d. plan_column cfg DestClickHouse mc NoTable ?dec0 c = Inr d) ?inc (sp_dest_columns p)"
    using ok(3) by simp
  have "plan_column cfg DestClickHouse mc ?ex ?dec1 c = plan_column cfg DestClickHouse mc NoTable ?dec0 c"
    if mem: "c \<in> set ?inc" for c
  proof -
    obtain d where d: "plan_column cfg DestClickHouse mc NoTable ?dec0 c = Inr d"
        "map_of (created_types p) (landed cfg (ct_name c)) = Some (clickhouse_type d)"
      using created_type_of[OF all2 assms(2) mem] by blast
    then have "type_of_column ?ex (landed cfg (ct_name c)) = Some (clickhouse_type d)" by simp
    from planned_inner_stable[OF d(1) this] show ?thesis by (simp add: plan_column_def)
  qed
  then have "try_map (plan_column cfg DestClickHouse mc ?ex ?dec1) ?inc
      = try_map (plan_column cfg DestClickHouse mc NoTable ?dec0) ?inc"
    by (rule try_map_cong)
  then show ?thesis using assms(1) by (simp add: plan_for_destination_def Let_def)
qed


theorem plan_stable_on_created_table_witness:
  "\<exists>p. plan_for_destination sample_source sample_config DestClickHouse True (Known (created_types p)) = Inr p"
proof (rule sample_plan)
  fix p
  assume p: "plan_for_destination sample_source sample_config DestClickHouse True NoTable = Inr p"
    "map ct_name (sp_dest_columns p) = [''id'', ''amount'', ''updated_at'']"
  have "distinct (map ct_name (sp_dest_columns p))" unfolding p(2) by simp
  from plan_stable_on_created_table[OF p(1) this] show ?thesis by blast
qed

end
