(* ===== verification/QH_Null_Guard.thy ===== *)
theory QH_Null_Guard
  imports QH_Transform QH_Copy_Values
begin

text \<open>
  \<open>null_guard.rs\<close>: what happens to a NULL in a column the destination can't hold NULL in.  A
  record batch is its fields and its rows; Arrow's kernels \<open>filter_record_batch\<close> and
  \<open>zip\<close> act on the rows.  The warning texts are their first sentences.
\<close>

section \<open>Batches\<close>

record batch_field =
  bf_name :: string
  bf_type :: data_type
  bf_nullable :: bool

record batch =
  bt_fields :: "batch_field list"
  bt_rows :: "cell list list"

text \<open>\<open>RecordBatch::try_new\<close> refuses a NULL in a field declared non-nullable.\<close>

definition batch_try_new :: "batch_field list \<Rightarrow> cell list list \<Rightarrow> batch res" where
  "batch_try_new fs rows =
     (if list_all (\<lambda>r. list_all (\<lambda>(f, v). bf_nullable f \<or> v \<noteq> CNull) (zip fs r)) rows
      then Inr \<lparr>bt_fields = fs, bt_rows = rows\<rparr>
      else Inl (Arrow ''column is declared as non-nullable but contains null values''))"

fun find_index :: "('a \<Rightarrow> bool) \<Rightarrow> 'a list \<Rightarrow> nat option" where
  "find_index P [] = None"
| "find_index P (x # xs) = (if P x then Some 0 else map_option Suc (find_index P xs))"

section \<open>The guard\<close>

record guarded =
  gd_idx :: nat
  gd_dest :: string
  gd_column :: string
  gd_kind :: warning_kind

datatype not_null_by = ByOrderBy | ByPrimaryKey | ByNotNull | ByEngine

fun why :: "not_null_by \<Rightarrow> string" where
  "why ByOrderBy = ''order_by names it, and a sorting key column can't be NULL''"
| "why ByPrimaryKey = ''primary_key names it, and a primary key column can't be NULL''"
| "why ByNotNull = ''not_null names it''"
| "why ByEngine = ''the table engine names it, and an engine's sign or version column can't be NULL''"

record defaulted =
  df_idx :: nat
  df_column :: string
  df_by :: not_null_by
  df_text :: "string option"
  df_shown :: string

record null_guard =
  ng_columns :: "guarded list"
  ng_defaulted :: "defaulted list"

record filtered =
  fl_batch :: batch
  fl_left_out :: "nat list"
  fl_defaulted :: "nat list"

datatype null_fate = LeftOut warning_kind | DefaultWritten not_null_by string

section \<open>Defaults\<close>

definition shown_zero :: "data_type \<Rightarrow> string" where
  "shown_zero dt =
     (case dt of
        Utf8 \<Rightarrow> [APOS, APOS]
      | Binary \<Rightarrow> ''empty bytes''
      | Boolean \<Rightarrow> ''false''
      | Date32 \<Rightarrow> ''1970-01-01''
      | Timestamp _ (Some _) \<Rightarrow> ''1970-01-01 00:00:00 UTC''
      | Timestamp _ None \<Rightarrow> ''1970-01-01 00:00:00''
      | OtherType t \<Rightarrow>
          if t = ''LargeUtf8'' then [APOS, APOS]
          else if t = ''LargeBinary'' then ''empty bytes''
          else if t = ''Date64'' then ''1970-01-01''
          else if strip_wrapper t ''FixedSizeBinary'' \<noteq> None then ''zero bytes''
          else ''0''
      | _ \<Rightarrow> ''0'')"

definition zero_scalar :: "data_type \<Rightarrow> string option \<Rightarrow> cell option" where
  "zero_scalar dt text =
     (let txt = (case text of Some t \<Rightarrow> t | None \<Rightarrow> []) in
      case dt of
        Utf8 \<Rightarrow> Some (CStr txt)
      | Binary \<Rightarrow> Some (CBin [])
      | Boolean \<Rightarrow> Some (CBool False)
      | Int8 \<Rightarrow> Some (CInt 0) | Int16 \<Rightarrow> Some (CInt 0) | Int32 \<Rightarrow> Some (CInt 0) | Int64 \<Rightarrow> Some (CInt 0)
      | UInt8 \<Rightarrow> Some (CInt 0) | UInt16 \<Rightarrow> Some (CInt 0) | UInt32 \<Rightarrow> Some (CInt 0) | UInt64 \<Rightarrow> Some (CInt 0)
      | Float32 \<Rightarrow> Some (CFloat 0) | Float64 \<Rightarrow> Some (CFloat 0)
      | Date32 \<Rightarrow> Some (CDate 0)
      | Timestamp _ _ \<Rightarrow> Some (CTs 0)
      | Decimal128 p s \<Rightarrow> if decimal128_params_ok p s then Some (CDec 0) else None
      | Decimal256 p s \<Rightarrow>
          if 1 \<le> p \<and> p \<le> 76 \<and> s \<le> 76 \<and> (0 < s \<longrightarrow> s \<le> p) then Some (CDec 0) else None
      | OtherType t \<Rightarrow>
          if t = ''LargeUtf8'' then Some (CStr txt)
          else if t = ''LargeBinary'' then Some (CBin [])
          else if t = ''Date64'' then Some (CDate 0)
          else (case strip_wrapper t ''FixedSizeBinary'' of
                  Some n \<Rightarrow> map_option (\<lambda>n. CBin (replicate n (char_of (0::nat)))) (parse_usize n)
                | None \<Rightarrow> None)
      | _ \<Rightarrow> None)"

text \<open>The default of an \<open>Enum\<close>: its element of the lowest value.  The scanner reads one
  element at a time; its fuel is the length of the text.\<close>

fun enum_name :: "string \<Rightarrow> string \<Rightarrow> (string \<times> string) option" where
  "enum_name acc [] = None"
| "enum_name acc (c # cs) =
     (if c = BSL then (case cs of [] \<Rightarrow> None | d # ds \<Rightarrow> enum_name (d # acc) ds)
      else if c = APOS then
        (case cs of d # ds \<Rightarrow> if d = APOS then enum_name (APOS # acc) ds else Some (rev acc, cs)
                  | [] \<Rightarrow> Some (rev acc, []))
      else enum_name (c # acc) cs)"

definition enum_number_char :: "char \<Rightarrow> bool" where
  "enum_number_char c \<longleftrightarrow> is_ws c \<or> c = CHR ''-'' \<or> is_digit c"

fun enum_elements :: "nat \<Rightarrow> int \<Rightarrow> (int \<times> string) option \<Rightarrow> string \<Rightarrow> string option" where
  "enum_elements 0 nxt lowest s = None"
| "enum_elements (Suc fuel) nxt lowest s =
     (case dropWhile (\<lambda>c. is_ws c \<or> c = CHR '','') s of
        [] \<Rightarrow> None
      | q # s1 \<Rightarrow>
        if q \<noteq> APOS then None
        else (case enum_name [] s1 of None \<Rightarrow> None | Some (name, s2) \<Rightarrow>
          let s3 = dropWhile is_ws s2 in
          (case (case s3 of
                   c # s4 \<Rightarrow>
                     if c = CHR ''='' then
                       map_option (\<lambda>v. (v, dropWhile enum_number_char s4))
                         (parse_signed 64 (filter (\<lambda>c. \<not> is_ws c) (takeWhile enum_number_char s4)))
                     else Some (nxt, s3)
                 | [] \<Rightarrow> Some (nxt, s3)) of
             None \<Rightarrow> None
           | Some (v, s5) \<Rightarrow>
               let lowest' = (case lowest of
                     Some (w, n) \<Rightarrow> if v < w then Some (v, name) else lowest
                   | None \<Rightarrow> Some (v, name))
               in case dropWhile is_ws s5 of
                    [] \<Rightarrow> map_option snd lowest'
                  | c # s6 \<Rightarrow> if c = CHR '','' then enum_elements fuel (v + 1) lowest' s6 else None)))"

definition enum_default :: "string \<Rightarrow> string option" where
  "enum_default ty =
     (case split_once CHR ''('' ty of None \<Rightarrow> None | Some (_, rest) \<Rightarrow>
      (case strip_suffix '')'' (trim_end rest) of None \<Rightarrow> None | Some body \<Rightarrow>
        enum_elements (Suc (length body)) 1 None body))"

definition unwrap_trim :: "string \<Rightarrow> string \<Rightarrow> string" where
  "unwrap_trim ty wrapper = (case strip_wrapper ty wrapper of Some t \<Rightarrow> trim t | None \<Rightarrow> ty)"

definition digits_suffix :: "string \<Rightarrow> string \<Rightarrow> bool" where
  "digits_suffix p n = (case strip_prefix p n of Some r \<Rightarrow> r \<noteq> [] \<and> all_digits r | None \<Rightarrow> False)"

definition clickhouse_text_default :: "string \<Rightarrow> string option" where
  "clickhouse_text_default ty0 =
     (let ty = unwrap_trim (unwrap_trim (trim ty0) ''LowCardinality'') ''Nullable'';
          name = trim (hd (split_all CHR ''('' ty))
      in if name = ''UUID'' then Some ''00000000-0000-0000-0000-000000000000''
         else if name = ''IPv4'' then Some ''0.0.0.0''
         else if name = ''IPv6'' then Some ''::''
         else if name = ''Bool'' then Some ''false''
         else if name \<in> {''Enum'', ''Enum8'', ''Enum16''} then enum_default ty
         else if name \<in> {''Float32'', ''Float64'', ''BFloat16''} then Some ''0''
         else if starts_with ''Decimal'' name then Some ''0''
         else if (if starts_with ''UInt'' name then digits_suffix ''UInt'' name else digits_suffix ''Int'' name)
           then Some ''0''
         else None)"

section \<open>Building the guard\<close>

definition guard_watermark :: "select_plan \<Rightarrow> transfer_config \<Rightarrow> guarded list" where
  "guard_watermark p cfg =
     (case cfg_watermark cfg of None \<Rightarrow> [] | Some w \<Rightarrow>
      (case find_index (\<lambda>c. c = w) (sp_source_columns p) of None \<Rightarrow> [] | Some i \<Rightarrow>
        if length (sp_dest_columns p) \<le> i then []
        else let d = sp_dest_columns p ! i in
          if ct_nullable d then []
          else [\<lparr>gd_idx = i, gd_dest = ct_name d, gd_column = w, gd_kind = NullWatermark\<rparr>]))"

definition key_index :: "select_plan \<Rightarrow> string \<Rightarrow> nat option" where
  "key_index p k =
     or_else (find_index (\<lambda>d. ct_name d = k) (sp_dest_columns p))
             (find_index (\<lambda>d. eq_ignore_case (ct_name d) k) (sp_dest_columns p))"

fun guard_keys :: "select_plan \<Rightarrow> guarded list \<Rightarrow> string list \<Rightarrow> guarded list" where
  "guard_keys p columns [] = columns"
| "guard_keys p columns (k # ks) =
     (case key_index p k of
        None \<Rightarrow> guard_keys p columns ks
      | Some i \<Rightarrow>
          if i \<in> gd_idx ` set columns then guard_keys p columns ks
          else guard_keys p (columns @ [\<lparr>gd_idx = i, gd_dest = ct_name (sp_dest_columns p ! i),
                                         gd_column = k, gd_kind = NullKey\<rparr>]) ks)"

definition not_null_reason :: "transfer_config \<Rightarrow> string list \<Rightarrow> string \<Rightarrow> not_null_by option" where
  "not_null_reason cfg engine_cols name =
     (if name \<in> set (cfg_order_by cfg) then Some ByOrderBy
      else if name \<in> set (cfg_primary_key cfg) then Some ByPrimaryKey
      else if name \<in> set (cfg_not_null cfg) then Some ByNotNull
      else if name \<in> set engine_cols then Some ByEngine
      else None)"

definition default_text :: "dest_kind \<Rightarrow> column_type \<Rightarrow> string option" where
  "default_text dest d =
     (if dest = DestClickHouse \<and> (ct_arrow d = Utf8 \<or> ct_arrow d = OtherType ''LargeUtf8'')
      then clickhouse_text_default (ct_clickhouse_inner d) else None)"

definition guard_default :: "transfer_config \<Rightarrow> dest_kind \<Rightarrow> guarded list \<Rightarrow> nat \<times> column_type \<Rightarrow> defaulted list" where
  "guard_default cfg dest columns entry =
     (let (i, d) = entry;
          engine_cols = (if dest = DestClickHouse then engine_parameter_columns (effective_engine cfg) else []) in
      if ct_nullable d \<or> i \<in> gd_idx ` set columns then []
      else (case not_null_reason cfg engine_cols (ct_name d) of
              None \<Rightarrow> []
            | Some by' \<Rightarrow>
                let t = default_text dest d in
                [\<lparr>df_idx = i, df_column = ct_name d, df_by = by', df_text = t,
                  df_shown = (case t of Some t \<Rightarrow> quoted t | None \<Rightarrow> shown_zero (ct_arrow d))\<rparr>]))"

definition null_guard_new :: "select_plan \<Rightarrow> transfer_config \<Rightarrow> dest_kind \<Rightarrow> null_guard option" where
  "null_guard_new p cfg dest =
     (if dest = DestCsv then None
      else
        let columns = guard_keys p (guard_watermark p cfg) (cfg_key cfg);
            dfs = concat (map (guard_default cfg dest columns) (enumerate 0 (sp_dest_columns p)))
        in if columns \<noteq> [] \<or> dfs \<noteq> [] then Some \<lparr>ng_columns = columns, ng_defaulted = dfs\<rparr> else None)"

section \<open>Using the guard\<close>

definition checked_columns :: "null_guard \<Rightarrow> nat list" where
  "checked_columns g = map gd_idx (ng_columns g) @ map df_idx (ng_defaulted g)"

definition decode_columns :: "null_guard \<Rightarrow> column_type list \<Rightarrow> column_type list" where
  "decode_columns g cols =
     map (\<lambda>(i, c). if i \<in> set (checked_columns g) then c\<lparr>ct_nullable := True\<rparr> else c) (enumerate 0 cols)"

definition strict_schema :: "null_guard \<Rightarrow> batch_field list \<Rightarrow> batch_field list" where
  "strict_schema g fs =
     map (\<lambda>(i, f). f\<lparr>bf_nullable := bf_nullable f \<and> i \<notin> set (checked_columns g)\<rparr>) (enumerate 0 fs)"

definition column_at :: "batch \<Rightarrow> nat \<Rightarrow> string \<Rightarrow> unit res" where
  "column_at b i name =
     (if i < length (bt_fields b) \<and> bf_name (bt_fields b ! i) = name then Inr ()
      else Inl (Internal (''the batch has no column '' @ quoted name @ '' at position '' @ show_nat i
             @ '' to check for NULLs'')))"

definition null_position :: "guarded list \<Rightarrow> cell list \<Rightarrow> nat option" where
  "null_position columns r = find_index (\<lambda>g. r ! gd_idx g = CNull) columns"

definition keep_rows :: "guarded list \<Rightarrow> cell list list \<Rightarrow> cell list list" where
  "keep_rows columns rows = filter (\<lambda>r. null_position columns r = None) rows"

definition left_out_counts :: "guarded list \<Rightarrow> cell list list \<Rightarrow> nat list" where
  "left_out_counts columns rows =
     map (\<lambda>j. length (filter (\<lambda>r. null_position columns r = Some j) rows)) [0..<length columns]"

definition null_count :: "nat \<Rightarrow> cell list list \<Rightarrow> nat" where
  "null_count i rows = length (filter (\<lambda>r. r ! i = CNull) rows)"

definition fill_nulls :: "batch_field \<Rightarrow> defaulted \<Rightarrow> cell list list \<Rightarrow> cell list list res" where
  "fill_nulls f d rows =
     (case zero_scalar (bf_type f) (df_text d) of
        None \<Rightarrow> Inl (Other (''column '' @ quoted (df_column d)
                 @ '' can't be NULL at the destination, and quickhouse has no default to store for a NULL there''))
      | Some v \<Rightarrow> Inr (map (\<lambda>r. if r ! df_idx d = CNull then r[df_idx d := v] else r) rows))"

fun fill_columns :: "batch_field list \<Rightarrow> defaulted list \<Rightarrow> cell list list \<Rightarrow> (nat list \<times> cell list list) res" where
  "fill_columns fs [] rows = Inr ([], rows)"
| "fill_columns fs (d # ds) rows =
     and_then (column_at \<lparr>bt_fields = fs, bt_rows = rows\<rparr> (df_idx d) (df_column d)) (\<lambda>_.
       if null_count (df_idx d) rows = 0
       then and_then (fill_columns fs ds rows) (\<lambda>(ns, rows'). Inr (0 # ns, rows'))
       else and_then (fill_nulls (fs ! df_idx d) d rows) (\<lambda>filled.
              and_then (fill_columns fs ds filled) (\<lambda>(ns, rows').
                Inr (null_count (df_idx d) rows # ns, rows'))))"

definition guard_filter :: "null_guard \<Rightarrow> batch \<Rightarrow> filtered res" where
  "guard_filter g b =
     and_then (try_map (\<lambda>c. column_at b (gd_idx c) (gd_dest c)) (ng_columns g)) (\<lambda>_.
       and_then (fill_columns (bt_fields b) (ng_defaulted g) (keep_rows (ng_columns g) (bt_rows b))) (\<lambda>(ns, rows).
         and_then (batch_try_new (strict_schema g (bt_fields b)) rows) (\<lambda>b'.
           Inr \<lparr>fl_batch = b', fl_left_out = left_out_counts (ng_columns g) (bt_rows b), fl_defaulted = ns\<rparr>)))"

definition tallies :: "null_guard \<Rightarrow> filtered \<Rightarrow> (warning_kind \<times> string \<times> nat) list" where
  "tallies g f =
     filter (\<lambda>(_, _, n). 0 < n)
       (map (\<lambda>(c, n). (gd_kind c, gd_column c, n)) (zip (ng_columns g) (fl_left_out f))
        @ map (\<lambda>(d, n). (NullDefaulted, df_column d, n)) (zip (ng_defaulted g) (fl_defaulted f)))"

definition fates :: "null_guard \<Rightarrow> string \<rightharpoonup> null_fate" where
  "fates g = map_of (rev (map (\<lambda>c. (gd_dest c, LeftOut (gd_kind c))) (ng_columns g)
     @ map (\<lambda>d. (df_column d, DefaultWritten (df_by d) (df_shown d))) (ng_defaulted g)))"

definition left_out_message :: "warning_kind \<Rightarrow> string \<Rightarrow> nat \<Rightarrow> string" where
  "left_out_message kind column n =
     (if kind = NullKey
      then ''key column '' @ quoted column @ '' was NULL in '' @ show_nat n @ '' row(s) read, which were left out''
      else ''watermark column '' @ quoted column @ '' was NULL in '' @ show_nat n @ '' row(s) read, which were left out'')"

definition defaulted_message :: "string \<Rightarrow> nat \<Rightarrow> null_fate option \<Rightarrow> string" where
  "defaulted_message column n fate =
     (let (reason, shown) = (case fate of
            Some (DefaultWritten by' s) \<Rightarrow> (why by', s)
          | _ \<Rightarrow> (''the plan makes it NOT NULL'', ''its type's default''))
      in ''column '' @ quoted column @ '' was NULL in '' @ show_nat n @ '' row(s) read, which were written with ''
         @ shown @ '', the column type's default, in its place: the destination's '' @ quoted column
         @ '' can't be NULL, as '' @ reason)"

section \<open>Filtering conserves the rows\<close>

lemma find_index_None: "find_index P xs = None \<longleftrightarrow> (\<forall>x \<in> set xs. \<not> P x)"
  by (induction xs) auto

lemma find_index_Some: "find_index P xs = Some i \<Longrightarrow> i < length xs \<and> P (xs ! i)"
  by (induction xs arbitrary: i) (auto split: if_splits)

lemma counts_partition:
  "(\<And>r. r \<in> set rows \<Longrightarrow> \<forall>j. f r = Some j \<longrightarrow> j < n) \<Longrightarrow>
    length (filter (\<lambda>r. f r = None) rows)
      + sum_list (map (\<lambda>j. length (filter (\<lambda>r. f r = Some j) rows)) [0..<n]) = length rows"
proof (induction rows)
  case (Cons r rows)
  have one: "sum_list (map (\<lambda>j. length (filter (\<lambda>r. f r = Some j) (r # rows))) [0..<n])
    = (if f r = None then 0 else 1) + sum_list (map (\<lambda>j. length (filter (\<lambda>r. f r = Some j) rows)) [0..<n])"
  proof -
    have "sum_list (map (\<lambda>j. length (filter (\<lambda>r. f r = Some j) (r # rows))) [0..<n])
      = (\<Sum>j = 0..<n. (if f r = Some j then 1 else 0) + length (filter (\<lambda>r. f r = Some j) rows))"
      by (simp add: interv_sum_list_conv_sum_set_nat) (rule sum.cong, auto)
    also have "\<dots> = (\<Sum>j = 0..<n. if f r = Some j then 1 else 0)
        + (\<Sum>j = 0..<n. length (filter (\<lambda>r. f r = Some j) rows))"
      by (rule sum.distrib)
    also have "(\<Sum>j = 0..<n. if f r = Some j then 1 else 0) = (if f r = None then 0 else 1 :: nat)"
      using Cons.prems by (cases "f r") auto
    finally show ?thesis by (simp add: interv_sum_list_conv_sum_set_nat)
  qed
  have "length (filter (\<lambda>r. f r = None) rows)
      + sum_list (map (\<lambda>j. length (filter (\<lambda>r. f r = Some j) rows)) [0..<n]) = length rows"
    using Cons.prems by (intro Cons.IH) (metis list.set_intros(2))
  then show ?case unfolding one by (cases "f r = None") simp_all
qed simp

lemma keep_and_left_out:
  "length (keep_rows columns rows) + sum_list (left_out_counts columns rows) = length rows"
  unfolding keep_rows_def left_out_counts_def
  by (rule counts_partition) (auto simp: null_position_def dest: find_index_Some)

lemma keep_rows_not_null:
  "r \<in> set (keep_rows columns rows) \<Longrightarrow> g \<in> set columns \<Longrightarrow> r ! gd_idx g \<noteq> CNull"
  by (auto simp: keep_rows_def null_position_def find_index_None)

lemma zero_scalar_not_null: "zero_scalar dt text = Some v \<Longrightarrow> v \<noteq> CNull"
  by (auto simp: zero_scalar_def Let_def split: data_type.splits if_splits option.splits)

text \<open>\<open>r'\<close> is \<open>r\<close> with a value in place of each NULL of a column of \<open>I\<close>.\<close>

definition filled_row :: "nat set \<Rightarrow> cell list \<Rightarrow> cell list \<Rightarrow> bool" where
  "filled_row I r r' \<longleftrightarrow> length r' = length r \<and>
     (\<forall>i < length r. (r ! i \<noteq> CNull \<or> i \<notin> I \<longrightarrow> r' ! i = r ! i) \<and> (i \<in> I \<longrightarrow> r' ! i \<noteq> CNull))"

lemma filled_row_trans:
  "filled_row I r r' \<Longrightarrow> filled_row J r' r'' \<Longrightarrow> filled_row (I \<union> J) r r''"
  unfolding filled_row_def by (metis Un_iff)

lemma filled_row_update: "r ! k = CNull \<Longrightarrow> v \<noteq> CNull \<Longrightarrow> filled_row {k} r (r[k := v])"
  unfolding filled_row_def by (metis length_list_update nth_list_update_eq nth_list_update_neq singleton_iff)

lemma filled_row_same: "r ! k \<noteq> CNull \<Longrightarrow> filled_row {k} r r"
  by (auto simp: filled_row_def)

lemma fill_nulls_rows:
  "fill_nulls f d rows = Inr rows' \<Longrightarrow> list_all2 (filled_row {df_idx d}) rows rows'"
  by (auto simp: fill_nulls_def list_all2_map2 list_all2_same filled_row_update filled_row_same
      dest!: zero_scalar_not_null split: option.splits)

lemma no_nulls_rows: "null_count i rows = 0 \<Longrightarrow> list_all2 (filled_row {i}) rows rows"
  by (auto simp: null_count_def filter_empty_conv filled_row_def list_all2_same)

lemma fill_columns_rows:
  "fill_columns fs ds rows = Inr (ns, rows') \<Longrightarrow>
     length ns = length ds \<and> list_all2 (filled_row (df_idx ` set ds)) rows rows'"
proof (induction ds arbitrary: rows ns)
  case Nil
  then show ?case by (simp add: filled_row_def list_all2_same)
next
  case (Cons d ds)
  obtain mid ns' where m: "list_all2 (filled_row {df_idx d}) rows mid" "fill_columns fs ds mid = Inr (ns', rows')"
      "length ns = Suc (length ns')"
    using Cons.prems by (auto simp: qh_res dest: fill_nulls_rows no_nulls_rows split: if_splits)
  have "list_all2 (filled_row (df_idx ` set ds)) mid rows'" "length ns' = length ds"
    using Cons.IH[OF m(2)] by auto
  moreover have "list_all2 (filled_row ({df_idx d} \<union> df_idx ` set ds)) rows rows'"
    using filled_row_trans by (rule list_all2_trans[OF _ m(1) calculation(1)])
  ultimately show ?case using m(3) by simp
qed

lemma strict_schema_nth:
  "i < length fs \<Longrightarrow> bf_nullable (strict_schema g fs ! i) \<longleftrightarrow> bf_nullable (fs ! i) \<and> i \<notin> set (checked_columns g)"
  by (simp add: strict_schema_def nth_enumerate_eq)

lemma length_strict_schema [simp]: "length (strict_schema g fs) = length fs"
  by (simp add: strict_schema_def)

definition batch_ok :: "batch \<Rightarrow> bool" where
  "batch_ok b \<longleftrightarrow> (\<forall>r \<in> set (bt_rows b). length r = length (bt_fields b))"

text \<open>C15. The guard loses no row silently: the rows it writes and those it counts as left out, each
  against one column, are the rows of the batch; it writes the kept rows in order, changed only where a
  NULL became a default, and none of them holds a NULL in a checked column.\<close>

theorem guard_filter_conserves:
  assumes "guard_filter g b = Inr f" and "batch_ok b"
  shows "length (bt_rows (fl_batch f)) + sum_list (fl_left_out f) = length (bt_rows b)
    \<and> list_all2 (filled_row (df_idx ` set (ng_defaulted g))) (keep_rows (ng_columns g) (bt_rows b)) (bt_rows (fl_batch f))
    \<and> (\<forall>r \<in> set (bt_rows (fl_batch f)). \<forall>i \<in> set (checked_columns g). i < length (bt_fields b) \<longrightarrow> r ! i \<noteq> CNull)
    \<and> bt_fields (fl_batch f) = strict_schema g (bt_fields b)
    \<and> length (fl_defaulted f) = length (ng_defaulted g)"
proof -
  obtain ns rows where r: "fill_columns (bt_fields b) (ng_defaulted g) (keep_rows (ng_columns g) (bt_rows b)) = Inr (ns, rows)"
      "bt_rows (fl_batch f) = rows" "bt_fields (fl_batch f) = strict_schema g (bt_fields b)"
      "fl_left_out f = left_out_counts (ng_columns g) (bt_rows b)" "fl_defaulted f = ns"
    using assms(1) by (auto simp: guard_filter_def qh_res batch_try_new_def split: if_splits)
  note fr = fill_columns_rows[OF r(1)]
  have nn: "r' ! i \<noteq> CNull" if r': "r' \<in> set rows" and i: "i \<in> set (checked_columns g)" "i < length (bt_fields b)" for r' i
  proof -
    obtain k where k: "k < length (keep_rows (ng_columns g) (bt_rows b))" "r' = rows ! k"
      using r' list_all2_lengthD[OF fr[THEN conjunct2]] by (auto simp: in_set_conv_nth)
    let ?r = "keep_rows (ng_columns g) (bt_rows b) ! k"
    have f: "filled_row (df_idx ` set (ng_defaulted g)) ?r r'"
      using list_all2_nthD[OF fr[THEN conjunct2] k(1)] k(2) by simp
    have m: "?r \<in> set (keep_rows (ng_columns g) (bt_rows b))" using k(1) by simp
    then have "length ?r = length (bt_fields b)" using assms(2) by (auto simp: batch_ok_def keep_rows_def)
    then show ?thesis using f i keep_rows_not_null[OF m] by (auto simp: filled_row_def checked_columns_def)
  qed
  have "length rows = length (keep_rows (ng_columns g) (bt_rows b))"
    using list_all2_lengthD[OF fr[THEN conjunct2]] by simp
  then show ?thesis using r fr nn keep_and_left_out[of "ng_columns g" "bt_rows b"] by auto
qed


definition sample_guard :: null_guard where
  "sample_guard = \<lparr>ng_columns = [\<lparr>gd_idx = 0, gd_dest = ''id'', gd_column = ''id'', gd_kind = NullKey\<rparr>],
     ng_defaulted = [\<lparr>df_idx = 1, df_column = ''sign'', df_by = ByOrderBy, df_text = None, df_shown = ''0''\<rparr>]\<rparr>"

definition sample_batch :: batch where
  "sample_batch = \<lparr>bt_fields = [\<lparr>bf_name = ''id'', bf_type = Int64, bf_nullable = True\<rparr>,
       \<lparr>bf_name = ''sign'', bf_type = Int8, bf_nullable = True\<rparr>],
     bt_rows = [[CInt 1, CInt 5], [CNull, CInt 6], [CInt 3, CNull]]\<rparr>"

theorem guard_filter_conserves_witness:
  "\<exists>f. guard_filter sample_guard sample_batch = Inr f \<and> length (bt_rows (fl_batch f)) + sum_list (fl_left_out f) = 3
     \<and> bt_rows (fl_batch f) = [[CInt 1, CInt 5], [CInt 3, CInt 0]]"
proof -
  have e: "map_sum id (\<lambda>f. bt_rows (fl_batch f)) (guard_filter sample_guard sample_batch)
      = Inr [[CInt 1, CInt 5], [CInt 3, CInt 0]]"
    by code_simp
  have ok: "batch_ok sample_batch" and l: "length (bt_rows sample_batch) = 3"
    by (simp_all add: batch_ok_def sample_batch_def)
  obtain f where f: "guard_filter sample_guard sample_batch = Inr f"
      "bt_rows (fl_batch f) = [[CInt 1, CInt 5], [CInt 3, CInt 0]]"
    using e by (cases "guard_filter sample_guard sample_batch") auto
  show ?thesis using f guard_filter_conserves[OF f(1) ok] l by auto
qed

section \<open>The guard covers what the plan made NOT NULL\<close>

lemma find_index_distinct:
  "distinct (map f xs) \<Longrightarrow> i < length xs \<Longrightarrow> find_index (\<lambda>x. f x = f (xs ! i)) xs = Some i"
proof (induction xs arbitrary: i)
  case (Cons x xs)
  show ?case
  proof (cases i)
    case (Suc j)
    then have "f x \<noteq> f (xs ! j)" using Cons.prems by (metis (no_types) Suc_less_eq distinct.simps(2) length_Cons list.simps(9) nth_map nth_mem length_map)
    then show ?thesis using Cons Suc by simp
  qed simp
qed simp

lemma guard_keys_keeps: "set columns \<subseteq> set (guard_keys p columns ks)"
  by (induction p columns ks rule: guard_keys.induct) (auto split: option.splits)

lemma guard_keys_adds:
  "k \<in> set ks \<Longrightarrow> key_index p k = Some i \<Longrightarrow> i \<in> gd_idx ` set (guard_keys p columns ks)"
proof (induction p columns ks rule: guard_keys.induct)
  case (2 p columns k' ks)
  have sub: "gd_idx ` set cols \<subseteq> gd_idx ` set (guard_keys p cols ks)" for cols
    using guard_keys_keeps by (rule image_mono)
  show ?case
  proof (cases "k = k'")
    case True
    then show ?thesis
      using "2.prems" subsetD[OF sub, of i columns] subsetD[OF sub, of i "columns @ [_]"] by auto
  next
    case False
    then show ?thesis using 2 by (auto split: option.splits)
  qed
qed simp

definition left_out_columns :: "select_plan \<Rightarrow> transfer_config \<Rightarrow> guarded list" where
  "left_out_columns p cfg = guard_keys p (guard_watermark p cfg) (cfg_key cfg)"

definition engine_columns :: "transfer_config \<Rightarrow> dest_kind \<Rightarrow> string list" where
  "engine_columns cfg dest =
     (if dest = DestClickHouse then engine_parameter_columns (effective_engine cfg) else [])"

lemma guarded_checked:
  assumes "dest \<noteq> DestCsv" and "i \<in> gd_idx ` set (left_out_columns p cfg)"
  shows "\<exists>g. null_guard_new p cfg dest = Some g \<and> i \<in> set (checked_columns g)"
  using assms by (auto simp: null_guard_new_def left_out_columns_def Let_def checked_columns_def)

lemma defaulted_checked:
  assumes "dest \<noteq> DestCsv" and "i < length (sp_dest_columns p)" and "\<not> ct_nullable (sp_dest_columns p ! i)"
    and "not_null_reason cfg (engine_columns cfg dest) (ct_name (sp_dest_columns p ! i)) \<noteq> None"
  shows "\<exists>g. null_guard_new p cfg dest = Some g \<and> i \<in> set (checked_columns g)"
proof (cases "i \<in> gd_idx ` set (left_out_columns p cfg)")
  case True
  then show ?thesis by (rule guarded_checked[OF assms(1)])
next
  case False
  let ?e = "(i, sp_dest_columns p ! i)"
  let ?dfs = "concat (map (guard_default cfg dest (left_out_columns p cfg)) (enumerate 0 (sp_dest_columns p)))"
  have "i \<in> df_idx ` set (guard_default cfg dest (left_out_columns p cfg) ?e)"
    using False assms(3,4) by (auto simp: guard_default_def engine_columns_def Let_def)
  moreover have "?e \<in> set (enumerate 0 (sp_dest_columns p))"
    using assms(2) by (simp add: in_set_enumerate_eq)
  ultimately have m: "i \<in> df_idx ` set ?dfs" by fastforce
  then have "?dfs \<noteq> []" by (metis empty_iff image_empty list.set(1))
  then have "null_guard_new p cfg dest = Some \<lparr>ng_columns = left_out_columns p cfg, ng_defaulted = ?dfs\<rparr>"
    unfolding null_guard_new_def Let_def left_out_columns_def[symmetric] if_not_P[OF assms(1)]
    by (simp only: simp_thms if_True not_False_eq_True)
  then show ?thesis using m by (auto simp: checked_columns_def)
qed

text \<open>C16. Every column a plan makes NOT NULL is either checked by the guard the run builds, or is one
  the source itself can never deliver a NULL in: no NULL reaches the destination unchecked.\<close>

theorem null_guard_covers_plan:
  assumes "plan_for_destination source cfg dest mc existing = Inr p" and "dest \<noteq> DestCsv"
    and "distinct (sp_source_columns p)" and "distinct (map ct_name (sp_dest_columns p))"
    and "i < length (sp_dest_columns p)" and "\<not> ct_nullable (sp_dest_columns p ! i)"
  shows "(\<exists>g. null_guard_new p cfg dest = Some g \<and> i \<in> set (checked_columns g))
    \<or> (\<not> ct_nullable (included_columns cfg source ! i)
        \<and> \<not> (mc \<and> may_coerce_to_null (ct_arrow (sp_dest_columns p ! i))))"
proof -
  let ?c = "included_columns cfg source ! i" and ?d = "sp_dest_columns p ! i"
  note ok = plan_for_destination_ok[OF assms(1)]
  have len: "length (included_columns cfg source) = length (sp_dest_columns p)"
    using ok(3) by (rule list_all2_lengthD)
  note d = plan_column_ok[OF list_all2_nthD2[OF ok(3) assms(5)]]
  have src: "sp_source_columns p ! i = ct_name ?c" using ok(1) len assms(5) by simp
  show ?thesis
  proof (cases "force_non_nullable cfg dest ?c")
    case False
    then show ?thesis using d assms(2,6) by (auto simp: planned_nullable_def)
  next
    case True
    then consider (key) "ct_name ?d \<in> set (cfg_key cfg)"
      | (version) "cfg_watermark cfg = Some (ct_name ?c)"
      | (reason) "not_null_reason cfg (engine_columns cfg dest) (ct_name ?d) \<noteq> None"
      using d by (auto simp: force_non_nullable_def forced_columns_def not_null_reason_def engine_columns_def Let_def
          split: if_splits)
    then show ?thesis
    proof cases
      case key
      have "find_index (\<lambda>x. ct_name x = ct_name ?d) (sp_dest_columns p) = Some i"
        using assms(4,5) by (rule find_index_distinct)
      then have "key_index p (ct_name ?d) = Some i" by (simp add: key_index_def)
      then show ?thesis using guard_keys_adds[OF key] guarded_checked[OF assms(2)]
        by (auto simp: left_out_columns_def)
    next
      case version
      have "find_index (\<lambda>x. x = ct_name ?c) (sp_source_columns p) = Some i"
        using find_index_distinct[of id "sp_source_columns p" i] assms(3,5) src ok(1) len by simp
      then have "i \<in> gd_idx ` set (guard_watermark p cfg)"
        using version assms(5,6) by (simp add: guard_watermark_def Let_def)
      then have "i \<in> gd_idx ` set (left_out_columns p cfg)"
        using guard_keys_keeps[of "guard_watermark p cfg" p "cfg_key cfg"] by (auto simp: left_out_columns_def)
      then show ?thesis using guarded_checked[OF assms(2)] by blast
    next
      case reason
      then show ?thesis using defaulted_checked[OF assms(2,5,6)] by blast
    qed
  qed
qed


theorem null_guard_covers_plan_witness:
  "\<exists>p g. plan_for_destination sample_source sample_config DestClickHouse True NoTable = Inr p
     \<and> null_guard_new p sample_config DestClickHouse = Some g \<and> 0 \<in> set (checked_columns g)"
proof (rule sample_plan)
  fix p
  assume p: "plan_for_destination sample_source sample_config DestClickHouse True NoTable = Inr p"
    "map ct_name (sp_dest_columns p) = [''id'', ''amount'', ''updated_at'']"
  have e: "map_sum id (\<lambda>p. map ct_nullable (sp_dest_columns p))
      (plan_for_destination sample_source sample_config DestClickHouse True NoTable) = Inr [False, True, False]"
    by code_simp
  have s: "sp_source_columns p = [''id'', ''amount'', ''updated_at'']"
    using plan_for_destination_ok(1)[OF p(1)] by (simp only: sample_included)
  have l: "length (sp_dest_columns p) = 3" using arg_cong[OF p(2), of length] by simp
  have n: "map ct_nullable (sp_dest_columns p) = [False, True, False]" using e p(1) by simp
  then have n0: "\<not> ct_nullable (sp_dest_columns p ! 0)" using l by (metis nth_Cons_0 nth_map zero_less_numeral)
  have d: "distinct (sp_source_columns p)" "distinct (map ct_name (sp_dest_columns p))"
    unfolding s p(2) by simp_all
  have i: "0 < length (sp_dest_columns p)" using l by simp
  have c: "ct_nullable (included_columns sample_config sample_source ! 0)" by code_simp
  show ?thesis using null_guard_covers_plan[OF p(1) _ d i n0] c p(1) by blast
qed

end
