(* ===== verification/QH_Warnings.thy ===== *)
theory QH_Warnings
  imports QH_Null_Guard "HOL-Library.Product_Lexorder" "HOL-Library.Option_ord" "HOL-Library.Multiset"
begin

text \<open>
  The run-scoped warning collector of \<open>sync.rs\<close> and the checkpoints a fatal warning stops a run at.
  The collector's three mutexes are the fields of its record; each operation takes one
  lock at a time, so an interleaving of the readers is a sequence of operations.
\<close>

section \<open>The collector\<close>

record transfer_warning =
  tw_kind :: warning_kind
  tw_column :: "string option"
  tw_count :: nat
  tw_sample :: "string option"
  tw_message :: string

record warnings =
  ws_raw :: "transfer_warning list"
  ws_null_rows :: "(warning_kind \<times> string \<times> nat) list"
  ws_fates :: "string \<rightharpoonup> null_fate"

definition no_warnings :: warnings where
  "no_warnings = \<lparr>ws_raw = [], ws_null_rows = [], ws_fates = Map.empty\<rparr>"

definition push_warning :: "transfer_warning \<Rightarrow> warnings \<Rightarrow> warnings" where
  "push_warning w ws = ws\<lparr>ws_raw := ws_raw ws @ [w]\<rparr>"

fun tally_null :: "warning_kind \<Rightarrow> string \<Rightarrow> nat \<Rightarrow> (warning_kind \<times> string \<times> nat) list
    \<Rightarrow> (warning_kind \<times> string \<times> nat) list" where
  "tally_null kind column n [] = [(kind, column, n)]"
| "tally_null kind column n ((k, c, m) # rest) =
     (if k = kind \<and> c = column then (k, c, m + n) # rest else (k, c, m) # tally_null kind column n rest)"

definition null_rows :: "warning_kind \<Rightarrow> string \<Rightarrow> nat \<Rightarrow> warnings \<Rightarrow> warnings" where
  "null_rows kind column n ws =
     (if n = 0 then ws else ws\<lparr>ws_null_rows := tally_null kind column n (ws_null_rows ws)\<rparr>)"

definition left_out_total :: "warnings \<Rightarrow> nat" where
  "left_out_total ws =
     sum_list (map (\<lambda>(_, _, n). n) (filter (\<lambda>(k, _, _). k \<noteq> NullDefaulted) (ws_null_rows ws)))"

definition set_null_fates :: "(string \<rightharpoonup> null_fate) \<Rightarrow> warnings \<Rightarrow> warnings" where
  "set_null_fates fs ws = ws\<lparr>ws_fates := fs\<rparr>"

definition became :: "string \<Rightarrow> null_fate option \<Rightarrow> string" where
  "became column fate =
     (case fate of
        None \<Rightarrow> ''coerced to NULL''
      | Some (LeftOut counted) \<Rightarrow> ''could not be read, and the destination's '' @ quoted column
          @ '' can't be NULL, so the row(s) holding them were left out (counted in '' @ as_str counted @ '')''
      | Some (DefaultWritten _ shown) \<Rightarrow> ''could not be read, and the destination's '' @ quoted column
          @ '' can't be NULL, so '' @ shown @ '', the column type's default, was written in their place (counted in null_defaulted too, which says why)'')"

definition coercion_message :: "warning_kind \<Rightarrow> string \<Rightarrow> nat \<Rightarrow> null_fate option \<Rightarrow> string" where
  "coercion_message kind column n fate =
     ''column '' @ quoted column @ '': '' @ show_nat n @
     (if kind = CoercedDate then
        '' unrepresentable or out-of-range date/datetime value(s) (zero-dates, or years outside ClickHouse's 1900-2299 window) '' @ became column fate
      else if kind = CoercedDecimal then
        '' decimal value(s) '' @ became column fate @ '' (value exceeded the declared Decimal(P,S) precision, or was NaN/Infinity)''
      else if kind = CoercedScalar then
        '' value(s) '' @ became column fate @ '' (a non-empty scalar that did not parse as the declared type)''
      else if kind = CollapsedBool then
        '' tinyint(1) value(s) outside {0, 1} were flattened to a boolean 0/1, losing their original value.''
      else '' affected row(s)'')"

definition coercion_text :: "warnings \<Rightarrow> warning_kind \<Rightarrow> string \<Rightarrow> nat \<Rightarrow> string" where
  "coercion_text ws kind column n = coercion_message kind column n (ws_fates ws column)"

definition null_row_warning :: "warnings \<Rightarrow> warning_kind \<times> string \<times> nat \<Rightarrow> transfer_warning" where
  "null_row_warning ws t =
     (let (kind, column, n) = t in
      \<lparr>tw_kind = kind, tw_column = Some column, tw_count = n, tw_sample = None,
       tw_message = (if kind = NullDefaulted then defaulted_message column n (ws_fates ws column)
                     else left_out_message kind column n)\<rparr>)"

text \<open>Everything collected, without folding; \<open>entries(true)\<close> empties the collector too.\<close>

definition warning_entries :: "warnings \<Rightarrow> transfer_warning list" where
  "warning_entries ws = ws_raw ws @ map (null_row_warning ws) (ws_null_rows ws)"

definition take_entries :: "warnings \<Rightarrow> transfer_warning list \<times> warnings" where
  "take_entries ws = (warning_entries ws, ws\<lparr>ws_raw := [], ws_null_rows := []\<rparr>)"

section \<open>Folding\<close>

definition same_warning :: "transfer_warning \<Rightarrow> transfer_warning \<Rightarrow> bool" where
  "same_warning f w \<longleftrightarrow> tw_kind f = tw_kind w \<and> tw_column f = tw_column w"

definition merge_warning :: "transfer_warning \<Rightarrow> transfer_warning \<Rightarrow> transfer_warning" where
  "merge_warning f w =
     f\<lparr>tw_count := tw_count f + tw_count w,
       tw_sample := or_else (tw_sample f) (tw_sample w),
       tw_message := (if tw_kind f = NullWatermark \<and> \<not> contains_text (tw_message w) (tw_message f)
                      then tw_message f @ '' '' @ tw_message w else tw_message f)\<rparr>"

fun fold_into :: "transfer_warning list \<Rightarrow> transfer_warning \<Rightarrow> transfer_warning list" where
  "fold_into [] w = [w]"
| "fold_into (f # fs) w = (if same_warning f w then merge_warning f w # fs else f # fold_into fs w)"

definition restate :: "warnings \<Rightarrow> transfer_warning \<Rightarrow> transfer_warning" where
  "restate ws f =
     (case tw_column f of
        Some column \<Rightarrow>
          if tw_kind f \<in> {CollapsedBool, CoercedDate, CoercedDecimal, CoercedScalar}
          then f\<lparr>tw_message := coercion_text ws (tw_kind f) column (tw_count f)\<rparr> else f
      | None \<Rightarrow> f)"

definition fold_warnings :: "warnings \<Rightarrow> transfer_warning list \<Rightarrow> transfer_warning list" where
  "fold_warnings ws es = map (restate ws) (foldl fold_into [] es)"

definition first_of :: "warnings \<Rightarrow> warning_kind list \<Rightarrow> transfer_warning option" where
  "first_of ws kinds =
     (if kinds = [] then None
      else find (\<lambda>w. tw_kind w \<in> set kinds) (fold_warnings ws (warning_entries ws)))"

definition has_warning :: "warnings \<Rightarrow> warning_kind \<Rightarrow> string option \<Rightarrow> bool" where
  "has_warning ws kind column \<longleftrightarrow>
     list_ex (\<lambda>w. tw_kind w = kind \<and> tw_column w = column) (ws_raw ws)
     \<or> list_ex (\<lambda>(k, c, _). k = kind \<and> Some c = column) (ws_null_rows ws)"

text \<open>Most affected first, then by kind and column.\<close>

definition drain_key :: "transfer_warning \<Rightarrow> int \<times> warning_kind \<times> string option" where
  "drain_key w = (- int (tw_count w), tw_kind w, tw_column w)"

definition drain :: "warnings \<Rightarrow> transfer_warning list \<times> warnings" where
  "drain ws = (let (es, ws') = take_entries ws in (sort_key drain_key (fold_warnings ws es), ws'))"

section \<open>Checkpoints\<close>

datatype checkpoint = BeforeWrite | BeforeSwap | BeforeSwapIntoNew | BeforeMerge | BeforeMergeIntoNew
  | BeforeAppend | BeforeAppendIntoNew | BeforeCursor | BeforeChunk | BeforeCursorAfterChunks | BeforeDone

definition before_swap :: "bool \<Rightarrow> checkpoint" where
  "before_swap created_dest = (if created_dest then BeforeSwapIntoNew else BeforeSwap)"

definition before_merge :: "bool \<Rightarrow> checkpoint" where
  "before_merge created_dest = (if created_dest then BeforeMergeIntoNew else BeforeMerge)"

definition before_append :: "bool \<Rightarrow> checkpoint" where
  "before_append created_dest = (if created_dest then BeforeAppendIntoNew else BeforeAppend)"

text \<open>The opening words of each state.\<close>

fun describe :: "checkpoint \<Rightarrow> string" where
  "describe BeforeWrite = ''Nothing was written to the destination, and the cursor was not saved.''"
| "describe BeforeSwap = ''The destination is untouched: the staged rows were dropped before the swap.''"
| "describe BeforeSwapIntoNew = ''Nothing was swapped in''"
| "describe BeforeMerge = ''The destination is untouched (the staged rows were dropped before the merge), and the cursor was not saved.''"
| "describe BeforeMergeIntoNew = ''Nothing was merged in''"
| "describe BeforeAppend = ''Nothing was appended''"
| "describe BeforeAppendIntoNew = ''Nothing was appended, so the destination this run created is left empty''"
| "describe BeforeCursor = ''The rows are already in the destination, but the cursor was not saved''"
| "describe BeforeChunk = ''This chunk was not committed''"
| "describe BeforeCursorAfterChunks = ''Every chunk is already in the destination with its resume marker saved''"
| "describe BeforeDone = ''The rows are already in the destination, which this run writes straight into''"

definition fatal_warning_error :: "transfer_warning \<Rightarrow> checkpoint \<Rightarrow> bool \<Rightarrow> etl_error" where
  "fatal_warning_error w cp requested =
     Other ((if requested then ''fail_on_warnings: '' else []) @ as_str (tw_kind w)
       @ (case tw_column w of Some c \<Rightarrow> '' on column '' @ quoted c | None \<Rightarrow> [])
       @ (if tw_count w = 0 then [] else '' (count '' @ show_nat (tw_count w) @ '')'')
       @ '' stopped the run. ''
       @ (if tw_kind w = RetriedAfterPartialWrite
          then ''This attempt has written nothing; what the failed attempts before it wrote stays in the destination.''
          else describe cp)
       @ '' The warning: '' @ tw_message w)"

definition check_fatal_warnings :: "transfer_config \<Rightarrow> warnings \<Rightarrow> checkpoint \<Rightarrow> unit res" where
  "check_fatal_warnings cfg ws cp =
     (case first_of ws (cfg_fail_on_warnings cfg) of
        Some w \<Rightarrow> Inl (fatal_warning_error w cp True)
      | None \<Rightarrow> Inr ())"

definition staged_checkpoints :: "checkpoint set" where
  "staged_checkpoints = {BeforeSwap, BeforeSwapIntoNew, BeforeMerge, BeforeMergeIntoNew,
     BeforeAppend, BeforeAppendIntoNew, BeforeChunk}"

text \<open>\<open>written\<close> is what the sink's writes raised; the collector is returned with it.\<close>

definition check_fatal :: "transfer_config \<Rightarrow> transfer_warning list \<Rightarrow> warnings \<Rightarrow> checkpoint
    \<Rightarrow> warnings \<times> unit res" where
  "check_fatal cfg written ws0 cp =
     (let ws = foldl (\<lambda>ws w. push_warning w ws) ws0 written in
      (ws,
       (case (if cp \<in> staged_checkpoints then first_of ws [StorageWriteCountMismatch] else None) of
          Some w \<Rightarrow> Inl (fatal_warning_error w cp False)
        | None \<Rightarrow> check_fatal_warnings cfg ws cp)))"

section \<open>Clustering\<close>

definition clustering_binds :: "string list option \<Rightarrow> string list \<Rightarrow> bool" where
  "clustering_binds clustering key \<longleftrightarrow>
     (case clustering of
        Some cols \<Rightarrow> cols \<noteq> [] \<and> key \<noteq> [] \<and>
          list_all (\<lambda>(i, k). i < length cols \<and> eq_ignore_case (cols ! i) k) (enumerate 0 key)
      | None \<Rightarrow> False)"

section \<open>Folding conserves counts\<close>

definition warning_key :: "transfer_warning \<Rightarrow> warning_kind \<times> string option" where
  "warning_key w = (tw_kind w, tw_column w)"

definition total_of :: "((warning_kind \<times> string option) \<times> nat) list \<Rightarrow> warning_kind \<times> string option \<Rightarrow> nat" where
  "total_of cs k = sum_list (map snd (filter (\<lambda>c. fst c = k) cs))"

definition counted :: "transfer_warning \<Rightarrow> (warning_kind \<times> string option) \<times> nat" where
  "counted w = (warning_key w, tw_count w)"

lemma counted_simps [simp]: "fst (counted w) = warning_key w" "snd (counted w) = tw_count w"
  by (simp_all add: counted_def)

lemma total_of_simps [simp]:
  "total_of [] k = 0" "total_of (c # cs) k = (if fst c = k then snd c else 0) + total_of cs k"
  "total_of (cs @ ds) k = total_of cs k + total_of ds k"
  by (simp_all add: total_of_def)

lemma merge_warning_counted [simp]:
  "counted (merge_warning f w) = (warning_key f, tw_count f + tw_count w)"
  "warning_key (merge_warning f w) = warning_key f"
  "tw_count (merge_warning f w) = tw_count f + tw_count w"
  by (simp_all add: merge_warning_def counted_def warning_key_def)

lemma restate_counted [simp]: "counted (restate ws f) = counted f" "warning_key (restate ws f) = warning_key f"
  by (auto simp: restate_def counted_def warning_key_def split: option.splits)

lemma same_warning_key: "same_warning f w \<longleftrightarrow> warning_key f = warning_key w"
  by (simp add: same_warning_def warning_key_def)

lemma fold_into_keys: "warning_key ` set (fold_into fs w) = insert (warning_key w) (warning_key ` set fs)"
  by (induction fs) (auto simp: same_warning_key)

lemma fold_into_distinct: "distinct (map warning_key fs) \<Longrightarrow> distinct (map warning_key (fold_into fs w))"
proof (induction fs)
  case (Cons f fs)
  have "warning_key f \<notin> warning_key ` set (fold_into fs w)" if "warning_key f \<noteq> warning_key w"
    using Cons.prems that by (simp add: fold_into_keys)
  then show ?case using Cons by (auto simp: same_warning_key)
qed simp

lemma fold_into_total: "total_of (map counted (fold_into fs w)) k
    = total_of (map counted fs) k + (if warning_key w = k then tw_count w else 0)"
  by (induction fs) (auto simp: same_warning_key simp del: merge_warning_counted(1))

lemma total_of_distinct:
  "distinct (map warning_key fs) \<Longrightarrow> f \<in> set fs \<Longrightarrow> total_of (map counted fs) (warning_key f) = tw_count f"
proof (induction fs)
  case (Cons x xs)
  have z: "total_of (map counted xs) k = 0" if "k \<notin> warning_key ` set xs" for k
    using that by (induction xs) auto
  show ?case using Cons z[of "warning_key x"] by auto
qed simp

lemma fold_entries:
  "distinct (map warning_key fs) \<Longrightarrow>
    (let r = foldl fold_into fs es in
      distinct (map warning_key r) \<and> warning_key ` set r = warning_key ` set fs \<union> warning_key ` set es
      \<and> (\<forall>k. total_of (map counted r) k = total_of (map counted fs) k + total_of (map counted es) k))"
  by (induction es arbitrary: fs)
    (auto simp: Let_def fold_into_keys fold_into_total fold_into_distinct)

lemma fold_warnings_spec:
  "distinct (map warning_key (fold_warnings ws es))"
  "warning_key ` set (fold_warnings ws es) = warning_key ` set es"
  "w \<in> set (fold_warnings ws es) \<Longrightarrow> tw_count w = total_of (map counted es) (warning_key w)"
proof -
  let ?r = "foldl fold_into [] es"
  have r: "distinct (map warning_key ?r)" "warning_key ` set ?r = warning_key ` set es"
      "\<And>k. total_of (map counted ?r) k = total_of (map counted es) k"
    using fold_entries[of "[]" es] unfolding Let_def by (simp, simp, metis add_0 distinct.simps(1) list.simps(8) total_of_simps(1))
  have m: "map warning_key (fold_warnings ws es) = map warning_key ?r"
    "map counted (fold_warnings ws es) = map counted ?r"
    by (simp_all add: fold_warnings_def)
  show d: "distinct (map warning_key (fold_warnings ws es))" unfolding m by (rule r)
  show "warning_key ` set (fold_warnings ws es) = warning_key ` set es"
    using arg_cong[OF m(1), of set] r(2) by simp
  show "tw_count w = total_of (map counted es) (warning_key w)" if "w \<in> set (fold_warnings ws es)"
    using total_of_distinct[OF d that] r(3) unfolding m by simp
qed

text \<open>C17. Draining reports every collected warning exactly once per kind and column, with the counts
  of all its reads added up, most affected first, and leaves the collector empty.\<close>

theorem drain_adds_up:
  "case drain ws of (out, ws') \<Rightarrow>
     distinct (map warning_key out)
     \<and> warning_key ` set out = warning_key ` set (warning_entries ws)
     \<and> (\<forall>w \<in> set out. tw_count w = sum_list (map tw_count (filter (\<lambda>e. warning_key e = warning_key w) (warning_entries ws))))
     \<and> sorted (map drain_key out) \<and> warning_entries ws' = [] \<and> ws_fates ws' = ws_fates ws"
proof -
  let ?f = "fold_warnings ws (warning_entries ws)"
  have t: "total_of (map counted es) k = sum_list (map tw_count (filter (\<lambda>e. warning_key e = k) es))" for es k
    by (induction es) auto
  have "mset (map warning_key (sort_key drain_key ?f)) = mset (map warning_key ?f)" by simp
  then have "distinct (map warning_key (sort_key drain_key ?f))"
    using fold_warnings_spec(1)[where ws = ws and es = "warning_entries ws"] by (metis mset_eq_imp_distinct_iff)
  moreover have "warning_entries (ws\<lparr>ws_raw := [], ws_null_rows := []\<rparr>) = []"
    by (simp add: warning_entries_def)
  ultimately show ?thesis using fold_warnings_spec[where ws = ws and es = "warning_entries ws"]
    by (auto simp: drain_def take_entries_def t)
qed

theorem drain_adds_up_witness:
  "distinct (map warning_key (fst (drain (null_rows NullKey ''id'' 2 no_warnings))))
   \<and> (NullKey, Some ''id'') \<in> warning_key ` set (fst (drain (null_rows NullKey ''id'' 2 no_warnings)))"
proof -
  let ?ws = "null_rows NullKey ''id'' 2 no_warnings"
  have "warning_key ` set (warning_entries ?ws) = {(NullKey, Some ''id'')}"
    by (simp add: null_rows_def no_warnings_def warning_entries_def null_row_warning_def warning_key_def)
  then show ?thesis using drain_adds_up[of ?ws] by (auto simp: case_prod_unfold)
qed

section \<open>The order of the readers does not matter\<close>

datatype collector_op = Push transfer_warning | NullRows warning_kind string nat

fun collect :: "warnings \<Rightarrow> collector_op \<Rightarrow> warnings" where
  "collect ws (Push w) = push_warning w ws"
| "collect ws (NullRows kind column n) = null_rows kind column n ws"

fun contribution :: "collector_op \<Rightarrow> ((warning_kind \<times> string option) \<times> nat) list" where
  "contribution (Push w) = [counted w]"
| "contribution (NullRows kind column n) = (if n = 0 then [] else [((kind, Some column), n)])"

definition tally_counts :: "(warning_kind \<times> string \<times> nat) list \<Rightarrow> ((warning_kind \<times> string option) \<times> nat) list" where
  "tally_counts = map (\<lambda>(k, c, n). ((k, Some c), n))"

lemma entries_counted:
  "map counted (warning_entries ws) = map counted (ws_raw ws) @ tally_counts (ws_null_rows ws)"
  by (auto simp: warning_entries_def tally_counts_def counted_def warning_key_def null_row_warning_def)

lemma tally_null_counts:
  "fst ` set (tally_counts (tally_null kind column n ts)) = insert (kind, Some column) (fst ` set (tally_counts ts))"
  "total_of (tally_counts (tally_null kind column n ts)) k
     = total_of (tally_counts ts) k + (if k = (kind, Some column) then n else 0)"
  by (induction kind column n ts rule: tally_null.induct) (auto simp: tally_counts_def)

lemma collect_counts:
  "fst ` set (map counted (warning_entries (foldl collect ws ops)))
     = fst ` set (map counted (warning_entries ws)) \<union> fst ` set (concat (map contribution ops))
   \<and> total_of (map counted (warning_entries (foldl collect ws ops))) k
     = total_of (map counted (warning_entries ws)) k + total_of (concat (map contribution ops)) k"
proof (induction ops arbitrary: ws)
  case (Cons x ops)
  have "fst ` set (map counted (warning_entries (collect ws x)))
     = fst ` set (map counted (warning_entries ws)) \<union> fst ` set (contribution x)
   \<and> total_of (map counted (warning_entries (collect ws x))) k
     = total_of (map counted (warning_entries ws)) k + total_of (contribution x) k"
    unfolding entries_counted
    by (cases x) (auto simp: push_warning_def null_rows_def tally_null_counts image_Un)
  then show ?case using Cons[of "collect ws x"] by auto
qed simp

lemma total_of_mset: "mset cs = mset ds \<Longrightarrow> total_of cs k = total_of ds k"
proof -
  assume "mset cs = mset ds"
  then have "mset (map snd (filter (\<lambda>c. fst c = k) cs)) = mset (map snd (filter (\<lambda>c. fst c = k) ds))" by simp
  then show ?thesis unfolding total_of_def by (metis sum_mset_sum_list)
qed

lemma drained_keys:
  "mset (map drain_key (fst (drain ws))) =
     mset_set ((\<lambda>k. (- int (total_of (map counted (warning_entries ws)) k), fst k, snd k))
       ` (fst ` set (map counted (warning_entries ws))))"
proof -
  let ?es = "warning_entries ws" and ?f = "fold_warnings ws (warning_entries ws)"
  note s = fold_warnings_spec[where ws = ws and es = ?es]
  have keys: "fst ` set (map counted ?es) = warning_key ` set ?f"
    unfolding s(2) by (simp add: image_image)
  have key: "drain_key w = (- int (total_of (map counted ?es) (warning_key w)), fst (warning_key w), snd (warning_key w))"
    if "w \<in> set ?f" for w
    using s(3)[OF that] by (simp add: drain_key_def warning_key_def)
  have d: "distinct (map drain_key ?f)"
  proof -
    have "inj_on warning_key (set ?f)" "distinct ?f" using s(1) by (simp_all add: distinct_map)
    moreover have "warning_key a = warning_key b" if "drain_key a = drain_key b" for a b
      using that by (simp add: drain_key_def warning_key_def)
    ultimately have "inj_on drain_key (set ?f)" "distinct ?f" unfolding inj_on_def by (blast, blast)
    then show ?thesis by (simp add: distinct_map)
  qed
  have "mset (map drain_key (fst (drain ws))) = mset (map drain_key ?f)"
    by (simp add: drain_def take_entries_def)
  also have "\<dots> = mset_set (drain_key ` set ?f)" using mset_set_set[OF d] by simp
  also have "drain_key ` set ?f = (\<lambda>k. (- int (total_of (map counted ?es) k), fst k, snd k)) ` (warning_key ` set ?f)"
    unfolding image_image by (rule image_cong) (auto simp: key)
  finally show ?thesis unfolding keys .
qed

text \<open>C18. Whatever the order in which concurrent readers reported, draining gives the same list of
  kinds, columns and counts in the same order.  (The sample and the message of a warning are not
  compared: a folded warning keeps those of the read that reported first.)\<close>

theorem drain_order_independent:
  assumes "mset ops = mset ops'"
  shows "map drain_key (fst (drain (foldl collect ws ops))) = map drain_key (fst (drain (foldl collect ws ops')))"
proof -
  let ?c = "\<lambda>ops. concat (map contribution ops)"
  have "mset (?c ops) = sum_mset (image_mset (\<lambda>x. mset (contribution x)) (mset ops))" for ops
    by (induction ops) simp_all
  then have m: "mset (?c ops) = mset (?c ops')" using assms by simp
  then have c: "set (?c ops) = set (?c ops')" "\<And>k. total_of (?c ops) k = total_of (?c ops') k"
    using mset_eq_setD total_of_mset by (blast, blast)
  have k: "fst ` set (map counted (warning_entries (foldl collect ws ops)))
      = fst ` set (map counted (warning_entries (foldl collect ws ops')))"
    "\<And>k. total_of (map counted (warning_entries (foldl collect ws ops))) k
      = total_of (map counted (warning_entries (foldl collect ws ops'))) k"
    using collect_counts[of ws ops] collect_counts[of ws ops'] c by (metis, metis)
  then have "mset (map drain_key (fst (drain (foldl collect ws ops)))) = mset (map drain_key (fst (drain (foldl collect ws ops'))))"
    by (simp only: drained_keys k)
  moreover have "sorted (map drain_key (fst (drain ws)))" for ws
    by (simp add: drain_def take_entries_def)
  ultimately show ?thesis by (metis properties_for_sort)
qed


theorem drain_order_independent_witness:
  "map drain_key (fst (drain (foldl collect no_warnings
      [NullRows NullKey ''id'' 2, NullRows NullDefaulted ''x'' 1, NullRows NullKey ''id'' 3])))
   = map drain_key (fst (drain (foldl collect no_warnings
      [NullRows NullKey ''id'' 3, NullRows NullKey ''id'' 2, NullRows NullDefaulted ''x'' 1])))"
  by (rule drain_order_independent) (simp add: add_mset_commute)

section \<open>Fatal warnings\<close>

lemma fold_warnings_kinds:
  "tw_kind ` set (fold_warnings ws es) = tw_kind ` set es"
proof -
  have "fst ` warning_key ` set (fold_warnings ws es) = fst ` warning_key ` set es"
    by (simp only: fold_warnings_spec(2))
  then show ?thesis by (simp add: image_image warning_key_def)
qed

lemma first_of_None:
  "first_of ws kinds = None \<longleftrightarrow> (\<forall>w \<in> set (warning_entries ws). tw_kind w \<notin> set kinds)"
proof -
  have "(\<forall>k \<in> tw_kind ` set (fold_warnings ws (warning_entries ws)). k \<notin> set kinds)
      \<longleftrightarrow> (\<forall>k \<in> tw_kind ` set (warning_entries ws). k \<notin> set kinds)"
    by (simp only: fold_warnings_kinds)
  then have "(\<forall>w \<in> set (fold_warnings ws (warning_entries ws)). tw_kind w \<notin> set kinds)
      \<longleftrightarrow> (\<forall>w \<in> set (warning_entries ws). tw_kind w \<notin> set kinds)"
    unfolding ball_simps(9) .
  moreover have "first_of ws kinds = None \<longleftrightarrow>
      (\<forall>w \<in> set (fold_warnings ws (warning_entries ws)). tw_kind w \<notin> set kinds)"
    by (auto simp: first_of_def find_None_iff)
  ultimately show ?thesis by simp
qed

lemma push_all_entries:
  "set (warning_entries (foldl (\<lambda>ws w. push_warning w ws) ws written)) = set (warning_entries ws) \<union> set written"
proof (induction written arbitrary: ws)
  case (Cons w written)
  have "set (warning_entries (push_warning w ws)) = insert w (set (warning_entries ws))"
  proof -
    have "null_row_warning (push_warning w ws) = null_row_warning ws"
      by (simp add: fun_eq_iff null_row_warning_def push_warning_def)
    then show ?thesis by (simp add: warning_entries_def) (simp add: push_warning_def)
  qed
  then show ?case using Cons[of "push_warning w ws"] by simp
qed simp

text \<open>C19. A run passes a checkpoint exactly when no warning collected so far, or just reported by the
  sink's writes, is of a kind the caller made fatal, and, where staged rows are about to become
  permanent, none says a stream finalized with the wrong row count.\<close>

theorem checkpoint_passes_iff:
  "snd (check_fatal cfg written ws cp) = Inr () \<longleftrightarrow>
     (\<forall>w \<in> set written \<union> set (warning_entries ws).
        tw_kind w \<notin> set (cfg_fail_on_warnings cfg)
        \<and> (cp \<in> staged_checkpoints \<longrightarrow> tw_kind w \<noteq> StorageWriteCountMismatch))"
proof -
  let ?ws = "foldl (\<lambda>ws w. push_warning w ws) ws written"
  have c: "check_fatal_warnings cfg ?ws cp = Inr () \<longleftrightarrow> first_of ?ws (cfg_fail_on_warnings cfg) = None"
    by (simp add: check_fatal_warnings_def split: option.split)
  have "snd (check_fatal cfg written ws cp) = Inr () \<longleftrightarrow>
      (cp \<in> staged_checkpoints \<longrightarrow> first_of ?ws [StorageWriteCountMismatch] = None)
      \<and> first_of ?ws (cfg_fail_on_warnings cfg) = None"
    by (auto simp: check_fatal_def Let_def c split: option.splits if_splits)
  then show ?thesis unfolding first_of_None push_all_entries by auto
qed

theorem checkpoint_passes_iff_witness:
  "snd (check_fatal sample_config [] (null_rows NullKey ''id'' 2 no_warnings) BeforeMerge) = Inr ()"
proof -
  have "cfg_fail_on_warnings sample_config = []" by (simp add: sample_config_def)
  moreover have "warning_entries (null_rows NullKey ''id'' 2 no_warnings) =
      [null_row_warning (null_rows NullKey ''id'' 2 no_warnings) (NullKey, ''id'', 2)]"
    by (simp add: null_rows_def no_warnings_def warning_entries_def)
  ultimately show ?thesis unfolding checkpoint_passes_iff by (simp add: null_row_warning_def)
qed

section \<open>Rows left out, and clustering\<close>

lemma tally_left_out:
  "sum_list (map (\<lambda>(_, _, n). n) (filter (\<lambda>(k, _, _). k \<noteq> NullDefaulted) (tally_null kind column n ts)))
   = sum_list (map (\<lambda>(_, _, n). n) (filter (\<lambda>(k, _, _). k \<noteq> NullDefaulted) ts)) + (if kind = NullDefaulted then 0 else n)"
  by (induction kind column n ts rule: tally_null.induct) auto

lemma null_rows_left_out:
  "left_out_total (null_rows kind column n ws) = left_out_total ws + (if kind = NullDefaulted then 0 else n)"
  by (simp add: left_out_total_def null_rows_def tally_left_out)

lemma clustering_binds_prefix:
  "clustering_binds (Some cols) key \<longleftrightarrow>
     key \<noteq> [] \<and> length key \<le> length cols \<and> list_all2 eq_ignore_case (take (length key) cols) key"
proof -
  have "list_all (\<lambda>(i, k). i < length cols \<and> eq_ignore_case (cols ! i) k) (enumerate 0 key)
      \<longleftrightarrow> (\<forall>i < length key. i < length cols \<and> eq_ignore_case (cols ! i) (key ! i))"
    by (auto simp: list_all_length nth_enumerate_eq)
  also have "\<dots> \<longleftrightarrow> length key \<le> length cols \<and> list_all2 eq_ignore_case (take (length key) cols) key"
    by (cases key rule: rev_cases) (auto simp: list_all2_conv_all_nth less_Suc_eq_le Suc_le_eq)
  finally show ?thesis by (cases cols) (auto simp: clustering_binds_def)
qed

end
