(* ===== verification/QH_Explain.thy ===== *)
theory QH_Explain
  imports QH_Host
begin

text \<open>
  \<open>source/explain.rs\<close>: what a planner said about a probe and whether the probe is run.  serde's
  parser is an argument: it gives the JSON value a plan is, or \<open>None\<close>; the parser of a number in a
  string is one too.  An object is its entries, looked up by their first.
\<close>

section \<open>JSON values\<close>

datatype json = JNull | JBool bool | JNum f64 | JStr string | JArr "json list" | JObj "(string \<times> json) list"

fun get_key :: "string \<Rightarrow> json \<Rightarrow> json option" where
  "get_key k (JObj es) = map_of es k"
| "get_key k _ = None"

fun get_index :: "nat \<Rightarrow> json \<Rightarrow> json option" where
  "get_index n (JArr vs) = (if n < length vs then Some (vs ! n) else None)"
| "get_index n _ = None"

fun as_f64 :: "json \<Rightarrow> f64 option" where
  "as_f64 (JNum x) = Some x"
| "as_f64 _ = None"

fun json_str :: "json \<Rightarrow> string option" where
  "json_str (JStr s) = Some s"
| "json_str _ = None"

definition or_get :: "'a option \<Rightarrow> 'a option \<Rightarrow> 'a option" where
  "or_get a b = (case a of Some x \<Rightarrow> Some x | None \<Rightarrow> b)"

section \<open>The cost of a probe\<close>

datatype probe_cost = Known f64 | AccessPath bool | Resolved | Unknown

definition should_skip :: "probe_cost \<Rightarrow> f64 \<Rightarrow> bool" where
  "should_skip cost max_cost =
     (if f64_le max_cost (Fin 0) then False
      else case cost of
        Known c \<Rightarrow> f64_lt max_cost c
      | AccessPath full_scan \<Rightarrow> full_scan
      | Resolved \<Rightarrow> False
      | Unknown \<Rightarrow> True)"

definition describe :: "(f64 \<Rightarrow> string) \<Rightarrow> probe_cost \<Rightarrow> string" where
  "describe whole cost =
     (case cost of
        Known c \<Rightarrow> ''planner estimated cost '' @ whole c
      | AccessPath True \<Rightarrow> ''planner reported a full table scan (no cost estimate available)''
      | AccessPath False \<Rightarrow> ''planner reported an indexed access path (no cost estimate available)''
      | Resolved \<Rightarrow> ''planner answered the query without reading the table''
      | Unknown \<Rightarrow> ''the planner could not be asked (EXPLAIN failed or was cancelled)'')"

definition parse_pg_cost :: "(string \<Rightarrow> json option) \<Rightarrow> string \<Rightarrow> probe_cost" where
  "parse_pg_cost from_str text =
     (case from_str text of
        None \<Rightarrow> Unknown
      | Some v \<Rightarrow>
          let p = or_get (Option.bind (get_index 0 v) (get_key ''Plan'')) (get_key ''Plan'' v) in
          (case Option.bind (Option.bind p (get_key ''Total Cost'')) as_f64 of
             Some c \<Rightarrow> Known c
           | None \<Rightarrow> Unknown))"

section \<open>Outer joins and grouping sets\<close>

definition outer_join :: "json \<Rightarrow> bool" where
  "outer_join node \<longleftrightarrow>
     Option.bind (get_key ''Join Type'' node) json_str \<in> {Some ''Left'', Some ''Right'', Some ''Full''}"

fun pg_plan_can_null_columns :: "json \<Rightarrow> bool" where
  "pg_plan_can_null_columns (JObj es) \<longleftrightarrow>
     outer_join (JObj es) \<or> get_key ''Grouping Sets'' (JObj es) \<noteq> None
     \<or> list_ex (\<lambda>(_, v). pg_plan_can_null_columns v) es"
| "pg_plan_can_null_columns (JArr vs) \<longleftrightarrow> list_ex pg_plan_can_null_columns vs"
| "pg_plan_can_null_columns _ \<longleftrightarrow> False"

section \<open>MySQL plans\<close>

definition MYSQL_RESOLVED_MESSAGES :: "string list" where
  "MYSQL_RESOLVED_MESSAGES =
     [''Select tables optimized away'',
      ''No matching min/max row'',
      ''Impossible WHERE'',
      ''Impossible HAVING'',
      ''Impossible WHERE noticed after reading const tables'',
      ''Impossible HAVING noticed after reading const tables'',
      ''no matching row in const table'',
      ''Zero limit'',
      ''No tables used'']"

text \<open>The strings visited, in the order of the walk.\<close>

definition stored_string :: "string \<Rightarrow> string \<Rightarrow> json \<Rightarrow> string list" where
  "stored_string key k v =
     (case json_str v of Some s \<Rightarrow> if k = key then [s] else [] | None \<Rightarrow> [])"

fun walk_plan_strings :: "string \<Rightarrow> json \<Rightarrow> string list" where
  "walk_plan_strings key (JObj es) =
     concat (map (\<lambda>(k, v). stored_string key k v @ walk_plan_strings key v) es)"
| "walk_plan_strings key (JArr vs) = concat (map (walk_plan_strings key) vs)"
| "walk_plan_strings key _ = []"

definition mysql_query_cost :: "(string \<Rightarrow> f64 option) \<Rightarrow> json \<Rightarrow> f64 option" where
  "mysql_query_cost parse_f64 qb =
     Option.bind (Option.bind (get_key ''cost_info'' qb) (get_key ''query_cost'')) (\<lambda>c.
       or_get (as_f64 c) (Option.bind (json_str c) parse_f64))"

definition parse_mysql_cost :: "(string \<Rightarrow> json option) \<Rightarrow> (string \<Rightarrow> f64 option) \<Rightarrow> string \<Rightarrow> probe_cost" where
  "parse_mysql_cost from_str parse_f64 text =
     (case from_str text of None \<Rightarrow> Unknown | Some v \<Rightarrow>
      (case get_key ''query_block'' v of None \<Rightarrow> Unknown | Some qb \<Rightarrow>
       (case mysql_query_cost parse_f64 qb of
          Some c \<Rightarrow> Known c
        | None \<Rightarrow>
          let accesses = walk_plan_strings ''access_type'' qb;
              messages = walk_plan_strings ''message'' qb in
          if accesses \<noteq> [] then AccessPath (''ALL'' \<in> set accesses)
          else if messages \<noteq> [] \<and> list_all (\<lambda>m. m \<in> set MYSQL_RESOLVED_MESSAGES) messages then Resolved
          else Unknown)))"

definition pg_explain_sql :: "string \<Rightarrow> string" where
  "pg_explain_sql sql = ''EXPLAIN (FORMAT JSON) '' @ sql"

definition mysql_explain_sql :: "string \<Rightarrow> string" where
  "mysql_explain_sql sql = ''EXPLAIN FORMAT=JSON '' @ sql"

definition DEFAULT_PROBE_MAX_COST :: f64 where "DEFAULT_PROBE_MAX_COST = Fin 50000"
definition INITIAL_READ_WINDOW_ROWS :: nat where "INITIAL_READ_WINDOW_ROWS = 50000"
definition DEFAULT_READ_WINDOW_ROWS :: nat where "DEFAULT_READ_WINDOW_ROWS = 5000000"
definition DEFAULT_WINDOW_TARGET_SECS :: f64 where "DEFAULT_WINDOW_TARGET_SECS = Fin 5"
definition MIN_READ_WINDOW_ROWS :: nat where "MIN_READ_WINDOW_ROWS = 1000"

section \<open>What a plan's tree holds\<close>

text \<open>\<open>inside v w\<close>: \<open>w\<close> is \<open>v\<close> itself or a value somewhere under it.\<close>

inductive inside :: "json \<Rightarrow> json \<Rightarrow> bool" where
  here: "inside v v"
| entry: "(k, v) \<in> set es \<Longrightarrow> inside v w \<Longrightarrow> inside (JObj es) w"
| element: "v \<in> set vs \<Longrightarrow> inside v w \<Longrightarrow> inside (JArr vs) w"

inductive_cases inside_objE: "inside (JObj es) w"
inductive_cases inside_arrE: "inside (JArr vs) w"
inductive_cases inside_leafE: "inside JNull w" "inside (JBool b) w" "inside (JNum x) w" "inside (JStr s) w"

definition nulls_columns :: "json \<Rightarrow> bool" where
  "nulls_columns node \<longleftrightarrow> outer_join node \<or> get_key ''Grouping Sets'' node \<noteq> None"

lemma nulls_columns_leaf [simp]:
  "\<not> nulls_columns JNull" "\<not> nulls_columns (JBool b)" "\<not> nulls_columns (JNum x)"
  "\<not> nulls_columns (JStr s)" "\<not> nulls_columns (JArr vs)"
  by (simp_all add: nulls_columns_def outer_join_def)

lemma can_null_inside: "pg_plan_can_null_columns v \<Longrightarrow> \<exists>w. inside v w \<and> nulls_columns w"
proof (induction v rule: pg_plan_can_null_columns.induct)
  case (1 es)
  show ?case
  proof (cases "nulls_columns (JObj es)")
    case False
    then obtain k v where kv: "(k, v) \<in> set es" and v: "pg_plan_can_null_columns v"
      using "1.prems" by (auto simp: list_ex_iff nulls_columns_def)
    obtain w where "inside v w" "nulls_columns w" using "1.IH"[OF kv refl v] by blast
    then show ?thesis using kv by (blast intro: inside.entry)
  qed (blast intro: inside.here)
next
  case (2 vs)
  then obtain v where v: "v \<in> set vs" "pg_plan_can_null_columns v" by (auto simp: list_ex_iff)
  then obtain w where "inside v w" "nulls_columns w" using "2.IH" by blast
  then show ?case using v by (blast intro: inside.element)
qed auto

lemma inside_can_null: "inside v w \<Longrightarrow> nulls_columns w \<Longrightarrow> pg_plan_can_null_columns v"
proof (induction rule: inside.induct)
  case (here v)
  have "pg_plan_can_null_columns v" if "v = JObj es" for es
    using here by (auto simp: that nulls_columns_def)
  then show ?case using here by (cases v) auto
qed (auto simp: list_ex_iff)

lemma json_str_Some: "json_str v = Some s \<longleftrightarrow> v = JStr s"
  by (cases v) auto

lemma in_stored_string: "s \<in> set (stored_string key k v) \<longleftrightarrow> k = key \<and> v = JStr s"
  by (cases v) (auto simp: stored_string_def)

lemma walk_inside:
  "s \<in> set (walk_plan_strings key v) \<longleftrightarrow> (\<exists>es. inside v (JObj es) \<and> (key, JStr s) \<in> set es)"
proof
  show "s \<in> set (walk_plan_strings key v) \<Longrightarrow> \<exists>es. inside v (JObj es) \<and> (key, JStr s) \<in> set es"
  proof (induction key v rule: walk_plan_strings.induct)
    case (1 key es)
    then obtain k v where kv: "(k, v) \<in> set es"
      and "(k = key \<and> v = JStr s) \<or> s \<in> set (walk_plan_strings key v)"
      by (auto simp: in_stored_string)
    then show ?case using "1.IH"[OF kv refl] kv by (blast intro: inside.here inside.entry)
  next
    case (2 key vs)
    then obtain v where v: "v \<in> set vs" "s \<in> set (walk_plan_strings key v)" by auto
    then show ?case using "2.IH" by (blast intro: inside.element)
  qed auto
next
  assume "\<exists>es. inside v (JObj es) \<and> (key, JStr s) \<in> set es"
  then obtain es where "inside v (JObj es)" "(key, JStr s) \<in> set es" by blast
  then show "s \<in> set (walk_plan_strings key v)"
    by (induction v "JObj es" rule: inside.induct) (force simp: in_stored_string)+
qed

text \<open>A PostgreSQL plan is taken to put NULL in a column declared NOT NULL exactly when some
  node anywhere in it, under subplans too, is an outer join or groups by grouping sets.\<close>

theorem pg_plan_nulls_iff_node:
  "pg_plan_can_null_columns v \<longleftrightarrow>
     (\<exists>node. inside v node \<and> (outer_join node \<or> (\<exists>g. get_key ''Grouping Sets'' node = Some g)))"
  using can_null_inside[of v] inside_can_null[of v] unfolding nulls_columns_def not_None_eq by blast

text \<open>A MySQL probe is skipped, under a positive ceiling, exactly when its plan could not be
  read, when its cost exceeds the ceiling, and, when it has no cost, when any access in it is a full
  scan, or it has no access and some message (or none at all) does not say the optimizer answered
  it.\<close>

theorem mysql_probe_skipped_iff:
  assumes "f64_lt (Fin 0) max_cost"
  shows "should_skip (parse_mysql_cost from_str parse_f64 text) max_cost \<longleftrightarrow>
     (case Option.bind (from_str text) (get_key ''query_block'') of
        None \<Rightarrow> True
      | Some qb \<Rightarrow>
        (case mysql_query_cost parse_f64 qb of
           Some c \<Rightarrow> f64_lt max_cost c
         | None \<Rightarrow>
             if \<exists>a es. inside qb (JObj es) \<and> (''access_type'', JStr a) \<in> set es
             then \<exists>es. inside qb (JObj es) \<and> (''access_type'', JStr ''ALL'') \<in> set es
             else (\<nexists>m es. inside qb (JObj es) \<and> (''message'', JStr m) \<in> set es)
               \<or> (\<exists>m es. inside qb (JObj es) \<and> (''message'', JStr m) \<in> set es
                    \<and> m \<notin> set MYSQL_RESOLVED_MESSAGES)))"
proof -
  have pos: "\<not> f64_le max_cost (Fin 0)" using assms by (cases max_cost) (auto simp: f64_le_def)
  have some: "walk_plan_strings key qb \<noteq> [] \<longleftrightarrow> (\<exists>a es. inside qb (JObj es) \<and> (key, JStr a) \<in> set es)"
    for key qb using walk_inside[of _ key qb] by (metis list.set_intros(1) neq_Nil_conv empty_iff empty_set)
  have all: "\<not> list_all P (walk_plan_strings key qb)
      \<longleftrightarrow> (\<exists>m es. inside qb (JObj es) \<and> (key, JStr m) \<in> set es \<and> \<not> P m)" for P key qb
    unfolding list_all_iff Ball_def walk_inside by blast
  show ?thesis
    unfolding parse_mysql_cost_def should_skip_def using pos
    by (auto simp: Let_def walk_inside some[symmetric] all[symmetric] split: option.split)
qed

end
