(* ===== verification/QH_Watermark.thy ===== *)
theory QH_Watermark
  imports QH_Float QH_Warnings
begin

text \<open>
  The cursor of an incremental read in \<open>sync.rs\<close>: the tracker that folds the largest watermark
  out of the decoded batches, its rewind, the comparison of a cursor with the source's MAX, and
  which MAX may be probed on the table itself.  chrono's parsers and formatters are the
  \<open>calendar\<close> record: \<open>None\<close> is a text or an instant they refuse.
\<close>

section \<open>Temporal literals\<close>

record calendar =
  cal_zoned :: "string \<Rightarrow> string \<Rightarrow> int option"
  cal_naive :: "string \<Rightarrow> string \<Rightarrow> int option"
  cal_date :: "string \<Rightarrow> int option"
  cal_format :: "string \<Rightarrow> int \<Rightarrow> string option"

definition or_try :: "'a option \<Rightarrow> 'a option \<Rightarrow> 'a option" where
  "or_try a b = (case a of None \<Rightarrow> b | Some _ \<Rightarrow> a)"

definition DAY_MICROS :: int where
  "DAY_MICROS = 86400000000"

definition parse_temporal_micros :: "calendar \<Rightarrow> string \<Rightarrow> (int \<times> bool) option" where
  "parse_temporal_micros cal v0 =
     (let v = trim v0;
          zoned = (case strip_suffix ''Z'' v of Some n \<Rightarrow> n @ ''+00'' | None \<Rightarrow> v) in
      or_try (map_option (\<lambda>m. (m, True)) (or_try (cal_zoned cal ''%Y-%m-%d %H:%M:%S%.f%#z'' zoned)
                                                  (cal_zoned cal ''%Y-%m-%dT%H:%M:%S%.f%#z'' zoned)))
     (or_try (map_option (\<lambda>m. (m, False)) (or_try (cal_naive cal ''%Y-%m-%d %H:%M:%S%.f'' v)
                                                   (cal_naive cal ''%Y-%m-%dT%H:%M:%S%.f'' v)))
             (map_option (\<lambda>d. (d * DAY_MICROS, False)) (cal_date cal v))))"

section \<open>Units\<close>

datatype watermark_unit = NaiveMicros | UtcMicros | Days | IntUnit

definition unit_of :: "data_type \<Rightarrow> bool \<Rightarrow> watermark_unit option" where
  "unit_of arrow utc_offset =
     (case arrow of
        Timestamp Microsecond _ \<Rightarrow> Some (if utc_offset then UtcMicros else NaiveMicros)
      | Date32 \<Rightarrow> Some Days
      | _ \<Rightarrow> if arrow \<in> {Int8, Int16, Int32, Int64, UInt8, UInt16, UInt32} then Some IntUnit else None)"

definition unit_parse :: "calendar \<Rightarrow> watermark_unit \<Rightarrow> string \<Rightarrow> int option" where
  "unit_parse cal u cursor =
     (if u = IntUnit then parse_signed 64 (trim cursor)
      else Option.bind (parse_temporal_micros cal cursor) (\<lambda>(micros, zoned).
        case u of
          NaiveMicros \<Rightarrow> if zoned then None else Some micros
        | UtcMicros \<Rightarrow> if zoned then Some micros else None
        | _ \<Rightarrow> if zoned then None else Some (micros div DAY_MICROS)))"

definition parse_floor :: "calendar \<Rightarrow> watermark_unit \<Rightarrow> string \<Rightarrow> int option" where
  "parse_floor cal u cursor =
     (if u = UtcMicros then map_option fst (parse_temporal_micros cal cursor)
      else unit_parse cal u cursor)"

section \<open>The tracker\<close>

definition I64_MIN :: int where "I64_MIN = - (2 ^ 63)"
definition I64_MAX :: int where "I64_MAX = 2 ^ 63 - 1"

record watermark_tracker =
  wt_idx :: nat
  wt_unit :: watermark_unit
  wt_max :: int

definition tracker_new :: "string \<Rightarrow> select_plan \<Rightarrow> bool \<Rightarrow> watermark_tracker option" where
  "tracker_new watermark sp utc_offset =
     Option.bind (find_index (\<lambda>c. c = watermark) (sp_source_columns sp)) (\<lambda>idx.
       if idx < length (sp_dest_columns sp) then
         map_option (\<lambda>u. \<lparr>wt_idx = idx, wt_unit = u, wt_max = I64_MIN\<rparr>)
           (unit_of (ct_arrow (sp_dest_columns sp ! idx)) utc_offset)
       else None)"

text \<open>The column of a batch the tracker's unit can be downcast to, as its non-NULL values.\<close>

definition unit_reads :: "watermark_unit \<Rightarrow> data_type \<Rightarrow> bool" where
  "unit_reads u t =
     (case u of
        IntUnit \<Rightarrow> t \<in> {Int8, Int16, Int32, Int64, UInt8, UInt16, UInt32}
      | Days \<Rightarrow> t = Date32
      | _ \<Rightarrow> (case t of Timestamp Microsecond _ \<Rightarrow> True | _ \<Rightarrow> False))"

fun cell_int :: "cell \<Rightarrow> int option" where
  "cell_int (CInt i) = Some i"
| "cell_int (CDate i) = Some i"
| "cell_int (CTs i) = Some i"
| "cell_int _ = None"

definition column_values :: "watermark_unit \<Rightarrow> nat \<Rightarrow> batch \<Rightarrow> int list" where
  "column_values u idx b =
     (if idx < length (bt_fields b) \<and> unit_reads u (bf_type (bt_fields b ! idx))
      then List.map_filter (\<lambda>r. cell_int (r ! idx)) (bt_rows b) else [])"

definition observe :: "watermark_tracker \<Rightarrow> batch \<Rightarrow> watermark_tracker" where
  "observe t b =
     (let local = fold (\<lambda>v m. max m v) (column_values (wt_unit t) (wt_idx t) b) I64_MIN in
      if I64_MIN < local then t\<lparr>wt_max := max (wt_max t) local\<rparr> else t)"

definition seen :: "watermark_tracker \<Rightarrow> bool" where
  "seen t \<longleftrightarrow> wt_max t \<noteq> I64_MIN"

definition try_i64 :: "nat \<Rightarrow> int" where
  "try_i64 n = (if int n \<le> I64_MAX then int n else I64_MAX)"

definition rewind_step :: "watermark_tracker \<Rightarrow> nat \<Rightarrow> int" where
  "rewind_step t rewind_secs =
     (case wt_unit t of
        IntUnit \<Rightarrow> 0
      | Days \<Rightarrow> try_i64 ((rewind_secs + 86399) div 86400)
      | _ \<Rightarrow> saturate 64 (try_i64 rewind_secs * 1000000))"

definition render_value :: "calendar \<Rightarrow> watermark_tracker \<Rightarrow> int \<Rightarrow> string option" where
  "render_value cal t v =
     (case wt_unit t of
        NaiveMicros \<Rightarrow> cal_format cal ''%Y-%m-%d %H:%M:%S%.6f'' v
      | UtcMicros \<Rightarrow> cal_format cal ''%Y-%m-%d %H:%M:%S%.6f+00'' v
      | Days \<Rightarrow> cal_format cal ''%Y-%m-%d'' (v * DAY_MICROS)
      | IntUnit \<Rightarrow> Some (show_int v))"

definition advance_from :: "calendar \<Rightarrow> watermark_tracker \<Rightarrow> string option \<Rightarrow> nat \<Rightarrow> string option" where
  "advance_from cal t cursor_floor rewind_secs =
     (if wt_max t = I64_MIN then None
      else let v = saturate 64 (wt_max t - rewind_step t rewind_secs) in
        case Option.bind cursor_floor (parse_floor cal (wt_unit t)) of
          Some f \<Rightarrow> if v \<le> f then None else render_value cal t v
        | None \<Rightarrow> render_value cal t v)"

definition rewound :: "calendar \<Rightarrow> watermark_tracker \<Rightarrow> nat \<Rightarrow> string option \<Rightarrow> int option" where
  "rewound cal t rewind_secs cursor_floor =
     (if wt_max t = I64_MIN then None
      else if 0 < rewind_secs then
        let v = saturate 64 (wt_max t - rewind_step t rewind_secs) in
        Some (case Option.bind cursor_floor (parse_floor cal (wt_unit t)) of
                Some f \<Rightarrow> max v (min f (wt_max t))
              | None \<Rightarrow> v)
      else Some (wt_max t))"

definition render_rewound :: "calendar \<Rightarrow> watermark_tracker \<Rightarrow> nat \<Rightarrow> string option \<Rightarrow> string option" where
  "render_rewound cal t rewind_secs cursor_floor =
     Option.bind (rewound cal t rewind_secs cursor_floor) (render_value cal t)"

definition stream_cursor_rewind_secs :: "f64 \<Rightarrow> nat \<Rightarrow> nat" where
  "stream_cursor_rewind_secs read_secs lookback_seconds =
     f64_as_u64 (f64_ceil (f64_max read_secs (Fin 0))) - lookback_seconds"

definition stream_rewind_secs :: "watermark_tracker \<Rightarrow> f64 \<Rightarrow> nat \<Rightarrow> nat" where
  "stream_rewind_secs t read_secs lookback_seconds =
     stream_cursor_rewind_secs read_secs
       (if wt_unit t = Days then lookback_seconds - 86400 else lookback_seconds)"

section \<open>The cursor of a run\<close>

definition seed_value :: "watermark_seed \<Rightarrow> string option \<Rightarrow> string option" where
  "seed_value seed snapshot_max =
     (case seed of NoSeed \<Rightarrow> None | SeedValue v \<Rightarrow> Some v | CurrentMax \<Rightarrow> snapshot_max)"

record cursor_plan =
  cp_last :: "string option"
  cp_seeded :: bool
  cp_rewind_to_max :: bool
  cp_floor :: "string option"
  cp_pinned :: bool
  cp_keep_committed :: bool

definition cursor_floor :: "calendar \<Rightarrow> string option \<Rightarrow> string option \<Rightarrow> watermark_tracker option
    \<Rightarrow> string option" where
  "cursor_floor cal committed seed tracker =
     (case committed of
        Some c \<Rightarrow> Some c
      | None \<Rightarrow> filter_option (\<lambda>s. case tracker of
                  None \<Rightarrow> False | Some t \<Rightarrow> unit_parse cal (wt_unit t) s \<noteq> None) seed)"

definition contains_warning :: "warning_kind \<Rightarrow> string option \<Rightarrow> warnings \<Rightarrow> bool" where
  "contains_warning kind column ws \<longleftrightarrow>
     list_ex (\<lambda>w. tw_kind w = kind \<and> tw_column w = column) (ws_raw ws)
     \<or> list_ex (\<lambda>(k, c, _). k = kind \<and> Some c = column) (ws_null_rows ws)"

section \<open>A cursor against the source's MAX\<close>

record cursor_check =
  cc_watermark :: string
  cc_cursor :: string
  cc_max :: string
  cc_cursor_ahead :: bool
  cc_max_above_lower_bound :: bool

definition find_column :: "string \<Rightarrow> column_type list \<Rightarrow> column_type option" where
  "find_column name cols = find (\<lambda>c. ct_name c = name) cols"

definition temporal_pair :: "calendar \<Rightarrow> string \<Rightarrow> string \<Rightarrow> nat \<Rightarrow> (int \<times> int \<times> int) option" where
  "temporal_pair cal cursor m lookback_seconds =
     Option.bind (parse_temporal_micros cal cursor) (\<lambda>(c, c_offset).
     Option.bind (parse_temporal_micros cal m) (\<lambda>(mx, m_offset).
       if c_offset \<noteq> m_offset \<or> \<not> in_signed 64 (int lookback_seconds) then None
       else map_option (\<lambda>l. (c, mx, l)) (checked 64 (int lookback_seconds * 1000000))))"

definition check_cursor_against_max :: "calendar \<Rightarrow> string \<Rightarrow> string \<Rightarrow> string \<Rightarrow> nat \<Rightarrow> column_type list
    \<Rightarrow> cursor_check option" where
  "check_cursor_against_max cal watermark cursor m lookback_seconds source_cols =
     Option.bind (find_column watermark source_cols) (\<lambda>col.
       map_option (\<lambda>(c, mx, lookback).
           \<lparr>cc_watermark = watermark, cc_cursor = cursor, cc_max = m, cc_cursor_ahead = mx < c,
            cc_max_above_lower_bound = saturate 64 (c - lookback) < mx\<rparr>)
         (if ct_arrow col \<in> {Int8, Int16, Int32, Int64, UInt8, UInt16, UInt32, UInt64} then
            Option.bind (parse_signed 64 (trim cursor)) (\<lambda>c.
              map_option (\<lambda>mx. (c, mx, 0)) (parse_signed 64 (trim m)))
          else (case ct_arrow col of
                  Date32 \<Rightarrow> temporal_pair cal cursor m lookback_seconds
                | Timestamp _ _ \<Rightarrow> temporal_pair cal cursor m lookback_seconds
                | OtherType t \<Rightarrow> if t = ''Date64'' then temporal_pair cal cursor m lookback_seconds else None
                | _ \<Rightarrow> None)))"

definition warn_if_cursor_ahead :: "cursor_check \<Rightarrow> string \<Rightarrow> string option \<Rightarrow> warnings \<Rightarrow> warnings" where
  "warn_if_cursor_ahead check state_key unfiltered_why ws =
     (if \<not> cc_cursor_ahead check then ws
      else push_warning
        \<lparr>tw_kind = WatermarkAheadOfSource, tw_column = Some (cc_watermark check), tw_count = 0,
         tw_sample = Some (cc_cursor check),
         tw_message = ''the incremental cursor for state_key '' @ quoted state_key @ '' ('' @ cc_cursor check
           @ '') is ahead of the source's MAX('' @ cc_watermark check @ '') ('' @ cc_max check @ ''). ''
           @ (case unfiltered_why of
                Some why_not \<Rightarrow> ''That MAX is computed through source_query, and a filter that excludes the newest rows (a rolling time window on a quiet table, say) puts it below a correct cursor. '' @ why_not
                  @ '' This run saves that MAX as the cursor all the same: moving it back costs a re-read at most, while keeping a cursor that really is ahead would skip rows. Otherwise the typical causes are a cursor converted into the wrong time zone, or one seeded from another table.''
              | None \<Rightarrow> ''Typical causes: a cursor converted into the wrong time zone, one seeded from another table, or the source's newest rows deleted. This run saves the source's MAX as the cursor. If the cursor had been shifted, rows between its true position and that MAX may never have been read; re-sync that range.'')\<rparr> ws)"

definition warn_if_not_advanced :: "cursor_check \<Rightarrow> string \<Rightarrow> nat \<Rightarrow> nat \<Rightarrow> warnings \<Rightarrow> warnings" where
  "warn_if_not_advanced check state_key lookback rows_read ws =
     (if \<not> cc_max_above_lower_bound check \<or> 0 < rows_read then ws
      else push_warning
        \<lparr>tw_kind = WatermarkNotAdvanced, tw_column = Some (cc_watermark check), tw_count = 0,
         tw_sample = Some (cc_cursor check),
         tw_message = ''the source's MAX('' @ cc_watermark check @ '') is '' @ cc_max check
           @ '', past this run's lower bound (cursor '' @ cc_cursor check @ '', lookback_seconds='' @ show_nat lookback
           @ ''), yet the read returned 0 rows for state_key '' @ quoted state_key
           @ ''. The row holding that MAX satisfies the filter, so something between the bound and the predicate is wrong, typically a cursor the source compares differently than it was written. (Or that row changed between the MAX probe and the read, in which case the next run reads it.)''\<rparr> ws)"

definition warn_on_unwatermarked_read :: "string \<Rightarrow> string option \<Rightarrow> nat \<Rightarrow> warnings \<Rightarrow> warnings" where
  "warn_on_unwatermarked_read state_key watermark rows_read ws =
     (let w = (case watermark of Some w \<Rightarrow> w | None \<Rightarrow> ''?'') in
      if contains_warning NullWatermark (Some w) ws then ws
      else push_warning
        \<lparr>tw_kind = NullWatermark, tw_column = Some w, tw_count = rows_read, tw_sample = None,
         tw_message = ''the incremental read for state_key '' @ quoted state_key @ '' returned '' @ show_nat rows_read
           @ '' row(s), but none had a non-NULL '' @ quoted w @ '', so there is no cursor to save (cursor unchanged). The next run has no lower bound either and reads every row again, as will each run after it. Populate '' @ quoted w
           @ '', pick a watermark column that is set on every row, or load the table with mode=\"full\". Once a cursor exists, `WHERE '' @ w @ '' > x` never matches the NULL rows.''\<rparr> ws)"

section \<open>The largest watermark\<close>

definition tracker_values :: "watermark_tracker \<Rightarrow> batch list \<Rightarrow> int list" where
  "tracker_values t bs = concat (map (column_values (wt_unit t) (wt_idx t)) bs)"

definition observe_all :: "batch list \<Rightarrow> watermark_tracker \<Rightarrow> watermark_tracker" where
  "observe_all bs t = fold (\<lambda>b t. observe t b) bs t"

lemma fold_max_Max: "fold (\<lambda>v m. max m v) vs (m::int) = Max (insert m (set vs))"
proof (induction vs arbitrary: m)
  case (Cons v vs)
  have "Max (insert (max m v) (set vs)) = Max (insert m (insert v (set vs)))"
    by (cases "set vs = {}") (auto simp: max.assoc Max_insert)
  then show ?case using Cons by simp
qed simp

lemma observe_unit [simp]:
  "wt_unit (observe t b) = wt_unit t" "wt_idx (observe t b) = wt_idx t"
  by (simp_all add: observe_def Let_def)

lemma observe_max:
  assumes "I64_MIN \<le> wt_max t"
  shows "wt_max (observe t b) = Max (insert (wt_max t) (set (column_values (wt_unit t) (wt_idx t) b)))"
proof -
  let ?vs = "column_values (wt_unit t) (wt_idx t) b"
  define M where "M = Max (insert I64_MIN (set ?vs))"
  have ge: "I64_MIN \<le> M" by (simp add: M_def Max_ge_iff)
  have "wt_max (observe t b) = (if I64_MIN < M then max (wt_max t) M else wt_max t)"
    by (simp add: observe_def Let_def fold_max_Max M_def)
  then have "wt_max (observe t b) = max (wt_max t) (Max (insert I64_MIN (set ?vs)))"
    using ge assms by (auto simp: M_def[symmetric])
  also have "\<dots> = Max (insert (wt_max t) (set ?vs))"
    using assms by (cases "set ?vs = {}") (auto simp: max_def)
  finally show ?thesis .
qed

lemma Max_insert_insert:
  "finite A \<Longrightarrow> finite B \<Longrightarrow> Max (insert (Max (insert m A)) B) = Max (insert (m::int) (A \<union> B))"
  using Max_Un[of "insert m A" B] by (cases "B = {}") auto

lemma observe_all_max:
  assumes "I64_MIN \<le> wt_max t"
  shows "wt_max (observe_all bs t) = Max (insert (wt_max t) (set (tracker_values t bs)))"
  using assms
proof (induction bs arbitrary: t)
  case Nil
  then show ?case by (simp add: observe_all_def tracker_values_def)
next
  case (Cons b bs)
  let ?A = "set (column_values (wt_unit t) (wt_idx t) b)"
  have m: "wt_max (observe t b) = Max (insert (wt_max t) ?A)" by (rule observe_max) (rule Cons.prems)
  then have ge: "I64_MIN \<le> wt_max (observe t b)" using Cons.prems by (simp add: Max_ge_iff)
  have "wt_max (observe_all (b # bs) t) = wt_max (observe_all bs (observe t b))"
    by (simp add: observe_all_def)
  also have "\<dots> = Max (insert (wt_max (observe t b)) (set (tracker_values (observe t b) bs)))"
    by (rule Cons.IH) (rule ge)
  also have "\<dots> = Max (insert (wt_max t) ?A \<union> set (tracker_values t bs))"
    using m by (simp add: tracker_values_def Max_insert_insert)
  finally show ?case by (simp add: tracker_values_def Un_assoc)
qed

lemma observe_all_unit [simp]:
  "wt_unit (observe_all bs t) = wt_unit t" "wt_idx (observe_all bs t) = wt_idx t"
  by (induction bs arbitrary: t) (auto simp: observe_all_def)

lemma observe_all_more:
  "observe_all bs t = t\<lparr>wt_max := wt_max (observe_all bs t)\<rparr>"
  by (rule watermark_tracker.equality) auto

lemma tracker_values_mset:
  "mset bs = mset bs' \<Longrightarrow> set (tracker_values t bs) = set (tracker_values t bs')"
  by (auto simp: tracker_values_def dest!: mset_eq_setD)

lemma tracker_new_fresh: "tracker_new w sp off = Some t \<Longrightarrow> wt_max t = I64_MIN"
  by (auto simp: tracker_new_def split: Option.bind_splits if_splits)

lemma saturate_range: "I64_MIN \<le> x \<Longrightarrow> x \<le> I64_MAX \<Longrightarrow> saturate 64 x = x"
  by (auto simp: saturate_def I64_MIN_def I64_MAX_def)

text \<open>What the two save paths make of the largest watermark \<open>m\<close> read, rewound by \<open>r\<close> seconds.\<close>

definition rewound_from :: "watermark_tracker \<Rightarrow> nat \<Rightarrow> int \<Rightarrow> int" where
  "rewound_from t r m = saturate 64 (m - rewind_step t r)"

lemma rewind_step_nonneg: "0 \<le> rewind_step t r"
  by (auto simp: rewind_step_def try_i64_def saturate_def I64_MAX_def split: watermark_unit.split)

lemma rewound_from_le:
  assumes "I64_MIN \<le> m" "m \<le> I64_MAX"
  shows "rewound_from t r m \<le> m"
  using assms rewind_step_nonneg[of t r] by (auto simp: rewound_from_def saturate_def I64_MIN_def I64_MAX_def)

lemma observed_max:
  assumes "tracker_new w sp utc_offset = Some t"
    and "\<forall>v \<in> set (tracker_values t bs). I64_MIN < v \<and> v \<le> I64_MAX"
  shows "wt_max (observe_all bs t) = (if tracker_values t bs = [] then I64_MIN else Max (set (tracker_values t bs)))"
    "tracker_values t bs \<noteq> [] \<Longrightarrow> I64_MIN < Max (set (tracker_values t bs)) \<and> Max (set (tracker_values t bs)) \<le> I64_MAX"
proof -
  let ?vs = "tracker_values t bs"
  have fresh: "wt_max t = I64_MIN" using assms(1) by (rule tracker_new_fresh)
  have m: "wt_max (observe_all bs t) = Max (insert I64_MIN (set ?vs))"
    using fresh by (subst observe_all_max) auto
  have "Max (set ?vs) \<in> set ?vs" if "?vs \<noteq> []" using that by simp
  then show r: "?vs \<noteq> [] \<Longrightarrow> I64_MIN < Max (set ?vs) \<and> Max (set ?vs) \<le> I64_MAX" using assms(2) by blast
  show "wt_max (observe_all bs t) = (if ?vs = [] then I64_MIN else Max (set ?vs))"
    using m r by (cases "?vs = []") auto
qed

lemma observed_unit [simp]:
  "rewind_step (observe_all bs t) r = rewind_step t r"
  "render_value cal (observe_all bs t) v = render_value cal t v"
  by (simp_all add: rewind_step_def render_value_def split: watermark_unit.split)

text \<open>C21. Both ways a cursor is saved from what was read start from the largest non-NULL watermark of the
  batches, whatever order the partitions delivered them in, and save nothing when no row had one.  After a
  read bounded by the table's MAX it is that watermark less the rewind, or nothing when this is not past the
  cursor the run started from; otherwise it is that watermark itself where nothing is rewound, and else that
  watermark less the rewind, but not below the cursor the run started from unless that is past the
  watermark.  What is saved never exceeds the largest watermark read.\<close>

theorem tracker_saves_largest_watermark:
  fixes cal :: calendar and fl :: "string option"
  assumes "tracker_new w sp utc_offset = Some t"
    and "\<forall>v \<in> set (tracker_values t bs). I64_MIN < v \<and> v \<le> I64_MAX"
  defines "m \<equiv> Max (set (tracker_values t bs))"
  defines "start \<equiv> Option.bind fl (parse_floor cal (wt_unit t))"
  shows "advance_from cal (observe_all bs t) fl r =
      (if tracker_values t bs = [] \<or> (\<exists>f. start = Some f \<and> rewound_from t r m \<le> f) then None
       else render_value cal t (rewound_from t r m))
    \<and> rewound cal (observe_all bs t) r fl =
      (if tracker_values t bs = [] then None
       else if r = 0 then Some m
       else Some (case start of Some f \<Rightarrow> max (rewound_from t r m) (min f m) | None \<Rightarrow> rewound_from t r m))
    \<and> render_rewound cal (observe_all bs t) r fl = Option.bind (rewound cal (observe_all bs t) r fl) (render_value cal t)
    \<and> (tracker_values t bs \<noteq> [] \<longrightarrow> rewound_from t r m \<le> m)
    \<and> (mset bs' = mset bs \<longrightarrow> observe_all bs' t = observe_all bs t)"
proof (intro conjI impI)
  let ?vs = "tracker_values t bs"
  note mx = observed_max[OF assms(1,2), folded m_def]
  have seen: "wt_max (observe_all bs t) = I64_MIN \<longleftrightarrow> ?vs = []" using mx by auto
  show "advance_from cal (observe_all bs t) fl r =
      (if ?vs = [] \<or> (\<exists>f. start = Some f \<and> rewound_from t r m \<le> f) then None
       else render_value cal t (rewound_from t r m))"
    using mx(1) by (auto simp: advance_from_def seen start_def rewound_from_def Let_def split: option.split)
  show "rewound cal (observe_all bs t) r fl =
      (if ?vs = [] then None else if r = 0 then Some m
       else Some (case start of Some f \<Rightarrow> max (rewound_from t r m) (min f m) | None \<Rightarrow> rewound_from t r m))"
    using mx(1) by (auto simp: rewound_def seen start_def rewound_from_def Let_def split: option.split)
  show "render_rewound cal (observe_all bs t) r fl = Option.bind (rewound cal (observe_all bs t) r fl) (render_value cal t)"
    by (simp add: render_rewound_def cong: Option.bind_cong)
  show "rewound_from t r m \<le> m" if "?vs \<noteq> []" using mx(2)[OF that] by (intro rewound_from_le) auto
  assume "mset bs' = mset bs"
  then have "wt_max (observe_all bs' t) = wt_max (observe_all bs t)"
    using tracker_new_fresh[OF assms(1)] tracker_values_mset[of bs' bs t] by (simp add: observe_all_max)
  then show "observe_all bs' t = observe_all bs t"
    by (subst (1 2) observe_all_more) simp
qed

definition no_calendar :: calendar where
  "no_calendar = \<lparr>cal_zoned = \<lambda>_ _. None, cal_naive = \<lambda>_ _. None, cal_date = \<lambda>_. None,
     cal_format = \<lambda>f v. Some (show_int v)\<rparr>"

definition sample_ids :: "string \<Rightarrow> int list \<Rightarrow> batch" where
  "sample_ids name ds = \<lparr>bt_fields = [\<lparr>bf_name = name, bf_type = Int64, bf_nullable = True\<rparr>],
     bt_rows = [CNull] # map (\<lambda>d. [CInt d]) ds\<rparr>"

definition sample_ids_plan :: select_plan where
  "sample_ids_plan = \<lparr>sp_source_columns = [''id''], sp_source_select_exprs = [None],
     sp_dest_columns = [\<lparr>ct_name = ''id'', ct_type_id = 20, ct_nullable = True, ct_arrow = Int64,
        ct_clickhouse_inner = ''Int64'', ct_arbitrary_precision_decimal = False, ct_declared_decimal = None\<rparr>]\<rparr>"

theorem tracker_saves_largest_watermark_witness:
  "\<exists>t. tracker_new ''id'' sample_ids_plan False = Some t
     \<and> advance_from no_calendar (observe_all [sample_ids ''id'' [3, 20], sample_ids ''id'' [7]] t) None 0
         = Some ''20''
     \<and> rewound no_calendar (observe_all [sample_ids ''id'' [3, 20], sample_ids ''id'' [7]] t) 0 None = Some 20"
proof -
  let ?t = "\<lparr>wt_idx = 0, wt_unit = IntUnit, wt_max = I64_MIN\<rparr>"
  let ?bs = "[sample_ids ''id'' [3, 20], sample_ids ''id'' [7]]"
  have t: "tracker_new ''id'' sample_ids_plan False = Some ?t" by code_simp
  have vs: "tracker_values ?t ?bs = [3, 20, 7]"
    by (simp add: tracker_values_def column_values_def sample_ids_def unit_reads_def map_filter_def)
  have "render_value no_calendar ?t 20 = Some ''20''" by code_simp
  moreover have "rewound_from ?t 0 20 = 20" by code_simp
  ultimately show ?thesis
    using tracker_saves_largest_watermark[OF t, of ?bs no_calendar None 0 ?bs] t vs
    by (auto simp: I64_MIN_def I64_MAX_def)
qed

section \<open>A stream cursor never skips a change\<close>

definition unit_micros :: "watermark_unit \<Rightarrow> int" where
  "unit_micros u = (if u = Days then DAY_MICROS else 1)"

text \<open>The watermark a change at instant \<open>t\<close> (in microseconds) writes.\<close>

definition stamp :: "watermark_unit \<Rightarrow> int \<Rightarrow> int" where
  "stamp u t = t div unit_micros u"

lemma saturate_sub_le:
  assumes "I64_MIN \<le> m" "m \<le> I64_MAX" "0 \<le> s"
  shows "saturate 64 (m - min I64_MAX s) \<le> max 0 (m - s)" "saturate 64 (m - min I64_MAX s) \<le> m"
  using assms by (auto simp: saturate_def I64_MIN_def I64_MAX_def)

lemma try_i64_min: "try_i64 n = min I64_MAX (int n)"
  by (simp add: try_i64_def)

lemma rewind_step_micros:
  assumes "wt_unit t = NaiveMicros \<or> wt_unit t = UtcMicros"
  shows "rewind_step t r = min I64_MAX (int r * 1000000)"
proof -
  have "rewind_step t r = saturate 64 (min I64_MAX (int r) * 1000000)"
    using assms by (auto simp: rewind_step_def try_i64_min)
  then show ?thesis by (auto simp: saturate_def I64_MAX_def min_def)
qed

lemma rewind_step_days:
  "wt_unit t = Days \<Longrightarrow> rewind_step t r = min I64_MAX ((int r + 86399) div 86400)"
  by (simp add: rewind_step_def try_i64_min zdiv_int)

lemma div_floor_bounds:
  assumes "0 < (d::int)"
  shows "a div d * d \<le> a" "a < (a div d + 1) * d"
proof -
  have "a div d * d + a mod d = a" by simp
  moreover have "0 \<le> a mod d" "a mod d < d" using assms by auto
  ultimately show "a div d * d \<le> a" "a < (a div d + 1) * d"
    unfolding distrib_right by linarith+
qed

lemma DAY_MICROS_pos: "0 < DAY_MICROS"
  by (simp add: DAY_MICROS_def)

lemma day_rewind_covers:
  fixes r :: nat
  assumes "m \<le> t_end div DAY_MICROS" "t_end \<le> t_start + q * 1000000"
    and "int r = max 0 (q - max 0 (L - 86400))" "0 \<le> L"
  shows "(m - (int r + 86399) div 86400) * DAY_MICROS - L * 1000000 \<le> t_start div DAY_MICROS * DAY_MICROS"
    "0 < L \<Longrightarrow> (m - (int r + 86399) div 86400) * DAY_MICROS - L * 1000000 < t_start div DAY_MICROS * DAY_MICROS"
proof -
  define s where "s = (int r + 86399) div 86400"
  define k where "k = t_start div DAY_MICROS"
  have s: "int r \<le> s * 86400" using div_floor_bounds(2)[of 86400 "int r + 86399"] by (simp add: s_def)
  have "m * DAY_MICROS \<le> t_end div DAY_MICROS * DAY_MICROS"
    using assms(1) by (intro mult_right_mono) (simp_all add: DAY_MICROS_def)
  also have "\<dots> \<le> t_end" using DAY_MICROS_pos by (rule div_floor_bounds)
  finally have m: "m * DAY_MICROS \<le> t_start + q * 1000000" using assms(2) by simp
  have k: "t_start < (k + 1) * DAY_MICROS" unfolding k_def using DAY_MICROS_pos by (rule div_floor_bounds)
  have "(m - s) * DAY_MICROS - L * 1000000 \<le> k * DAY_MICROS
      \<and> (0 < L \<longrightarrow> (m - s) * DAY_MICROS - L * 1000000 < k * DAY_MICROS)"
  proof (cases "L \<le> 86400")
    case True
    then have "q \<le> s * 86400" using s assms(3) by linarith
    then have "(m - s) * DAY_MICROS < (k + 1) * DAY_MICROS"
      using m k unfolding DAY_MICROS_def left_diff_distrib by linarith
    then have "m - s \<le> k" by (simp add: DAY_MICROS_def)
    then have "(m - s) * DAY_MICROS \<le> k * DAY_MICROS" by (simp add: DAY_MICROS_def)
    then show ?thesis using assms(4) by linarith
  next
    case False
    then have "q - L + 86400 \<le> s * 86400" using s assms(3) by linarith
    then show ?thesis
      using m k unfolding DAY_MICROS_def left_diff_distrib distrib_right by linarith
  qed
  then show "(m - (int r + 86399) div 86400) * DAY_MICROS - L * 1000000 \<le> t_start div DAY_MICROS * DAY_MICROS"
    "0 < L \<Longrightarrow> (m - (int r + 86399) div 86400) * DAY_MICROS - L * 1000000 < t_start div DAY_MICROS * DAY_MICROS"
    unfolding s_def[symmetric] k_def[symmetric] by blast+
qed

lemma stream_step_covers:
  assumes "wt_unit t \<noteq> IntUnit"
    and "wt_max t \<le> stamp (wt_unit t) t_end"
    and took: "of_int (t_end - t_start) \<le> read_secs * 1000000" "0 \<le> read_secs" "read_secs \<le> 2 ^ 63"
  obtains s where "rewind_step t (stream_rewind_secs t (Fin read_secs) L) = min I64_MAX s" "0 \<le> s"
    "stream_rewind_secs t (Fin read_secs) L = 0 \<longrightarrow> s = 0"
    "(wt_max t - s) * unit_micros (wt_unit t) - int L * 1000000
       \<le> stamp (wt_unit t) t_start * unit_micros (wt_unit t)"
    "wt_unit t = Days \<and> 0 < L \<longrightarrow> (wt_max t - s) * unit_micros (wt_unit t) - int L * 1000000
       < stamp (wt_unit t) t_start * unit_micros (wt_unit t)"
proof -
  let ?u = "wt_unit t"
  define covered where "covered = (if ?u = Days then L - 86400 else L)"
  define r where "r = stream_rewind_secs t (Fin read_secs) L"
  have "nat \<lceil>read_secs\<rceil> \<le> 2 ^ 64 - 1" using took(3) by (simp add: nat_le_iff ceiling_le_iff)
  then have "f64_as_u64 (f64_ceil (f64_max (Fin read_secs) (Fin 0))) = nat \<lceil>read_secs\<rceil>"
    using took(2) by (simp add: f64_max_def f64_as_u64_ceil min_absorb2 del: f64_ceil.simps f64_as_u64.simps)
  then have r: "int r = max 0 (\<lceil>read_secs\<rceil> - int covered)"
    using took(2) by (auto simp: r_def stream_rewind_secs_def stream_cursor_rewind_secs_def covered_def)
  have "of_int (t_end - t_start) \<le> (of_int (\<lceil>read_secs\<rceil> * 1000000) :: rat)"
    using took(1) by (simp add: order_trans[OF _ mult_right_mono])
  then have t_end: "t_end \<le> t_start + \<lceil>read_secs\<rceil> * 1000000" by linarith
  define s where "s = (if ?u = Days then (int r + 86399) div 86400 else int r * 1000000)"
  have step: "rewind_step t r = min I64_MAX s" "0 \<le> s" "r = 0 \<longrightarrow> s = 0"
    using assms(1) by (cases ?u; simp add: s_def rewind_step_micros rewind_step_days)+
  have base: "(wt_max t - s) * unit_micros ?u - int L * 1000000 \<le> stamp ?u t_start * unit_micros ?u"
  proof (cases "?u = Days")
    case True
    have "int covered = max 0 (int L - 86400)" using True by (auto simp: covered_def)
    then show ?thesis
      using day_rewind_covers(1)[of "wt_max t" t_end t_start "\<lceil>read_secs\<rceil>" r "int L"] True assms(2) t_end r
      by (simp add: s_def stamp_def unit_micros_def)
  next
    case False
    have "\<lceil>read_secs\<rceil> - int L \<le> int r" using False r by (simp add: covered_def)
    then show ?thesis using False assms(2) t_end by (simp add: s_def stamp_def unit_micros_def)
  qed
  have strict: "?u = Days \<and> 0 < L \<longrightarrow> (wt_max t - s) * unit_micros ?u - int L * 1000000 < stamp ?u t_start * unit_micros ?u"
  proof
    assume dated: "?u = Days \<and> 0 < L"
    have "int covered = max 0 (int L - 86400)" using dated by (auto simp: covered_def)
    then show "(wt_max t - s) * unit_micros ?u - int L * 1000000 < stamp ?u t_start * unit_micros ?u"
      using day_rewind_covers(2)[of "wt_max t" t_end t_start "\<lceil>read_secs\<rceil>" r "int L"] dated assms(2) t_end r
      by (simp add: s_def stamp_def unit_micros_def)
  qed
  show thesis using step base strict unfolding r_def by (rule that)
qed

lemma rewound_step_below:
  assumes range: "I64_MIN \<le> wt_max t" "wt_max t \<le> I64_MAX" and s: "0 \<le> s"
    and base: "(wt_max t - s) * unit_micros u - k < b" and b: "0 < b" "0 \<le> k"
  shows "saturate 64 (wt_max t - min I64_MAX s) * unit_micros u - k < b"
proof -
  let ?x = "saturate 64 (wt_max t - min I64_MAX s)"
  have le: "?x \<le> max 0 (wt_max t - s)" using range s by (rule saturate_sub_le)
  have um: "0 < unit_micros u" by (simp add: unit_micros_def DAY_MICROS_def)
  then have "?x * unit_micros u \<le> max 0 (wt_max t - s) * unit_micros u" using le by simp
  then show ?thesis using base b by (auto simp: max_def split: if_splits)
qed

text \<open>C22. A read of several statements into a temporal cursor (which takes its own time, \<open>read_secs\<close> at least, and
  reads no watermark from its future) saves a cursor that skips no change made while it ran: every change
  after its start carries a watermark strictly past the next run's lower bound, the cursor less the lookback, for
  instants and, with any lookback, for dates, whose watermark is the day alone; provided the cursor the run itself
  started from was not ahead of the clock.  And the cursor never exceeds what was read.\<close>

theorem stream_cursor_covers_read:
  assumes temporal: "wt_unit t \<noteq> IntUnit" "wt_unit t = Days \<Longrightarrow> 0 < L"
    and range: "I64_MIN \<le> wt_max t" "wt_max t \<le> I64_MAX"
    and clock: "wt_max t \<le> stamp (wt_unit t) t_end" "DAY_MICROS \<le> t_start"
    and took: "of_int (t_end - t_start) \<le> read_secs * 1000000" "0 \<le> read_secs" "read_secs \<le> 2 ^ 63"
    and v: "rewound cal t (stream_rewind_secs t (Fin read_secs) L) fl = Some v"
    and start: "\<And>f. Option.bind fl (parse_floor cal (wt_unit t)) = Some f \<Longrightarrow> f \<le> stamp (wt_unit t) t_start"
    and change: "t_start < c"
  shows "v \<le> wt_max t
    \<and> v * unit_micros (wt_unit t) - int L * 1000000 < stamp (wt_unit t) c * unit_micros (wt_unit t)"
proof -
  let ?u = "wt_unit t" let ?m = "wt_max t" let ?r = "stream_rewind_secs t (Fin read_secs) L"
  let ?c = "stamp ?u c * unit_micros ?u"
  obtain s where step: "rewind_step t ?r = min I64_MAX s" "0 \<le> s" "?r = 0 \<longrightarrow> s = 0"
    and base: "(?m - s) * unit_micros ?u - int L * 1000000 \<le> stamp ?u t_start * unit_micros ?u"
    and strict: "?u = Days \<and> 0 < L \<longrightarrow> (?m - s) * unit_micros ?u - int L * 1000000 < stamp ?u t_start * unit_micros ?u"
    by (rule stream_step_covers[OF temporal(1) clock(1) took, of L])
  have mono: "stamp ?u t_start * unit_micros ?u \<le> ?c"
    using change by (auto simp: stamp_def unit_micros_def DAY_MICROS_def zdiv_mono1)
  have later: "?u \<noteq> Days \<Longrightarrow> stamp ?u t_start * unit_micros ?u < ?c"
    using change by (simp add: stamp_def unit_micros_def)
  have pos: "0 < ?c" using clock(2) change
    by (auto simp: stamp_def unit_micros_def DAY_MICROS_def pos_imp_zdiv_pos_iff)
  have below: "(?m - s) * unit_micros ?u - int L * 1000000 < ?c"
    using base strict mono later temporal(2) by (cases "?u = Days") auto
  have floor_below: "x * unit_micros ?u - int L * 1000000 < ?c"
    if "Option.bind fl (parse_floor cal ?u) = Some f" "x \<le> f" for f x
  proof -
    have "x * unit_micros ?u \<le> stamp ?u t_start * unit_micros ?u"
      using start[OF that(1)] that(2) by (intro mult_right_mono) (auto simp: unit_micros_def DAY_MICROS_def)
    then show ?thesis using mono later temporal(2) by (cases "?u = Days") auto
  qed
  note moved = rewound_step_below[OF range step(2) below pos, simplified]
  have le: "saturate 64 (?m - min I64_MAX s) \<le> ?m" using saturate_sub_le(2)[OF range step(2)] .
  show ?thesis
  proof (cases "0 < ?r")
    case True
    then have "v = (let w = saturate 64 (?m - min I64_MAX s) in
        case Option.bind fl (parse_floor cal ?u) of Some f \<Rightarrow> max w (min f ?m) | None \<Rightarrow> w)"
      using v step(1) by (auto simp: rewound_def Let_def split: if_splits)
    then consider "v = saturate 64 (?m - min I64_MAX s)"
      | f where "Option.bind fl (parse_floor cal ?u) = Some f" "v = min f ?m"
      by (auto simp: Let_def max_def split: option.splits if_splits)
    then show ?thesis
    proof cases
      case 1
      then show ?thesis using moved le by simp
    next
      case 2
      then show ?thesis using floor_below[OF 2(1), of v] by simp
    qed
  next
    case False
    then have "v = ?m" "s = 0" using v step(3) by (auto simp: rewound_def split: if_splits)
    then show ?thesis using below by simp
  qed
qed

theorem stream_cursor_covers_read_witness:
  "(19998 :: int) * unit_micros Days - int 60 * 1000000 < stamp Days 1727990000000001 * unit_micros Days"
proof -
  let ?t = "\<lparr>wt_idx = 0, wt_unit = Days, wt_max = 20001\<rparr>"
  have "rewound no_calendar ?t (stream_rewind_secs ?t (Fin 172801) 60) None = Some 19998"
    by (simp add: rewound_def stream_rewind_secs_def stream_cursor_rewind_secs_def f64_max_def
        rewind_step_def try_i64_def saturate_def I64_MIN_def I64_MAX_def)
  then show ?thesis
    using stream_cursor_covers_read[of ?t 60 1728100000000000 1727990000000000 172801 no_calendar None 19998 1727990000000001]
    by (simp add: I64_MIN_def I64_MAX_def stamp_def unit_micros_def DAY_MICROS_def)
qed

text \<open>Without a lookback a \<open>DATE\<close> cursor moved back a day stands at the day the read started on, which the next run's
  strict bound excludes: a change made later that day, after the read passed it, is skipped.  A 20-second read
  from ten seconds before midnight:\<close>

theorem date_change_at_bound_skipped:
  "let t = \<lparr>wt_idx = 0, wt_unit = Days, wt_max = 20000\<rparr>; t_start = 20000 * DAY_MICROS - 10000000; c = t_start + 5000000 in
   rewound no_calendar t (stream_rewind_secs t (Fin 20) 0) None = Some (stamp Days c)
   \<and> t_start < c \<and> wt_max t = stamp Days (t_start + 20000000)"
  by (simp add: rewound_def stream_rewind_secs_def stream_cursor_rewind_secs_def f64_max_def
        rewind_step_def try_i64_def saturate_def I64_MIN_def I64_MAX_def stamp_def unit_micros_def DAY_MICROS_def)

end
