(* ===== verification/QH_Pipeline.thy ===== *)
theory QH_Pipeline
  imports QH_Memory QH_Watermark
begin

text \<open>
  The write side of a read in \<open>sync.rs\<close>: decoded batches pass the tracker and the NULL guard, are
  gathered in an insert buffer under a memory reservation each, and go out as background inserts
  that give the reservations back when they end.  A reader that finds the budget full sends its own
  buffer first and then waits: \<open>rd_waiting\<close> is the push suspended in \<open>reserve\<close>.  The size Arrow
  reports for a batch is an argument.
\<close>

section \<open>The insert buffer\<close>

record insert_buffer =
  ib_batches :: "batch list"
  ib_reservations :: "reservation list"
  ib_sizes :: "nat list"
  ib_bytes :: nat
  ib_target :: nat
  ib_takes :: nat
  ib_deferred :: bool
  ib_null_rows :: "(warning_kind \<times> string \<times> nat) list"

record buffer_mark =
  bm_takes :: nat
  bm_len :: nat
  bm_null_rows :: nat

definition insert_buffer_new :: "nat \<Rightarrow> insert_buffer" where
  "insert_buffer_new target =
     \<lparr>ib_batches = [], ib_reservations = [], ib_sizes = [], ib_bytes = 0, ib_target = target,
      ib_takes = 0, ib_deferred = False, ib_null_rows = []\<rparr>"

definition buffer_full :: "insert_buffer \<Rightarrow> bool" where
  "buffer_full ib \<longleftrightarrow> ib_batches ib \<noteq> [] \<and> ib_target ib \<le> ib_bytes ib"

definition buffer_empty :: "insert_buffer \<Rightarrow> bool" where
  "buffer_empty ib \<longleftrightarrow> ib_batches ib = []"

definition buffer_push :: "batch \<Rightarrow> reservation \<Rightarrow> nat \<Rightarrow> insert_buffer \<Rightarrow> bool \<times> insert_buffer" where
  "buffer_push b r n ib =
     (let ib' = ib\<lparr>ib_batches := ib_batches ib @ [b], ib_reservations := ib_reservations ib @ [r],
                   ib_sizes := ib_sizes ib @ [n], ib_bytes := ib_bytes ib + n\<rparr>
      in (\<not> ib_deferred ib' \<and> ib_target ib' \<le> ib_bytes ib', ib'))"

definition buffer_take :: "insert_buffer \<Rightarrow> (batch list \<times> reservation list) \<times> insert_buffer" where
  "buffer_take ib =
     ((ib_batches ib, ib_reservations ib),
      ib\<lparr>ib_bytes := 0, ib_takes := ib_takes ib + 1, ib_sizes := [], ib_batches := [],
         ib_reservations := []\<rparr>)"

definition buffer_mark_of :: "insert_buffer \<Rightarrow> buffer_mark" where
  "buffer_mark_of ib =
     \<lparr>bm_takes = ib_takes ib, bm_len = length (ib_batches ib), bm_null_rows = length (ib_null_rows ib)\<rparr>"

text \<open>The reservations past \<open>keep\<close> are dropped: they are the second result.\<close>

definition buffer_truncate :: "buffer_mark \<Rightarrow> insert_buffer \<Rightarrow> insert_buffer \<times> reservation list" where
  "buffer_truncate mark ib =
     (let keep = (if bm_takes mark = ib_takes ib then min (bm_len mark) (length (ib_batches ib)) else 0) in
      (ib\<lparr>ib_batches := take keep (ib_batches ib), ib_reservations := take keep (ib_reservations ib),
          ib_sizes := take keep (ib_sizes ib), ib_bytes := sum_list (take keep (ib_sizes ib)),
          ib_null_rows := take (bm_null_rows mark) (ib_null_rows ib)\<rparr>,
       drop keep (ib_reservations ib)))"

section \<open>A reader and the run it writes for\<close>

record send =
  sd_schema :: "batch_field list"
  sd_batches :: "batch list"
  sd_reservations :: "reservation list"

record reader =
  rd_sends :: "send list"
  rd_ended :: "unit res list"
  rd_buf :: insert_buffer
  rd_schema :: "batch_field list option"
  rd_waiting :: "(batch \<times> nat \<times> batch_field list) option"

record send_ctx =
  sc_budget :: memory_budget
  sc_tracker :: "watermark_tracker option"
  sc_guard :: "null_guard option"
  sc_warnings :: warnings
  sc_rows_written :: nat
  sc_bytes_written :: nat
  sc_landed :: "nat option"
  sc_table :: "batch list"

definition reader_new :: "nat \<Rightarrow> reader" where
  "reader_new insert_bytes =
     \<lparr>rd_sends = [], rd_ended = [], rd_buf = insert_buffer_new insert_bytes, rd_schema = None,
      rd_waiting = None\<rparr>"

definition ctx_decode_columns :: "send_ctx \<Rightarrow> column_type list \<Rightarrow> column_type list" where
  "ctx_decode_columns ctx cols =
     (case sc_guard ctx of Some g \<Rightarrow> decode_columns g cols | None \<Rightarrow> cols)"

definition count_null_rows :: "(warning_kind \<times> string \<times> nat) list \<Rightarrow> warnings \<Rightarrow> warnings" where
  "count_null_rows ts ws = fold (\<lambda>(k, c, n). null_rows k c n) ts ws"

definition flush :: "send_ctx \<Rightarrow> batch_field list \<Rightarrow> reader \<Rightarrow> reader" where
  "flush ctx schema rd =
     (if buffer_empty (rd_buf rd) then rd
      else let strict = (case sc_guard ctx of Some g \<Rightarrow> strict_schema g schema | None \<Rightarrow> schema);
               ((bs, rs), ib) = buffer_take (rd_buf rd)
           in rd\<lparr>rd_buf := ib,
                 rd_sends := rd_sends rd @ [\<lparr>sd_schema = strict, sd_batches = bs, sd_reservations = rs\<rparr>]\<rparr>)"

definition push_reserved :: "send_ctx \<Rightarrow> batch_field list \<Rightarrow> batch \<Rightarrow> reservation \<Rightarrow> nat \<Rightarrow> reader \<Rightarrow> reader" where
  "push_reserved ctx schema b r n rd =
     (let (worth, ib) = buffer_push b r n (rd_buf rd);
          rd' = rd\<lparr>rd_buf := ib\<rparr>
      in if worth then flush ctx schema rd' else rd')"

text \<open>The tracker and the guard; \<open>None\<close> when no row is left to write.\<close>

definition guard_batch :: "batch \<Rightarrow> send_ctx \<Rightarrow> reader \<Rightarrow> (send_ctx \<times> reader \<times> batch option) res" where
  "guard_batch b ctx0 rd =
     (let ctx = ctx0\<lparr>sc_tracker := map_option (\<lambda>t. observe t b) (sc_tracker ctx0)\<rparr> in
      case sc_guard ctx of
        None \<Rightarrow> Inr (ctx, rd, Some b)
      | Some g \<Rightarrow> and_then (guard_filter g b) (\<lambda>f.
          let ts = tallies g f;
              (ctx', rd') =
                (if ib_deferred (rd_buf rd)
                 then (ctx, rd\<lparr>rd_buf := (rd_buf rd)\<lparr>ib_null_rows := ib_null_rows (rd_buf rd) @ ts\<rparr>\<rparr>)
                 else (ctx\<lparr>sc_warnings := count_null_rows ts (sc_warnings ctx)\<rparr>, rd))
          in Inr (ctx', rd', if bt_rows (fl_batch f) = [] then None else Some (fl_batch f))))"

definition push_batch :: "(batch \<Rightarrow> nat) \<Rightarrow> batch_field list \<Rightarrow> batch \<Rightarrow> send_ctx \<Rightarrow> reader
    \<Rightarrow> (send_ctx \<times> reader) res" where
  "push_batch mem_size schema b ctx0 rd0 =
     and_then (guard_batch b ctx0 rd0) (\<lambda>(ctx, rd, kept).
       case kept of
         None \<Rightarrow> Inr (ctx, rd)
       | Some b' \<Rightarrow>
           (case try_reserve (mem_size b') (sc_budget ctx) of
              Some (budget, r) \<Rightarrow>
                Inr (ctx\<lparr>sc_budget := budget\<rparr>, push_reserved ctx schema b' r (mem_size b') rd)
            | None \<Rightarrow>
                Inr (ctx, (if buffer_empty (rd_buf rd) then rd else flush ctx schema rd)
                            \<lparr>rd_waiting := Some (b', mem_size b', schema)\<rparr>)))"

text \<open>A suspended push goes on once its permits are free.\<close>

definition resume_push :: "send_ctx \<Rightarrow> reader \<Rightarrow> (send_ctx \<times> reader) option" where
  "resume_push ctx rd =
     (case rd_waiting rd of
        None \<Rightarrow> None
      | Some (b, n, schema) \<Rightarrow>
          map_option (\<lambda>(budget, r).
              (ctx\<lparr>sc_budget := budget\<rparr>, push_reserved ctx schema b r n (rd\<lparr>rd_waiting := None\<rparr>)))
            (try_reserve n (sc_budget ctx)))"

section \<open>Inserts, windows and the end of a read\<close>

definition drop_all :: "reservation list \<Rightarrow> memory_budget \<Rightarrow> memory_budget" where
  "drop_all rs b = fold drop_reservation rs b"

definition remove_nth :: "nat \<Rightarrow> 'a list \<Rightarrow> 'a list" where
  "remove_nth k xs = take k xs @ drop (Suc k) xs"

definition batch_rows :: "batch list \<Rightarrow> nat" where
  "batch_rows bs = sum_list (map (\<lambda>b. length (bt_rows b)) bs)"

text \<open>The end of the \<open>k\<close>th insert in flight, with the bytes or the error the sink gave.\<close>

definition end_send :: "nat \<Rightarrow> nat res \<Rightarrow> send_ctx \<Rightarrow> reader \<Rightarrow> send_ctx \<times> reader" where
  "end_send k outcome ctx rd =
     (let s = rd_sends rd ! k;
          rows = batch_rows (sd_batches s);
          ctx' = ctx\<lparr>sc_budget := drop_all (sd_reservations s) (sc_budget ctx)\<rparr>;
          rd' = rd\<lparr>rd_sends := remove_nth k (rd_sends rd)\<rparr>
      in case outcome of
           Inl e \<Rightarrow> (ctx', rd'\<lparr>rd_ended := rd_ended rd @ [Inl e]\<rparr>)
         | Inr bytes \<Rightarrow>
             (ctx'\<lparr>sc_rows_written := sc_rows_written ctx + rows,
                   sc_bytes_written := sc_bytes_written ctx + bytes,
                   sc_landed := map_option (\<lambda>n. n + rows) (sc_landed ctx),
                   sc_table := sc_table ctx @ sd_batches s\<rparr>,
              rd'\<lparr>rd_ended := rd_ended rd @ [Inr ()]\<rparr>))"

definition reap :: "reader \<Rightarrow> reader res" where
  "reap rd = and_then (try_map id (rd_ended rd)) (\<lambda>_. Inr (rd\<lparr>rd_ended := []\<rparr>))"

definition report_null_rows :: "send_ctx \<Rightarrow> reader \<Rightarrow> send_ctx \<times> reader" where
  "report_null_rows ctx rd =
     (ctx\<lparr>sc_warnings := count_null_rows (ib_null_rows (rd_buf rd)) (sc_warnings ctx)\<rparr>,
      rd\<lparr>rd_buf := (rd_buf rd)\<lparr>ib_null_rows := []\<rparr>\<rparr>)"

definition start_statement :: "batch_field list \<Rightarrow> reader \<Rightarrow> reader" where
  "start_statement schema rd = rd\<lparr>rd_schema := Some schema\<rparr>"

definition between_windows :: "send_ctx \<Rightarrow> reader \<Rightarrow> (send_ctx \<times> reader) res" where
  "between_windows ctx0 rd0 =
     (let (ctx, rd) = report_null_rows ctx0 rd0;
          rd' = (if buffer_full (rd_buf rd)
                 then (case rd_schema rd of Some schema \<Rightarrow> flush ctx schema rd | None \<Rightarrow> rd)
                 else rd)
      in and_then (reap rd') (\<lambda>rd''. Inr (ctx, rd'')))"

definition finish_read :: "send_ctx \<Rightarrow> reader \<Rightarrow> send_ctx \<times> reader" where
  "finish_read ctx0 rd0 =
     (let (ctx, rd) = report_null_rows ctx0 rd0
      in (ctx, (case rd_schema rd of
                  Some schema \<Rightarrow> (flush ctx schema rd)\<lparr>rd_schema := None\<rparr>
                | None \<Rightarrow> rd)))"

definition roll_back :: "buffer_mark \<Rightarrow> send_ctx \<Rightarrow> reader \<Rightarrow> send_ctx \<times> reader" where
  "roll_back mark ctx rd =
     (let (ib, dropped) = buffer_truncate mark (rd_buf rd)
      in (ctx\<lparr>sc_budget := drop_all dropped (sc_budget ctx)\<rparr>, rd\<lparr>rd_buf := ib\<rparr>))"

definition chunk_committed :: "send_ctx \<Rightarrow> send_ctx" where
  "chunk_committed ctx = ctx\<lparr>sc_landed := map_option (\<lambda>_. 0) (sc_landed ctx)\<rparr>"

section \<open>The readers of a run\<close>

definition held :: "reader \<Rightarrow> reservation list" where
  "held rd = ib_reservations (rd_buf rd) @ concat (map sd_reservations (rd_sends rd))"

definition held_bytes :: "reader \<Rightarrow> nat" where
  "held_bytes rd = sum_list (map permits (held rd))"

definition waiting_rows :: "reader \<Rightarrow> nat" where
  "waiting_rows rd = (case rd_waiting rd of Some (b, _) \<Rightarrow> length (bt_rows b) | None \<Rightarrow> 0)"

text \<open>The rows a reader decoded that are not written yet.\<close>

definition pending_rows :: "reader \<Rightarrow> nat" where
  "pending_rows rd = batch_rows (ib_batches (rd_buf rd)) + waiting_rows rd
     + sum_list (map (\<lambda>s. batch_rows (sd_batches s)) (rd_sends rd))"

definition buffer_wf :: "insert_buffer \<Rightarrow> bool" where
  "buffer_wf ib \<longleftrightarrow> length (ib_reservations ib) = length (ib_batches ib)
     \<and> length (ib_sizes ib) = length (ib_batches ib) \<and> ib_bytes ib = sum_list (ib_sizes ib)"

definition reader_wf :: "reader \<Rightarrow> bool" where
  "reader_wf rd \<longleftrightarrow> buffer_wf (rd_buf rd) \<and> None \<notin> set (held rd)
     \<and> (rd_waiting rd \<noteq> None \<longrightarrow> buffer_empty (rd_buf rd))"

definition kept_rows :: "batch option \<Rightarrow> nat" where
  "kept_rows kept = (case kept of Some b \<Rightarrow> length (bt_rows b) | None \<Rightarrow> 0)"

text \<open>One step of one reader: \<open>taken\<close> rows came out of the guard, \<open>lost\<close> rows were dropped with a
  window that is read again, or with an insert that failed.\<close>

inductive reader_step :: "(batch \<Rightarrow> nat) \<Rightarrow> send_ctx \<Rightarrow> reader \<Rightarrow> send_ctx \<Rightarrow> reader \<Rightarrow> nat \<Rightarrow> nat \<Rightarrow> bool"
  for mem_size where
  statement: "rd_waiting rd = None \<Longrightarrow> reader_step mem_size ctx rd ctx (start_statement schema rd) 0 0"
| push: "rd_waiting rd = None \<Longrightarrow> push_batch mem_size schema b ctx rd = Inr (ctx', rd')
    \<Longrightarrow> guard_batch b ctx rd = Inr (c, r, kept) \<Longrightarrow> reader_step mem_size ctx rd ctx' rd' (kept_rows kept) 0"
| resume: "resume_push ctx rd = Some (ctx', rd') \<Longrightarrow> reader_step mem_size ctx rd ctx' rd' 0 0"
| landed: "k < length (rd_sends rd) \<Longrightarrow> end_send k (Inr bytes) ctx rd = (ctx', rd')
    \<Longrightarrow> reader_step mem_size ctx rd ctx' rd' 0 0"
| failed: "k < length (rd_sends rd) \<Longrightarrow> end_send k (Inl e) ctx rd = (ctx', rd')
    \<Longrightarrow> reader_step mem_size ctx rd ctx' rd' 0 (batch_rows (sd_batches (rd_sends rd ! k)))"
| between: "rd_waiting rd = None \<Longrightarrow> between_windows ctx rd = Inr (ctx', rd')
    \<Longrightarrow> reader_step mem_size ctx rd ctx' rd' 0 0"
| rolled: "rd_waiting rd = None \<Longrightarrow> roll_back mark ctx rd = (ctx', rd')
    \<Longrightarrow> reader_step mem_size ctx rd ctx' rd' 0 (pending_rows rd - pending_rows rd')"
| finish: "rd_waiting rd = None \<Longrightarrow> finish_read ctx rd = (ctx', rd')
    \<Longrightarrow> reader_step mem_size ctx rd ctx' rd' 0 0"

text \<open>The states of a run of several readers under one budget, with the rows taken in and lost.\<close>

inductive pipe_reach :: "(batch \<Rightarrow> nat) \<Rightarrow> nat \<Rightarrow> send_ctx \<Rightarrow> reader list \<Rightarrow> nat \<Rightarrow> nat \<Rightarrow> bool"
  for mem_size max_bytes where
  start: "sc_budget ctx = budget_new max_bytes \<Longrightarrow> sc_rows_written ctx = 0 \<Longrightarrow> sc_table ctx = []
    \<Longrightarrow> list_all (\<lambda>rd. \<exists>n d. rd = (reader_new n)\<lparr>rd_buf := (insert_buffer_new n)\<lparr>ib_deferred := d\<rparr>\<rparr>) rds
    \<Longrightarrow> pipe_reach mem_size max_bytes ctx rds 0 0"
| step: "pipe_reach mem_size max_bytes ctx rds taken lost \<Longrightarrow> i < length rds
    \<Longrightarrow> reader_step mem_size ctx (rds ! i) ctx' rd' a l
    \<Longrightarrow> pipe_reach mem_size max_bytes ctx' (rds[i := rd']) (taken + a) (lost + l)"

section \<open>Accounting\<close>

lemma batch_rows_append [simp]: "batch_rows (xs @ ys) = batch_rows xs + batch_rows ys"
  by (simp add: batch_rows_def)

lemma batch_rows_Nil [simp]: "batch_rows [] = 0"
  by (simp add: batch_rows_def)

lemma drop_all_bounded:
  "is_bounded b \<Longrightarrow> None \<notin> set rs \<Longrightarrow>
     is_bounded (drop_all rs b) \<and> mb_total (drop_all rs b) = mb_total b
     \<and> available (drop_all rs b) = available b + sum_list (map permits rs)"
proof (induction rs arbitrary: b)
  case (Cons r rs)
  then have "r \<noteq> None" by (metis list.set_intros(1))
  then have "drop_reservation r b = drop_bounded r b" using Cons.prems by (intro drop_is_bounded_drop)
  moreover have "is_bounded (drop_bounded r b)" "mb_total (drop_bounded r b) = mb_total b"
    by (simp_all add: drop_bounded_def is_bounded_def)
  ultimately show ?case using Cons by (simp add: drop_all_def pool.release_free)
qed (simp add: drop_all_def)

text \<open>What a change of the reader alone must keep.\<close>

definition same_load :: "reader \<Rightarrow> reader \<Rightarrow> bool" where
  "same_load rd rd' \<longleftrightarrow> held_bytes rd' = held_bytes rd \<and> pending_rows rd' = pending_rows rd
     \<and> set (held rd') = set (held rd) \<and> (buffer_wf (rd_buf rd) \<longrightarrow> buffer_wf (rd_buf rd'))
     \<and> rd_waiting rd' = rd_waiting rd"

lemma flush_load: "same_load rd (flush ctx schema rd)"
  by (auto simp: flush_def buffer_take_def same_load_def held_bytes_def held_def pending_rows_def
      waiting_rows_def buffer_wf_def Let_def)

lemma flush_empty [simp]: "buffer_empty (rd_buf (flush ctx schema rd))"
  by (simp add: flush_def buffer_take_def buffer_empty_def Let_def)

lemma same_load_trans: "same_load a b \<Longrightarrow> same_load b c \<Longrightarrow> same_load a c"
  by (auto simp: same_load_def)

lemma same_load_refl [simp]: "same_load rd rd"
  by (simp add: same_load_def)

lemma push_reserved_load:
  assumes "buffer_wf (rd_buf rd)"
  shows "held_bytes (push_reserved ctx schema b r n rd) = held_bytes rd + permits r"
    "pending_rows (push_reserved ctx schema b r n rd) = pending_rows rd + length (bt_rows b)"
    "set (held (push_reserved ctx schema b r n rd)) = insert r (set (held rd))"
    "buffer_wf (rd_buf (push_reserved ctx schema b r n rd))"
    "rd_waiting (push_reserved ctx schema b r n rd) = rd_waiting rd"
proof -
  define rd1 where "rd1 = rd\<lparr>rd_buf := snd (buffer_push b r n (rd_buf rd))\<rparr>"
  have l: "held_bytes rd1 = held_bytes rd + permits r \<and> pending_rows rd1 = pending_rows rd + length (bt_rows b)
    \<and> set (held rd1) = insert r (set (held rd)) \<and> buffer_wf (rd_buf rd1) \<and> rd_waiting rd1 = rd_waiting rd"
    using assms by (auto simp: rd1_def buffer_push_def Let_def held_bytes_def held_def pending_rows_def
        waiting_rows_def buffer_wf_def batch_rows_def)
  have "same_load rd1 (push_reserved ctx schema b r n rd)"
    by (auto simp: push_reserved_def rd1_def Let_def flush_load split: prod.split)
  then show "held_bytes (push_reserved ctx schema b r n rd) = held_bytes rd + permits r"
    "pending_rows (push_reserved ctx schema b r n rd) = pending_rows rd + length (bt_rows b)"
    "set (held (push_reserved ctx schema b r n rd)) = insert r (set (held rd))"
    "buffer_wf (rd_buf (push_reserved ctx schema b r n rd))"
    "rd_waiting (push_reserved ctx schema b r n rd) = rd_waiting rd"
    using l by (auto simp: same_load_def)
qed

lemma null_rows_load: "same_load rd (rd\<lparr>rd_buf := (rd_buf rd)\<lparr>ib_null_rows := ts\<rparr>\<rparr>)"
  by (simp add: same_load_def held_bytes_def held_def pending_rows_def waiting_rows_def buffer_wf_def)

lemma guard_batch_load:
  assumes "guard_batch b ctx rd = Inr (ctx', rd', kept)"
  shows "same_load rd rd'" "sc_budget ctx' = sc_budget ctx"
    "sc_rows_written ctx' = sc_rows_written ctx" "sc_table ctx' = sc_table ctx"
proof -
  have "same_load rd rd' \<and> sc_budget ctx' = sc_budget ctx
     \<and> sc_rows_written ctx' = sc_rows_written ctx \<and> sc_table ctx' = sc_table ctx"
  proof (cases "sc_guard ctx")
    case None
    then show ?thesis using assms by (auto simp: guard_batch_def Let_def)
  next
    case (Some g)
    then obtain f where "guard_filter g b = Inr f"
      using assms by (auto simp: guard_batch_def Let_def and_then_Inr_iff)
    then show ?thesis using assms Some
      by (cases "ib_deferred (rd_buf rd)") (auto simp: guard_batch_def Let_def null_rows_load)
  qed
  then show "same_load rd rd'" "sc_budget ctx' = sc_budget ctx"
    "sc_rows_written ctx' = sc_rows_written ctx" "sc_table ctx' = sc_table ctx" by simp_all
qed

lemma report_load: "same_load rd (snd (report_null_rows ctx rd))"
  "sc_budget (fst (report_null_rows ctx rd)) = sc_budget ctx"
  "sc_rows_written (fst (report_null_rows ctx rd)) = sc_rows_written ctx"
  "sc_table (fst (report_null_rows ctx rd)) = sc_table ctx"
  by (auto simp: report_null_rows_def same_load_def held_bytes_def held_def pending_rows_def
      waiting_rows_def buffer_wf_def)


section \<open>Every step keeps the account\<close>

definition step_ok :: "send_ctx \<Rightarrow> reader \<Rightarrow> send_ctx \<Rightarrow> reader \<Rightarrow> nat \<Rightarrow> nat \<Rightarrow> bool" where
  "step_ok ctx rd ctx' rd' a l \<longleftrightarrow>
     is_bounded (sc_budget ctx') \<and> mb_total (sc_budget ctx') = mb_total (sc_budget ctx) \<and> reader_wf rd'
     \<and> available (sc_budget ctx') + held_bytes rd' = available (sc_budget ctx) + held_bytes rd
     \<and> pending_rows rd' + sc_rows_written ctx' + l = pending_rows rd + sc_rows_written ctx + a
     \<and> batch_rows (sc_table ctx') + sc_rows_written ctx = batch_rows (sc_table ctx) + sc_rows_written ctx'"

lemma same_load_ok:
  assumes "same_load rd rd'" "is_bounded (sc_budget ctx)" "reader_wf rd" "rd_waiting rd = None"
    and "sc_budget ctx' = sc_budget ctx" "sc_rows_written ctx' = sc_rows_written ctx" "sc_table ctx' = sc_table ctx"
  shows "step_ok ctx rd ctx' rd' 0 0"
  using assms by (simp add: step_ok_def same_load_def reader_wf_def)

lemma reserve_ok:
  assumes r: "try_reserve n (sc_budget ctx) = Some (budget, r)"
    and "is_bounded (sc_budget ctx)" "buffer_wf (rd_buf rd)" "None \<notin> set (held rd)" "rd_waiting rd = None"
  shows "step_ok ctx rd (ctx\<lparr>sc_budget := budget\<rparr>) (push_reserved ctx schema b r n rd) (length (bt_rows b)) 0"
  using assms push_reserved_load[OF assms(3), of ctx schema b r n]
    try_reserve_bounded[OF r] try_reserve_total[OF r] pool.acquire_free[OF r]
  by (auto simp: step_ok_def reader_wf_def)

lemma push_ok:
  assumes wf: "reader_wf rd" "is_bounded (sc_budget ctx)" "rd_waiting rd = None"
    and push: "push_batch mem_size schema b ctx rd = Inr (ctx', rd')"
    and guard: "guard_batch b ctx rd = Inr (c, r, kept)"
  shows "step_ok ctx rd ctx' rd' (kept_rows kept) 0"
proof -
  note g = guard_batch_load[OF guard]
  have r: "buffer_wf (rd_buf r)" "None \<notin> set (held r)" "rd_waiting r = None" "held_bytes r = held_bytes rd"
      "pending_rows r = pending_rows rd" "reader_wf r"
    using g(1) wf by (auto simp: same_load_def reader_wf_def)
  show ?thesis
  proof (cases kept)
    case None
    then show ?thesis using push guard same_load_ok[OF g(1) wf(2,1,3) g(2-4)]
      by (auto simp: push_batch_def kept_rows_def)
  next
    case (Some b')
    show ?thesis
    proof (cases "try_reserve (mem_size b') (sc_budget c)")
      case None
      define fl where "fl = (if buffer_empty (rd_buf r) then r else flush c schema r)"
      have e: "buffer_empty (rd_buf fl)" by (simp add: fl_def)
      have l: "same_load r fl" by (simp add: fl_def flush_load)
      have "ctx' = c" "rd' = fl\<lparr>rd_waiting := Some (b', mem_size b', schema)\<rparr>"
        using push guard Some None by (auto simp: push_batch_def fl_def)
      then show ?thesis using e l r g(2-4) wf(2) Some
        by (auto simp: step_ok_def reader_wf_def same_load_def held_bytes_def held_def pending_rows_def
            waiting_rows_def kept_rows_def)
    next
      case (Some p)
      obtain budget q where p: "p = (budget, q)" by (cases p)
      have "ctx' = c\<lparr>sc_budget := budget\<rparr>" "rd' = push_reserved c schema b' q (mem_size b') r"
        using push guard \<open>kept = Some b'\<close> Some p by (auto simp: push_batch_def)
      then show ?thesis
        using reserve_ok[OF Some[unfolded p] _ r(1-3), of schema b'] g(2-4) wf(2) r(4,5) \<open>kept = Some b'\<close>
        by (simp add: step_ok_def kept_rows_def)
    qed
  qed
qed

lemma resume_ok:
  assumes "resume_push ctx rd = Some (ctx', rd')" "reader_wf rd" "is_bounded (sc_budget ctx)"
  shows "step_ok ctx rd ctx' rd' 0 0"
proof -
  obtain b n schema budget r where w: "rd_waiting rd = Some (b, n, schema)"
    and t: "try_reserve n (sc_budget ctx) = Some (budget, r)"
    and e: "ctx' = ctx\<lparr>sc_budget := budget\<rparr>" "rd' = push_reserved ctx schema b r n (rd\<lparr>rd_waiting := None\<rparr>)"
    using assms(1) by (auto simp: resume_push_def split: option.splits)
  let ?rd = "rd\<lparr>rd_waiting := None\<rparr>"
  have h: "held ?rd = held rd" "pending_rows rd = pending_rows ?rd + length (bt_rows b)"
    using w by (simp_all add: held_def pending_rows_def waiting_rows_def)
  have "step_ok ctx ?rd ctx' rd' (length (bt_rows b)) 0"
    unfolding e by (rule reserve_ok[OF t assms(3)]) (use assms(2) h in \<open>auto simp: reader_wf_def\<close>)
  then show ?thesis using h by (simp add: step_ok_def held_bytes_def)
qed

lemma split_nth:
  assumes "k < length xs" shows "xs = take k xs @ xs ! k # drop (Suc k) xs"
  using assms by (rule id_take_nth_drop)

lemma end_send_ok:
  assumes k: "k < length (rd_sends rd)" and e: "end_send k outcome ctx rd = (ctx', rd')"
    and wf: "reader_wf rd" "is_bounded (sc_budget ctx)"
  shows "step_ok ctx rd ctx' rd' 0
     (case outcome of Inl _ \<Rightarrow> batch_rows (sd_batches (rd_sends rd ! k)) | Inr _ \<Rightarrow> 0)"
proof -
  obtain xs s ys where x: "rd_sends rd = xs @ s # ys" "rd_sends rd ! k = s" "remove_nth k (rd_sends rd) = xs @ ys"
    using split_nth[OF k] by (metis remove_nth_def)
  have n: "None \<notin> set (sd_reservations s)" using wf(1) x by (auto simp: reader_wf_def held_def)
  note d = drop_all_bounded[OF wf(2) n]
  show ?thesis
    using e x wf d by (cases outcome)
      (auto simp: end_send_def Let_def step_ok_def reader_wf_def held_bytes_def held_def pending_rows_def waiting_rows_def)
qed

lemma roll_back_ok:
  assumes e: "roll_back mark ctx rd = (ctx', rd')" and wf: "reader_wf rd" "is_bounded (sc_budget ctx)"
    and "rd_waiting rd = None"
  shows "step_ok ctx rd ctx' rd' 0 (pending_rows rd - pending_rows rd')"
proof -
  let ?ib = "rd_buf rd"
  define k where "k = (if bm_takes mark = ib_takes ?ib then min (bm_len mark) (length (ib_batches ?ib)) else 0)"
  let ?dropped = "drop k (ib_reservations ?ib)"
  have n: "None \<notin> set ?dropped" using wf(1) by (auto simp: reader_wf_def held_def dest: in_set_dropD)
  note d = drop_all_bounded[OF wf(2) n]
  have sp: "sum_list (map permits (ib_reservations ?ib))
      = sum_list (map permits (take k (ib_reservations ?ib))) + sum_list (map permits ?dropped)"
    by (metis append_take_drop_id map_append sum_list_append)
  have rows: "batch_rows (take k (ib_batches ?ib)) \<le> batch_rows (ib_batches ?ib)"
    by (metis append_take_drop_id batch_rows_append le_add1)
  have e': "ctx' = ctx\<lparr>sc_budget := drop_all ?dropped (sc_budget ctx)\<rparr>"
    "rd_buf rd' = fst (buffer_truncate mark ?ib)" "rd_sends rd' = rd_sends rd" "rd_waiting rd' = rd_waiting rd"
    using e by (auto simp: roll_back_def buffer_truncate_def Let_def k_def)
  have ib: "ib_batches (rd_buf rd') = take k (ib_batches ?ib)" "ib_sizes (rd_buf rd') = take k (ib_sizes ?ib)"
    "ib_reservations (rd_buf rd') = take k (ib_reservations ?ib)" "ib_bytes (rd_buf rd') = sum_list (take k (ib_sizes ?ib))"
    using e'(2) by (simp_all add: buffer_truncate_def Let_def k_def)
  show ?thesis
    using d sp rows wf assms(4) e' ib
    by (auto simp: step_ok_def reader_wf_def held_bytes_def held_def pending_rows_def waiting_rows_def
        buffer_wf_def dest: in_set_takeD)
qed

lemma between_ok:
  assumes "between_windows ctx rd = Inr (ctx', rd')" "reader_wf rd" "is_bounded (sc_budget ctx)" "rd_waiting rd = None"
  shows "step_ok ctx rd ctx' rd' 0 0"
proof -
  let ?p = "report_null_rows ctx rd"
  define r2 where "r2 = (if buffer_full (rd_buf (snd ?p))
     then (case rd_schema (snd ?p) of Some schema \<Rightarrow> flush (fst ?p) schema (snd ?p) | None \<Rightarrow> snd ?p) else snd ?p)"
  have "same_load (snd ?p) r2" by (auto simp: r2_def flush_load split: option.split)
  moreover have "ctx' = fst ?p" "rd' = r2\<lparr>rd_ended := []\<rparr>"
    using assms(1) by (auto simp: between_windows_def r2_def reap_def Let_def qh_res case_prod_beta)
  moreover have "same_load r2 (r2\<lparr>rd_ended := []\<rparr>)"
    by (simp add: same_load_def held_bytes_def held_def pending_rows_def waiting_rows_def)
  ultimately have "same_load rd rd'" by (metis report_load(1) same_load_trans)
  then show ?thesis using assms \<open>ctx' = fst ?p\<close> by (intro same_load_ok) (simp_all add: report_load)
qed

lemma finish_ok:
  assumes "finish_read ctx rd = (ctx', rd')" "reader_wf rd" "is_bounded (sc_budget ctx)" "rd_waiting rd = None"
  shows "step_ok ctx rd ctx' rd' 0 0"
proof -
  let ?p = "report_null_rows ctx rd"
  have "same_load r (r\<lparr>rd_schema := None\<rparr>)" for r
    by (simp add: same_load_def held_bytes_def held_def pending_rows_def waiting_rows_def)
  then have "same_load (snd ?p) rd'" "ctx' = fst ?p"
    using assms(1) flush_load same_load_trans
    by (fastforce simp: finish_read_def Let_def case_prod_beta split: option.splits)+
  then have "same_load rd rd'" by (metis report_load(1) same_load_trans)
  then show ?thesis using assms \<open>ctx' = fst ?p\<close> by (intro same_load_ok) (simp_all add: report_load)
qed

lemma reader_step_ok:
  assumes "reader_step mem_size ctx rd ctx' rd' a l" "reader_wf rd" "is_bounded (sc_budget ctx)"
  shows "step_ok ctx rd ctx' rd' a l"
  using assms
proof cases
  case (statement schema)
  have "same_load rd (start_statement schema rd)"
    by (simp add: start_statement_def same_load_def held_bytes_def held_def pending_rows_def waiting_rows_def)
  then show ?thesis using statement assms by (auto intro: same_load_ok)
next
  case landed
  then show ?thesis using end_send_ok[OF landed(3,4) assms(2,3)] by simp
next
  case failed
  then show ?thesis using end_send_ok[OF failed(3,4) assms(2,3)] by simp
qed (use assms in \<open>auto intro: push_ok resume_ok between_ok roll_back_ok finish_ok\<close>)

section \<open>The whole run\<close>

lemma sum_list_map_update:
  "i < length xs \<Longrightarrow> sum_list (map f (xs[i := y])) + f (xs ! i) = sum_list (map f xs) + (f y :: nat)"
proof (induction xs arbitrary: i)
  case (Cons x xs)
  then show ?case by (cases i) (auto simp: algebra_simps)
qed simp

lemma fresh_reader:
  "reader_wf ((reader_new n)\<lparr>rd_buf := (insert_buffer_new n)\<lparr>ib_deferred := d\<rparr>\<rparr>)"
  "held_bytes ((reader_new n)\<lparr>rd_buf := (insert_buffer_new n)\<lparr>ib_deferred := d\<rparr>\<rparr>) = 0"
  "pending_rows ((reader_new n)\<lparr>rd_buf := (insert_buffer_new n)\<lparr>ib_deferred := d\<rparr>\<rparr>) = 0"
  by (simp_all add: reader_new_def insert_buffer_new_def reader_wf_def
        buffer_wf_def held_def held_bytes_def pending_rows_def waiting_rows_def)

lemma pipe_invariant:
  assumes "pipe_reach mem_size m ctx rds taken lost" and "0 < m"
  shows "is_bounded (sc_budget ctx) \<and> mb_total (sc_budget ctx) = m \<and> list_all reader_wf rds
     \<and> available (sc_budget ctx) + sum_list (map held_bytes rds) = min m SEM_MAX_PERMITS
     \<and> sum_list (map pending_rows rds) + sc_rows_written ctx + lost = taken
     \<and> batch_rows (sc_table ctx) = sc_rows_written ctx"
  using assms
proof (induction rule: pipe_reach.induct)
  case (start ctx rds)
  have "list_all reader_wf rds \<and> sum_list (map held_bytes rds) = 0 \<and> sum_list (map pending_rows rds) = 0"
    using start(4) by (induction rds) (auto simp: fresh_reader)
  then show ?case using start by (simp add: budget_new_def is_bounded_def available_def)
next
  case (step ctx rds taken lost i ctx' rd' a l)
  have wf: "reader_wf (rds ! i)" using step by (simp add: list_all_length)
  have ok: "step_ok ctx (rds ! i) ctx' rd' a l"
    using step wf by (intro reader_step_ok) auto
  have h: "sum_list (map held_bytes (rds[i := rd'])) + held_bytes (rds ! i)
      = sum_list (map held_bytes rds) + held_bytes rd'"
    and p: "sum_list (map pending_rows (rds[i := rd'])) + pending_rows (rds ! i)
      = sum_list (map pending_rows rds) + pending_rows rd'"
    using sum_list_map_update[OF step(2)] by auto
  have "list_all reader_wf (rds[i := rd'])"
    using ok step by (auto simp: step_ok_def list_all_length nth_list_update)
  then show ?case using ok h p step by (simp add: step_ok_def)
qed

text \<open>C23. Over every interleaving of any number of readers: each row the guard let through is
  written, buffered, waiting or in flight, unless it was dropped with a window that is read again or
  an insert that failed; the destination holds exactly the rows counted as written; and the bytes
  reserved never exceed the ceiling.\<close>

theorem pipeline_accounts_for_rows:
  assumes "pipe_reach mem_size m ctx rds taken lost" and "0 < m"
  shows "sum_list (map pending_rows rds) + sc_rows_written ctx + lost = taken
    \<and> batch_rows (sc_table ctx) = sc_rows_written ctx
    \<and> sum_list (map held_bytes rds) \<le> m"
  using pipe_invariant[OF assms] by linarith

lemma waiting_holds_sends: "reader_wf rd \<Longrightarrow> rd_waiting rd \<noteq> None \<Longrightarrow> rd_sends rd = [] \<Longrightarrow> held_bytes rd = 0"
  by (auto simp: reader_wf_def buffer_wf_def buffer_empty_def held_bytes_def held_def)

text \<open>C24. The readers never deadlock on the budget: when every reader of a reachable state is
  waiting for memory and no insert is in flight, each of them can go on at once.  A waiting reader
  holds no buffered batch of its own.\<close>

theorem readers_never_deadlock:
  assumes reach: "pipe_reach mem_size m ctx rds taken lost" and m: "0 < m" and i: "i < length rds"
    and waiting: "rd_waiting (rds ! i) \<noteq> None"
  shows "ib_batches (rd_buf (rds ! i)) = []
    \<and> (list_all (\<lambda>rd. rd_waiting rd \<noteq> None \<and> rd_sends rd = []) rds \<longrightarrow>
        (\<exists>ctx' rd'. resume_push ctx (rds ! i) = Some (ctx', rd') \<and> rd_waiting rd' = None))"
proof (intro conjI impI)
  note inv = pipe_invariant[OF reach m]
  have wf: "reader_wf (rds ! i)" using inv i by (simp add: list_all_length)
  then show "ib_batches (rd_buf (rds ! i)) = []" using waiting by (simp add: reader_wf_def buffer_empty_def)
  assume all: "list_all (\<lambda>rd. rd_waiting rd \<noteq> None \<and> rd_sends rd = []) rds"
  have "list_all reader_wf rds" using inv by simp
  then have none: "sum_list (map held_bytes rds) = 0"
    using all by (induction rds) (auto dest: waiting_holds_sends)
  have "available (sc_budget ctx) + sum_list (map held_bytes rds) = min m SEM_MAX_PERMITS" using inv by blast
  then have free: "available (sc_budget ctx) = min m SEM_MAX_PERMITS" unfolding none by simp
  obtain b n schema where w: "rd_waiting (rds ! i) = Some (b, n, schema)" using waiting by (cases "rd_waiting (rds ! i)") auto
  have "MAX_PERMITS \<le> SEM_MAX_PERMITS" "1 \<le> SEM_MAX_PERMITS" by (simp_all add: MAX_PERMITS_def SEM_MAX_PERMITS_def)
  then have "want (sc_budget ctx) n \<le> available (sc_budget ctx)" using free inv m by (auto simp: want_def)
  then obtain budget r where t: "try_reserve n (sc_budget ctx) = Some (budget, r)"
    using inv by (auto simp: try_reserve_def available_def is_bounded_def)
  have "buffer_wf (rd_buf ((rds ! i)\<lparr>rd_waiting := None\<rparr>))" using wf by (simp add: reader_wf_def)
  from push_reserved_load(5)[OF this, of ctx schema b r n] t w
  show "\<exists>ctx' rd'. resume_push ctx (rds ! i) = Some (ctx', rd') \<and> rd_waiting rd' = None"
    by (simp add: resume_push_def)
qed

section \<open>A run of one reader\<close>

definition two_rows :: batch where
  "two_rows = \<lparr>bt_fields = [], bt_rows = [[], []]\<rparr>"

definition sample_ctx :: "nat option \<Rightarrow> nat \<Rightarrow> nat \<Rightarrow> batch list \<Rightarrow> send_ctx" where
  "sample_ctx free_bytes rows bytes table =
     \<lparr>sc_budget = \<lparr>mb_sem = free_bytes, mb_total = 100\<rparr>, sc_tracker = None, sc_guard = None, sc_warnings = no_warnings,
      sc_rows_written = rows, sc_bytes_written = bytes, sc_landed = None, sc_table = table\<rparr>"

definition sample_reader :: "nat \<Rightarrow> batch list \<Rightarrow> send list \<Rightarrow> bool \<Rightarrow> reader" where
  "sample_reader takes bs sends waiting =
     (reader_new 1000)\<lparr>rd_sends := sends,
        rd_ended := (if waiting \<and> sends = [] then [Inr ()] else []),
        rd_buf := (insert_buffer_new 1000)\<lparr>ib_batches := bs, ib_reservations := map (\<lambda>_. Some 60) bs,
          ib_sizes := map (\<lambda>_. 60) bs, ib_bytes := sum_list (map (\<lambda>_. 60) bs), ib_takes := takes\<rparr>,
        rd_waiting := (if waiting then Some (two_rows, 60, []) else None)\<rparr>"

lemmas sample_defs = sample_ctx_def sample_reader_def two_rows_def reader_new_def insert_buffer_new_def
  push_batch_def guard_batch_def try_reserve_def want_def MAX_PERMITS_def push_reserved_def buffer_push_def
  flush_def buffer_empty_def buffer_take_def end_send_def remove_nth_def drop_all_def drop_reservation_def
  batch_rows_def

lemma pipe_step_single:
  "pipe_reach mem_size m ctx [rd] taken lost \<Longrightarrow> reader_step mem_size ctx rd ctx' rd' a l
     \<Longrightarrow> taken + a = taken' \<Longrightarrow> pipe_reach mem_size m ctx' [rd'] taken' (lost + l)"
  using pipe_reach.step[of mem_size m ctx "[rd]" taken lost 0 ctx' rd' a l] by simp

lemma sample_reach:
  "pipe_reach (\<lambda>_. 60) 100 (sample_ctx (Some 100) 2 7 [two_rows]) [sample_reader 1 [] [] True] 4 0"
proof -
  let ?send = "\<lparr>sd_schema = [], sd_batches = [two_rows], sd_reservations = [Some 60]\<rparr>"
  let ?g = "\<lambda>c r. guard_batch two_rows c r = Inr (c, r, Some two_rows)"
  have g: "?g (sample_ctx f n b t) r" for f n b t r by (simp add: guard_batch_def sample_ctx_def)
  have k: "kept_rows (Some two_rows) = 2" by (simp add: kept_rows_def two_rows_def)
  have s0: "pipe_reach (\<lambda>_. 60) 100 (sample_ctx (Some 100) 0 0 []) [sample_reader 0 [] [] False] 0 0"
    by (rule pipe_reach.start)
      (auto simp: sample_ctx_def sample_reader_def budget_new_def SEM_MAX_PERMITS_def reader_new_def insert_buffer_new_def)
  have "reader_step (\<lambda>_. 60) (sample_ctx (Some 100) 0 0 []) (sample_reader 0 [] [] False)
     (sample_ctx (Some 40) 0 0 []) (sample_reader 0 [two_rows] [] False) (kept_rows (Some two_rows)) 0"
    by (rule reader_step.push[OF _ _ g]) (simp_all add: sample_defs)
  from pipe_step_single[OF s0 this[unfolded k], of 2]
  have s1: "pipe_reach (\<lambda>_. 60) 100 (sample_ctx (Some 40) 0 0 []) [sample_reader 0 [two_rows] [] False] 2 0" by simp
  have "reader_step (\<lambda>_. 60) (sample_ctx (Some 40) 0 0 []) (sample_reader 0 [two_rows] [] False)
     (sample_ctx (Some 40) 0 0 []) (sample_reader 1 [] [?send] True) (kept_rows (Some two_rows)) 0"
    by (rule reader_step.push[OF _ _ g]) (simp_all add: sample_defs)
  from pipe_step_single[OF s1 this[unfolded k], of 4]
  have s2: "pipe_reach (\<lambda>_. 60) 100 (sample_ctx (Some 40) 0 0 []) [sample_reader 1 [] [?send] True] 4 0" by simp
  have "reader_step (\<lambda>_. 60) (sample_ctx (Some 40) 0 0 []) (sample_reader 1 [] [?send] True)
     (sample_ctx (Some 100) 2 7 [two_rows]) (sample_reader 1 [] [] True) 0 0"
    by (rule reader_step.landed[of 0 _ 7]) (simp_all add: sample_defs)
  from pipe_step_single[OF s2 this, of 4] show ?thesis by simp
qed

theorem pipeline_accounts_for_rows_witness:
  "sum_list (map pending_rows [sample_reader 1 [] [] True]) + 2 + 0 = (4::nat)"
  using pipeline_accounts_for_rows[OF sample_reach] by (simp add: sample_ctx_def)

theorem readers_never_deadlock_witness:
  "\<exists>ctx' rd'. resume_push (sample_ctx (Some 100) 2 7 [two_rows]) (sample_reader 1 [] [] True) = Some (ctx', rd')
     \<and> rd_waiting rd' = None"
  using readers_never_deadlock[OF sample_reach, of 0] by (simp add: sample_reader_def reader_new_def)

end
