(* ===== verification/QH_Window.thy ===== *)
theory QH_Window
  imports QH_Pipeline QH_Explain
begin

text \<open>
  The windowed read of \<open>sync.rs\<close>: which key a sweep bounds, whether the table's own MAX may be
  probed, how the first window is sized, how the width follows the clock, and the sweep itself.  The
  sweep acts on the outside world through \<open>sweep_io\<close>: a statement over one window, the seconds it
  took, what happens between two windows and how a failed window is undone.
\<close>

section \<open>The key of a sweep and the probes\<close>

definition integer_key :: "data_type \<Rightarrow> bool" where
  "integer_key t \<longleftrightarrow> t \<in> {Int16, Int32, Int64, UInt32}"

definition window_key :: "transfer_config \<Rightarrow> column_type list \<Rightarrow> (string \<times> bool) option" where
  "window_key cfg source_cols =
     Option.bind (keyset_column cfg) (\<lambda>col.
       if map_of (cfg_column_transforms cfg) col \<noteq> None then None
       else Option.bind (find_column col source_cols) (\<lambda>c.
         if integer_key (ct_arrow c) then Some (col, ct_nullable c) else None))"

definition forced_window_key :: "(data_type \<Rightarrow> string) \<Rightarrow> transfer_config \<Rightarrow> column_type list
    \<Rightarrow> (string \<times> bool) res" where
  "forced_window_key show_type cfg source_cols =
     (case window_key cfg source_cols of
        Some key \<Rightarrow> Inr key
      | None \<Rightarrow>
          let col = (case keyset_column cfg of Some c \<Rightarrow> c | None \<Rightarrow> []);
              reason = (if map_of (cfg_column_transforms cfg) col \<noteq> None
                then ''is in column_transforms: a window would bound the transformed value, which no index on the column serves''
                else (case find_column col source_cols of
                        Some c \<Rightarrow> ''must be an integer, and is '' @ show_type (ct_arrow c)
                      | None \<Rightarrow> ''isn't a column the source returns''))
          in Inl (Config (''windowed=True and window_bounds sweep the read in windows of '' @ quoted col
               @ '' (partition_column, else the first key column), which '' @ reason
               @ ''. Set partition_column to an integer column an index serves, such as the primary key'')))"

definition table_max_possible :: "transfer_config \<Rightarrow> column_type list \<Rightarrow> string \<Rightarrow> string option \<Rightarrow> bool" where
  "table_max_possible cfg source_cols watermark cursor \<longleftrightarrow>
     cfg_source_query cfg \<noteq> None
     \<and> cfg_chunk_rows cfg = None
     \<and> cfg_watermark_source_expr cfg = None
     \<and> map_of (cfg_column_transforms cfg) watermark = None
     \<and> map_of (cfg_type_overrides cfg) watermark = None
     \<and> (cfg_include cfg = [] \<or> watermark \<in> set (cfg_include cfg))
     \<and> watermark \<notin> set (cfg_exclude cfg)
     \<and> \<not> (cfg_seed_watermark cfg = CurrentMax \<and> cursor = None)
     \<and> (case find_column watermark source_cols of
          Some c \<Rightarrow> unit_of (ct_arrow c) False \<noteq> None | None \<Rightarrow> False)"

definition table_max_eligible :: "transfer_config \<Rightarrow> column_type list \<Rightarrow> string \<Rightarrow> string option \<Rightarrow> bool" where
  "table_max_eligible cfg source_cols watermark cursor \<longleftrightarrow>
     cfg_source_table cfg \<noteq> None \<and> table_max_possible cfg source_cols watermark cursor"

definition watermark_value_parses :: "calendar \<Rightarrow> column_type list \<Rightarrow> string \<Rightarrow> string option \<Rightarrow> bool \<Rightarrow> bool" where
  "watermark_value_parses cal source_cols watermark value utc_offset =
     (case value of
        None \<Rightarrow> True
      | Some v \<Rightarrow>
          (case Option.bind (find_column watermark source_cols) (\<lambda>c. unit_of (ct_arrow c) utc_offset) of
             Some u \<Rightarrow> unit_parse cal u v \<noteq> None
           | None \<Rightarrow> False))"

definition table_max_affordable :: "probe_cost \<Rightarrow> f64 \<Rightarrow> bool" where
  "table_max_affordable cost threshold \<longleftrightarrow> cost \<noteq> Unknown \<and> \<not> should_skip cost threshold"

definition watermark_bounds_the_key :: "string option \<Rightarrow> string \<Rightarrow> string option \<Rightarrow> bool" where
  "watermark_bounds_the_key watermark key cursor \<longleftrightarrow> watermark = Some key \<and> cursor \<noteq> None"

section \<open>Sizing\<close>

record window_plan =
  wp_col_quoted :: string
  wp_min :: int
  wp_max :: int
  wp_start :: nat
  wp_max_step :: nat
  wp_target_secs :: f64
  wp_floor :: nat
  wp_nullable_key :: bool

datatype window_outcome = Done f64 | Cancelled

definition plan_read_window :: "transfer_config \<Rightarrow> (int \<times> int) option \<Rightarrow> string \<Rightarrow> bool \<Rightarrow> window_plan option" where
  "plan_read_window cfg bounds col_quoted nullable_key =
     Option.bind bounds (\<lambda>(mn, mx).
       let max_step = (case cfg_read_window_rows cfg of Some n \<Rightarrow> n | None \<Rightarrow> DEFAULT_READ_WINDOW_ROWS) in
       if max_step = 0 then None
       else
         let step = min INITIAL_READ_WINDOW_ROWS max_step;
             fl = min (max (step div 64) MIN_READ_WINDOW_ROWS) step
         in Some \<lparr>wp_col_quoted = col_quoted, wp_min = mn, wp_max = mx, wp_start = step,
              wp_max_step = max_step,
              wp_target_secs = (case cfg_window_target_secs cfg of Some s \<Rightarrow> s | None \<Rightarrow> DEFAULT_WINDOW_TARGET_SECS),
              wp_floor = fl, wp_nullable_key = nullable_key\<rparr>)"

text \<open>\<open>step as i64\<close> wraps; \<open>checked_add\<close> answers \<open>None\<close> past the type.\<close>

definition wrap_i64 :: "int \<Rightarrow> int" where
  "wrap_i64 x = (x + 2 ^ 63) mod 2 ^ 64 - 2 ^ 63"

definition window_hi :: "int \<Rightarrow> nat \<Rightarrow> int \<Rightarrow> int" where
  "window_hi lo step mx =
     (case checked 64 (lo + wrap_i64 (int step)) of Some h \<Rightarrow> min h mx | None \<Rightarrow> mx)"

definition clamp_nat :: "nat \<Rightarrow> nat \<Rightarrow> nat \<Rightarrow> nat" where
  "clamp_nat x lo hi = (if x < lo then lo else if hi < x then hi else x)"

definition next_window :: "(rat \<Rightarrow> f64) \<Rightarrow> int \<Rightarrow> int \<Rightarrow> nat \<Rightarrow> window_plan \<Rightarrow> window_outcome \<Rightarrow> int \<times> nat" where
  "next_window rnd lo hi step w outcome =
     (let target = f64_max (wp_target_secs w) (rnd (1 / 10)) in
      case outcome of
        Cancelled \<Rightarrow> (lo, max (step div 2) (wp_floor w))
      | Done secs \<Rightarrow>
          let ratio = f64_clamp (f64_div rnd target (f64_max secs (rnd (1 / 100)))) (Fin (1 / 4)) (Fin (5 / 4));
              next' = f64_as_u64 (f64_round (f64_mul rnd (rnd (of_nat step)) ratio))
          in (hi, clamp_nat next' (wp_floor w) (wp_max_step w)))"

section \<open>The sweep\<close>

datatype window_pred = WindowRange int int | NullWindow

definition window_pred_text :: "string \<Rightarrow> window_pred \<Rightarrow> string" where
  "window_pred_text c p =
     (case p of
        WindowRange lo hi \<Rightarrow> c @ '' > '' @ show_int lo @ '' AND '' @ c @ '' <= '' @ show_int hi
      | NullWindow \<Rightarrow> c @ '' IS NULL'')"

definition window_label :: "string \<Rightarrow> window_pred \<Rightarrow> string" where
  "window_label label p =
     (case p of
        WindowRange lo hi \<Rightarrow> label @ '':('' @ show_int lo @ '','' @ show_int hi @ '']''
      | NullWindow \<Rightarrow> label @ '':null-key'')"

definition window_filter :: "string option \<Rightarrow> string \<Rightarrow> string" where
  "window_filter base pred =
     (case base of Some p \<Rightarrow> ''('' @ p @ '') AND ('' @ pred @ '')'' | None \<Rightarrow> pred)"

record 's sweep_io =
  io_statement :: "window_pred \<Rightarrow> 's \<Rightarrow> 's \<times> unit res"
  io_between :: "'s \<Rightarrow> 's res"
  io_undo :: "'s \<Rightarrow> 's \<Rightarrow> 's"
  io_seconds :: "'s \<Rightarrow> 's \<Rightarrow> f64"

text \<open>The loop over the windows, from just above \<open>lo\<close>; the windows that succeeded are the second
  result.\<close>

partial_function (option) sweep_from ::
  "(rat \<Rightarrow> f64) \<Rightarrow> 's sweep_io \<Rightarrow> window_plan \<Rightarrow> int \<Rightarrow> nat \<Rightarrow> window_pred list \<Rightarrow> 's
    \<Rightarrow> ('s \<times> window_pred list) res option" where
  [code]: "sweep_from rnd io w lo step read st =
     (if lo < wp_max w then
        let hi = window_hi lo step (wp_max w);
            p = WindowRange lo hi
        in (case io_statement io p st of (st1, outcome) \<Rightarrow>
            (case outcome of
               Inr _ \<Rightarrow>
                 (case io_between io st1 of
                    Inl e \<Rightarrow> Some (Inl e)
                  | Inr st2 \<Rightarrow>
                      (case next_window rnd lo hi step w (Done (io_seconds io st st2)) of
                         (lo', step') \<Rightarrow> sweep_from rnd io w lo' step' (read @ [p]) st2))
             | Inl e \<Rightarrow>
                 if is_transient_source e \<and> wp_floor w < step then
                   (case next_window rnd lo hi step w Cancelled of
                      (lo', step') \<Rightarrow> sweep_from rnd io w lo' step' read (io_undo io st st1))
                 else Some (Inl e)))
      else Some (Inr (st, read)))"

definition sweep :: "(rat \<Rightarrow> f64) \<Rightarrow> 's sweep_io \<Rightarrow> window_plan \<Rightarrow> 's \<Rightarrow> ('s \<times> window_pred list) res option" where
  "sweep rnd io w st =
     Option.bind (sweep_from rnd io w (saturate 64 (wp_min w - 1)) (wp_start w) [] st) (\<lambda>res. Some (
       and_then res (\<lambda>(st1, read).
         if wp_nullable_key w then
           (case io_statement io NullWindow st1 of
              (st2, Inr _) \<Rightarrow> Inr (st2, read @ [NullWindow])
            | (_, Inl e) \<Rightarrow> Inl e)
         else Inr (st1, read))))"

section \<open>A sweep ends\<close>

definition window_plan_wf :: "window_plan \<Rightarrow> bool" where
  "window_plan_wf w \<longleftrightarrow> 0 < wp_floor w \<and> wp_floor w \<le> wp_start w \<and> wp_start w \<le> wp_max_step w
     \<and> wp_max_step w < 2 ^ 63 \<and> in_signed 64 (wp_min w) \<and> in_signed 64 (wp_max w)"

lemma plan_read_window_wf:
  assumes "plan_read_window cfg bounds col nullable = Some w"
    and "bounds = Some (mn, mx)" "in_signed 64 mn" "in_signed 64 mx"
    and "\<And>n. cfg_read_window_rows cfg = Some n \<Longrightarrow> n < 2 ^ 63"
  shows "window_plan_wf w \<and> wp_min w = mn \<and> wp_max w = mx \<and> wp_nullable_key w = nullable"
  using assms
  by (auto simp: plan_read_window_def window_plan_wf_def Let_def INITIAL_READ_WINDOW_ROWS_def
      MIN_READ_WINDOW_ROWS_def DEFAULT_READ_WINDOW_ROWS_def min_def max_def split: if_splits option.splits)

lemma wrap_i64_id: "0 \<le> x \<Longrightarrow> x < 2 ^ 63 \<Longrightarrow> wrap_i64 x = x"
  by (simp add: wrap_i64_def)

lemma window_hi_bounds:
  assumes "0 < step" "step < 2 ^ 63" "in_signed 64 lo" "lo < mx"
  shows "lo < window_hi lo step mx" "window_hi lo step mx \<le> mx"
proof -
  have "wrap_i64 (int step) = int step" using assms(2) by (intro wrap_i64_id) (auto simp flip: of_nat_power)
  then show "lo < window_hi lo step mx" "window_hi lo step mx \<le> mx"
    using assms by (auto simp: window_hi_def checked_def split: option.split)
qed

lemma clamp_bounds: "lo \<le> hi \<Longrightarrow> lo \<le> clamp_nat x lo hi \<and> clamp_nat x lo hi \<le> hi"
  by (simp add: clamp_nat_def)

lemma next_done:
  "next_window rnd lo hi step w (Done secs) = (lo', step') \<Longrightarrow> wp_floor w \<le> wp_max_step w \<Longrightarrow>
     lo' = hi \<and> wp_floor w \<le> step' \<and> step' \<le> wp_max_step w"
  by (auto simp: next_window_def Let_def clamp_bounds)

lemma next_cancelled:
  "next_window rnd lo hi step w Cancelled = (lo', step') \<Longrightarrow> wp_floor w < step \<Longrightarrow>
     lo' = lo \<and> wp_floor w \<le> step' \<and> step' < step"
  by (auto simp: next_window_def Let_def)

fun covers :: "int \<Rightarrow> window_pred \<Rightarrow> bool" where
  "covers k (WindowRange lo hi) \<longleftrightarrow> lo < k \<and> k \<le> hi"
| "covers k NullWindow \<longleftrightarrow> False"

text \<open>Every run of the loop ends, and what it read when it succeeds is the keys above \<open>lo\<close>, once.\<close>

lemma sweep_from_ends:
  assumes w: "window_plan_wf w" and step: "wp_floor w \<le> step" "step \<le> wp_max_step w"
    and lo: "in_signed 64 lo"
  shows "\<exists>r. sweep_from rnd io w lo step read st = Some r \<and>
    (\<forall>st' ws'. r = Inr (st', ws') \<longrightarrow> (\<exists>ws. ws' = read @ ws \<and> NullWindow \<notin> set ws \<and>
        (\<forall>k. length (filter (covers k) ws) = (if lo < k \<and> k \<le> wp_max w then 1 else 0))))"
  using step lo
proof (induction "(nat (wp_max w - lo), step)" arbitrary: lo step read st rule: wf_induct_rule[OF wf_lex_prod[OF wf_less_than wf_less_than]])
  case less: 1
  show ?case
  proof (cases "lo < wp_max w")
    case False
    then show ?thesis by (subst sweep_from.simps) simp
  next
    case True
    let ?hi = "window_hi lo step (wp_max w)" let ?p = "WindowRange lo ?hi"
    have pos: "0 < step" "step < 2 ^ 63" "wp_floor w \<le> wp_max_step w" using w less.prems by (auto simp: window_plan_wf_def)
    note hi = window_hi_bounds[OF pos(1,2) less.prems(3) True]
    obtain st1 outcome where st1: "io_statement io ?p st = (st1, outcome)" by (cases "io_statement io ?p st")
    show ?thesis
    proof (cases outcome)
      case (Inl e)
      show ?thesis
      proof (cases "is_transient_source e \<and> wp_floor w < step")
        case False
        then show ?thesis using True st1 Inl by (subst sweep_from.simps) (auto simp: Let_def)
      next
        case t: True
        obtain lo' step' where n: "next_window rnd lo ?hi step w Cancelled = (lo', step')"
          by (cases "next_window rnd lo ?hi step w Cancelled")
        note nc = next_cancelled[OF n conjunct2[OF t]]
        have "sweep_from rnd io w lo step read st = sweep_from rnd io w lo step' read (io_undo io st st1)"
          using True st1 Inl t n nc by (subst sweep_from.simps) (simp add: Let_def)
        then show ?thesis using less.hyps[of lo step' read "io_undo io st st1"] nc less.prems by simp
      qed
    next
      case (Inr u)
      show ?thesis
      proof (cases "io_between io st1")
        case (Inl e)
        then show ?thesis using True st1 \<open>outcome = Inr u\<close> by (subst sweep_from.simps) (simp add: Let_def)
      next
        case (Inr st2)
        obtain lo' step' where n: "next_window rnd lo ?hi step w (Done (io_seconds io st st2)) = (lo', step')"
          by (cases "next_window rnd lo ?hi step w (Done (io_seconds io st st2))")
        note nd = next_done[OF n pos(3)]
        have e: "sweep_from rnd io w lo step read st = sweep_from rnd io w ?hi step' (read @ [?p]) st2"
          using True st1 \<open>outcome = Inr u\<close> Inr n nd by (subst sweep_from.simps) (simp add: Let_def)
        have "in_signed 64 ?hi" using hi less.prems(3) w by (auto simp: window_plan_wf_def in_signed_def)
        moreover have "nat (wp_max w - ?hi) < nat (wp_max w - lo)" using hi True by simp
        ultimately obtain r where r: "sweep_from rnd io w ?hi step' (read @ [?p]) st2 = Some r"
          "\<And>st' ws'. r = Inr (st', ws') \<Longrightarrow> \<exists>ws. ws' = (read @ [?p]) @ ws \<and> NullWindow \<notin> set ws \<and>
             (\<forall>k. length (filter (covers k) ws) = (if ?hi < k \<and> k \<le> wp_max w then 1 else 0))"
          using less.hyps[of ?hi step' "read @ [?p]" st2] nd by auto
        have "\<exists>ws. ws' = read @ ws \<and> NullWindow \<notin> set ws \<and>
             (\<forall>k. length (filter (covers k) ws) = (if lo < k \<and> k \<le> wp_max w then 1 else 0))"
          if "r = Inr (st', ws')" for st' ws'
        proof -
          from r(2)[OF that] obtain ws where ws: "ws' = (read @ [?p]) @ ws" "NullWindow \<notin> set ws"
            "\<forall>k. length (filter (covers k) ws) = (if ?hi < k \<and> k \<le> wp_max w then 1 else 0)" by blast
          have "length (filter (covers k) (?p # ws)) = (if lo < k \<and> k \<le> wp_max w then 1 else 0)" for k
            using ws(3)[rule_format, of k] hi by (auto split: if_splits)
          then show ?thesis using ws(1,2) by (intro exI[of _ "?p # ws"]) simp
        qed
        then show ?thesis using e r(1) by auto
      qed
    qed
  qed
qed

lemma sweep_result:
  assumes "sweep rnd io w st = Some (Inr (st', ws))"
  shows "\<exists>st1 ws1. sweep_from rnd io w (saturate 64 (wp_min w - 1)) (wp_start w) [] st = Some (Inr (st1, ws1))
    \<and> (wp_nullable_key w \<longrightarrow> io_statement io NullWindow st1 = (st', Inr ()) \<and> ws = ws1 @ [NullWindow])
    \<and> (\<not> wp_nullable_key w \<longrightarrow> st' = st1 \<and> ws = ws1)"
proof -
  obtain res where 1: "sweep_from rnd io w (saturate 64 (wp_min w - 1)) (wp_start w) [] st = Some res"
    using assms by (cases "sweep_from rnd io w (saturate 64 (wp_min w - 1)) (wp_start w) [] st") (auto simp: sweep_def)
  obtain st1 ws1 where 2: "res = Inr (st1, ws1)"
    using assms 1 by (cases res) (auto simp: sweep_def)
  show ?thesis
  proof (cases "wp_nullable_key w")
    case True
    obtain st2 u where st2: "io_statement io NullWindow st1 = (st2, u)" by (cases "io_statement io NullWindow st1")
    then show ?thesis using assms 1 2 True by (cases u) (auto simp: sweep_def)
  next
    case False
    then show ?thesis using assms 1 2 by (auto simp: sweep_def)
  qed
qed

lemma sweep_covers:
  assumes w: "window_plan_wf w" and r: "sweep rnd io w st = Some (Inr (st', ws))"
  shows "length (filter (covers k) ws) = (if saturate 64 (wp_min w - 1) < k \<and> k \<le> wp_max w then 1 else 0)"
    "length (filter ((=) NullWindow) ws) = (if wp_nullable_key w then 1 else 0)"
proof -
  let ?lo = "saturate 64 (wp_min w - 1)"
  have "in_signed 64 ?lo" by (simp add: saturate_in_signed)
  then obtain res where res: "sweep_from rnd io w ?lo (wp_start w) [] st = Some res"
    "\<And>st' ws'. res = Inr (st', ws') \<Longrightarrow> NullWindow \<notin> set ws' \<and>
        (\<forall>k. length (filter (covers k) ws') = (if ?lo < k \<and> k \<le> wp_max w then 1 else 0))"
    using sweep_from_ends[OF w, of "wp_start w" ?lo rnd io "[]" st] w by (auto simp: window_plan_wf_def)
  obtain st1 ws1 where 1: "res = Inr (st1, ws1)" "ws = ws1 @ (if wp_nullable_key w then [NullWindow] else [])"
    using r res(1) by (auto simp: sweep_def and_then_Inr_iff split: if_splits prod.splits sum.splits)
  have "filter ((=) NullWindow) ws1 = []" using res(2)[OF 1(1)] by (auto simp: filter_empty_conv)
  then show "length (filter (covers k) ws) = (if ?lo < k \<and> k \<le> wp_max w then 1 else 0)"
    "length (filter ((=) NullWindow) ws) = (if wp_nullable_key w then 1 else 0)"
    using res(2)[OF 1(1)] 1(2) by auto
qed

text \<open>The smallest 64-bit key has no window below it: \<open>saturating_sub\<close> leaves the lower edge on
  it, and the windows are open there.\<close>

lemma smallest_key_not_swept:
  assumes "window_plan_wf w" "wp_min w = I64_MIN" "sweep rnd io w st = Some (Inr (st', ws))"
  shows "filter (covers I64_MIN) ws = []"
proof -
  have "saturate 64 (wp_min w - 1) = I64_MIN" using assms(2) by (simp add: saturate_def I64_MIN_def)
  then show ?thesis using sweep_covers(1)[OF assms(1,3), of I64_MIN] by simp
qed

text \<open>C25. A sweep always ends, whatever the statements answer, how often a window is cancelled and
  however long each takes: a cancelled window halves the width down to the floor, where its error
  surfaces, and one that succeeds moves the lower edge up.\<close>

theorem sweep_terminates:
  assumes "plan_read_window cfg (Some (mn, mx)) col nullable = Some w"
    and "in_signed 64 mn" "in_signed 64 mx"
    and "\<And>n. cfg_read_window_rows cfg = Some n \<Longrightarrow> n < 2 ^ 63"
  shows "\<exists>r. sweep rnd io w st = Some r"
proof -
  have w: "window_plan_wf w" using plan_read_window_wf[OF assms(1) refl assms(2-4)] by simp
  have "in_signed 64 (saturate 64 (wp_min w - 1))" by (simp add: saturate_in_signed)
  then show ?thesis
    using sweep_from_ends[OF w, of "wp_start w" "saturate 64 (wp_min w - 1)" rnd io "[]" st] w
    by (auto simp: sweep_def window_plan_wf_def)
qed

section \<open>What a sweep delivers\<close>

text \<open>The contract of a reader a sweep drives: a window that succeeds delivers its content, and
  undoing one that failed delivers nothing.\<close>

locale window_sink =
  fixes io :: "'s sweep_io"
    and delivered :: "'s \<Rightarrow> 'r list"
    and content :: "window_pred \<Rightarrow> 'r list"
    and ready :: "'s \<Rightarrow> bool"
  assumes statement_ok: "ready s \<Longrightarrow> io_statement io p s = (s', Inr u) \<Longrightarrow>
      ready s' \<and> delivered s' = delivered s @ content p"
    and undo_ok: "ready s \<Longrightarrow> io_statement io p s = (s', Inl e) \<Longrightarrow>
      ready (io_undo io s s') \<and> delivered (io_undo io s s') = delivered s"
    and between_ok: "ready s \<Longrightarrow> io_between io s = Inr s' \<Longrightarrow> ready s' \<and> delivered s' = delivered s"
begin

lemma sweep_from_delivers:
  assumes "sweep_from rnd io w lo step read st = Some (Inr (st', ws))" and "ready st"
  shows "ready st' \<and> (\<exists>ws'. ws = read @ ws' \<and> delivered st' = delivered st @ concat (map content ws'))"
proof -
  have "\<forall>st' ws. r = Inr (st', ws) \<longrightarrow> io' = io \<longrightarrow> ready st \<longrightarrow>
      ready st' \<and> (\<exists>ws'. ws = read @ ws' \<and> delivered st' = delivered st @ concat (map content ws'))"
    if "sweep_from rnd io' w lo step read st = Some r" for io' r
    using that
  proof (induction rule: sweep_from.raw_induct[rotated 1, consumes 1, case_names step])
    case (step sw rnd io' w lo width read st r)
    show ?case
    proof (intro allI impI)
      fix st' ws
      assume r: "r = Inr (st', ws)" and io: "io' = io" and ready: "ready st"
      let ?p = "WindowRange lo (window_hi lo width (wp_max w))"
      show "ready st' \<and> (\<exists>ws'. ws = read @ ws' \<and> delivered st' = delivered st @ concat (map content ws'))"
      proof (cases "lo < wp_max w")
        case False
        then show ?thesis using step(2) r ready by simp
      next
        case True
        obtain st1 outcome where st1: "io_statement io ?p st = (st1, outcome)" by (cases "io_statement io ?p st")
        show ?thesis
        proof (cases outcome)
          case (Inl e)
          then obtain lo' step' where "sw rnd io w lo' step' read (io_undo io st st1) = Some (Inr (st', ws))"
            using step(2) True st1 r io by (auto simp: Let_def split: if_splits prod.splits)
          from step(1)[OF this] undo_ok[OF ready st1[unfolded Inl]] show ?thesis by simp
        next
          case (Inr u)
          note ok = statement_ok[OF ready st1[unfolded Inr]]
          from Inr obtain lo' step' st2 where st2: "io_between io st1 = Inr st2"
            and sw: "sw rnd io w lo' step' (read @ [?p]) st2 = Some (Inr (st', ws))"
            using step(2) True st1 r io by (auto simp: Let_def split: sum.splits prod.splits)
          have b: "ready st2" "delivered st2 = delivered st @ content ?p"
            using between_ok[OF _ st2] ok by auto
          from step(1)[OF sw] b(1) obtain ws' where "ready st'" "ws = (read @ [?p]) @ ws'"
            "delivered st' = delivered st2 @ concat (map content ws')" by blast
          then show ?thesis using b(2) by (intro conjI exI[of _ "?p # ws'"]) simp_all
        qed
      qed
    qed
  qed
  then show ?thesis using assms by blast
qed

lemma sweep_delivers:
  assumes "sweep rnd io w st = Some (Inr (st', ws))" and "ready st"
  shows "delivered st' = delivered st @ concat (map content ws)"
proof -
  obtain st1 ws1 where 1: "sweep_from rnd io w (saturate 64 (wp_min w - 1)) (wp_start w) [] st = Some (Inr (st1, ws1))"
    and rest: "wp_nullable_key w \<longrightarrow> io_statement io NullWindow st1 = (st', Inr ()) \<and> ws = ws1 @ [NullWindow]"
      "\<not> wp_nullable_key w \<longrightarrow> st' = st1 \<and> ws = ws1"
    using sweep_result[OF assms(1)] by blast
  from sweep_from_delivers[OF 1 assms(2)] have "ready st1" "delivered st1 = delivered st @ concat (map content ws1)"
    by auto
  then show ?thesis using rest statement_ok[of st1 NullWindow st'] by (cases "wp_nullable_key w") auto
qed

end

end
