(* ===== verification/QH_Sweep.thy ===== *)
theory QH_Sweep
  imports QH_Window
begin

text \<open>
  A windowed read through the insert buffer: the sweep of \<open>QH_Window\<close> driven on the reader of
  \<open>QH_Pipeline\<close>, with a source that may cancel any attempt at any window after any number of
  batches.
\<close>

section \<open>A sweep through the insert buffer\<close>

text \<open>The state a sweep acts on: the statements tried so far, whether the connection is open, and
  the reader with its run.\<close>

record sweep_state =
  ss_attempt :: nat
  ss_conn :: bool
  ss_ctx :: send_ctx
  ss_reader :: reader

text \<open>The batches of one statement, pushed in order; the budget is unbounded here, so no push
  waits.\<close>

primrec push_batches :: "(batch \<Rightarrow> nat) \<Rightarrow> batch_field list \<Rightarrow> batch list \<Rightarrow> send_ctx \<Rightarrow> reader
    \<Rightarrow> send_ctx \<times> reader \<times> unit res" where
  "push_batches mem_size schema [] ctx rd = (ctx, rd, Inr ())"
| "push_batches mem_size schema (b # bs) ctx rd =
     (case push_batch mem_size schema b ctx rd of
        Inl e \<Rightarrow> (ctx, rd, Inl e)
      | Inr (ctx', rd') \<Rightarrow> push_batches mem_size schema bs ctx' rd')"

text \<open>A statement over a window: the source answers the window's batches, or fails after some of
  them (\<open>fails\<close> says which attempts do, and with what).\<close>

definition read_statement :: "(batch \<Rightarrow> nat) \<Rightarrow> batch_field list \<Rightarrow> (window_pred \<Rightarrow> batch list)
    \<Rightarrow> (nat \<Rightarrow> window_pred \<Rightarrow> (nat \<times> etl_error) option) \<Rightarrow> window_pred \<Rightarrow> sweep_state
    \<Rightarrow> sweep_state \<times> unit res" where
  "read_statement mem_size schema content fails p s =
     (let (bs, answer) = (case fails (ss_attempt s) p of
                            None \<Rightarrow> (content p, Inr ()) | Some (n, e) \<Rightarrow> (take n (content p), Inl e));
          (ctx, rd, pushed) = push_batches mem_size schema bs (ss_ctx s) (start_statement schema (ss_reader s))
      in (\<lparr>ss_attempt = ss_attempt s + 1, ss_conn = True, ss_ctx = ctx, ss_reader = rd\<rparr>,
          and_then pushed (\<lambda>_. answer)))"

text \<open>After a failed window: a new connection, and none of the rows it buffered.\<close>

definition undo_window :: "sweep_state \<Rightarrow> sweep_state \<Rightarrow> sweep_state" where
  "undo_window before s =
     (let (ctx, rd) = roll_back (buffer_mark_of (rd_buf (ss_reader before))) (ss_ctx s) (ss_reader s)
      in s\<lparr>ss_conn := False, ss_ctx := ctx, ss_reader := rd\<rparr>)"

definition pipeline_io :: "(batch \<Rightarrow> nat) \<Rightarrow> batch_field list \<Rightarrow> (window_pred \<Rightarrow> batch list)
    \<Rightarrow> (nat \<Rightarrow> window_pred \<Rightarrow> (nat \<times> etl_error) option) \<Rightarrow> (nat \<Rightarrow> f64) \<Rightarrow> sweep_state sweep_io" where
  "pipeline_io mem_size schema content fails secs =
     \<lparr>io_statement = read_statement mem_size schema content fails,
      io_between = (\<lambda>s. and_then (between_windows (ss_ctx s) (ss_reader s)) (\<lambda>(ctx, rd).
          Inr (s\<lparr>ss_ctx := ctx, ss_reader := rd\<rparr>))),
      io_undo = undo_window,
      io_seconds = (\<lambda>_ s. secs (ss_attempt s))\<rparr>"

text \<open>The rows on their way to the destination, in the order they were read.\<close>

definition delivered_batches :: "send_ctx \<Rightarrow> reader \<Rightarrow> batch list" where
  "delivered_batches ctx rd =
     sc_table ctx @ concat (map sd_batches (rd_sends rd)) @ ib_batches (rd_buf rd)"

definition delivered_rows :: "sweep_state \<Rightarrow> cell list list" where
  "delivered_rows s = concat (map bt_rows (delivered_batches (ss_ctx s) (ss_reader s)))"

text \<open>A reader set up for a sweep: a deferred buffer, no guard and no ceiling on memory.\<close>

definition sweep_ready :: "send_ctx \<Rightarrow> reader \<Rightarrow> bool" where
  "sweep_ready ctx rd \<longleftrightarrow> sc_guard ctx = None \<and> mb_sem (sc_budget ctx) = None
     \<and> ib_deferred (rd_buf rd) \<and> buffer_wf (rd_buf rd)"

lemma push_ready:
  assumes "sweep_ready ctx rd" and "push_batch mem_size schema b ctx rd = Inr (ctx', rd')"
  shows "sweep_ready ctx' rd' \<and> delivered_batches ctx' rd' = delivered_batches ctx rd @ [b]
    \<and> ib_takes (rd_buf rd') = ib_takes (rd_buf rd) \<and> (\<exists>bs. ib_batches (rd_buf rd') = ib_batches (rd_buf rd) @ bs)
    \<and> rd_sends rd' = rd_sends rd \<and> sc_table ctx' = sc_table ctx"
  using assms
  by (auto simp: sweep_ready_def push_batch_def guard_batch_def try_reserve_def push_reserved_def
      buffer_push_def delivered_batches_def buffer_wf_def Let_def)

lemma push_succeeds: "sweep_ready ctx rd \<Longrightarrow> \<exists>ctx' rd'. push_batch mem_size schema b ctx rd = Inr (ctx', rd')"
  by (simp add: sweep_ready_def push_batch_def guard_batch_def try_reserve_def Let_def)

lemma push_batches_ready:
  assumes "sweep_ready ctx rd" and "push_batches mem_size schema bs ctx rd = (ctx', rd', pushed)"
  shows "sweep_ready ctx' rd' \<and> delivered_batches ctx' rd' = delivered_batches ctx rd @ bs \<and> pushed = Inr ()
    \<and> ib_takes (rd_buf rd') = ib_takes (rd_buf rd) \<and> (\<exists>bs. ib_batches (rd_buf rd') = ib_batches (rd_buf rd) @ bs)
    \<and> rd_sends rd' = rd_sends rd \<and> sc_table ctx' = sc_table ctx"
  using assms
proof (induction bs arbitrary: ctx rd)
  case (Cons b bs)
  obtain c r where p: "push_batch mem_size schema b ctx rd = Inr (c, r)" using push_succeeds[OF Cons.prems(1)] by blast
  note r = push_ready[OF Cons.prems(1) p]
  then have "push_batches mem_size schema bs c r = (ctx', rd', pushed)" using Cons.prems(2) p by simp
  from Cons.IH[OF _ this] r show ?case by auto
qed auto

lemma start_ready: "sweep_ready ctx rd \<Longrightarrow> sweep_ready ctx (start_statement schema rd)"
  "delivered_batches ctx (start_statement schema rd) = delivered_batches ctx rd"
  "rd_buf (start_statement schema rd) = rd_buf rd" "rd_sends (start_statement schema rd) = rd_sends rd"
  by (simp_all add: sweep_ready_def delivered_batches_def start_statement_def)

lemma flush_ready: "sweep_ready ctx rd \<Longrightarrow> sweep_ready ctx (flush ctx schema rd)"
  "delivered_batches ctx (flush ctx schema rd) = delivered_batches ctx rd"
  by (auto simp: sweep_ready_def flush_def delivered_batches_def buffer_take_def buffer_empty_def buffer_wf_def Let_def)

lemma statement_ready:
  assumes "sweep_ready (ss_ctx s) (ss_reader s)"
    and "read_statement mem_size schema content fails p s = (s', outcome)"
  shows "sweep_ready (ss_ctx s') (ss_reader s')"
    "outcome = Inr u \<Longrightarrow> delivered_rows s' = delivered_rows s @ concat (map bt_rows (content p))"
    "sc_table (ss_ctx s') = sc_table (ss_ctx s)" "rd_sends (ss_reader s') = rd_sends (ss_reader s)"
    "ib_takes (rd_buf (ss_reader s')) = ib_takes (rd_buf (ss_reader s))"
    "\<exists>bs. ib_batches (rd_buf (ss_reader s')) = ib_batches (rd_buf (ss_reader s)) @ bs"
proof -
  obtain bs answer where ba: "(case fails (ss_attempt s) p of
      None \<Rightarrow> (content p, Inr ()) | Some (n, e) \<Rightarrow> (take n (content p), Inl e)) = (bs, answer)"
    by (metis surj_pair)
  obtain ctx rd pushed where pb: "push_batches mem_size schema bs (ss_ctx s) (start_statement schema (ss_reader s))
      = (ctx, rd, pushed)" by (metis prod_cases3)
  note r = push_batches_ready[OF start_ready(1)[OF assms(1)] pb]
  have s': "s' = \<lparr>ss_attempt = ss_attempt s + 1, ss_conn = True, ss_ctx = ctx, ss_reader = rd\<rparr>" "outcome = answer"
    using assms(2) ba pb r by (simp_all add: read_statement_def)
  then show "sweep_ready (ss_ctx s') (ss_reader s')" "sc_table (ss_ctx s') = sc_table (ss_ctx s)"
    "rd_sends (ss_reader s') = rd_sends (ss_reader s)"
    "ib_takes (rd_buf (ss_reader s')) = ib_takes (rd_buf (ss_reader s))"
    "\<exists>bs. ib_batches (rd_buf (ss_reader s')) = ib_batches (rd_buf (ss_reader s)) @ bs"
    using r by (simp_all add: start_ready)
  assume "outcome = Inr u"
  then have "bs = content p" using s'(2) ba by (auto split: option.splits)
  then show "delivered_rows s' = delivered_rows s @ concat (map bt_rows (content p))"
    using r s'(1) by (simp add: delivered_rows_def start_ready)
qed

lemma undo_ready:
  assumes "sweep_ready (ss_ctx s) (ss_reader s)"
    and "read_statement mem_size schema content fails p s = (s', outcome)"
  shows "sweep_ready (ss_ctx (undo_window s s')) (ss_reader (undo_window s s'))
    \<and> delivered_rows (undo_window s s') = delivered_rows s"
proof -
  note r = statement_ready[OF assms]
  obtain bs where bs: "ib_batches (rd_buf (ss_reader s')) = ib_batches (rd_buf (ss_reader s)) @ bs" using r(6) by blast
  have b: "mb_sem b = None \<Longrightarrow> mb_sem (drop_all rs b) = None" for rs b
    by (induction rs arbitrary: b) (auto simp: drop_all_def drop_reservation_def)
  have "buffer_wf (rd_buf (ss_reader s'))" using r(1) by (simp add: sweep_ready_def)
  then show ?thesis using r(1,3-5) bs b
    by (auto simp: undo_window_def roll_back_def buffer_truncate_def buffer_mark_of_def delivered_rows_def
        delivered_batches_def sweep_ready_def buffer_wf_def Let_def)
qed

lemma between_ready:
  assumes "sweep_ready ctx rd" and "between_windows ctx rd = Inr (ctx', rd')"
  shows "sweep_ready ctx' rd' \<and> delivered_batches ctx' rd' = delivered_batches ctx rd"
proof -
  let ?p = "report_null_rows ctx rd"
  define r2 where "r2 = (if buffer_full (rd_buf (snd ?p))
     then (case rd_schema (snd ?p) of Some schema \<Rightarrow> flush (fst ?p) schema (snd ?p) | None \<Rightarrow> snd ?p) else snd ?p)"
  have e: "ctx' = fst ?p" "rd' = r2\<lparr>rd_ended := []\<rparr>"
    using assms(2) by (auto simp: between_windows_def r2_def reap_def Let_def qh_res case_prod_beta)
  have "sweep_ready (fst ?p) (snd ?p)" "delivered_batches (fst ?p) (snd ?p) = delivered_batches ctx rd"
    using assms(1) by (simp_all add: report_null_rows_def sweep_ready_def delivered_batches_def buffer_wf_def)
  then have "sweep_ready (fst ?p) r2 \<and> delivered_batches (fst ?p) r2 = delivered_batches ctx rd"
    by (auto simp: r2_def flush_ready split: option.split)
  then show ?thesis by (simp add: e sweep_ready_def delivered_batches_def)
qed

interpretation sink: window_sink "pipeline_io mem_size schema content fails secs" delivered_rows
    "\<lambda>p. concat (map bt_rows (content p))" "\<lambda>s. sweep_ready (ss_ctx s) (ss_reader s)"
  for mem_size schema content fails secs
proof
  fix s p s' u
  assume "sweep_ready (ss_ctx s) (ss_reader s)"
    and "io_statement (pipeline_io mem_size schema content fails secs) p s = (s', Inr u)"
  then show "sweep_ready (ss_ctx s') (ss_reader s')
      \<and> delivered_rows s' = delivered_rows s @ concat (map bt_rows (content p))"
    using statement_ready(1,2)[of s mem_size schema content fails p s' "Inr u"] by (simp add: pipeline_io_def)
next
  fix s p s' e
  assume "sweep_ready (ss_ctx s) (ss_reader s)"
    and "io_statement (pipeline_io mem_size schema content fails secs) p s = (s', Inl e)"
  then show "sweep_ready (ss_ctx (io_undo (pipeline_io mem_size schema content fails secs) s s'))
        (ss_reader (io_undo (pipeline_io mem_size schema content fails secs) s s'))
      \<and> delivered_rows (io_undo (pipeline_io mem_size schema content fails secs) s s') = delivered_rows s"
    using undo_ready[of s mem_size schema content fails p s' "Inl e"] by (simp add: pipeline_io_def)
next
  fix s s'
  assume "sweep_ready (ss_ctx s) (ss_reader s)"
    and "io_between (pipeline_io mem_size schema content fails secs) s = Inr s'"
  then show "sweep_ready (ss_ctx s') (ss_reader s') \<and> delivered_rows s' = delivered_rows s"
    using between_ready[of "ss_ctx s" "ss_reader s"]
    by (auto simp: pipeline_io_def delivered_rows_def and_then_Inr_iff)
qed

fun window_selects :: "window_pred \<Rightarrow> int option \<Rightarrow> bool" where
  "window_selects (WindowRange lo hi) v = (case v of Some k \<Rightarrow> lo < k \<and> k \<le> hi | None \<Rightarrow> False)"
| "window_selects NullWindow v = (v = None)"

lemma mset_split_once:
  assumes "\<And>x. x \<in> set src \<Longrightarrow> length (filter (\<lambda>p. sel p x) ws) = (if Q x then 1 else 0)"
  shows "mset (concat (map (\<lambda>p. map g (filter (sel p) src)) ws)) = mset (map g (filter Q src))"
  using assms
proof (induction src)
  case Nil
  then show ?case by (induction ws) auto
next
  case (Cons x src)
  have "mset (concat (map (\<lambda>p. map g (filter (sel p) (x # src))) ws))
      = mset (concat (map (\<lambda>p. map g (filter (sel p) src)) ws))
        + replicate_mset (length (filter (\<lambda>p. sel p x) ws)) (g x)"
    by (induction ws) auto
  then show ?case using Cons by simp
qed

lemma sweep_selects_once:
  assumes w: "window_plan_wf w" "I64_MIN < wp_min w" and r: "sweep rnd io w st = Some (Inr (st', ws))"
  shows "length (filter (\<lambda>p. window_selects p v) ws) =
    (if (case v of Some k \<Rightarrow> wp_min w \<le> k \<and> k \<le> wp_max w | None \<Rightarrow> wp_nullable_key w) then 1 else 0)"
proof (cases v)
  case None
  have "(\<lambda>p. window_selects p None) = (=) NullWindow"
    by (rule ext) (case_tac p; simp)
  then show ?thesis using sweep_covers(2)[OF w(1) r] None by simp
next
  case (Some k)
  have "(\<lambda>p. window_selects p (Some k)) = covers k"
    by (rule ext) (case_tac p; simp)
  moreover have "saturate 64 (wp_min w - 1) = wp_min w - 1"
    using w by (intro saturate_range) (auto simp: window_plan_wf_def in_signed_def I64_MIN_def I64_MAX_def)
  ultimately show ?thesis using sweep_covers(1)[OF w(1) r, of k] Some by auto
qed

text \<open>C26. A swept read that has no memory ceiling and no NULL guard, over a source that answers a window
  with the rows its predicate selects each time it is asked, delivers every row of the source in its
  key bounds exactly once, and the rows of a NULL key when it may be NULL, however many windows were
  cancelled part of the way and read again: what a failed window had buffered is rolled back.  The
  smallest key is above the least i64 (see \<open>smallest_key_not_swept\<close>).  With a ceiling the claim does
  not hold: what memory pressure sends in the middle of a window is not taken back when that window
  fails, and is delivered again by its next attempt.\<close>

theorem sweep_reads_each_row_once:
  assumes plan: "plan_read_window cfg (Some (mn, mx)) col nullable = Some w"
    and range: "I64_MIN < mn" "in_signed 64 mn" "in_signed 64 mx"
      "\<And>n. cfg_read_window_rows cfg = Some n \<Longrightarrow> n < 2 ^ 63"
    and source: "\<And>p. concat (map bt_rows (content p)) = map snd (filter (\<lambda>x. window_selects p (fst x)) src)"
    and ready: "sweep_ready (ss_ctx s) (ss_reader s)"
    and swept: "sweep rnd (pipeline_io mem_size schema content fails secs) w s = Some (Inr (s', ws))"
  shows "mset (delivered_rows s') = mset (delivered_rows s)
     + mset (map snd (filter (\<lambda>x. case fst x of Some k \<Rightarrow> mn \<le> k \<and> k \<le> mx | None \<Rightarrow> nullable) src))"
proof -
  have w: "window_plan_wf w" "wp_min w = mn" "wp_max w = mx" "wp_nullable_key w = nullable"
    using plan_read_window_wf[OF plan refl range(2,3,4)] by auto
  have "delivered_rows s' = delivered_rows s @ concat (map (\<lambda>p. concat (map bt_rows (content p))) ws)"
    using sink.sweep_delivers[OF swept ready] .
  moreover have "mset (concat (map (\<lambda>p. map snd (filter (\<lambda>x. window_selects p (fst x)) src)) ws))
      = mset (map snd (filter (\<lambda>x. case fst x of Some k \<Rightarrow> mn \<le> k \<and> k \<le> mx | None \<Rightarrow> nullable) src))"
    by (rule mset_split_once) (use sweep_selects_once[OF w(1) _ swept, unfolded w(2-4), OF range(1)] in blast)
  ultimately show ?thesis by (simp add: source)
qed

definition sample_source_rows :: "(int option \<times> cell list) list" where
  "sample_source_rows = [(Some 1, [CInt 1]), (Some 3, [CInt 3]), (None, [CNull])]"

definition sample_content :: "window_pred \<Rightarrow> batch list" where
  "sample_content p = [\<lparr>bt_fields = [], bt_rows = map snd (filter (\<lambda>x. window_selects p (fst x)) sample_source_rows)\<rparr>]"

definition sample_sweep_state :: sweep_state where
  "sample_sweep_state = \<lparr>ss_attempt = 0, ss_conn = False, ss_ctx = sample_ctx None 0 0 [],
     ss_reader = (reader_new 1000)\<lparr>rd_buf := (insert_buffer_new 1000)\<lparr>ib_deferred := True\<rparr>\<rparr>\<rparr>"

definition sample_window_plan :: window_plan where
  "sample_window_plan = \<lparr>wp_col_quoted = ''id'', wp_min = 1, wp_max = 3, wp_start = 50000, wp_max_step = 5000000,
     wp_target_secs = Fin 5, wp_floor = 1000, wp_nullable_key = True\<rparr>"

definition first_fails :: "nat \<Rightarrow> window_pred \<Rightarrow> (nat \<times> etl_error) option" where
  "first_fails attempt p = (if attempt = 0 then Some (1, ReadIdleTimeout ''partition'' 30) else None)"

lemmas sweep_defs = sample_sweep_state_def sample_window_plan_def first_fails_def pipeline_io_def
  read_statement_def undo_window_def start_statement_def roll_back_def buffer_truncate_def buffer_mark_of_def
  between_windows_def report_null_rows_def buffer_full_def reap_def count_null_rows_def sample_content_def
  sample_source_rows_def saturate_def window_hi_def wrap_i64_def checked_def in_signed_def next_window_def

lemma sample_swept:
  "\<exists>s' ws. sweep Fin (pipeline_io (\<lambda>_. 10) [] sample_content first_fails (\<lambda>_. Fin 5)) sample_window_plan sample_sweep_state
     = Some (Inr (s', ws))"
  unfolding sweep_def
  by (subst sweep_from.simps, simp add: sweep_defs sample_defs)+

lemma sample_sweep_plan:
  "plan_read_window sample_config (Some (1, 3)) ''id'' True = Some sample_window_plan"
  by (simp add: plan_read_window_def sample_config_def sample_window_plan_def INITIAL_READ_WINDOW_ROWS_def
      DEFAULT_READ_WINDOW_ROWS_def MIN_READ_WINDOW_ROWS_def DEFAULT_WINDOW_TARGET_SECS_def)

theorem sweep_terminates_witness:
  "\<exists>r. sweep Fin (pipeline_io (\<lambda>_. 10) [] sample_content first_fails (\<lambda>_. Fin 5)) sample_window_plan sample_sweep_state = Some r"
  by (rule sweep_terminates[OF sample_sweep_plan]) (simp_all add: in_signed_def sample_config_def)

theorem sweep_reads_each_row_once_witness:
  "\<exists>s' ws. sweep Fin (pipeline_io (\<lambda>_. 10) [] sample_content first_fails (\<lambda>_. Fin 5)) sample_window_plan sample_sweep_state
      = Some (Inr (s', ws))
    \<and> mset (delivered_rows s') = {#[CInt 1], [CInt 3], [CNull]#}"
proof -
  obtain s' ws where r: "sweep Fin (pipeline_io (\<lambda>_. 10) [] sample_content first_fails (\<lambda>_. Fin 5))
      sample_window_plan sample_sweep_state = Some (Inr (s', ws))" using sample_swept by blast
  have ready: "sweep_ready (ss_ctx sample_sweep_state) (ss_reader sample_sweep_state)"
    by (simp add: sweep_ready_def buffer_wf_def sweep_defs sample_defs)
  have src: "concat (map bt_rows (sample_content p)) = map snd (filter (\<lambda>x. window_selects p (fst x)) sample_source_rows)" for p
    by (simp add: sample_content_def)
  have none: "delivered_rows sample_sweep_state = []"
    by (simp add: delivered_rows_def delivered_batches_def sweep_defs sample_defs)
  have "mset (delivered_rows s') = {#[CInt 1], [CInt 3], [CNull]#}"
    using sweep_reads_each_row_once[OF sample_sweep_plan _ _ _ _ src ready r] none
    by (simp add: I64_MIN_def in_signed_def sample_config_def sample_source_rows_def)
  then show ?thesis using r by blast
qed

end
