(* ===== verification/QH_Chunk.thy ===== *)
theory QH_Chunk
  imports QH_Watermark
begin

text \<open>
  The resumable chunked read: the state table (\<open>sink/clickhouse.rs\<close>, \<open>sink/mod.rs\<close>), what a run
  starts from, the plan of a chunk, the loop over the chunks and the cursor a run ends on
  (\<open>sync.rs\<close>).  A run's outside world is \<open>chunk_env\<close>: the rows a chunk's statement returns, the
  clock, which chunk a crash falls on and how far it got, and what becomes of each write to the state
  table: done, refused, or done with its answer lost.
\<close>

section \<open>The state table\<close>

text \<open>The UTF-8 bytes of a dash.\<close>

definition em_dash :: string where
  "em_dash = [CHR 0xE2, CHR 0x80, CHR 0x94]"

record state_row =
  sr_source :: string
  sr_dest :: string
  sr_watermark :: string
  sr_rows :: nat
  sr_chunk_cursor :: string
  sr_chunk_upper :: string
  sr_chunk_read :: string

record chunk_marker =
  cm_cursor :: string
  cm_upper :: string
  cm_read :: string

text \<open>Newest row first.\<close>

type_synonym state_table = "state_row list"

definition newest_row :: "transfer_config \<Rightarrow> state_table \<Rightarrow> state_row option" where
  "newest_row cfg st =
     find (\<lambda>r. sr_source r = effective_state_key cfg \<and> sr_dest r = cfg_dest_table cfg) st"

text \<open>A stored text as a \<open>TabSeparated\<close> reply spells it, which the code takes as it comes.\<close>

definition TAB :: char where "TAB = CHR 0x09"

definition tsv_char :: "char \<Rightarrow> string" where
  "tsv_char c =
    (if c = BSL then [BSL, BSL] else if c = APOS then [BSL, APOS] else if c = TAB then [BSL, CHR ''t'']
     else if c = LF then [BSL, CHR ''n''] else if c = CR then [BSL, CHR ''r''] else if c = CHR 0x08 then [BSL, CHR ''b'']
     else if c = CHR 0x0C then [BSL, CHR ''f''] else if c = CHR 0x00 then [BSL, CHR ''0''] else [c])"

definition tsv_escape :: "string \<Rightarrow> string" where
  "tsv_escape = escape_chars tsv_char"

definition split_three :: "string \<Rightarrow> string \<times> string \<times> string" where
  "split_three line =
     (case split_once TAB line of
        None \<Rightarrow> (line, [], [])
      | Some (a, rest) \<Rightarrow> (case split_once TAB rest of None \<Rightarrow> (a, rest, []) | Some (b, c) \<Rightarrow> (a, b, c)))"

definition read_last_watermark :: "transfer_config \<Rightarrow> state_table \<Rightarrow> string option" where
  "read_last_watermark cfg st =
     Option.bind (newest_row cfg st) (\<lambda>r.
       let trimmed = trim (tsv_escape (sr_watermark r)) in if trimmed = [] then None else Some trimmed)"

definition read_chunk_state :: "transfer_config \<Rightarrow> state_table \<Rightarrow> chunk_marker option" where
  "read_chunk_state cfg st =
     Option.bind (newest_row cfg st) (\<lambda>r.
       let (cursor, upper, read) = split_three (tsv_escape (sr_chunk_cursor r) @ TAB # tsv_escape (sr_chunk_upper r)
             @ TAB # tsv_escape (sr_chunk_read r))
       in if cursor = [] then None else Some \<lparr>cm_cursor = cursor, cm_upper = upper, cm_read = read\<rparr>)"

definition persist_watermark :: "transfer_config \<Rightarrow> string \<Rightarrow> nat \<Rightarrow> state_table \<Rightarrow> state_table" where
  "persist_watermark cfg watermark rows st =
     \<lparr>sr_source = effective_state_key cfg, sr_dest = cfg_dest_table cfg, sr_watermark = watermark,
      sr_rows = rows, sr_chunk_cursor = [], sr_chunk_upper = [], sr_chunk_read = []\<rparr> # st"

definition persist_chunk_cursor :: "transfer_config \<Rightarrow> string option \<Rightarrow> string \<Rightarrow> string \<Rightarrow> nat
    \<Rightarrow> state_table \<Rightarrow> state_table" where
  "persist_chunk_cursor cfg committed cursor upper rows st =
     \<lparr>sr_source = effective_state_key cfg, sr_dest = cfg_dest_table cfg,
      sr_watermark = (case committed of Some c \<Rightarrow> c | None \<Rightarrow> []), sr_rows = rows,
      sr_chunk_cursor = cursor, sr_chunk_upper = upper, sr_chunk_read = chunk_read_id cfg\<rparr> # st"

section \<open>Where a run starts\<close>

record saved_state =
  sv_committed :: "string option"
  sv_marker :: "chunk_marker option"
  sv_discarded :: bool

definition stopped_text :: "transfer_config \<Rightarrow> chunk_marker \<Rightarrow> string" where
  "stopped_text cfg m =
     ''the resume marker of an unfinished chunk_rows read, stopped past ''
     @ (case keyset_column cfg of Some k \<Rightarrow> k | None \<Rightarrow> []) @ '' '' @ cm_cursor m"

definition recreated_destination_message :: "transfer_config \<Rightarrow> string option \<Rightarrow> chunk_marker option \<Rightarrow> string" where
  "recreated_destination_message cfg committed marker =
     (let held_text = (case (committed, marker) of
            (Some c, Some m) \<Rightarrow> ''the cursor '' @ c @ '' and '' @ stopped_text cfg m
          | (Some c, None) \<Rightarrow> ''the cursor '' @ c
          | (None, Some m) \<Rightarrow> stopped_text cfg m
          | (None, None) \<Rightarrow> ''nothing'');
        start = (case cfg_seed_watermark cfg of
            NoSeed \<Rightarrow> ''the start''
          | SeedValue v \<Rightarrow> ''seed_watermark, '' @ v
          | CurrentMax \<Rightarrow> ''the source's current MAX (skip_to_max=True)'');
        cleared = (if cfg_advance_watermark cfg then ''and clears it''
          else ''but advance_watermark=False leaves it saved, so a run after this one starts past it again'');
        instead = (case committed of
            Some c \<Rightarrow> '' To start past it instead, pass seed_watermark='' @ quoted c @ ''.'' | None \<Rightarrow> [])
      in ''destination '' @ quoted (cfg_dest_table cfg)
         @ '' does not exist, so this run creates it, but state_key '' @ quoted (effective_state_key cfg)
         @ '' still holds '' @ held_text
         @ '' from the table it replaces. Starting past it would fill the new table with only the rows after it, so this run reads from ''
         @ start @ '', as a first run does, '' @ cleared @ ''.'' @ instead)"

definition read_saved_state :: "transfer_config \<Rightarrow> bool \<Rightarrow> state_table \<Rightarrow> warnings \<Rightarrow> saved_state \<times> warnings" where
  "read_saved_state cfg dest_exists st ws =
     (let committed = read_last_watermark cfg st;
          marker = (if cfg_chunk_rows cfg \<noteq> None then read_chunk_state cfg st else None) in
      if (committed = None \<and> marker = None) \<or> \<not> cfg_create_if_missing cfg \<or> dest_exists
      then (\<lparr>sv_committed = committed, sv_marker = marker, sv_discarded = False\<rparr>, ws)
      else (\<lparr>sv_committed = None, sv_marker = None, sv_discarded = True\<rparr>,
            push_warning \<lparr>tw_kind = RecreatedDestination, tw_column = None, tw_count = 0,
               tw_sample = (case committed of Some c \<Rightarrow> Some c | None \<Rightarrow> map_option cm_cursor marker),
               tw_message = recreated_destination_message cfg committed marker\<rparr> ws))"

definition clear_discarded_state :: "transfer_config \<Rightarrow> state_table \<Rightarrow> state_table" where
  "clear_discarded_state cfg st =
     (if \<not> cfg_advance_watermark cfg then st else persist_watermark cfg [] 0 st)"

definition resumable_marker :: "transfer_config \<Rightarrow> chunk_marker option \<Rightarrow> string option \<Rightarrow> warnings
    \<Rightarrow> (string \<times> string) option \<times> warnings" where
  "resumable_marker cfg marker committed ws =
     (case marker of
        None \<Rightarrow> (None, ws)
      | Some m \<Rightarrow>
          if cm_read m = [] \<or> cm_read m = chunk_read_id cfg then (Some (cm_cursor m, cm_upper m), ws)
          else (None, push_warning \<lparr>tw_kind = AbandonedResumeMarker, tw_column = None, tw_count = 0,
             tw_sample = Some (cm_cursor m),
             tw_message = ''state_key '' @ quoted (effective_state_key cfg) @ '' into '' @ quoted (cfg_dest_table cfg)
               @ '' holds the resume marker of an unfinished chunk_rows read of a different query, stopped past ''
               @ (case keyset_column cfg of Some k \<Rightarrow> k | None \<Rightarrow> []) @ '' '' @ cm_cursor m
               @ ''. This run doesn't resume it, and reads from ''
               @ (case committed of Some c \<Rightarrow> ''the saved cursor, '' @ c | None \<Rightarrow> ''the start'') @ '' instead.''
               @ (if cfg_advance_watermark cfg then []
                  else '' With advance_watermark=False nothing else reads the rest of that query's range: run it again to read it, under a state_key of its own so no other read replaces its marker.'')\<rparr> ws))"

definition resume_bounds :: "(string \<times> string) option \<Rightarrow> string option \<times> string option" where
  "resume_bounds resume =
     (case resume of
        Some (cursor, upper) \<Rightarrow> (if upper = [] then None else Some upper, Some cursor)
      | None \<Rightarrow> (None, None))"

section \<open>The plan of a chunk\<close>

text \<open>\<open>Stream\<close> holds the floor and the largest cursor so far; the start of the read is the clock's.\<close>

datatype marker_bound = Frozen | Unbounded | Stream "string option" int

record chunk_plan =
  ck_limit :: nat
  ck_keyset_col :: string
  ck_keyset_idx :: nat
  ck_committed :: "string option"
  ck_effective_upper :: "string option"
  ck_start_cursor :: "string option"
  ck_marker :: marker_bound

definition marker_upper :: "calendar \<Rightarrow> watermark_tracker option \<Rightarrow> nat \<Rightarrow> f64 \<Rightarrow> chunk_plan \<Rightarrow> string \<times> chunk_plan" where
  "marker_upper cal tracker lookback_seconds elapsed chunk =
     (case ck_marker chunk of
        Frozen \<Rightarrow> (case ck_effective_upper chunk of Some u \<Rightarrow> u | None \<Rightarrow> [], chunk)
      | Unbounded \<Rightarrow> ([], chunk)
      | Stream fl best \<Rightarrow>
          (case tracker of
             None \<Rightarrow> ([], chunk)
           | Some t \<Rightarrow>
              (case rewound cal t (stream_rewind_secs t elapsed lookback_seconds) fl of
                 None \<Rightarrow> ([], chunk)
               | Some v \<Rightarrow>
                   (case render_value cal t (max best v) of Some s \<Rightarrow> s | None \<Rightarrow> [],
                    chunk\<lparr>ck_marker := Stream fl (max best v)\<rparr>))))"

definition keyset_type :: "data_type \<Rightarrow> bool" where
  "keyset_type t \<longleftrightarrow> t \<in> {Int16, Int32, Int64, UInt32}"

definition build_chunk_plan :: "(data_type \<Rightarrow> string) \<Rightarrow> transfer_config \<Rightarrow> select_plan \<Rightarrow> column_type list \<Rightarrow> nat
    \<Rightarrow> string option \<Rightarrow> string option \<Rightarrow> string option \<Rightarrow> bool \<Rightarrow> chunk_plan res" where
  "build_chunk_plan show_type cfg sp source_cols limit committed effective_upper start_cursor proven_not_null =
     (case keyset_column cfg of
        None \<Rightarrow> Inl (Config ''chunk_rows requires a keyset ordering column'')
      | Some col \<Rightarrow>
        (case find_index (\<lambda>c. c = col) (sp_source_columns sp) of
           None \<Rightarrow> Inl (Config (''keyset column '' @ quoted col
                     @ '' must be selected (it was excluded from the transfer)''))
         | Some idx \<Rightarrow>
           if map_of (cfg_column_transforms cfg) col \<noteq> None then
             Inl (Config (''keyset column '' @ quoted col @ '' cannot be in column_transforms '' @ em_dash
               @ '' chunked reads order and resume on the raw column value, not a transformed one''))
           else (case find_column col source_cols of
             None \<Rightarrow> Inl (Config (''keyset column '' @ quoted col @ '' not found in source''))
           | Some c \<Rightarrow>
             if \<not> keyset_type (ct_arrow c) then
               Inl (Config (''keyset column '' @ quoted col @ '' must be an integer type for chunk_rows resumable reads (found ''
                 @ show_type (ct_arrow c) @ ''); pick a unique integer key''))
             else if ct_nullable c \<and> \<not> proven_not_null \<and> \<not> cfg_keyset_not_null cfg then
               Inl (Config (''keyset column '' @ quoted col @ '' must be NOT NULL for chunk_rows (a NULL key is silently skipped by the cursor). A source_query's keyset is accepted when it is a plain reference to a NOT NULL table column and the query has no outer join or grouping sets; where it isn't (a view, a join), pass keyset_not_null=True to assert that the column never holds NULL''))
             else Inr \<lparr>ck_limit = limit, ck_keyset_col = col, ck_keyset_idx = idx, ck_committed = committed,
                        ck_effective_upper = effective_upper, ck_start_cursor = start_cursor,
                        ck_marker = Frozen\<rparr>)))"

definition last_int_key :: "batch \<Rightarrow> nat \<Rightarrow> int option res" where
  "last_int_key b idx =
     (if bt_rows b = [] then Inr None
      else (case last (bt_rows b) ! idx of
              CNull \<Rightarrow> Inr None
            | CInt k \<Rightarrow>
                if keyset_type (bf_type (bt_fields b ! idx)) then Inr (Some k)
                else Inl (Internal ''keyset column is not a supported integer array (build_chunk_plan gate should prevent this)'')
            | _ \<Rightarrow> Inl (Internal ''keyset column is not a supported integer array (build_chunk_plan gate should prevent this)'')))"

definition cursor_candidate :: "nat \<Rightarrow> batch list \<Rightarrow> int option res" where
  "cursor_candidate idx bs =
     try_fold (\<lambda>best b. and_then (last_int_key b idx) (\<lambda>k.
        Inr (case (k, best) of
               (None, _) \<Rightarrow> best
             | (Some k, None) \<Rightarrow> Some k
             | (Some k, Some c) \<Rightarrow> Some (max c k)))) None bs"

section \<open>The loop over the chunks\<close>

text \<open>How a chunk ends: read and saved; cut short by an error with some of its batches landed (only
  where inserts go straight to the destination); landed without its cursor being saved; or saved too, with
  the answer lost.\<close>

datatype chunk_fate = Completes | CutShort etl_error "bool list" | NotSaved etl_error | SavedUnanswered etl_error

fun fate_error :: "chunk_fate \<Rightarrow> etl_error option" where
  "fate_error Completes = None"
| "fate_error (CutShort e _) = Some e"
| "fate_error (NotSaved e) = Some e"
| "fate_error (SavedUnanswered e) = Some e"

text \<open>A write to the state table outside the chunks.\<close>

datatype save_fate = Saves | Refuses etl_error | Unanswered etl_error

fun save_error :: "save_fate \<Rightarrow> etl_error option" where
  "save_error Saves = None"
| "save_error (Refuses e) = Some e"
| "save_error (Unanswered e) = Some e"

definition saved_as :: "save_fate \<Rightarrow> state_table \<Rightarrow> state_table \<Rightarrow> state_table" where
  "saved_as fate new old = (case fate of Refuses _ \<Rightarrow> old | _ \<Rightarrow> new)"

text \<open>What becomes of the other steps of a run: reading the state table, the checks of the destination
  before anything is written, clearing discarded state, preparing the tables, the checkpoint on the
  warnings of the read before the cursor is saved, and saving it.\<close>

record chunk_env =
  ce_cal :: calendar
  ce_cfg :: transfer_config
  ce_guard :: "null_guard option"
  ce_query :: "string option \<Rightarrow> string option \<Rightarrow> nat \<Rightarrow> batch list"
  ce_staged :: bool
  ce_clock :: "nat \<Rightarrow> f64"
  ce_fate :: "nat \<Rightarrow> chunk_fate"
  ce_read_state :: "etl_error option"
  ce_write_check :: "etl_error option"
  ce_clear :: save_fate
  ce_prepare :: "etl_error option"
  ce_cursor_check :: "etl_error option"
  ce_finish :: save_fate

record chunk_run =
  kr_table :: "batch list"
  kr_store :: state_table
  kr_tracker :: "watermark_tracker option"
  kr_rows_written :: nat
  kr_chunks :: nat
  kr_warnings :: warnings

definition chunk_batches :: "null_guard option \<Rightarrow> batch list \<Rightarrow> batch list res" where
  "chunk_batches guard bs =
     (case guard of
        None \<Rightarrow> Inr bs
      | Some g \<Rightarrow> and_then (try_map (guard_filter g) bs) (\<lambda>fs.
          Inr (filter (\<lambda>b. bt_rows b \<noteq> []) (map fl_batch fs))))"

definition land :: "batch list \<Rightarrow> chunk_run \<Rightarrow> chunk_run" where
  "land bs run = run\<lparr>kr_table := kr_table run @ bs,
     kr_rows_written := kr_rows_written run + sum_list (map (\<lambda>b. length (bt_rows b)) bs)\<rparr>"

text \<open>One turn of the loop: \<open>Some cursor\<close> goes on past it, \<open>None\<close> is the end of the read.\<close>

definition chunk_once :: "chunk_env \<Rightarrow> string option \<Rightarrow> chunk_plan \<times> chunk_run
    \<Rightarrow> (chunk_plan \<times> chunk_run) \<times> string option res" where
  "chunk_once env cursor = (\<lambda>(chunk, run0).
     let bs = ce_query env (ck_effective_upper chunk) cursor (ck_limit chunk);
         rows = sum_list (map (\<lambda>b. length (bt_rows b)) bs);
         n = kr_chunks run0;
         run = run0\<lparr>kr_chunks := n + 1,
                    kr_tracker := map_option (\<lambda>t. fold (\<lambda>b t. observe t b) bs t) (kr_tracker run0)\<rparr>
     in case and_then (cursor_candidate (ck_keyset_idx chunk) bs) (\<lambda>k.
                and_then (chunk_batches (ce_guard env) bs) (\<lambda>kept. Inr (k, kept))) of
          Inl e \<Rightarrow> ((chunk, run), Inl e)
        | Inr (candidate, kept) \<Rightarrow>
          (case ce_fate env n of
             CutShort e flags \<Rightarrow>
               ((chunk, if ce_staged env then run else land (map snd (filter fst (zip flags kept))) run), Inl e)
           | fate \<Rightarrow>
               let landed_run = land kept run in
               if rows = 0 then ((chunk, landed_run), Inr None)
               else (case candidate of
                  None \<Rightarrow> ((chunk, landed_run), Inl (Other (''keyset column '' @ quoted (ck_keyset_col chunk)
                     @ '' produced no usable value in a non-empty chunk (NULL key?); refusing to advance the cursor to avoid skipping rows'')))
                | Some k \<Rightarrow>
                  (case fate of
                     NotSaved e \<Rightarrow> ((chunk, landed_run), Inl e)
                   | _ \<Rightarrow>
                     (case marker_upper (ce_cal env) (kr_tracker landed_run) (cfg_lookback_seconds (ce_cfg env))
                             (ce_clock env n) chunk of (upper, chunk') \<Rightarrow>
                       let saved = landed_run\<lparr>kr_store := persist_chunk_cursor (ce_cfg env) (ck_committed chunk)
                             (show_int k) upper (kr_rows_written landed_run) (kr_store landed_run)\<rparr>
                       in ((chunk', saved),
                           case fate of SavedUnanswered e \<Rightarrow> Inl e
                           | _ \<Rightarrow> Inr (if rows < ck_limit chunk then None else Some (show_int k))))))))"

partial_function (option) transfer_keyset ::
  "chunk_env \<Rightarrow> string option \<Rightarrow> chunk_plan \<times> chunk_run \<Rightarrow> ((chunk_plan \<times> chunk_run) \<times> unit res) option" where
  [code]: "transfer_keyset env cursor s =
     (case chunk_once env cursor s of (s', outcome) \<Rightarrow>
       (case outcome of
          Inl e \<Rightarrow> Some (s', Inl e)
        | Inr next_cursor \<Rightarrow>
            (case next_cursor of
               None \<Rightarrow> Some (s', Inr ())
             | Some c \<Rightarrow> transfer_keyset env (Some c) s')))"

section \<open>The cursor before and after the read\<close>

definition setup_cursor :: "calendar \<Rightarrow> transfer_config \<Rightarrow> string option \<Rightarrow> (string \<times> string) option \<Rightarrow> string option
    \<Rightarrow> bool \<Rightarrow> watermark_tracker option \<Rightarrow> (cursor_plan \<times> string option) res" where
  "setup_cursor cal cfg committed resume snapshot_max stream_max_cursor tracker =
     (let (pinned_upper, _) = resume_bounds resume;
          effective_upper = or_else pinned_upper snapshot_max;
          w = (case cfg_watermark cfg of Some w \<Rightarrow> w | None \<Rightarrow> ''?'') in
      if cfg_seed_watermark cfg = CurrentMax \<and> committed = None \<and> effective_upper = None \<and> stream_max_cursor
      then Inl (Config (''seed_watermark=skip_to_max on '' @ quoted w @ '' needs the source's current MAX, but the MAX(watermark) probe was skipped as too costly (see the unindexed_watermark warning above). Reading with no seed would run the full-table first pull skip_to_max exists to avoid, so this run is refused instead. Add an index on '' @ quoted w @ '', or set probe_max_cost=0 to pay for one MAX probe regardless of estimated cost.''))
      else
        let last' = or_else committed (seed_value (cfg_seed_watermark cfg) effective_upper) in
        Inr (\<lparr>cp_last = last', cp_seeded = (committed = None), cp_rewind_to_max = False,
              cp_floor = cursor_floor cal committed last' tracker, cp_pinned = (pinned_upper \<noteq> None),
              cp_keep_committed = (resume \<noteq> None \<and> pinned_upper = None \<and> committed \<noteq> None)\<rparr>,
             effective_upper))"

definition chunk_marker_bound :: "cursor_plan \<Rightarrow> chunk_plan \<Rightarrow> marker_bound" where
  "chunk_marker_bound cp chunk =
     (if cp_keep_committed cp then Unbounded
      else if ck_effective_upper chunk \<noteq> None then Frozen
      else Stream (cp_floor cp) I64_MIN)"

text \<open>The cursor a run saves.  \<open>upper\<close> is the bound the read was held to.\<close>

definition cursor_to_save :: "calendar \<Rightarrow> cursor_plan \<Rightarrow> watermark_tracker option \<Rightarrow> bool \<Rightarrow> bool \<Rightarrow> f64 \<Rightarrow> nat
    \<Rightarrow> string option \<Rightarrow> string option" where
  "cursor_to_save cal cp tracker max_from_table spans stage_secs lookback upper =
     (if cp_pinned cp then upper
      else if cp_keep_committed cp then None
      else (case tracker of
        None \<Rightarrow> upper
      | Some t \<Rightarrow>
          if max_from_table then
            (if cp_rewind_to_max cp then upper
             else or_else (advance_from cal t (cp_floor cp) (if spans then stream_cursor_rewind_secs stage_secs lookback else 0))
                    (if cp_seeded cp then cp_last cp else None))
          else render_rewound cal t (if spans then stream_rewind_secs t stage_secs lookback else 0) (cp_floor cp)))"

definition finish_cursor :: "transfer_config \<Rightarrow> chunk_plan option \<Rightarrow> string option \<Rightarrow> nat \<Rightarrow> state_table \<Rightarrow> state_table" where
  "finish_cursor cfg chunk new_watermark rows st0 =
     (let st = (case new_watermark of
                  Some w \<Rightarrow> if cfg_advance_watermark cfg then persist_watermark cfg w rows st0 else st0
                | None \<Rightarrow> st0) in
      case chunk of
        None \<Rightarrow> st
      | Some c \<Rightarrow>
          if new_watermark = None \<or> \<not> cfg_advance_watermark cfg
          then persist_watermark cfg (case ck_committed c of Some w \<Rightarrow> w | None \<Rightarrow> []) rows st
          else st)"

text \<open>What one run finds at the source and the destination when it starts.\<close>

record run_setup =
  ru_plan :: select_plan
  ru_source_cols :: "column_type list"
  ru_show_type :: "data_type \<Rightarrow> string"
  ru_keyset_not_null :: bool
  ru_dest_exists :: bool
  ru_snapshot_max :: "string option"
  ru_stream_max_cursor :: bool
  ru_tracker :: "watermark_tracker option"

text \<open>Discarded state is cleared before the read; a run told not to advance the cursor leaves it.\<close>

definition clear_state :: "chunk_env \<Rightarrow> saved_state \<Rightarrow> chunk_run \<Rightarrow> chunk_run \<times> unit res" where
  "clear_state env saved run =
     (if \<not> sv_discarded saved \<or> \<not> cfg_advance_watermark (ce_cfg env) then (run, Inr ())
      else (run\<lparr>kr_store := saved_as (ce_clear env) (clear_discarded_state (ce_cfg env) (kr_store run)) (kr_store run)\<rparr>,
            case save_error (ce_clear env) of None \<Rightarrow> Inr () | Some e \<Rightarrow> Inl e))"

definition chunk_attempt :: "chunk_env \<Rightarrow> run_setup \<Rightarrow> chunk_run \<Rightarrow> (chunk_run \<times> unit res) option" where
  "chunk_attempt env su run0 =
     (case ce_read_state env of
        Some e \<Rightarrow> Some (run0, Inl e)
      | None \<Rightarrow>
     (let cfg = ce_cfg env;
          (saved, ws1) = read_saved_state cfg (ru_dest_exists su) (kr_store run0) (kr_warnings run0);
          (resume, ws2) = resumable_marker cfg (sv_marker saved) (sv_committed saved) ws1;
          run = run0\<lparr>kr_warnings := ws2, kr_tracker := ru_tracker su\<rparr>
      in case setup_cursor (ce_cal env) cfg (sv_committed saved) resume (ru_snapshot_max su)
                (ru_stream_max_cursor su) (ru_tracker su) of
           Inl e \<Rightarrow> Some (run, Inl e)
         | Inr (cp, upper) \<Rightarrow>
           (case and_then (case cfg_chunk_rows cfg of Some n \<Rightarrow> Inr n | None \<Rightarrow> Inl (Internal ''not a chunked read''))
                  (\<lambda>limit. build_chunk_plan (ru_show_type su) cfg (ru_plan su) (ru_source_cols su) limit
                     (sv_committed saved) upper (snd (resume_bounds resume)) (ru_keyset_not_null su)) of
              Inl e \<Rightarrow> Some (run, Inl e)
            | Inr chunk0 \<Rightarrow>
                let chunk = chunk0\<lparr>ck_marker := chunk_marker_bound cp chunk0\<rparr> in
                (case ce_write_check env of
                   Some e \<Rightarrow> Some (run, Inl e)
                 | None \<Rightarrow>
                (case clear_state env saved run of
                   (run1, Inl e) \<Rightarrow> Some (run1, Inl e)
                 | (run1, Inr _) \<Rightarrow>
                (case ce_prepare env of
                   Some e \<Rightarrow> Some (run1, Inl e)
                 | None \<Rightarrow>
                   Option.bind (transfer_keyset env (ck_start_cursor chunk) (chunk, run1)) (\<lambda>((chunk', run2), outcome).
                     Some (case outcome of
                       Inl e \<Rightarrow> (run2, Inl e)
                     | Inr _ \<Rightarrow>
                      (case ce_cursor_check env of
                         Some e \<Rightarrow> (run2, Inl e)
                       | None \<Rightarrow>
                        (run2\<lparr>kr_store := saved_as (ce_finish env)
                            (finish_cursor cfg (Some chunk')
                              (cursor_to_save (ce_cal env) cp (kr_tracker run2) False (cfg_mode cfg \<noteq> Append)
                                 (ce_clock env (kr_chunks run2)) (cfg_lookback_seconds cfg) upper)
                              (kr_rows_written run2) (kr_store run2)) (kr_store run2)\<rparr>,
                         case save_error (ce_finish env) of None \<Rightarrow> Inr () | Some e \<Rightarrow> Inl e))))))))))"

text \<open>What a run may fail with, its chunks aside.\<close>

definition step_errors :: "chunk_env \<Rightarrow> etl_error option set" where
  "step_errors env = {ce_read_state env, ce_write_check env, ce_prepare env, ce_cursor_check env, save_error (ce_finish env)}"

section \<open>What the loop reads\<close>

definition landed_rows :: "chunk_run \<Rightarrow> cell list list" where
  "landed_rows run = concat (map bt_rows (kr_table run))"

definition row_key :: "nat \<Rightarrow> cell list \<Rightarrow> int" where
  "row_key idx r = (case r ! idx of CInt k \<Rightarrow> k | _ \<Rightarrow> 0)"

fun past :: "int option \<Rightarrow> int \<Rightarrow> bool" where
  "past None k = True"
| "past (Some c) k = (c < k)"

text \<open>A source whose rows under an upper bound \<open>u\<close> are \<open>src u\<close>: its statements return the first
  rows past the cursor in key order, in batches of at least one row.\<close>

definition keyset_source :: "chunk_env \<Rightarrow> (string option \<Rightarrow> cell list list) \<Rightarrow> nat \<Rightarrow> nat \<Rightarrow> bool" where
  "keyset_source env src idx limit \<longleftrightarrow> 0 < limit \<and> ce_guard env = None
     \<and> (\<forall>u. sorted_wrt (\<lambda>r s. row_key idx r < row_key idx s) (src u))
     \<and> (\<forall>u. \<forall>r \<in> set (src u). \<exists>k. r ! idx = CInt k)
     \<and> (\<forall>u c. concat (map bt_rows (ce_query env u (map_option show_int c) limit))
              = take limit (filter (\<lambda>r. past c (row_key idx r)) (src u)))
     \<and> (\<forall>u c. \<forall>b \<in> set (ce_query env u (map_option show_int c) limit).
              bt_rows b \<noteq> [] \<and> keyset_type (bf_type (bt_fields b ! idx)))"

lemma cursor_candidate_last:
  assumes "\<And>b. b \<in> set bs \<Longrightarrow> bt_rows b \<noteq> [] \<and> keyset_type (bf_type (bt_fields b ! idx))"
    and "\<And>r. r \<in> set (concat (map bt_rows bs)) \<Longrightarrow> \<exists>k. r ! idx = CInt k"
    and "sorted_wrt (\<lambda>r s. row_key idx r < row_key idx s) (concat (map bt_rows bs))"
  shows "cursor_candidate idx bs = Inr (if bs = [] then None else Some (row_key idx (last (concat (map bt_rows bs)))))"
  using assms
proof (induction bs rule: rev_induct)
  case Nil
  then show ?case by (simp add: cursor_candidate_def)
next
  case (snoc b bs)
  let ?rs = "concat (map bt_rows bs)"
  have b: "bt_rows b \<noteq> []" "keyset_type (bf_type (bt_fields b ! idx))" using snoc.prems(1)[of b] by auto
  have "last (bt_rows b) \<in> set (bt_rows b)" using b(1) by simp
  then obtain k where k: "last (bt_rows b) ! idx = CInt k" using snoc.prems(2) by (metis Un_iff concat_append list.simps(8,9) map_append set_append concat.simps append_Nil2)
  then have lk: "last_int_key b idx = Inr (Some k)" "row_key idx (last (bt_rows b)) = k"
    using b by (simp_all add: last_int_key_def row_key_def)
  have IH: "cursor_candidate idx bs = Inr (if bs = [] then None else Some (row_key idx (last ?rs)))"
    using snoc.prems by (intro snoc.IH) (auto simp: sorted_wrt_append)
  have "row_key idx (last ?rs) < k" if "bs \<noteq> []"
  proof -
    have "?rs \<noteq> []" using that snoc.prems(1) by (cases bs) auto
    then have "last ?rs \<in> set ?rs" by (rule last_in_set)
    then show ?thesis using snoc.prems(3) lk(2) \<open>last (bt_rows b) \<in> set (bt_rows b)\<close>
      by (auto simp: sorted_wrt_append)
  qed
  then show ?case using IH lk b(1)
    by (cases "bs = []") (simp_all add: cursor_candidate_def try_fold_append max_def)
qed

lemma cursor_candidate_chunk:
  assumes "keyset_source env src idx limit"
  shows "cursor_candidate idx (ce_query env u (map_option show_int c) limit)
      = Inr (let rs = take limit (filter (\<lambda>r. past c (row_key idx r)) (src u)) in
             if rs = [] then None else Some (row_key idx (last rs)))"
proof -
  let ?bs = "ce_query env u (map_option show_int c) limit"
  have "\<forall>b \<in> set ?bs. bt_rows b \<noteq> []" using assms by (simp add: keyset_source_def)
  then have ne: "?bs = [] \<longleftrightarrow> concat (map bt_rows ?bs) = []" by (cases ?bs) auto
  have c: "concat (map bt_rows ?bs) = take limit (filter (\<lambda>r. past c (row_key idx r)) (src u))"
    using assms by (simp add: keyset_source_def)
  have "cursor_candidate idx ?bs = Inr (if ?bs = [] then None else Some (row_key idx (last (concat (map bt_rows ?bs)))))"
  proof (rule cursor_candidate_last)
    show "\<And>b. b \<in> set ?bs \<Longrightarrow> bt_rows b \<noteq> [] \<and> keyset_type (bf_type (bt_fields b ! idx))"
      using assms by (simp add: keyset_source_def)
    show "\<And>r. r \<in> set (concat (map bt_rows ?bs)) \<Longrightarrow> \<exists>k. r ! idx = CInt k"
      unfolding c using assms by (auto simp: keyset_source_def dest!: in_set_takeD)
    have "sorted_wrt (\<lambda>r s. row_key idx r < row_key idx s) (src u)" using assms by (simp add: keyset_source_def)
    then show "sorted_wrt (\<lambda>r s. row_key idx r < row_key idx s) (concat (map bt_rows ?bs))"
      unfolding c by (intro sorted_wrt_take sorted_wrt_filter)
  qed
  then show ?thesis unfolding c[symmetric] Let_def ne .
qed

text \<open>The rows up to a cursor have all landed.\<close>

definition covered :: "cell list list \<Rightarrow> nat \<Rightarrow> int option \<Rightarrow> cell list list \<Rightarrow> bool" where
  "covered rows idx c got \<longleftrightarrow> (\<forall>r \<in> set rows. \<not> past c (row_key idx r) \<longrightarrow> r \<in> set got)"

lemma covered_chunk:
  assumes cov: "covered rows idx c got"
    and sorted: "sorted_wrt (\<lambda>r s. row_key idx r < row_key idx s) rows"
    and rs: "rs = take limit (filter (\<lambda>r. past c (row_key idx r)) rows)"
  shows "rs \<noteq> [] \<Longrightarrow> covered rows idx (Some (row_key idx (last rs))) (got @ rs)"
    "length rs < limit \<Longrightarrow> set rows \<subseteq> set (got @ rs)"
proof -
  let ?all = "filter (\<lambda>r. past c (row_key idx r)) rows"
  have split: "?all = rs @ drop limit ?all" by (simp add: rs)
  have s: "sorted_wrt (\<lambda>r s. row_key idx r < row_key idx s) ?all" using sorted by (rule sorted_wrt_filter)
  {
    assume ne: "rs \<noteq> []"
    have "r \<in> set rs" if r: "r \<in> set ?all" "row_key idx r \<le> row_key idx (last rs)" for r
    proof (rule ccontr)
      assume "r \<notin> set rs"
      then have "r \<in> set (drop limit ?all)" using r(1) split by (metis Un_iff set_append)
      then have "row_key idx (last rs) < row_key idx r"
        using s ne last_in_set[OF ne] unfolding split[symmetric]
        by (subst (asm) split) (auto simp: sorted_wrt_append)
      then show False using r(2) by simp
    qed
    then show "covered rows idx (Some (row_key idx (last rs))) (got @ rs)"
      using cov by (auto simp: covered_def not_less)
  }
  assume "length rs < limit"
  then have "rs = ?all" by (auto simp: rs)
  then show "set rows \<subseteq> set (got @ rs)" using cov by (auto simp: covered_def)
qed

section \<open>One chunk\<close>

definition frozen_at :: "nat \<Rightarrow> nat \<Rightarrow> string \<Rightarrow> string option \<Rightarrow> chunk_plan \<Rightarrow> bool" where
  "frozen_at idx limit u committed chunk \<longleftrightarrow> ck_marker chunk = Frozen \<and> ck_effective_upper chunk = Some u
     \<and> ck_committed chunk = committed \<and> ck_keyset_idx chunk = idx \<and> ck_limit chunk = limit"

lemma landed_land [simp]: "landed_rows (land bs run) = landed_rows run @ concat (map bt_rows bs)"
  "kr_store (land bs run) = kr_store run"
  by (simp_all add: landed_rows_def land_def)

lemma sum_rows: "sum_list (map (\<lambda>b. length (bt_rows b)) bs) = length (concat (map bt_rows bs))"
  by (induction bs) auto

lemma cut_short_rows: "set (concat (map bt_rows (map snd (filter fst (zip flags bs))))) \<subseteq> set (concat (map bt_rows bs))"
  by (auto dest: set_zip_rightD)

text \<open>What a turn of the loop does, from a cursor with everything up to it landed.\<close>

lemma chunk_once_spec:
  assumes src: "keyset_source env src idx limit" and fr: "frozen_at idx limit u committed chunk"
    and once: "chunk_once env (map_option show_int c) (chunk, run) = ((chunk', run'), outcome)"
    and cov: "covered (src (Some u)) idx c (landed_rows run)"
  defines "rs \<equiv> take limit (filter (\<lambda>r. past c (row_key idx r)) (src (Some u)))"
  shows "chunk' = chunk"
    "set (landed_rows run) \<subseteq> set (landed_rows run')"
    "set (landed_rows run') \<subseteq> set (landed_rows run) \<union> set (src (Some u))"
    "kr_store run' = kr_store run \<or> (rs \<noteq> [] \<and> covered (src (Some u)) idx (Some (row_key idx (last rs))) (landed_rows run')
        \<and> (\<exists>n. kr_store run' = persist_chunk_cursor (ce_cfg env) committed (show_int (row_key idx (last rs))) u n (kr_store run)))"
    "outcome = Inr None \<Longrightarrow> set (src (Some u)) \<subseteq> set (landed_rows run')"
    "outcome = Inr (Some s) \<Longrightarrow> length rs = limit \<and> s = show_int (row_key idx (last rs))
        \<and> covered (src (Some u)) idx (Some (row_key idx (last rs))) (landed_rows run')"
proof -
  let ?bs = "ce_query env (Some u) (map_option show_int c) limit"
  let ?run = "run\<lparr>kr_chunks := kr_chunks run + 1,
      kr_tracker := map_option (\<lambda>t. fold (\<lambda>b t. observe t b) ?bs t) (kr_tracker run)\<rparr>"
  have lr: "landed_rows ?run = landed_rows run" by (simp add: landed_rows_def)
  have bs: "concat (map bt_rows ?bs) = rs" using src by (simp add: keyset_source_def rs_def)
  have g: "ce_guard env = None" "0 < limit" using src by (simp_all add: keyset_source_def)
  have sub: "set rs \<subseteq> set (src (Some u))" by (auto simp: rs_def dest: in_set_takeD)
  have len: "length rs \<le> limit" by (simp add: rs_def)
  have sorted: "sorted_wrt (\<lambda>r s. row_key idx r < row_key idx s) (src (Some u))"
    using src by (simp add: keyset_source_def)
  note cc = covered_chunk[OF cov sorted rs_def[THEN meta_eq_to_obj_eq]]
  have cand: "cursor_candidate idx ?bs = Inr (if rs = [] then None else Some (row_key idx (last rs)))"
    using cursor_candidate_chunk[OF src, of "Some u" c] by (simp add: rs_def Let_def)
  have f: "ck_effective_upper chunk = Some u" "ck_limit chunk = limit" "ck_keyset_idx chunk = idx"
    "ck_marker chunk = Frozen" "ck_committed chunk = committed"
    using fr by (simp_all add: frozen_at_def)
  have rows: "sum_list (map (\<lambda>b. length (bt_rows b)) ?bs) = length rs" unfolding sum_rows bs ..
  have o: "((chunk', run'), outcome) =
     (case ce_fate env (kr_chunks run) of
        CutShort e flags \<Rightarrow> ((chunk, if ce_staged env then ?run else land (map snd (filter fst (zip flags ?bs))) ?run), Inl e)
      | NotSaved e \<Rightarrow> if rs = [] then ((chunk, land ?bs ?run), Inr None) else ((chunk, land ?bs ?run), Inl e)
      | SavedUnanswered e \<Rightarrow> if rs = [] then ((chunk, land ?bs ?run), Inr None)
          else ((chunk, (land ?bs ?run)\<lparr>kr_store := persist_chunk_cursor (ce_cfg env) committed
                   (show_int (row_key idx (last rs))) u (kr_rows_written (land ?bs ?run)) (kr_store run)\<rparr>), Inl e)
      | Completes \<Rightarrow> if rs = [] then ((chunk, land ?bs ?run), Inr None)
          else ((chunk, (land ?bs ?run)\<lparr>kr_store := persist_chunk_cursor (ce_cfg env) committed
                   (show_int (row_key idx (last rs))) u (kr_rows_written (land ?bs ?run)) (kr_store run)\<rparr>),
                Inr (if length rs < limit then None else Some (show_int (row_key idx (last rs))))))"
    using once[symmetric] unfolding chunk_once_def
    by (simp add: f g cand rows chunk_batches_def marker_upper_def Let_def split: chunk_fate.split)
  have cut: "set (landed_rows (land (map snd (filter fst (zip flags ?bs))) ?run)) \<subseteq> set (landed_rows run) \<union> set rs" for flags
    using cut_short_rows[of flags ?bs] unfolding landed_land lr bs[symmetric] set_append by blast
  have lb: "landed_rows (land ?bs ?run) = landed_rows run @ rs" unfolding landed_land lr bs ..
  have ls: "landed_rows (r\<lparr>kr_store := st\<rparr>) = landed_rows r" for r st by (simp add: landed_rows_def)
  have stl: "kr_store ?run = kr_store run" by simp
  have all: "chunk' = chunk \<and> set (landed_rows run) \<subseteq> set (landed_rows run')
     \<and> set (landed_rows run') \<subseteq> set (landed_rows run) \<union> set (src (Some u))
     \<and> (kr_store run' = kr_store run \<or> (rs \<noteq> [] \<and> covered (src (Some u)) idx (Some (row_key idx (last rs))) (landed_rows run')
        \<and> (\<exists>n. kr_store run' = persist_chunk_cursor (ce_cfg env) committed (show_int (row_key idx (last rs))) u n (kr_store run))))
     \<and> (outcome = Inr None \<longrightarrow> set (src (Some u)) \<subseteq> set (landed_rows run'))
     \<and> (outcome = Inr (Some s) \<longrightarrow> length rs = limit \<and> s = show_int (row_key idx (last rs))
        \<and> covered (src (Some u)) idx (Some (row_key idx (last rs))) (landed_rows run'))"
  proof (cases "ce_fate env (kr_chunks run)")
    case (CutShort e flags)
    then show ?thesis using o cut[of flags] sub lr by (auto split: if_splits)
  next
    case (NotSaved e)
    then show ?thesis using o lb sub cc(2) g(2) by (auto split: if_splits)
  next
    case (SavedUnanswered e)
    show ?thesis
    proof (cases "rs = []")
      case True
      then show ?thesis using o SavedUnanswered lb cc(2) g(2) by auto
    next
      case False
      then have "chunk' = chunk" "landed_rows run' = landed_rows run @ rs"
        "kr_store run' = persist_chunk_cursor (ce_cfg env) committed
           (show_int (row_key idx (last rs))) u (kr_rows_written (land ?bs ?run)) (kr_store run)" "outcome = Inl e"
        using o SavedUnanswered lb by (simp_all add: ls)
      then show ?thesis using cc False sub len by auto
    qed
  next
    case Completes
    show ?thesis
    proof (cases "rs = []")
      case True
      then show ?thesis using o Completes lb cc(2) g(2) by auto
    next
      case False
      then have "chunk' = chunk" "landed_rows run' = landed_rows run @ rs"
        "kr_store run' = persist_chunk_cursor (ce_cfg env) committed
           (show_int (row_key idx (last rs))) u (kr_rows_written (land ?bs ?run)) (kr_store run)"
        "outcome = Inr (if length rs < limit then None else Some (show_int (row_key idx (last rs))))"
        using o Completes lb by (simp_all add: ls)
      then show ?thesis using cc False sub len by (auto split: if_splits)
    qed
  qed
  then show "chunk' = chunk" "set (landed_rows run) \<subseteq> set (landed_rows run')"
    "set (landed_rows run') \<subseteq> set (landed_rows run) \<union> set (src (Some u))"
    "kr_store run' = kr_store run \<or> (rs \<noteq> [] \<and> covered (src (Some u)) idx (Some (row_key idx (last rs))) (landed_rows run')
        \<and> (\<exists>n. kr_store run' = persist_chunk_cursor (ce_cfg env) committed (show_int (row_key idx (last rs))) u n (kr_store run)))"
    "outcome = Inr None \<Longrightarrow> set (src (Some u)) \<subseteq> set (landed_rows run')"
    "outcome = Inr (Some s) \<Longrightarrow> length rs = limit \<and> s = show_int (row_key idx (last rs))
        \<and> covered (src (Some u)) idx (Some (row_key idx (last rs))) (landed_rows run')"
    by blast+
qed

section \<open>The read across attempts\<close>

text \<open>A cursor text the state table gives back as it was written.\<close>

definition stored_text :: "string \<Rightarrow> bool" where
  "stored_text w \<longleftrightarrow> w \<noteq> [] \<and> trim w = w \<and> tsv_escape w = w"

lemma tsv_char_not_Nil: "tsv_char c \<noteq> []"
  by (simp add: tsv_char_def)

lemma tsv_char_no_tab: "TAB \<notin> set (tsv_char c)"
  by (auto simp: tsv_char_def TAB_def char_defs)

lemma tsv_escape_simps [simp]: "tsv_escape [] = []" "tsv_escape s = [] \<longleftrightarrow> s = []"
  using tsv_char_not_Nil by (cases s; simp add: tsv_escape_def escape_chars_def)+

lemma tsv_escape_no_tab: "TAB \<notin> set (tsv_escape s)"
  using tsv_char_no_tab by (auto simp: tsv_escape_def escape_chars_def)

lemma tsv_escape_plain: "\<forall>c \<in> set s. c \<notin> {BSL, APOS, TAB, LF, CR, CHR 0x08, CHR 0x0C, CHR 0x00} \<Longrightarrow> tsv_escape s = s"
  by (induction s) (simp_all add: tsv_escape_def escape_chars_def tsv_char_def)

lemma split_three_escaped [simp]:
  "split_three (tsv_escape a @ TAB # tsv_escape b @ TAB # tsv_escape c) = (tsv_escape a, tsv_escape b, tsv_escape c)"
proof -
  have "split_once TAB (tsv_escape a @ TAB # tsv_escape b @ TAB # tsv_escape c) = Some (tsv_escape a, tsv_escape b @ TAB # tsv_escape c)"
    "split_once TAB (tsv_escape b @ TAB # tsv_escape c) = Some (tsv_escape b, tsv_escape c)"
    using tsv_escape_no_tab by (auto simp: split_once_Some)
  then show ?thesis by (simp add: split_three_def)
qed

lemma tsv_escape_show_int [simp]: "tsv_escape (show_int k) = show_int k"
proof (rule tsv_escape_plain, rule ballI)
  fix c assume "c \<in> set (show_int k)"
  then have "is_digit c \<or> c = CHR ''-''" by (rule show_int_chars)
  then show "c \<notin> {BSL, APOS, TAB, LF, CR, CHR 0x08, CHR 0x0C, CHR 0x00}"
    by (auto simp: is_digit_def code_def TAB_def char_defs)
qed

lemma tsv_escape_read_id [simp]: "tsv_escape (chunk_read_id cfg) = chunk_read_id cfg"
proof -
  have hex: "48 \<le> code c \<and> code c \<noteq> 92" if "c \<in> set (hex_word k n)" for c k n
    using that by (induction k arbitrary: n) (auto simp: code_def split: if_splits)
  show ?thesis
  proof (rule tsv_escape_plain, rule ballI)
    fix c assume "c \<in> set (chunk_read_id cfg)"
    then have c: "48 \<le> code c" "code c \<noteq> 92" using hex[of c] by (auto simp: chunk_read_id_def)
    then show "c \<notin> {BSL, APOS, TAB, LF, CR, CHR 0x08, CHR 0x0C, CHR 0x00}"
      by (auto simp: code_def TAB_def char_defs)
  qed
qed

lemma trim_Nil [simp]: "trim [] = []"
  by (simp add: trim_def trim_start_def)

lemma read_persisted [simp]:
  "read_last_watermark cfg (persist_watermark cfg w n st)
     = (if trim (tsv_escape w) = [] then None else Some (trim (tsv_escape w)))"
  "read_chunk_state cfg (persist_watermark cfg w n st) = None"
  by (simp_all add: read_last_watermark_def read_chunk_state_def newest_row_def persist_watermark_def Let_def)

lemma read_persisted_chunk [simp]:
  "read_last_watermark cfg (persist_chunk_cursor cfg committed c u n st)
     = (case committed of Some w \<Rightarrow> if trim (tsv_escape w) = [] then None else Some (trim (tsv_escape w)) | None \<Rightarrow> None)"
  "c \<noteq> [] \<Longrightarrow> read_chunk_state cfg (persist_chunk_cursor cfg committed c u n st)
     = Some \<lparr>cm_cursor = tsv_escape c, cm_upper = tsv_escape u, cm_read = chunk_read_id cfg\<rparr>"
  by (simp_all add: read_last_watermark_def read_chunk_state_def newest_row_def persist_chunk_cursor_def
      Let_def split: option.split)

lemma read_last_stored: "read_last_watermark cfg st = Some w \<Longrightarrow> w \<noteq> []"
  by (auto simp: read_last_watermark_def Let_def split: if_splits Option.bind_splits)

text \<open>What the state table says is true of the rows that landed: the marker's cursor is one up to
  which every row of its bound, a snapshot among \<open>us\<close>, has landed.\<close>

definition state_ok :: "transfer_config \<Rightarrow> (string option \<Rightarrow> cell list list) \<Rightarrow> nat \<Rightarrow> string set \<Rightarrow> string option
    \<Rightarrow> state_table \<Rightarrow> cell list list \<Rightarrow> bool" where
  "state_ok cfg src idx us committed st got \<longleftrightarrow>
     read_last_watermark cfg st = committed
     \<and> (\<forall>m. read_chunk_state cfg st = Some m \<longrightarrow>
          cm_read m = chunk_read_id cfg \<and> cm_upper m \<in> us
          \<and> (\<exists>k. cm_cursor m = show_int k \<and> covered (src (Some (cm_upper m))) idx (Some k) got))"

lemma covered_mono: "covered rows idx c got \<Longrightarrow> set got \<subseteq> set got' \<Longrightarrow> covered rows idx c got'"
  by (auto simp: covered_def)

lemma state_ok_mono: "state_ok cfg src idx us committed st got \<Longrightarrow> set got \<subseteq> set got' \<Longrightarrow> us \<subseteq> us'
    \<Longrightarrow> state_ok cfg src idx us' committed st got'"
  unfolding state_ok_def using covered_mono[of _ idx _ got got'] by (meson subsetD)

lemma transfer_keyset_spec:
  assumes "transfer_keyset env cur s = Some (s', res)"
    and "keyset_source env src idx limit" "frozen_at idx limit u committed (fst s)" "cur = map_option show_int c"
    and "covered (src (Some u)) idx c (landed_rows (snd s))"
    and "state_ok (ce_cfg env) src idx us committed (kr_store (snd s)) (landed_rows (snd s))"
    and "u \<in> us" "\<forall>w. committed = Some w \<longrightarrow> stored_text w" "\<forall>v \<in> us. stored_text v"
  shows "fst s' = fst s
    \<and> set (landed_rows (snd s)) \<subseteq> set (landed_rows (snd s'))
    \<and> set (landed_rows (snd s')) \<subseteq> set (landed_rows (snd s)) \<union> set (src (Some u))
    \<and> state_ok (ce_cfg env) src idx us committed (kr_store (snd s')) (landed_rows (snd s'))
    \<and> (res = Inr () \<longrightarrow> set (src (Some u)) \<subseteq> set (landed_rows (snd s')))"
  using assms
proof (induction env cur s "(s', res)" arbitrary: c s' res rule: transfer_keyset.raw_induct[rotated 1, consumes 1, case_names step])
  case (step tk env cur s s' res)
  obtain chunk run where s: "s = (chunk, run)" by (cases s)
  obtain s1 outcome where once: "chunk_once env cur s = (s1, outcome)" by (cases "chunk_once env cur s")
  obtain chunk1 run1 where s1: "s1 = (chunk1, run1)" by (cases s1)
  define rs where "rs = take limit (filter (\<lambda>r. past c (row_key idx r)) (src (Some u)))"
  note spec = chunk_once_spec[OF step(3) step(4)[unfolded s fst_conv] once[unfolded s s1 step(5)] step(6)[unfolded s snd_conv],
      folded rs_def]
  have ok1: "state_ok (ce_cfg env) src idx us committed (kr_store run1) (landed_rows run1)"
    using spec(4)
  proof
    assume "kr_store run1 = kr_store run"
    then show ?thesis using step(7) spec(2) state_ok_mono s by fastforce
  next
    assume "rs \<noteq> [] \<and> covered (src (Some u)) idx (Some (row_key idx (last rs))) (landed_rows run1) \<and>
      (\<exists>n. kr_store run1 = persist_chunk_cursor (ce_cfg env) committed (show_int (row_key idx (last rs))) u n (kr_store run))"
    then show ?thesis using step(8,9) step(10)[rule_format, OF step(8)]
      by (auto simp: state_ok_def stored_text_def show_int_not_Nil split: option.split
          intro!: exI[of _ "row_key idx (last rs)"])
  qed
  show ?case
  proof (cases outcome)
    case (Inl e)
    then have "s' = s1" "res = Inl e" using step(2) once by auto
    then show ?thesis using spec(1-3) ok1 s s1 by simp
  next
    case (Inr nxt)
    show ?thesis
    proof (cases nxt)
      case None
      then have "s' = s1" "res = Inr ()" using step(2) once Inr by auto
      then show ?thesis using spec(1-3) spec(5) ok1 s s1 Inr None by simp
    next
      case (Some cur')
      have tk: "tk env (Some cur') s1 = Some (s', res)" using step(2) once Inr Some by simp
      have n: "cur' = show_int (row_key idx (last rs))"
        "covered (src (Some u)) idx (Some (row_key idx (last rs))) (landed_rows run1)"
        using spec(6)[of cur'] Inr Some by auto
      have "frozen_at idx limit u committed (fst s1)" using step(4) spec(1) s s1 by simp
      from step(1)[OF tk step(3) this, of "Some (row_key idx (last rs))"] n ok1 step(8-10)
      show ?thesis using spec(1-3) s s1 by auto
    qed
  qed
qed

lemma filter_shorter:
  "(\<And>x. Q x \<Longrightarrow> P x) \<Longrightarrow> x \<in> set xs \<Longrightarrow> P x \<Longrightarrow> \<not> Q x \<Longrightarrow> length (filter Q xs) < length (filter P xs)"
proof (induction xs)
  case (Cons y xs)
  have le: "length (filter Q xs) \<le> length (filter P xs)" using Cons.prems(1)
    by (induction xs) auto
  show ?case
  proof (cases "y = x")
    case True
    then show ?thesis using Cons.prems le by auto
  next
    case False
    then show ?thesis using Cons by auto
  qed
qed simp

lemma transfer_keyset_returns:
  assumes src: "keyset_source env src idx limit" and "frozen_at idx limit u committed chunk"
    and "covered (src (Some u)) idx c (landed_rows run)"
  shows "\<exists>r. transfer_keyset env (map_option show_int c) (chunk, run) = Some r"
  using assms(2,3)
proof (induction "length (filter (\<lambda>r. past c (row_key idx r)) (src (Some u)))" arbitrary: c chunk run rule: less_induct)
  case less
  obtain chunk1 run1 outcome where once: "chunk_once env (map_option show_int c) (chunk, run) = ((chunk1, run1), outcome)"
    by (metis prod_cases3 surj_pair)
  define rs where "rs = take limit (filter (\<lambda>r. past c (row_key idx r)) (src (Some u)))"
  note spec = chunk_once_spec[OF src less.prems(1) once less.prems(2), folded rs_def]
  show ?case
  proof (cases "\<exists>s. outcome = Inr (Some s)")
    case False
    then show ?thesis using once by (subst transfer_keyset.simps) (auto split: sum.split option.split)
  next
    case True
    then obtain cur where o: "outcome = Inr (Some cur)" by blast
    let ?k = "row_key idx (last rs)"
    have n: "length rs = limit" "cur = show_int ?k" "covered (src (Some u)) idx (Some ?k) (landed_rows run1)"
      using spec(6)[OF o] by auto
    then have "rs \<noteq> []" using src by (auto simp: keyset_source_def)
    then have "last rs \<in> set rs" by simp
    then have x: "last rs \<in> set (src (Some u))" "past c ?k" by (auto simp: rs_def dest: in_set_takeD)
    have "length (filter (\<lambda>r. past (Some ?k) (row_key idx r)) (src (Some u)))
        < length (filter (\<lambda>r. past c (row_key idx r)) (src (Some u)))"
      by (rule filter_shorter[OF _ x(1)]) (use x(2) in \<open>cases c; auto\<close>)+
    from less.hyps[OF this, of chunk1 run1] less.prems(1) spec(1) n(3)
    obtain r where "transfer_keyset env (Some (show_int ?k)) (chunk1, run1) = Some r" by auto
    then show ?thesis using once o n(2) by (subst transfer_keyset.simps) simp
  qed
qed

lemma chunk_once_tracker:
  "chunk_once env cur (chunk, run) = ((chunk', run'), outcome) \<Longrightarrow> kr_tracker run = None \<Longrightarrow> kr_tracker run' = None"
  by (auto simp: chunk_once_def land_def Let_def split: sum.splits option.splits chunk_fate.splits prod.splits if_splits)

lemma transfer_keyset_tracker:
  "transfer_keyset env cur s = Some (s', res) \<Longrightarrow> kr_tracker (snd s) = None \<Longrightarrow> kr_tracker (snd s') = None"
proof (induction env cur s "(s', res)" arbitrary: s' res rule: transfer_keyset.raw_induct[rotated 1, consumes 1, case_names step])
  case (step tk env cur s s' res)
  obtain s1 outcome where once: "chunk_once env cur s = (s1, outcome)" by (cases "chunk_once env cur s")
  have n: "kr_tracker (snd s1) = None"
    using chunk_once_tracker[of env cur "fst s" "snd s" "fst s1" "snd s1" outcome] once step(3) by simp
  show ?case
    using step(1,2) once n by (auto split: sum.splits option.splits)
qed

text \<open>An error a chunk ends on is its fate's.\<close>

lemma chunk_once_error:
  assumes src: "keyset_source env src idx limit" and fr: "frozen_at idx limit u committed chunk"
    and once: "chunk_once env (map_option show_int c) (chunk, run) = ((chunk', run'), outcome)"
  shows "chunk' = chunk \<and> kr_chunks run' = Suc (kr_chunks run)
    \<and> (\<forall>e. outcome = Inl e \<longrightarrow> fate_error (ce_fate env (kr_chunks run)) = Some e)
    \<and> (\<forall>s. outcome = Inr (Some s) \<longrightarrow> (\<exists>k. s = show_int k))"
proof -
  have cand: "cursor_candidate idx (ce_query env (Some u) (map_option show_int c) limit)
      = Inr (let rs = take limit (filter (\<lambda>r. past c (row_key idx r)) (src (Some u))) in
             if rs = [] then None else Some (row_key idx (last rs)))"
    by (rule cursor_candidate_chunk[OF src])
  have rows: "sum_list (map (\<lambda>b. length (bt_rows b)) (ce_query env (Some u) (map_option show_int c) limit))
      = length (take limit (filter (\<lambda>r. past c (row_key idx r)) (src (Some u))))"
    using src by (simp add: keyset_source_def sum_rows del: length_take)
  have f: "ck_effective_upper chunk = Some u" "ck_limit chunk = limit" "ck_keyset_idx chunk = idx"
    "ck_marker chunk = Frozen" "ce_guard env = None"
    using fr src by (simp_all add: frozen_at_def keyset_source_def)
  have land: "kr_chunks (land bs r) = kr_chunks r" for bs r by (simp add: land_def)
  show ?thesis using once[symmetric] unfolding chunk_once_def
    by (cases "ce_fate env (kr_chunks run)")
      (auto simp: f cand rows land chunk_batches_def marker_upper_def Let_def simp del: length_take split: if_splits)
qed

lemma transfer_keyset_error:
  assumes "transfer_keyset env cur s = Some (s', res)"
    and "keyset_source env src idx limit" "frozen_at idx limit u committed (fst s)" "cur = map_option show_int c"
  shows "kr_chunks (snd s) \<le> kr_chunks (snd s')
    \<and> (\<forall>e. res = Inl e \<longrightarrow> (\<exists>n. kr_chunks (snd s) \<le> n \<and> n < kr_chunks (snd s') \<and> fate_error (ce_fate env n) = Some e))"
  using assms
proof (induction env cur s "(s', res)" arbitrary: c s' res rule: transfer_keyset.raw_induct[rotated 1, consumes 1, case_names step])
  case (step tk env cur s s' res)
  obtain s1 outcome where once: "chunk_once env cur s = (s1, outcome)" by (cases "chunk_once env cur s")
  have o: "fst s1 = fst s" "kr_chunks (snd s1) = Suc (kr_chunks (snd s))"
    "\<And>e. outcome = Inl e \<Longrightarrow> fate_error (ce_fate env (kr_chunks (snd s))) = Some e"
    "\<And>t. outcome = Inr (Some t) \<Longrightarrow> \<exists>k. t = show_int k"
    using chunk_once_error[OF step(3) step(4), of c "snd s" "fst s1" "snd s1" outcome] once step(5) by simp_all
  show ?case
  proof (cases outcome)
    case (Inl e)
    then have "s' = s1" "res = Inl e" using step(2) once by auto
    then show ?thesis using o Inl by auto
  next
    case (Inr nxt)
    show ?thesis
    proof (cases nxt)
      case None
      then show ?thesis using step(2) once Inr o(2) by auto
    next
      case (Some t)
      then obtain k where k: "t = show_int k" using o(4) Inr by blast
      have "tk env (Some (show_int k)) s1 = Some (s', res)" using step(2) once Inr Some k by simp
      from step(1)[OF this step(3) _ , of "Some k"] step(4) o(1)
      have "kr_chunks (snd s1) \<le> kr_chunks (snd s')
        \<and> (\<forall>e. res = Inl e \<longrightarrow> (\<exists>n. kr_chunks (snd s1) \<le> n \<and> n < kr_chunks (snd s') \<and> fate_error (ce_fate env n) = Some e))"
        by simp
      then show ?thesis using o(2) by (metis Suc_leD)
    qed
  qed
qed

text \<open>A run of the read under the same configuration, its snapshot bound \<open>u\<close> read from the source.\<close>

definition lawful_attempt :: "transfer_config \<Rightarrow> (string option \<Rightarrow> cell list list) \<Rightarrow> nat \<Rightarrow> string
    \<Rightarrow> chunk_env \<Rightarrow> run_setup \<Rightarrow> bool" where
  "lawful_attempt cfg src idx u env su \<longleftrightarrow>
     ce_cfg env = cfg \<and> ru_dest_exists su \<and> ru_snapshot_max su = Some u \<and> stored_text u
     \<and> ru_tracker su = None \<and> \<not> ru_stream_max_cursor su
     \<and> (\<exists>col limit. keyset_column cfg = Some col
          \<and> find_index (\<lambda>c. c = col) (sp_source_columns (ru_plan su)) = Some idx
          \<and> cfg_chunk_rows cfg = Some limit \<and> keyset_source env src idx limit)"

text \<open>The plan of the read accepts its keyset column, whatever the bounds.\<close>

definition keyset_accepted :: "transfer_config \<Rightarrow> run_setup \<Rightarrow> bool" where
  "keyset_accepted cfg su \<longleftrightarrow> (\<exists>ck. build_chunk_plan (ru_show_type su) cfg (ru_plan su) (ru_source_cols su) 0
     None None None (ru_keyset_not_null su) = Inr ck)"

lemma keyset_accepted_plan:
  "keyset_accepted cfg su \<Longrightarrow> \<exists>ck. build_chunk_plan (ru_show_type su) cfg (ru_plan su) (ru_source_cols su) limit
     committed upper start (ru_keyset_not_null su) = Inr ck"
  by (auto simp: keyset_accepted_def build_chunk_plan_def split: option.splits if_splits)

lemma build_chunk_plan_fields:
  assumes "build_chunk_plan sh cfg sp cols limit committed upper start nn = Inr chunk"
    and "keyset_column cfg = Some col" "find_index (\<lambda>c. c = col) (sp_source_columns sp) = Some idx"
  shows "ck_limit chunk = limit" "ck_keyset_idx chunk = idx" "ck_committed chunk = committed"
    "ck_effective_upper chunk = upper" "ck_start_cursor chunk = start"
  using assms by (auto simp: build_chunk_plan_def split: option.splits if_splits)

text \<open>What an attempt reads up to: the bound of the marker it resumes, or its own snapshot.\<close>

lemma lawful_resume:
  assumes "state_ok cfg src idx us committed (kr_store run) got" "\<forall>v \<in> us. stored_text v"
    and "lawful_attempt cfg src idx u env su" "u \<in> us"
  shows "\<exists>resume upper ws c. resumable_marker cfg (read_chunk_state cfg (kr_store run)) committed ws0 = (resume, ws)
      \<and> or_else (fst (resume_bounds resume)) (Some u) = Some upper \<and> upper \<in> us
      \<and> (resume \<noteq> None \<longrightarrow> fst (resume_bounds resume) = Some upper)
      \<and> snd (resume_bounds resume) = map_option show_int c \<and> covered (src (Some upper)) idx c got"
proof (cases "read_chunk_state cfg (kr_store run)")
  case None
  then show ?thesis using assms(4)
    by (auto simp: resumable_marker_def resume_bounds_def covered_def intro!: exI[of _ None])
next
  case (Some m)
  then have m: "cm_read m = chunk_read_id cfg" "cm_upper m \<in> us"
    using assms(1) by (auto simp: state_ok_def)
  obtain k where k: "cm_cursor m = show_int k" "covered (src (Some (cm_upper m))) idx (Some k) got"
    using assms(1) Some by (auto simp: state_ok_def)
  have "cm_upper m \<noteq> []" using m(2) assms(2) by (auto simp: stored_text_def)
  then show ?thesis using Some m k
    by (auto simp: resumable_marker_def resume_bounds_def intro!: exI[of _ "Some k"])
qed

lemma chunk_attempt_ok:
  assumes ok: "state_ok cfg src idx us committed (kr_store run) (landed_rows run)"
    and us: "u \<in> us" "\<forall>v \<in> us. stored_text v" "\<forall>w. committed = Some w \<longrightarrow> stored_text w"
    and law: "lawful_attempt cfg src idx u env su"
  shows "\<exists>run' res. chunk_attempt env su run = Some (run', res)
    \<and> (\<exists>v \<in> us. set (landed_rows run') \<subseteq> set (landed_rows run) \<union> set (src (Some v))
         \<and> (res = Inr () \<or> read_last_watermark cfg (kr_store run') \<noteq> committed \<longrightarrow>
              set (src (Some v)) \<subseteq> set (landed_rows run')
              \<and> read_chunk_state cfg (kr_store run') = None
              \<and> read_last_watermark cfg (kr_store run') = (if cfg_advance_watermark cfg then Some v else committed)))
    \<and> (read_last_watermark cfg (kr_store run') = committed \<longrightarrow> state_ok cfg src idx us committed (kr_store run') (landed_rows run'))
    \<and> (\<forall>e. res = Inl e \<longrightarrow> Some e \<in> step_errors env \<or> \<not> keyset_accepted cfg su
         \<or> (\<exists>n. kr_chunks run \<le> n \<and> n < kr_chunks run' \<and> fate_error (ce_fate env n) = Some e))"
proof (cases "ce_read_state env")
  case (Some e)
  then show ?thesis using ok us(1) by (auto simp: chunk_attempt_def state_ok_def step_errors_def)
next
  case None
  obtain resume upper ws c where r: "resumable_marker cfg (read_chunk_state cfg (kr_store run)) committed (kr_warnings run) = (resume, ws)"
    "or_else (fst (resume_bounds resume)) (Some u) = Some upper" "upper \<in> us"
    "resume \<noteq> None \<longrightarrow> fst (resume_bounds resume) = Some upper"
    "snd (resume_bounds resume) = map_option show_int c" "covered (src (Some upper)) idx c (landed_rows run)"
    using lawful_resume[OF ok us(2) law us(1)] by metis
  obtain col limit where l: "ce_cfg env = cfg" "ru_dest_exists su" "ru_snapshot_max su = Some u"
    "ru_tracker su = None" "\<not> ru_stream_max_cursor su" "keyset_column cfg = Some col"
    "find_index (\<lambda>c. c = col) (sp_source_columns (ru_plan su)) = Some idx"
    "cfg_chunk_rows cfg = Some limit" "keyset_source env src idx limit"
    using law by (auto simp: lawful_attempt_def)
  have saved: "read_saved_state cfg (ru_dest_exists su) (kr_store run) (kr_warnings run)
      = (\<lparr>sv_committed = committed, sv_marker = read_chunk_state cfg (kr_store run), sv_discarded = False\<rparr>, kr_warnings run)"
    using ok l by (simp add: read_saved_state_def state_ok_def)
  obtain cp where cp: "setup_cursor (ce_cal env) cfg committed resume (Some u) False None = Inr (cp, Some upper)"
    "\<not> cp_keep_committed cp"
    using r(2,4) by (cases "resume_bounds resume") (auto simp: setup_cursor_def Let_def)
  let ?run = "run\<lparr>kr_warnings := ws, kr_tracker := None\<rparr>"
  have same: "kr_store ?run = kr_store run" "landed_rows ?run = landed_rows run" "kr_chunks ?run = kr_chunks run"
    by (simp_all add: landed_rows_def)
  have start: "read_last_watermark cfg (kr_store run) = committed" using ok by (simp add: state_ok_def)
  let ?build = "build_chunk_plan (ru_show_type su) cfg (ru_plan su) (ru_source_cols su) limit committed
      (Some upper) (snd (resume_bounds resume)) (ru_keyset_not_null su)"
  have kept: "clear_state env \<lparr>sv_committed = a, sv_marker = b, sv_discarded = False\<rparr> x = (x, Inr ())" for a b x
    by (simp add: clear_state_def)
  note attempt = chunk_attempt_def[of env su run, unfolded None Let_def l(1-5,8) saved]
  show ?thesis
  proof (cases ?build)
    case (Inl e)
    then have "chunk_attempt env su run = Some (?run, Inl e)"
      using r(1) l(5) cp by (simp add: attempt)
    moreover have "\<not> keyset_accepted cfg su" using keyset_accepted_plan[of cfg su] Inl by (metis Inl_Inr_False)
    ultimately show ?thesis using ok same us(1) start by auto
  next
    case (Inr chunk0)
    note f = build_chunk_plan_fields[OF Inr l(6,7)]
    let ?chunk = "chunk0\<lparr>ck_marker := chunk_marker_bound cp chunk0\<rparr>"
    have fr: "frozen_at idx limit upper committed ?chunk"
      using f cp(2) by (simp add: frozen_at_def chunk_marker_bound_def)
    show ?thesis
    proof (cases "ce_write_check env = None \<and> ce_prepare env = None")
      case False
      then consider e where "ce_write_check env = Some e" | e where "ce_write_check env = None" "ce_prepare env = Some e"
        by auto
      then obtain e where e: "Some e \<in> step_errors env" "chunk_attempt env su run = Some (?run, Inl e)"
        by cases (use r(1) l(5) cp Inr that in \<open>auto simp: attempt kept step_errors_def\<close>)
      then show ?thesis using ok same us(1) start by auto
    next
    case True
    obtain chunk' run2 outcome where tk:
      "transfer_keyset env (map_option show_int c) (?chunk, ?run) = Some ((chunk', run2), outcome)"
      using transfer_keyset_returns[OF l(9) fr, of c ?run] r(6) same by force
    have spec: "chunk' = ?chunk" "set (landed_rows run2) \<subseteq> set (landed_rows run) \<union> set (src (Some upper))"
      "state_ok cfg src idx us committed (kr_store run2) (landed_rows run2)"
      "outcome = Inr () \<longrightarrow> set (src (Some upper)) \<subseteq> set (landed_rows run2)"
      using transfer_keyset_spec[OF tk l(9) _ refl _ _ r(3) us(3,2)] fr r(6) ok same l(1) by simp_all
    have fate: "\<forall>e. outcome = Inl e \<longrightarrow> (\<exists>n. kr_chunks run \<le> n \<and> n < kr_chunks run2 \<and> fate_error (ce_fate env n) = Some e)"
      using transfer_keyset_error[OF tk l(9) _ refl] fr same(3) by simp
    have unmoved: "read_last_watermark cfg (kr_store run2) = committed" using spec(3) by (simp add: state_ok_def)
    have "kr_tracker run2 = None" using transfer_keyset_tracker[OF tk] by simp
    then have save: "cursor_to_save (ce_cal env) cp (kr_tracker run2) False spans (ce_clock env (kr_chunks run2))
        (cfg_lookback_seconds cfg) (Some upper) = Some upper" for spans
      using cp(2) by (simp add: cursor_to_save_def)
    define st where "st = finish_cursor cfg (Some chunk') (Some upper) (kr_rows_written run2) (kr_store run2)"
    have eq: "chunk_attempt env su run = Some (case outcome of Inl e \<Rightarrow> (run2, Inl e)
      | Inr _ \<Rightarrow> (case ce_cursor_check env of Some e \<Rightarrow> (run2, Inl e)
        | None \<Rightarrow> (run2\<lparr>kr_store := saved_as (ce_finish env) st (kr_store run2)\<rparr>,
          case save_error (ce_finish env) of None \<Rightarrow> Inr () | Some e \<Rightarrow> Inl e)))"
      using r(1,5) l(5) cp Inr f tk True by (cases outcome; cases "ce_cursor_check env") (simp_all add: attempt kept save st_def)
    show ?thesis
    proof (cases outcome)
      case (Inl e)
      then show ?thesis using eq spec fate unmoved r(3) by auto
    next
      case (Inr x)
      have lr: "landed_rows (run2\<lparr>kr_store := st\<rparr>) = landed_rows run2" for st by (simp add: landed_rows_def)
      have "stored_text upper" using us(2) r(3) by blast
      moreover have "ck_committed chunk' = committed" using spec(1) f by simp
      ultimately have st: "read_chunk_state cfg st = None"
        "read_last_watermark cfg st = (if cfg_advance_watermark cfg then Some upper else committed)"
        using us(3) by (auto simp: st_def finish_cursor_def Let_def stored_text_def split: option.splits)
      have st_ok: "read_last_watermark cfg st = committed \<Longrightarrow> state_ok cfg src idx us committed st (landed_rows run2)"
        using st(1) by (simp add: state_ok_def)
      show ?thesis
      proof (cases "ce_cursor_check env")
        case (Some e)
        then have "Some e \<in> step_errors env" by (simp add: step_errors_def)
        then show ?thesis using eq Inr Some spec unmoved r(3) by auto
      next
        case None
        note eq' = eq[unfolded Inr None, simplified]
        have err: "Some e \<in> step_errors env" if "save_error (ce_finish env) = Some e" for e
          using that by (simp add: step_errors_def)
        show ?thesis
        proof (cases "ce_finish env")
          case (Refuses e)
          then show ?thesis using eq' err[of e] spec unmoved r(3) by (auto simp: saved_as_def lr)
        next
          case Saves
          then show ?thesis using eq' Inr spec st st_ok r(3) by (auto simp: saved_as_def lr intro!: bexI[of _ upper])
        next
          case (Unanswered e)
          then show ?thesis using eq' err[of e] Inr spec st st_ok r(3) by (auto simp: saved_as_def lr intro!: bexI[of _ upper])
        qed
      qed
    qed
    qed
  qed
qed

text \<open>The runs of a chunked read so far: every one ended in an error before the cursor moved, with the
  snapshot bounds they took.\<close>

inductive chunk_reach :: "transfer_config \<Rightarrow> (string option \<Rightarrow> cell list list) \<Rightarrow> nat \<Rightarrow> string option
    \<Rightarrow> string set \<Rightarrow> chunk_run \<Rightarrow> bool"
  for cfg src idx committed where
  start: "kr_table run = [] \<Longrightarrow> read_last_watermark cfg (kr_store run) = committed
      \<Longrightarrow> read_chunk_state cfg (kr_store run) = None \<Longrightarrow> chunk_reach cfg src idx committed {} run"
| attempt: "chunk_reach cfg src idx committed us run \<Longrightarrow> lawful_attempt cfg src idx u env su
      \<Longrightarrow> chunk_attempt env su run = Some (run', Inl e)
      \<Longrightarrow> read_last_watermark cfg (kr_store run') = committed
      \<Longrightarrow> chunk_reach cfg src idx committed (insert u us) run'"

lemma chunk_reach_ok:
  assumes "chunk_reach cfg src idx committed us run" "\<forall>w. committed = Some w \<longrightarrow> stored_text w"
  shows "state_ok cfg src idx us committed (kr_store run) (landed_rows run)
    \<and> (\<forall>v \<in> us. stored_text v) \<and> set (landed_rows run) \<subseteq> (\<Union>v \<in> us. set (src (Some v)))"
  using assms
proof induction
  case (start run)
  then show ?case by (simp add: state_ok_def landed_rows_def)
next
  case (attempt us run u env su run' e)
  have ok: "state_ok cfg src idx (insert u us) committed (kr_store run) (landed_rows run)"
    using attempt.IH[OF attempt.prems] state_ok_mono by (metis subset_refl subset_insertI)
  have us: "u \<in> insert u us" "\<forall>v \<in> insert u us. stored_text v"
    using attempt.IH[OF attempt.prems] attempt.hyps(2) by (auto simp: lawful_attempt_def)
  from chunk_attempt_ok[OF ok us attempt.prems attempt.hyps(2)] attempt.hyps(3,4)
  obtain v where "v \<in> insert u us" "set (landed_rows run') \<subseteq> set (landed_rows run) \<union> set (src (Some v))"
    "state_ok cfg src idx (insert u us) committed (kr_store run') (landed_rows run')" by auto
  then show ?case using attempt.IH[OF attempt.prems] us(2) by auto
qed

text \<open>C27. A chunked read that fails any number of times and is run again until it gets to its end (it
  returns, or its last write to the state table went through with the answer lost) leaves the
  destination with every row under the bound of one of its runs, and no row from elsewhere; its
  resume marker is gone and the saved cursor is that bound (or the old one, when the run is told not
  to advance it).  Whatever chunk a crash falls on, and whichever write to the state table is refused or
  loses its answer, no row is skipped.  This is for a read bounded by the snapshot MAX (a frozen
  bound) into an existing destination, over a source whose rows under a given bound stay as they
  are and have distinct integer keys, none of them NULL, with no NULL guard, and for cursor texts which
  the state table's replies spell as they were written.
\<close>

theorem resumed_read_skips_no_row:
  assumes "chunk_reach cfg src idx committed us run" "\<forall>w. committed = Some w \<longrightarrow> stored_text w"
    and "lawful_attempt cfg src idx u env su"
    and "chunk_attempt env su run = Some (run', res)"
    and "res = Inr () \<or> read_last_watermark cfg (kr_store run') \<noteq> committed"
  shows "\<exists>v \<in> insert u us. set (src (Some v)) \<subseteq> set (landed_rows run')
    \<and> set (landed_rows run') \<subseteq> (\<Union>w \<in> insert u us. set (src (Some w)))
    \<and> read_chunk_state cfg (kr_store run') = None
    \<and> read_last_watermark cfg (kr_store run') = (if cfg_advance_watermark cfg then Some v else committed)"
proof -
  note reach = chunk_reach_ok[OF assms(1,2)]
  have ok: "state_ok cfg src idx (insert u us) committed (kr_store run) (landed_rows run)"
    using reach state_ok_mono by (metis subset_refl subset_insertI)
  have us: "u \<in> insert u us" "\<forall>v \<in> insert u us. stored_text v"
    using reach assms(3) by (auto simp: lawful_attempt_def)
  from chunk_attempt_ok[OF ok us assms(2,3)] assms(4,5)
  obtain v where "v \<in> insert u us" "set (landed_rows run') \<subseteq> set (landed_rows run) \<union> set (src (Some v))"
    "set (src (Some v)) \<subseteq> set (landed_rows run')" "read_chunk_state cfg (kr_store run') = None"
    "read_last_watermark cfg (kr_store run') = (if cfg_advance_watermark cfg then Some v else committed)" by auto
  then show ?thesis using reach by (intro bexI[of _ v]) auto
qed


section \<open>A read that fails in its second chunk\<close>

definition sample_keys :: "cell list list" where
  "sample_keys = [[CInt 1], [CInt 2], [CInt 3]]"

definition text_past :: "string option \<Rightarrow> int \<Rightarrow> bool" where
  "text_past cur k = (case cur of None \<Rightarrow> True | Some s \<Rightarrow> take 1 s = ''-'' \<or> int (read_nat s) < k)"

definition sample_chunk_query :: "string option \<Rightarrow> string option \<Rightarrow> nat \<Rightarrow> batch list" where
  "sample_chunk_query u cur limit =
     (case take limit (filter (\<lambda>r. text_past cur (row_key 0 r)) sample_keys) of
        [] \<Rightarrow> []
      | r # rs \<Rightarrow> [\<lparr>bt_fields = [\<lparr>bf_name = ''id'', bf_type = Int64, bf_nullable = False\<rparr>], bt_rows = r # rs\<rparr>])"

definition sample_chunk_config :: transfer_config where
  "sample_chunk_config = sample_config\<lparr>cfg_chunk_rows := Some 2, cfg_windowed := False\<rparr>"

definition sample_chunk_env :: "(nat \<Rightarrow> chunk_fate) \<Rightarrow> chunk_env" where
  "sample_chunk_env fate = \<lparr>ce_cal = no_calendar, ce_cfg = sample_chunk_config, ce_guard = None,
     ce_query = sample_chunk_query, ce_staged = False, ce_clock = \<lambda>_. Fin 0, ce_fate = fate, ce_read_state = None,
     ce_write_check = None, ce_clear = Saves, ce_prepare = None, ce_cursor_check = None, ce_finish = Saves\<rparr>"

definition sample_setup :: run_setup where
  "sample_setup = \<lparr>ru_plan = sample_ids_plan, ru_source_cols = [\<lparr>ct_name = ''id'', ct_type_id = 20,
       ct_nullable = False, ct_arrow = Int64, ct_clickhouse_inner = ''Int64'',
       ct_arbitrary_precision_decimal = False, ct_declared_decimal = None\<rparr>],
     ru_show_type = (\<lambda>_. ''?''), ru_keyset_not_null = False, ru_dest_exists = True, ru_snapshot_max = Some ''7'',
     ru_stream_max_cursor = False, ru_tracker = None\<rparr>"

definition empty_run :: chunk_run where
  "empty_run = \<lparr>kr_table = [], kr_store = [], kr_tracker = None, kr_rows_written = 0, kr_chunks = 0,
     kr_warnings = no_warnings\<rparr>"

definition second_not_saved :: "nat \<Rightarrow> chunk_fate" where
  "second_not_saved n = (if n = 1 then NotSaved (Other ''connection lost'') else Completes)"

lemma show_1_2: "show_int 1 = ''1''" "show_int 2 = ''2''" "show_int 3 = ''3''" "digit_val CHR ''2'' = 2"
  by code_simp+

lemma sample_queries:
  "sample_chunk_query u None 2 = [\<lparr>bt_fields = [\<lparr>bf_name = ''id'', bf_type = Int64, bf_nullable = False\<rparr>],
      bt_rows = [[CInt 1], [CInt 2]]\<rparr>]"
  "sample_chunk_query u (Some ''2'') 2 = [\<lparr>bt_fields = [\<lparr>bf_name = ''id'', bf_type = Int64, bf_nullable = False\<rparr>],
      bt_rows = [[CInt 3]]\<rparr>]"
  by (simp_all add: sample_chunk_query_def sample_keys_def text_past_def row_key_def show_1_2)

definition sample_plan :: chunk_plan where
  "sample_plan = \<lparr>ck_limit = 2, ck_keyset_col = ''id'', ck_keyset_idx = 0, ck_committed = None,
     ck_effective_upper = Some ''7'', ck_start_cursor = None, ck_marker = Frozen\<rparr>"

lemma sample_first_chunk:
  "\<exists>run. chunk_once (sample_chunk_env second_not_saved) None (sample_plan, empty_run)
     = ((sample_plan, run), Inr (Some ''2'')) \<and> kr_chunks run = 1 \<and> kr_tracker run = None
     \<and> kr_store run = persist_chunk_cursor sample_chunk_config None ''2'' ''7'' 2 []
     \<and> kr_rows_written run = 2"
  by (simp add: chunk_once_def sample_plan_def sample_queries sample_chunk_env_def empty_run_def chunk_batches_def
      cursor_candidate_def last_int_key_def keyset_type_def second_not_saved_def land_def marker_upper_def show_1_2)
    (simp only: numeral_2_eq_2)

lemma sample_second_chunk:
  "kr_chunks run = 1 \<Longrightarrow> kr_tracker run = None \<Longrightarrow>
   \<exists>run'. chunk_once (sample_chunk_env second_not_saved) (Some ''2'') (sample_plan, run)
     = ((sample_plan, run'), Inl (Other ''connection lost'')) \<and> kr_store run' = kr_store run"
  by (simp add: chunk_once_def sample_plan_def sample_queries sample_chunk_env_def chunk_batches_def
      cursor_candidate_def last_int_key_def keyset_type_def second_not_saved_def land_def)

lemma sample_keyset_source:
  "keyset_source (sample_chunk_env fate) (\<lambda>_. sample_keys) 0 2"
proof -
  have tp: "text_past (map_option show_int c) k = past c k" if "0 < k" for c k
  proof (cases c)
    case (Some i)
    show ?thesis
    proof (cases "i < 0")
      case False
      have "take 1 (show_nat (nat i)) \<noteq> ''-''"
      proof
        assume "take 1 (show_nat (nat i)) = ''-''"
        then obtain r where "show_nat (nat i) = CHR ''-'' # r" by (cases "show_nat (nat i)") auto
        then show False using all_digits_show_nat[of "nat i"] by (simp add: is_digit_def code_def)
      qed
      then show ?thesis using False Some by (simp add: text_past_def show_int_def read_show_nat)
    qed (use Some that in \<open>simp add: text_past_def show_int_def\<close>)
  qed (simp add: text_past_def)
  have filter: "filter (\<lambda>r. text_past (map_option show_int c) (row_key 0 r)) sample_keys
      = filter (\<lambda>r. past c (row_key 0 r)) sample_keys" for c
    by (rule filter_cong) (auto simp: sample_keys_def row_key_def tp)
  show ?thesis
    by (auto simp: keyset_source_def sample_chunk_env_def sample_chunk_query_def filter sample_keys_def[symmetric]
        keyset_type_def split: list.splits) (auto simp: sample_keys_def row_key_def)
qed

lemma sample_lawful:
  "lawful_attempt sample_chunk_config (\<lambda>_. sample_keys) 0 ''7'' (sample_chunk_env fate) sample_setup"
  using sample_keyset_source[of fate]
  by (simp add: lawful_attempt_def sample_setup_def sample_chunk_env_def sample_chunk_config_def sample_config_def
      sample_ids_plan_def keyset_column_def stored_text_def trim_def trim_start_def is_ws_def code_def
      tsv_escape_def escape_chars_def tsv_char_def TAB_def char_defs)

lemma sample_accepted: "keyset_accepted sample_chunk_config sample_setup"
  by (simp add: keyset_accepted_def build_chunk_plan_def sample_setup_def sample_chunk_config_def sample_config_def
      sample_ids_plan_def keyset_column_def find_column_def keyset_type_def)

lemma sample_failing_attempt:
  "\<exists>run. chunk_attempt (sample_chunk_env second_not_saved) sample_setup empty_run
     = Some (run, Inl (Other ''connection lost''))
     \<and> kr_store run = persist_chunk_cursor sample_chunk_config None ''2'' ''7'' 2 []"
proof -
  obtain run where run: "chunk_once (sample_chunk_env second_not_saved) None (sample_plan, empty_run)
     = ((sample_plan, run), Inr (Some ''2''))" "kr_chunks run = 1" "kr_tracker run = None"
     "kr_store run = persist_chunk_cursor sample_chunk_config None ''2'' ''7'' 2 []"
    using sample_first_chunk by blast
  obtain run' where run': "chunk_once (sample_chunk_env second_not_saved) (Some ''2'') (sample_plan, run)
     = ((sample_plan, run'), Inl (Other ''connection lost''))" "kr_store run' = kr_store run"
    using sample_second_chunk[OF run(2,3)] by blast
  have tk: "transfer_keyset (sample_chunk_env second_not_saved) None (sample_plan, empty_run)
      = Some ((sample_plan, run'), Inl (Other ''connection lost''))"
    using run run' by (subst transfer_keyset.simps, simp, subst transfer_keyset.simps, simp)
  have "empty_run\<lparr>kr_warnings := kr_warnings empty_run, kr_tracker := None\<rparr> = empty_run"
    by (simp add: empty_run_def)
  moreover have "read_saved_state sample_chunk_config True [] ws
      = (\<lparr>sv_committed = None, sv_marker = None, sv_discarded = False\<rparr>, ws)" for ws
    by (simp add: read_saved_state_def read_last_watermark_def read_chunk_state_def newest_row_def)
  moreover have "build_chunk_plan (\<lambda>_. ''?'') sample_chunk_config sample_ids_plan (ru_source_cols sample_setup) 2 None (Some ''7'')
      None False = Inr sample_plan"
    by (simp add: build_chunk_plan_def sample_setup_def sample_chunk_config_def sample_config_def
      sample_ids_plan_def keyset_column_def find_column_def keyset_type_def sample_plan_def)
  moreover have "cfg_chunk_rows sample_chunk_config = Some 2" "cfg_seed_watermark sample_chunk_config = NoSeed"
    by (simp_all add: sample_chunk_config_def sample_config_def)
  moreover have "ce_cfg (sample_chunk_env second_not_saved) = sample_chunk_config"
    "kr_store empty_run = []" "kr_warnings empty_run = no_warnings" "ru_dest_exists sample_setup"
    "ru_snapshot_max sample_setup = Some ''7''" "ru_tracker sample_setup = None" "ru_plan sample_setup = sample_ids_plan"
    "\<not> ru_stream_max_cursor sample_setup" "\<not> ru_keyset_not_null sample_setup" "ru_show_type sample_setup = (\<lambda>_. ''?'')"
    by (simp_all add: sample_chunk_env_def empty_run_def sample_setup_def)
  moreover have "sample_plan\<lparr>ck_marker := Frozen\<rparr> = sample_plan" "ck_start_cursor sample_plan = None"
    "ck_effective_upper sample_plan = Some ''7''" by (simp_all add: sample_plan_def)
  moreover have "ce_read_state (sample_chunk_env second_not_saved) = None" "ce_write_check (sample_chunk_env second_not_saved) = None"
    "ce_prepare (sample_chunk_env second_not_saved) = None" by (simp_all add: sample_chunk_env_def)
  ultimately show ?thesis using tk run(4) run'(2)
    by (simp add: chunk_attempt_def clear_state_def resumable_marker_def setup_cursor_def resume_bounds_def chunk_marker_bound_def Let_def)
qed

lemma sample_failed_reach:
  "\<exists>run. chunk_reach sample_chunk_config (\<lambda>_. sample_keys) 0 None {''7''} run \<and> read_chunk_state sample_chunk_config (kr_store run) \<noteq> None"
proof -
  obtain run where run: "chunk_attempt (sample_chunk_env second_not_saved) sample_setup empty_run
      = Some (run, Inl (Other ''connection lost''))"
    "kr_store run = persist_chunk_cursor sample_chunk_config None ''2'' ''7'' 2 []"
    using sample_failing_attempt by blast
  have "chunk_reach sample_chunk_config (\<lambda>_. sample_keys) 0 None {} empty_run"
    by (intro start) (simp_all add: empty_run_def read_last_watermark_def read_chunk_state_def newest_row_def)
  from attempt[OF this sample_lawful run(1)] show ?thesis using run(2) by (intro exI[of _ run]) simp
qed

theorem resumed_read_skips_no_row_witness:
  "\<exists>run run'. chunk_reach sample_chunk_config (\<lambda>_. sample_keys) 0 None {''7''} run
     \<and> read_chunk_state sample_chunk_config (kr_store run) \<noteq> None
     \<and> chunk_attempt (sample_chunk_env (\<lambda>_. Completes)) sample_setup run = Some (run', Inr ())
     \<and> set (landed_rows run') = set sample_keys \<and> read_chunk_state sample_chunk_config (kr_store run') = None
     \<and> read_last_watermark sample_chunk_config (kr_store run') = Some ''7''"
proof -
  obtain run where reach: "chunk_reach sample_chunk_config (\<lambda>_. sample_keys) 0 None {''7''} run"
    "read_chunk_state sample_chunk_config (kr_store run) \<noteq> None" using sample_failed_reach by blast
  note ok = chunk_reach_ok[OF reach(1)]
  from chunk_attempt_ok[of sample_chunk_config _ 0 "{''7''}" None run "''7''", OF _ _ _ _ sample_lawful[of "\<lambda>_. Completes"]] ok sample_accepted
  obtain run' res where run': "chunk_attempt (sample_chunk_env (\<lambda>_. Completes)) sample_setup run = Some (run', res)"
    and none: "\<nexists>e. res = Inl e" by (fastforce simp: sample_chunk_env_def step_errors_def)
  have res: "res = Inr ()" using none by (cases res) auto
  have "cfg_advance_watermark sample_chunk_config" by (simp add: sample_chunk_config_def sample_config_def)
  then show ?thesis using resumed_read_skips_no_row[OF reach(1) _ sample_lawful run'] reach run' res by auto
qed


end
