(* ===== verification/QH_Merge.thy ===== *)
theory QH_Merge
  imports QH_Null_Guard
begin

text \<open>
  The incremental write of \<open>sink/bigquery.rs\<close>: the bounds probed on the staging table, the
  \<open>MERGE\<close> statement built from them and what the statement does to the destination's rows.  A
  table is a list of rows over the columns a run writes.  What the engine decides is an argument:
  the literal \<open>FORMAT('%T', v)\<close> renders a value as, the value a literal denotes, and the order
  of a column's values.
\<close>

section \<open>Tables\<close>

type_synonym table_rows = "cell list list"

definition col :: "string list \<Rightarrow> cell list \<Rightarrow> string \<Rightarrow> cell" where
  "col cols r c = (case find_index (\<lambda>x. x = c) cols of Some i \<Rightarrow> r ! i | None \<Rightarrow> CNull)"

record sql_engine =
  en_format :: "cell \<Rightarrow> string"
  en_literal :: "string \<Rightarrow> cell"
  en_le :: "string \<Rightarrow> cell \<Rightarrow> cell \<Rightarrow> bool"

definition column_values_of :: "string list \<Rightarrow> table_rows \<Rightarrow> string \<Rightarrow> cell list" where
  "column_values_of cols rows c = filter (\<lambda>v. v \<noteq> CNull) (map (\<lambda>r. col cols r c) rows)"

text \<open>\<open>MIN\<close> and \<open>MAX\<close> skip NULLs.\<close>

definition least_of :: "(cell \<Rightarrow> cell \<Rightarrow> bool) \<Rightarrow> cell list \<Rightarrow> cell" where
  "least_of le vs = foldl (\<lambda>m v. if le m v then m else v) (hd vs) (tl vs)"

definition greatest_of :: "(cell \<Rightarrow> cell \<Rightarrow> bool) \<Rightarrow> cell list \<Rightarrow> cell" where
  "greatest_of le vs = foldl (\<lambda>m v. if le v m then m else v) (hd vs) (tl vs)"

section \<open>The probes\<close>

definition bounded_columns :: "string list \<Rightarrow> string option \<Rightarrow> bool \<Rightarrow> bool \<Rightarrow> string list" where
  "bounded_columns key prune_partition prune_key_range delete_stale =
     (let cols = (case prune_partition of Some p \<Rightarrow> [p] | None \<Rightarrow> []) in
      if prune_key_range \<and> \<not> delete_stale
      then foldl (\<lambda>cs k. if k \<in> set cs then cs else cs @ [k]) cols key else cols)"

definition bt :: "string \<Rightarrow> string" where
  "bt s = [CHR 0x60] @ s @ [CHR 0x60]"

definition table_ref :: "string \<Rightarrow> string \<Rightarrow> string \<Rightarrow> string" where
  "table_ref project dataset table = bt project @ ''.'' @ bt dataset @ ''.'' @ bt table"

definition build_staging_bounds_sql :: "string \<Rightarrow> string \<Rightarrow> string \<Rightarrow> string list \<Rightarrow> string" where
  "build_staging_bounds_sql project dataset staging columns =
     ''SELECT '' @ join '', '' (map (\<lambda>(i, c).
         ''FORMAT('' @ quoted ''%T'' @ '', MIN('' @ bt c @ '')) AS lo_'' @ show_nat i
         @ '', FORMAT('' @ quoted ''%T'' @ '', MAX('' @ bt c @ '')) AS hi_'' @ show_nat i) (enumerate 0 columns))
     @ '' FROM '' @ table_ref project dataset staging"

definition build_staging_key_list_sql :: "string \<Rightarrow> string \<Rightarrow> string \<Rightarrow> string \<Rightarrow> nat \<Rightarrow> string" where
  "build_staging_key_list_sql project dataset staging key limit =
     ''SELECT FORMAT('' @ quoted ''%T'' @ '', k) FROM (SELECT DISTINCT '' @ bt key @ '' AS k FROM ''
     @ table_ref project dataset staging @ '' WHERE '' @ bt key @ '' IS NOT NULL LIMIT '' @ show_nat limit @ '')''"

definition build_swap_sql :: "string \<Rightarrow> string \<Rightarrow> string \<Rightarrow> string \<Rightarrow> string list \<Rightarrow> string" where
  "build_swap_sql project dataset dest staging columns =
     (let cols = join '', '' (map bt columns) in
      ''BEGIN TRANSACTION; TRUNCATE TABLE '' @ table_ref project dataset dest
      @ ''; INSERT INTO '' @ table_ref project dataset dest @ '' ('' @ cols @ '') SELECT '' @ cols
      @ '' FROM '' @ table_ref project dataset staging @ ''; COMMIT TRANSACTION;'')"

type_synonym staging_bounds = "(string \<times> string \<times> string) list"

definition probe_staging_bounds :: "sql_engine \<Rightarrow> string list \<Rightarrow> table_rows \<Rightarrow> string list \<Rightarrow> staging_bounds" where
  "probe_staging_bounds en cols staging columns =
     concat (map (\<lambda>c. let vs = column_values_of cols staging c in
        if vs = [] then []
        else [(c, en_format en (least_of (en_le en c) vs), en_format en (greatest_of (en_le en c) vs))]) columns)"

definition probe_staging_key_list :: "sql_engine \<Rightarrow> string list \<Rightarrow> table_rows \<Rightarrow> string \<Rightarrow> nat \<Rightarrow> string list option" where
  "probe_staging_key_list en cols staging key max_keys =
     (let vs = remdups (column_values_of cols staging key) in
      if vs = [] \<or> max_keys < length vs then None else Some (map (en_format en) vs))"

section \<open>The statement\<close>

record merge_stmt =
  mg_columns :: "string list"
  mg_key :: "string list"
  mg_window :: "(string \<times> string \<times> string) option"
  mg_key_list :: "(string \<times> string list) option"
  mg_ranges :: "(string \<times> string \<times> string) list"
  mg_update :: "string list"
  mg_delete :: "(string \<times> string \<times> string) option"
  mg_order :: "string option"

definition bound_of :: "staging_bounds \<Rightarrow> string \<Rightarrow> (string \<times> string \<times> string) option" where
  "bound_of bounds c = map_option (\<lambda>(lo, hi). (c, lo, hi)) (map_of bounds c)"

definition build_merge :: "string list \<Rightarrow> string list \<Rightarrow> string option \<Rightarrow> bool \<Rightarrow> bool \<Rightarrow> string option
    \<Rightarrow> staging_bounds \<Rightarrow> string list option \<Rightarrow> merge_stmt res" where
  "build_merge key columns prune_partition prune_key_range delete_stale dedup_order bounds key_list0 =
     (if key = [] then Inl (Internal ''build_merge_sql called with an empty key (should have been validated before staging began)'')
      else
        let window = Option.bind prune_partition (bound_of bounds);
            key_list = (case key_list0 of
                Some l \<Rightarrow> if l \<noteq> [] \<and> length key = 1 \<and> \<not> delete_stale then Some (hd key, l) else None
              | None \<Rightarrow> None);
            ranges = (if key_list = None \<and> prune_key_range \<and> \<not> delete_stale
                then concat (map (\<lambda>k. case bound_of bounds k of Some b \<Rightarrow> [b] | None \<Rightarrow> []) key) else [])
        in if delete_stale \<and> prune_partition = None
           then Inl (Internal ''delete_stale requested without merge_prune_partition_by (should have been validated)'')
           else Inr \<lparr>mg_columns = columns, mg_key = key, mg_window = window, mg_key_list = key_list,
              mg_ranges = ranges, mg_update = filter (\<lambda>c. c \<notin> set key) columns,
              mg_delete = (if delete_stale then window else None),
              mg_order = (case dedup_order of Some w \<Rightarrow> if w \<in> set columns then Some w else None | None \<Rightarrow> None)\<rparr>)"

definition between_text :: "string \<times> string \<times> string \<Rightarrow> string" where
  "between_text = (\<lambda>(c, lo, hi). ''T.'' @ bt c @ '' BETWEEN '' @ lo @ '' AND '' @ hi)"

definition on_clause :: "merge_stmt \<Rightarrow> string" where
  "on_clause m =
     join '' AND '' (map (\<lambda>k. ''T.'' @ bt k @ '' = S.'' @ bt k) (mg_key m))
     @ (case mg_window m of Some b \<Rightarrow> '' AND '' @ between_text b | None \<Rightarrow> [])
     @ (case mg_key_list m of
          Some (k, l) \<Rightarrow> '' AND T.'' @ bt k @ '' IN ('' @ join '', '' l @ '')''
        | None \<Rightarrow> concat (map (\<lambda>b. '' AND '' @ between_text b) (mg_ranges m)))"

definition merge_clauses :: "merge_stmt \<Rightarrow> string list" where
  "merge_clauses m =
     (if mg_update m \<noteq> []
      then [''WHEN MATCHED THEN UPDATE SET '' @ join '', '' (map (\<lambda>c. bt c @ '' = S.'' @ bt c) (mg_update m))] else [])
     @ [''WHEN NOT MATCHED THEN INSERT ('' @ join '', '' (map bt (mg_columns m)) @ '') VALUES (''
        @ join '', '' (map (\<lambda>c. ''S.'' @ bt c) (mg_columns m)) @ '')'']
     @ (case mg_delete m of
          Some b \<Rightarrow> [''WHEN NOT MATCHED BY SOURCE AND '' @ between_text b @ '' THEN DELETE''] | None \<Rightarrow> [])"

definition render_merge :: "string \<Rightarrow> string \<Rightarrow> string \<Rightarrow> string \<Rightarrow> merge_stmt \<Rightarrow> string" where
  "render_merge project dataset dest staging m =
     (let key_list = join '', '' (map bt (mg_key m));
          order = (case mg_order m of Some w \<Rightarrow> bt w @ '' DESC'' | None \<Rightarrow> key_list);
          using' = ''(SELECT * EXCEPT (_qh_row_num) FROM (SELECT *, ROW_NUMBER() OVER (PARTITION BY '' @ key_list
             @ '' ORDER BY '' @ order @ '') AS _qh_row_num FROM '' @ table_ref project dataset staging
             @ '') WHERE _qh_row_num = 1)''
      in ''MERGE INTO '' @ table_ref project dataset dest @ '' T USING '' @ using' @ '' S ON '' @ on_clause m @ '' ''
         @ join '' '' (merge_clauses m))"

definition build_merge_sql :: "string \<Rightarrow> string \<Rightarrow> string \<Rightarrow> string \<Rightarrow> string list \<Rightarrow> string list \<Rightarrow> string option
    \<Rightarrow> bool \<Rightarrow> bool \<Rightarrow> string option \<Rightarrow> staging_bounds \<Rightarrow> string list option \<Rightarrow> string res" where
  "build_merge_sql project dataset dest staging key columns prune_partition prune_key_range delete_stale dedup_order
      bounds key_list =
     and_then (build_merge key columns prune_partition prune_key_range delete_stale dedup_order bounds key_list)
       (\<lambda>m. Inr (render_merge project dataset dest staging m))"

text \<open>The bounds a merge is built with.  A probe that fails costs its bound, except the window of
  a delete.\<close>

definition merge_into :: "sql_engine \<Rightarrow> string list \<Rightarrow> table_rows \<Rightarrow> string list \<Rightarrow> string option \<Rightarrow> bool \<Rightarrow> nat \<Rightarrow> bool
    \<Rightarrow> string option \<Rightarrow> etl_error option \<Rightarrow> etl_error option \<Rightarrow> merge_stmt res" where
  "merge_into en columns staging key prune_partition prune_key_range key_list_max delete_stale dedup_order
      list_fault bounds_fault =
     (let key_list = (if key_list_max = 0 \<or> delete_stale \<or> length key \<noteq> 1 \<or> list_fault \<noteq> None then None
                      else probe_staging_key_list en columns staging (hd key) key_list_max);
          bounded = bounded_columns key prune_partition (prune_key_range \<and> key_list = None) delete_stale
      in case bounds_fault of
           Some e \<Rightarrow> if delete_stale \<and> bounded \<noteq> [] then Inl e
                     else build_merge key columns prune_partition prune_key_range delete_stale dedup_order [] key_list
         | None \<Rightarrow> build_merge key columns prune_partition prune_key_range delete_stale dedup_order
                     (probe_staging_bounds en columns staging bounded) key_list)"

section \<open>What the statement does\<close>

definition key_match :: "string list \<Rightarrow> string list \<Rightarrow> cell list \<Rightarrow> cell list \<Rightarrow> bool" where
  "key_match cols key t s \<longleftrightarrow> list_all (\<lambda>k. col cols t k \<noteq> CNull \<and> col cols t k = col cols s k) key"

definition in_bound :: "sql_engine \<Rightarrow> string list \<Rightarrow> cell list \<Rightarrow> string \<times> string \<times> string \<Rightarrow> bool" where
  "in_bound en cols t = (\<lambda>(c, lo, hi). col cols t c \<noteq> CNull
     \<and> en_le en c (en_literal en lo) (col cols t c) \<and> en_le en c (col cols t c) (en_literal en hi))"

definition on_holds :: "sql_engine \<Rightarrow> merge_stmt \<Rightarrow> cell list \<Rightarrow> cell list \<Rightarrow> bool" where
  "on_holds en m t s \<longleftrightarrow> key_match (mg_columns m) (mg_key m) t s
     \<and> (case mg_window m of Some b \<Rightarrow> in_bound en (mg_columns m) t b | None \<Rightarrow> True)
     \<and> (case mg_key_list m of
          Some (k, l) \<Rightarrow> col (mg_columns m) t k \<noteq> CNull \<and> col (mg_columns m) t k \<in> set (map (en_literal en) l)
        | None \<Rightarrow> list_all (in_bound en (mg_columns m) t) (mg_ranges m))"

definition update_row :: "merge_stmt \<Rightarrow> cell list \<Rightarrow> cell list \<Rightarrow> cell list" where
  "update_row m t s = map (\<lambda>c. col (mg_columns m) (if c \<in> set (mg_update m) then s else t) c) (mg_columns m)"

definition run_merge :: "sql_engine \<Rightarrow> merge_stmt \<Rightarrow> table_rows \<Rightarrow> table_rows \<Rightarrow> table_rows" where
  "run_merge en m chosen dest =
     concat (map (\<lambda>t. case filter (on_holds en m t) chosen of
          s # _ \<Rightarrow> [update_row m t s]
        | [] \<Rightarrow> (case mg_delete m of Some b \<Rightarrow> if in_bound en (mg_columns m) t b then [] else [t] | None \<Rightarrow> [t])) dest)
     @ filter (\<lambda>s. list_all (\<lambda>t. \<not> on_holds en m t s) dest) chosen"

text \<open>\<open>ROW_NUMBER() = 1\<close>: one row of every key group, the newest where the statement orders by a
  column.  Which of several newest rows is not determined.\<close>

definition key_of :: "string list \<Rightarrow> string list \<Rightarrow> cell list \<Rightarrow> cell list" where
  "key_of cols key r = map (col cols r) key"

definition not_newer :: "sql_engine \<Rightarrow> string list \<Rightarrow> string \<Rightarrow> cell list \<Rightarrow> cell list \<Rightarrow> bool" where
  "not_newer en cols w r s \<longleftrightarrow> col cols r w = CNull
     \<or> (col cols s w \<noteq> CNull \<and> en_le en w (col cols r w) (col cols s w))"

definition deduplicated :: "sql_engine \<Rightarrow> merge_stmt \<Rightarrow> table_rows \<Rightarrow> table_rows \<Rightarrow> bool" where
  "deduplicated en m staging chosen \<longleftrightarrow>
     (let k = key_of (mg_columns m) (mg_key m) in
      distinct (map k chosen) \<and> set chosen \<subseteq> set staging
      \<and> (\<forall>r \<in> set staging. \<exists>s \<in> set chosen. k s = k r
           \<and> (case mg_order m of Some w \<Rightarrow> not_newer en (mg_columns m) w r s | None \<Rightarrow> True)))"

section \<open>The upsert it stands for\<close>

definition upsert :: "string list \<Rightarrow> string list \<Rightarrow> (cell list \<Rightarrow> bool) \<Rightarrow> table_rows \<Rightarrow> table_rows \<Rightarrow> table_rows" where
  "upsert cols key stale chosen dest =
     concat (map (\<lambda>t. case find (key_match cols key t) chosen of
          Some s \<Rightarrow> [s]
        | None \<Rightarrow> if stale t then [] else [t]) dest)
     @ filter (\<lambda>s. \<not> (\<exists>t \<in> set dest. key_match cols key t s)) chosen"

text \<open>A row of the window a delete replaces: it lies between two staged values of the window's column.\<close>

definition in_staged_window :: "sql_engine \<Rightarrow> string list \<Rightarrow> string \<Rightarrow> table_rows \<Rightarrow> cell list \<Rightarrow> bool" where
  "in_staged_window en cols w staging t \<longleftrightarrow> col cols t w \<noteq> CNull
     \<and> (\<exists>a \<in> set (column_values_of cols staging w). en_le en w a (col cols t w))
     \<and> (\<exists>b \<in> set (column_values_of cols staging w). en_le en w (col cols t w) b)"

text \<open>What is relied on of the engine: a literal it formatted reads back as the value, and the values of
  a column are ordered.\<close>

definition lawful_column :: "sql_engine \<Rightarrow> string list \<Rightarrow> table_rows \<Rightarrow> string \<Rightarrow> bool" where
  "lawful_column en cols rows c \<longleftrightarrow>
     (let vs = set (column_values_of cols rows c) in
      (\<forall>v \<in> vs. en_literal en (en_format en v) = v)
      \<and> (\<forall>u \<in> vs. \<forall>v \<in> vs. en_le en c u v \<or> en_le en c v u)
      \<and> (\<forall>u \<in> vs. \<forall>v \<in> vs. \<forall>w \<in> vs. en_le en c u v \<longrightarrow> en_le en c v w \<longrightarrow> en_le en c u w))"

section \<open>The bounds change nothing\<close>

lemma fold_least:
  assumes "\<forall>u \<in> V. \<forall>v \<in> V. le u v \<or> le v u" "\<forall>u \<in> V. \<forall>v \<in> V. \<forall>w \<in> V. le u v \<longrightarrow> le v w \<longrightarrow> le u w"
    and "m \<in> V" "set vs \<subseteq> V"
  shows "foldl (\<lambda>m v. if le m v then m else v) m vs \<in> insert m (set vs)
    \<and> (\<forall>v \<in> insert m (set vs). le (foldl (\<lambda>m v. if le m v then m else v) m vs) v)"
  using assms(3,4)
proof (induction vs arbitrary: m)
  case Nil
  then show ?case using assms(1) by auto
next
  case (Cons x vs)
  define m' where "m' = (if le m x then m else x)"
  have m: "m' \<in> V" "set vs \<subseteq> V" "m' \<in> {m, x}" using Cons.prems by (auto simp: m'_def)
  have r: "le m' m" "le m' x" using assms(1) Cons.prems by (auto simp: m'_def)
  define F where "F = foldl (\<lambda>m v. if le m v then m else v) m' vs"
  have f: "F \<in> insert m' (set vs)" "\<forall>v \<in> insert m' (set vs). le F v"
    using Cons.IH[OF m(1,2)] unfolding F_def by blast+
  have F: "F \<in> V" using f(1) m(1,2) by auto
  have "le F m'" using f(2) by blast
  then have "le F m" "le F x"
    using assms(2)[rule_format, of F m' m] assms(2)[rule_format, of F m' x] r m(1) F Cons.prems by simp_all
  then show ?case using f m(3) by (auto simp: m'_def[symmetric] F_def[symmetric])
qed

lemma least_of_least:
  assumes "\<forall>u \<in> set vs. \<forall>v \<in> set vs. le u v \<or> le v u"
    and "\<forall>u \<in> set vs. \<forall>v \<in> set vs. \<forall>w \<in> set vs. le u v \<longrightarrow> le v w \<longrightarrow> le u w" and "vs \<noteq> []"
  shows "least_of le vs \<in> set vs" "\<forall>v \<in> set vs. le (least_of le vs) v"
    "greatest_of le vs \<in> set vs" "\<forall>v \<in> set vs. le v (greatest_of le vs)"
proof -
  obtain x xs where vs: "vs = x # xs" using assms(3) by (cases vs) auto
  note l = fold_least[of "set vs" le x xs] fold_least[of "set vs" "\<lambda>a b. le b a" x xs]
  have sub: "x \<in> set vs" "set xs \<subseteq> set vs" using vs by auto
  show "least_of le vs \<in> set vs" "\<forall>v \<in> set vs. le (least_of le vs) v"
    using l(1)[OF assms(1,2) sub] by (auto simp: least_of_def vs)
  have tr: "\<forall>u \<in> set vs. \<forall>v \<in> set vs. \<forall>w \<in> set vs. le v u \<longrightarrow> le w v \<longrightarrow> le w u" using assms(2) by blast
  have tot: "\<forall>u \<in> set vs. \<forall>v \<in> set vs. le v u \<or> le u v" using assms(1) by blast
  show "greatest_of le vs \<in> set vs" "\<forall>v \<in> set vs. le v (greatest_of le vs)"
    using l(2)[OF tot tr sub] by (auto simp: greatest_of_def vs)
qed

lemma lawful_values:
  assumes "lawful_column en cols (staging @ dest) c"
  defines "vs \<equiv> column_values_of cols staging c"
  shows "vs \<noteq> [] \<Longrightarrow> least_of (en_le en c) vs \<in> set vs \<and> greatest_of (en_le en c) vs \<in> set vs"
    "v \<in> set vs \<Longrightarrow> en_le en c (least_of (en_le en c) vs) v \<and> en_le en c v (greatest_of (en_le en c) vs)"
    "v \<in> set vs \<Longrightarrow> en_literal en (en_format en v) = v"
proof -
  have sub: "set vs \<subseteq> set (column_values_of cols (staging @ dest) c)" by (auto simp: vs_def column_values_of_def)
  have l: "\<forall>u \<in> set vs. \<forall>v \<in> set vs. en_le en c u v \<or> en_le en c v u"
    "\<forall>u \<in> set vs. \<forall>v \<in> set vs. \<forall>w \<in> set vs. en_le en c u v \<longrightarrow> en_le en c v w \<longrightarrow> en_le en c u w"
    "\<forall>v \<in> set vs. en_literal en (en_format en v) = v"
    using assms(1) sub unfolding lawful_column_def Let_def by blast+
  note ll = least_of_least[OF l(1,2)]
  show "vs \<noteq> [] \<Longrightarrow> least_of (en_le en c) vs \<in> set vs \<and> greatest_of (en_le en c) vs \<in> set vs" using ll by simp
  show "v \<in> set vs \<Longrightarrow> en_le en c (least_of (en_le en c) vs) v \<and> en_le en c v (greatest_of (en_le en c) vs)"
    using ll by (cases "vs = []") auto
  show "v \<in> set vs \<Longrightarrow> en_literal en (en_format en v) = v" using l(3) by blast
qed

definition probed :: "sql_engine \<Rightarrow> string list \<Rightarrow> table_rows \<Rightarrow> string \<times> string \<times> string \<Rightarrow> bool" where
  "probed en cols staging = (\<lambda>(c, lo, hi). let vs = column_values_of cols staging c in
     vs \<noteq> [] \<and> lo = en_format en (least_of (en_le en c) vs) \<and> hi = en_format en (greatest_of (en_le en c) vs))"

lemma probe_probed:
  "map_of (probe_staging_bounds en cols staging columns) c = Some (lo, hi) \<Longrightarrow> probed en cols staging (c, lo, hi)"
  by (auto simp: probe_staging_bounds_def probed_def Let_def dest!: map_of_SomeD split: if_splits)

lemma probe_complete:
  assumes "c \<in> set columns" "map_of (probe_staging_bounds en cols staging columns) c = None"
  shows "column_values_of cols staging c = []"
  using assms by (auto simp: probe_staging_bounds_def map_of_eq_None_iff Let_def image_iff split: if_splits)

lemma probed_admits:
  assumes "probed en cols staging b" "lawful_column en cols (staging @ dest) (fst b)"
    and "col cols t (fst b) \<in> set (column_values_of cols staging (fst b))"
  shows "in_bound en cols t b"
proof -
  obtain c lo hi where b: "b = (c, lo, hi)" by (cases b)
  let ?vs = "column_values_of cols staging c"
  have l: "lawful_column en cols (staging @ dest) c" "col cols t c \<in> set ?vs" "?vs \<noteq> []" using assms b by auto
  note v = lawful_values[OF l(1)]
  have "col cols t c \<noteq> CNull" using l(2) by (auto simp: column_values_of_def)
  moreover have "en_literal en lo = least_of (en_le en c) ?vs" "en_literal en hi = greatest_of (en_le en c) ?vs"
    using assms(1) b v(1)[OF l(3)] v(3) by (auto simp: probed_def Let_def)
  ultimately show ?thesis using v(2)[OF l(2)] by (simp add: in_bound_def b)
qed

lemma probed_window:
  assumes "probed en cols staging (w, lo, hi)" "lawful_column en cols (staging @ dest) w" "t \<in> set dest"
  shows "in_bound en cols t (w, lo, hi) = in_staged_window en cols w staging t"
proof (cases "col cols t w = CNull")
  case False
  let ?vs = "column_values_of cols staging w"
  have ne: "?vs \<noteq> []" using assms(1) by (simp add: probed_def Let_def)
  note v = lawful_values[OF assms(2)]
  have lits: "en_literal en lo = least_of (en_le en w) ?vs" "en_literal en hi = greatest_of (en_le en w) ?vs"
    using assms(1) v(1)[OF ne] v(3) by (auto simp: probed_def Let_def)
  have all: "set ?vs \<subseteq> set (column_values_of cols (staging @ dest) w)"
    "col cols t w \<in> set (column_values_of cols (staging @ dest) w)"
    using assms(3) False by (auto simp: column_values_of_def)
  have tr: "en_le en w a b \<Longrightarrow> en_le en w b c \<Longrightarrow> en_le en w a c"
    if "a \<in> set ?vs \<union> {col cols t w}" "b \<in> set ?vs \<union> {col cols t w}" "c \<in> set ?vs \<union> {col cols t w}" for a b c
    using assms(2) all that unfolding lawful_column_def Let_def by blast
  have "(\<exists>a \<in> set ?vs. en_le en w a (col cols t w)) = en_le en w (least_of (en_le en w) ?vs) (col cols t w)"
    using v(1)[OF ne] v(2) tr by blast
  moreover have "(\<exists>b \<in> set ?vs. en_le en w (col cols t w) b) = en_le en w (col cols t w) (greatest_of (en_le en w) ?vs)"
    using v(1)[OF ne] v(2) tr by blast
  ultimately show ?thesis using False lits by (simp add: in_bound_def in_staged_window_def)
qed (simp add: in_bound_def in_staged_window_def)

text \<open>A statement whose bounds were probed on the staging table.\<close>

definition probed_stmt :: "sql_engine \<Rightarrow> string list \<Rightarrow> string list \<Rightarrow> table_rows \<Rightarrow> string option \<Rightarrow> bool \<Rightarrow> merge_stmt \<Rightarrow> bool" where
  "probed_stmt en cols key staging p del m \<longleftrightarrow> mg_columns m = cols \<and> mg_key m = key \<and> key \<noteq> []
     \<and> mg_update m = filter (\<lambda>c. c \<notin> set key) cols
     \<and> (\<forall>b. mg_window m = Some b \<longrightarrow> probed en cols staging b \<and> p = Some (fst b))
     \<and> (\<forall>k l. mg_key_list m = Some (k, l) \<longrightarrow> k \<in> set key \<and> set l = en_format en ` set (column_values_of cols staging k))
     \<and> (\<forall>b \<in> set (mg_ranges m). probed en cols staging b \<and> fst b \<in> set key)
     \<and> mg_delete m = (if del then mg_window m else None)
     \<and> (del \<longrightarrow> (\<exists>w. p = Some w \<and> (mg_window m = None \<longrightarrow> column_values_of cols staging w = [])))"

lemma merge_into_probed:
  assumes "merge_into en cols staging key p rng lmax del order lf bf = Inr m"
  shows "probed_stmt en cols key staging p del m"
proof -
  obtain key_list bounds where b: "build_merge key cols p rng del order bounds key_list = Inr m"
    "key_list = None \<or> (length key = 1 \<and> (\<exists>n. key_list = probe_staging_key_list en cols staging (hd key) n))"
    "\<forall>c lo hi. map_of bounds c = Some (lo, hi) \<longrightarrow> probed en cols staging (c, lo, hi)"
    "\<forall>w. del \<and> p = Some w \<and> map_of bounds w = None \<longrightarrow> column_values_of cols staging w = []"
  proof -
    let ?kl = "if lmax = 0 \<or> del \<or> length key \<noteq> 1 \<or> lf \<noteq> None then None
      else probe_staging_key_list en cols staging (hd key) lmax"
    let ?bounded = "bounded_columns key p (rng \<and> ?kl = None) del"
    have w: "del \<and> p = Some w \<Longrightarrow> w \<in> set ?bounded" for w by (simp add: bounded_columns_def)
    show ?thesis
    proof (cases bf)
      case None
      then have m: "build_merge key cols p rng del order (probe_staging_bounds en cols staging ?bounded) ?kl = Inr m"
        using assms by (simp add: merge_into_def Let_def)
      show ?thesis
        by (rule that[OF m]) (use w probe_complete probe_probed in \<open>auto split: if_splits\<close>)
    next
      case (Some e)
      then have m: "build_merge key cols p rng del order [] ?kl = Inr m" "\<not> (del \<and> ?bounded \<noteq> [])"
        using assms by (auto simp: merge_into_def Let_def split: if_splits)
      show ?thesis
        by (rule that[OF m(1)]) (use w m(2) in \<open>auto split: if_splits\<close>)
    qed
  qed
  have l: "probe_staging_key_list en cols staging k n = Some l \<Longrightarrow> set l = en_format en ` set (column_values_of cols staging k)" for k n l
    by (auto simp: probe_staging_key_list_def Let_def split: if_splits)
  let ?window = "Option.bind p (bound_of bounds)"
  have key: "key \<noteq> []" and del: "del \<longrightarrow> p \<noteq> None" and m: "mg_columns m = cols" "mg_key m = key"
    "mg_update m = filter (\<lambda>c. c \<notin> set key) cols" "mg_window m = ?window"
    "mg_delete m = (if del then ?window else None)"
    using b(1) by (auto simp: build_merge_def Let_def split: if_splits)
  have kl: "\<forall>k l. mg_key_list m = Some (k, l) \<longrightarrow> k = hd key \<and> key_list = Some l"
    using b(1) by (auto simp: build_merge_def Let_def split: if_splits option.splits)
  have "x \<in> set (concat (map (\<lambda>k. case bound_of bounds k of Some b \<Rightarrow> [b] | None \<Rightarrow> []) ks))
      \<Longrightarrow> \<exists>k \<in> set ks. bound_of bounds k = Some x" for x ks
    by (induction ks) (auto split: option.splits)
  moreover have "mg_ranges m = [] \<or> mg_ranges m = concat (map (\<lambda>k. case bound_of bounds k of Some b \<Rightarrow> [b] | None \<Rightarrow> []) key)"
    using b(1) by (auto simp: build_merge_def Let_def split: if_splits)
  ultimately have rg: "set (mg_ranges m) \<subseteq> {x. \<exists>k \<in> set key. bound_of bounds k = Some x}" by auto
  have bo: "bound_of bounds c = Some x \<Longrightarrow> probed en cols staging x \<and> fst x = c" for c x
    using b(3) by (auto simp: bound_of_def)
  show ?thesis unfolding probed_stmt_def
  proof (intro conjI allI impI ballI)
    show "mg_columns m = cols" "mg_key m = key" "key \<noteq> []" "mg_update m = filter (\<lambda>c. c \<notin> set key) cols"
      "mg_delete m = (if del then mg_window m else None)" using m key by simp_all
    show "probed en cols staging x" "p = Some (fst x)" if "mg_window m = Some x" for x
      using that bo m(4) by (cases p; auto)+
    show "k \<in> set key" "set l = en_format en ` set (column_values_of cols staging k)"
      if "mg_key_list m = Some (k, l)" for k l
      using kl that key b(2) l by auto
    show "probed en cols staging x" "fst x \<in> set key" if "x \<in> set (mg_ranges m)" for x
      using rg that bo by blast+
    show "\<exists>w. p = Some w \<and> (mg_window m = None \<longrightarrow> column_values_of cols staging w = [])" if del
      using that del b(4) m(4) by (auto simp: bound_of_def)
  qed
qed

lemma key_match_values:
  assumes "key_match cols key t s" "s \<in> set staging" "k \<in> set key"
  shows "col cols t k \<in> set (column_values_of cols staging k)"
  using assms by (auto simp: key_match_def list_all_iff column_values_of_def)

lemma bounds_transparent:
  assumes m: "probed_stmt en cols key staging p del m"
    and lawful: "\<forall>c \<in> set key \<union> set_option p. lawful_column en cols (staging @ dest) c"
    and immutable: "\<forall>w. p = Some w \<longrightarrow> (\<forall>t \<in> set dest. \<forall>s \<in> set staging. key_match cols key t s
        \<longrightarrow> col cols s w \<noteq> CNull \<and> col cols t w = col cols s w)"
    and t: "t \<in> set dest" and s: "s \<in> set staging"
  shows "on_holds en m t s = key_match cols key t s"
proof (cases "key_match cols key t s")
  case True
  note pm = m[unfolded probed_stmt_def]
  have window: "in_bound en cols t b" if b: "mg_window m = Some b" for b
  proof -
    have pb: "probed en cols staging b" "p = Some (fst b)" using pm b by auto
    then have "col cols s (fst b) \<noteq> CNull" "col cols t (fst b) = col cols s (fst b)"
      using immutable t s True by auto
    then have "col cols t (fst b) \<in> set (column_values_of cols staging (fst b))"
      using s by (auto simp: column_values_of_def)
    then show ?thesis using probed_admits[OF pb(1)] lawful pb(2) by auto
  qed
  have keys: "col cols t k \<noteq> CNull \<and> col cols t k \<in> set (map (en_literal en) l)"
    if kl: "mg_key_list m = Some (k, l)" for k l
  proof -
    have k: "k \<in> set key" "set l = en_format en ` set (column_values_of cols staging k)" using pm kl by auto
    have v: "col cols t k \<in> set (column_values_of cols staging k)" using key_match_values[OF True s k(1)] .
    then have "en_literal en (en_format en (col cols t k)) = col cols t k" "col cols t k \<noteq> CNull"
      using lawful_values(3)[OF _ v] lawful k(1) by (auto simp: column_values_of_def)
    then show ?thesis using v k(2) by (auto intro!: image_eqI[of _ _ "en_format en (col cols t k)"])
  qed
  have ranges: "in_bound en cols t b" if b: "b \<in> set (mg_ranges m)" for b
    using probed_admits[of en cols staging b dest t] key_match_values[OF True s, of "fst b"] pm b lawful by auto
  show ?thesis using True pm window keys ranges
    by (auto simp: on_holds_def list_all_iff split: option.splits)
next
  case False
  then show ?thesis using m by (simp add: on_holds_def probed_stmt_def)
qed

lemma map_col_self: "distinct cols \<Longrightarrow> length r = length cols \<Longrightarrow> map (col cols r) cols = r"
proof (rule nth_equalityI)
  fix i assume "distinct cols" "length r = length cols" and i: "i < length (map (col cols r) cols)"
  then have "find_index (\<lambda>x. x = cols ! i) cols = Some i"
    using find_index_distinct[of "\<lambda>x. x" cols i] by simp
  then show "map (col cols r) cols ! i = r ! i" using i by (simp add: col_def)
qed simp

text \<open>A matched row is the staged row: the columns that are not updated are the key, which agrees.\<close>

lemma update_row_staged:
  assumes "probed_stmt en cols key staging p del m" "distinct cols" "length s = length cols"
    and "key_match cols key t s"
  shows "update_row m t s = s"
proof -
  have "update_row m t s = map (col cols s) cols"
    using assms(1,4) by (auto simp: update_row_def probed_stmt_def key_match_def list_all_iff)
  then show ?thesis using map_col_self[OF assms(2,3)] by simp
qed

lemma find_filter: "find P xs = (case filter P xs of [] \<Rightarrow> None | x # _ \<Rightarrow> Some x)"
  by (induction xs) auto

definition no_null_key :: "string list \<Rightarrow> string list \<Rightarrow> cell list \<Rightarrow> bool" where
  "no_null_key cols key r \<longleftrightarrow> list_all (\<lambda>k. col cols r k \<noteq> CNull) key"

lemma key_match_key_of: "no_null_key cols key s \<Longrightarrow> key_match cols key t s \<longleftrightarrow> key_of cols key t = key_of cols key s"
  by (auto simp: key_match_def no_null_key_def key_of_def list_all_iff)

lemma disjoint_from_single: "A \<subseteq> {a} \<Longrightarrow> a \<notin> B \<Longrightarrow> C \<subseteq> B \<Longrightarrow> A \<inter> C = {}"
  by blast

lemma distinct_replaced:
  assumes "\<And>t. length (f t) \<le> 1" "\<And>t r. r \<in> set (f t) \<Longrightarrow> k r = k t" "distinct (map k ts)"
  shows "distinct (map k (concat (map f ts)))" "k ` set (concat (map f ts)) \<subseteq> k ` set ts"
proof -
  show sub: "k ` set (concat (map f ts)) \<subseteq> k ` set ts" for ts using assms(2) by fastforce
  show "distinct (map k (concat (map f ts)))" using assms(3)
  proof (induction ts)
    case (Cons t ts)
    have "distinct (map k (f t))" using assms(1)[of t] by (cases "f t") auto
    moreover have "k ` set (f t) \<inter> k ` set (concat (map f ts)) = {}"
    proof -
      have "k ` set (f t) \<subseteq> {k t}" using assms(2)[of _ t] by blast
      moreover have "k t \<notin> k ` set ts" using Cons.prems by simp
      ultimately show ?thesis using sub by (rule disjoint_from_single)
    qed
    moreover have "distinct (map k (concat (map f ts)))" using Cons by simp
    ultimately show ?case by (simp del: set_concat)
  qed simp
qed

lemma disjoint_subset: "A \<subseteq> B \<Longrightarrow> C \<inter> B = {} \<Longrightarrow> A \<inter> C = {}"
  by blast

lemma find_SomeD: "find P xs = Some x \<Longrightarrow> P x \<and> x \<in> set xs"
  by (induction xs) (auto split: if_splits)

lemma upsert_unique:
  assumes "\<forall>s \<in> set chosen. no_null_key cols key s" "distinct (map (key_of cols key) chosen)"
    and "distinct (map (key_of cols key) dest)"
  shows "distinct (map (key_of cols key) (upsert cols key stale chosen dest))"
proof -
  let ?k = "key_of cols key"
  let ?new = "filter (\<lambda>s. \<not> (\<exists>t \<in> set dest. key_match cols key t s)) chosen"
  define f where "f t = (case find (key_match cols key t) chosen of Some s \<Rightarrow> [s] | None \<Rightarrow> if stale t then [] else [t])" for t
  have one: "length (f t) \<le> 1" for t by (simp add: f_def split: option.split)
  have k: "?k r = ?k t" if "r \<in> set (f t)" for r t
    using that assms(1) by (auto simp: f_def key_match_key_of dest: find_SomeD split: option.splits if_splits)
  note rep = distinct_replaced[of f ?k, OF one k assms(3)]
  have "?k s \<notin> ?k ` set dest" if "s \<in> set ?new" for s
    using that assms(1) by (auto simp: key_match_key_of)
  then have new: "?k ` set ?new \<inter> ?k ` set dest = {}" by blast
  have "?k ` set (concat (map f dest)) \<inter> ?k ` set ?new = {}" using rep(2) new by (rule disjoint_subset)
  moreover have "distinct (map ?k ?new)" using assms(2) by (rule distinct_map_filter)
  ultimately show ?thesis using rep(1) unfolding upsert_def f_def[symmetric] map_append distinct_append set_map
    by simp
qed

text \<open>C30. The \<open>MERGE\<close> that is sent, with whatever bounds its probes found, leaves the destination as
  the plain upsert by key would: every destination row whose key was staged becomes the newest row
  staged for it, new keys are added once, and with \<open>delete_stale_in_window\<close> the rows of the staged
  window the source no longer has are gone.  A destination with one row per key keeps one row per
  key.  The engine's literals and order are relied on, and the prune column does not change for a key.\<close>

theorem merge_equals_upsert:
  assumes "merge_into en cols staging key p rng list_max del order list_fault bounds_fault = Inr m"
    and "deduplicated en m staging chosen"
    and "\<forall>c \<in> set key \<union> set_option p. lawful_column en cols (staging @ dest) c"
    and "\<forall>w. p = Some w \<longrightarrow> (\<forall>t \<in> set dest. \<forall>s \<in> set staging. key_match cols key t s
        \<longrightarrow> col cols s w \<noteq> CNull \<and> col cols t w = col cols s w)"
    and "distinct cols" "\<forall>s \<in> set staging. length s = length cols"
  shows "run_merge en m chosen dest = upsert cols key (\<lambda>t. del \<and> in_staged_window en cols (the p) staging t) chosen dest
    \<and> ((\<forall>s \<in> set staging. no_null_key cols key s) \<longrightarrow> distinct (map (key_of cols key) dest)
      \<longrightarrow> distinct (map (key_of cols key) (run_merge en m chosen dest)))"
proof -
  note pm = merge_into_probed[OF assms(1)]
  note pms = pm[unfolded probed_stmt_def]
  have ch: "set chosen \<subseteq> set staging" "distinct (map (key_of cols key) chosen)"
    using assms(2) pms by (simp_all add: deduplicated_def Let_def)
  have on: "on_holds en m t s = key_match cols key t s" if "t \<in> set dest" "s \<in> set chosen" for t s
    using bounds_transparent[OF pm assms(3,4)] that ch(1) by blast
  have stale: "(case mg_delete m of Some b \<Rightarrow> in_bound en cols t b | None \<Rightarrow> False)
      = (del \<and> in_staged_window en cols (the p) staging t)" if t: "t \<in> set dest" for t
  proof (cases "mg_window m")
    case None
    then show ?thesis using pms by (cases del) (auto simp: in_staged_window_def)
  next
    case (Some b)
    then have b: "probed en cols staging b" "p = Some (fst b)" using pms by auto
    then show ?thesis using probed_window[of en cols staging "fst b" "fst (snd b)" "snd (snd b)" dest t] t assms(3) pms Some
      by (cases del) auto
  qed
  have row: "(case filter (on_holds en m t) chosen of
          s # _ \<Rightarrow> [update_row m t s]
        | [] \<Rightarrow> (case mg_delete m of Some b \<Rightarrow> if in_bound en (mg_columns m) t b then [] else [t] | None \<Rightarrow> [t]))
      = (case find (key_match cols key t) chosen of
          Some s \<Rightarrow> [s]
        | None \<Rightarrow> if del \<and> in_staged_window en cols (the p) staging t then [] else [t])" if t: "t \<in> set dest" for t
  proof -
    have f: "filter (on_holds en m t) chosen = filter (key_match cols key t) chosen"
      using on[OF t] by (rule filter_cong[OF refl])
    have u: "update_row m t s = s" if "filter (key_match cols key t) chosen = s # ss" for s ss
    proof -
      have "s \<in> set (filter (key_match cols key t) chosen)" using that by simp
      then show ?thesis using update_row_staged[OF pm assms(5)] assms(6) ch(1) by auto
    qed
    show ?thesis unfolding find_filter f using stale[OF t] u pms
      by (auto split: list.splits option.splits)
  qed
  have eq: "run_merge en m chosen dest = upsert cols key (\<lambda>t. del \<and> in_staged_window en cols (the p) staging t) chosen dest"
    unfolding run_merge_def upsert_def using row on
    by (intro arg_cong2[of _ _ _ _ append] arg_cong[of _ _ concat] map_cong filter_cong refl) (auto simp: list_all_iff)
  show ?thesis
    unfolding eq using upsert_unique[of chosen cols key dest] ch by blast
qed

section \<open>A merge\<close>

definition sample_engine :: sql_engine where
  "sample_engine = \<lparr>en_format = (\<lambda>v. case v of CInt i \<Rightarrow> show_nat (nat i) | _ \<Rightarrow> ''NULL''),
     en_literal = (\<lambda>s. CInt (int (read_nat s))),
     en_le = (\<lambda>_ u v. case (u, v) of (CInt a, CInt b) \<Rightarrow> a \<le> b | _ \<Rightarrow> False)\<rparr>"

definition sample_cols :: "string list" where
  "sample_cols = [''id'', ''day'', ''v'']"

definition sample_staging :: table_rows where
  "sample_staging = [[CInt 1, CInt 10, CInt 5], [CInt 3, CInt 11, CInt 9], [CInt 1, CInt 10, CInt 7]]"

definition sample_dest :: table_rows where
  "sample_dest = [[CInt 1, CInt 10, CInt 0], [CInt 2, CInt 10, CInt 1], [CInt 4, CInt 12, CInt 2]]"

definition sample_chosen :: table_rows where
  "sample_chosen = [[CInt 1, CInt 10, CInt 7], [CInt 3, CInt 11, CInt 9]]"

lemma sample_col [simp]:
  "col sample_cols [a, b, c] ''id'' = a" "col sample_cols [a, b, c] ''day'' = b" "col sample_cols [a, b, c] ''v'' = c"
  by (simp_all add: col_def sample_cols_def)

lemma sample_engine_lawful:
  assumes "\<forall>r \<in> set rows. \<exists>n::nat. col cols r c = CInt (int n)"
  shows "lawful_column sample_engine cols rows c"
proof -
  let ?vs = "set (column_values_of cols rows c)"
  have vs: "\<exists>n::nat. v = CInt (int n)" if "v \<in> ?vs" for v using that assms by (auto simp: column_values_of_def)
  have "en_literal sample_engine (en_format sample_engine v) = v" if "v \<in> ?vs" for v
    using vs[OF that] by (auto simp: sample_engine_def read_show_nat)
  moreover have "en_le sample_engine c u v \<or> en_le sample_engine c v u" if "u \<in> ?vs" "v \<in> ?vs" for u v
    using vs[OF that(1)] vs[OF that(2)] by (auto simp: sample_engine_def)
  moreover have "en_le sample_engine c u v \<Longrightarrow> en_le sample_engine c v w \<Longrightarrow> en_le sample_engine c u w" for u v w
    by (auto simp: sample_engine_def split: cell.splits)
  ultimately show ?thesis unfolding lawful_column_def Let_def by blast
qed

lemma sample_lawful_column:
  assumes "c \<in> {''id'', ''day''}"
  shows "lawful_column sample_engine sample_cols (sample_staging @ sample_dest) c"
proof (rule sample_engine_lawful)
  have nat: "\<exists>n::nat. CInt i = CInt (int n)" if "0 \<le> i" for i using nonneg_int_cases[OF that] by metis
  show "\<forall>r \<in> set (sample_staging @ sample_dest). \<exists>n::nat. col sample_cols r c = CInt (int n)"
    using assms by (auto simp: sample_staging_def sample_dest_def intro!: nat)
qed

theorem merge_equals_upsert_witness:
  "\<exists>m. merge_into sample_engine sample_cols sample_staging [''id''] (Some ''day'') True 0 True (Some ''v'') None None = Inr m
     \<and> mg_window m = Some (''day'', ''10'', ''11'')
     \<and> run_merge sample_engine m sample_chosen sample_dest
         = [[CInt 1, CInt 10, CInt 7], [CInt 4, CInt 12, CInt 2], [CInt 3, CInt 11, CInt 9]]"
proof -
  let ?m = "\<lparr>mg_columns = sample_cols, mg_key = [''id''], mg_window = Some (''day'', ''10'', ''11''), mg_key_list = None,
    mg_ranges = [], mg_update = [''day'', ''v''], mg_delete = Some (''day'', ''10'', ''11''), mg_order = Some ''v''\<rparr>"
  have "show_nat 10 = ''10''" "show_nat 11 = ''11''" by code_simp+
  then have m: "merge_into sample_engine sample_cols sample_staging [''id''] (Some ''day'') True 0 True (Some ''v'') None None = Inr ?m"
    by (simp add: merge_into_def bounded_columns_def probe_staging_bounds_def column_values_of_def sample_staging_def
      least_of_def greatest_of_def sample_engine_def build_merge_def bound_of_def, simp add: sample_cols_def Let_def)
  have d: "deduplicated sample_engine ?m sample_staging sample_chosen"
    by (simp add: deduplicated_def key_of_def sample_staging_def sample_chosen_def not_newer_def sample_engine_def)
  have imm: "\<forall>w. Some ''day'' = Some w \<longrightarrow> (\<forall>t \<in> set sample_dest. \<forall>s \<in> set sample_staging. key_match sample_cols [''id''] t s
        \<longrightarrow> col sample_cols s w \<noteq> CNull \<and> col sample_cols t w = col sample_cols s w)"
    by (simp add: sample_dest_def sample_staging_def key_match_def)
  have "run_merge sample_engine ?m sample_chosen sample_dest = upsert sample_cols [''id'']
      (\<lambda>t. True \<and> in_staged_window sample_engine sample_cols (the (Some ''day'')) sample_staging t) sample_chosen sample_dest"
  proof (rule merge_equals_upsert[OF m d _ imm, THEN conjunct1])
    show "\<forall>c \<in> set [''id''] \<union> set_option (Some ''day''). lawful_column sample_engine sample_cols (sample_staging @ sample_dest) c"
      using sample_lawful_column by simp
    show "distinct sample_cols" "\<forall>s \<in> set sample_staging. length s = length sample_cols"
      by (simp_all add: sample_cols_def sample_staging_def)
  qed
  also have "\<dots> = [[CInt 1, CInt 10, CInt 7], [CInt 4, CInt 12, CInt 2], [CInt 3, CInt 11, CInt 9]]"
    by (simp add: upsert_def sample_dest_def sample_chosen_def sample_staging_def key_match_def in_staged_window_def
      column_values_of_def sample_engine_def)
  finally show ?thesis using m by auto
qed

end
