(* ===== verification/QH_Csv.thy ===== *)
theory QH_Csv
  imports QH_Null_Guard
begin

text \<open>
  The CSV part writer (\<open>sink/csv_writer.rs\<close>): the text of fields, headers, rows and part files.
  What other crates decide is an argument of \<open>csv_env\<close>: base64, chrono's calendar, Arrow's display
  of the types written as it displays them, and the writes the file system refuses.  A part's
  compression is outside: \<open>pw_out\<close> is the text that goes into it.  The abstract side is a reader of
  RFC 4180 text that tells an empty field from an empty quoted one.
\<close>

section \<open>Fields\<close>

definition DQ :: char where "DQ = CHR 0x22"

datatype csv_compression = NoCompression | Gzip

record part_format =
  pf_delimiter :: char
  pf_header :: bool
  pf_compression :: csv_compression

record part_info =
  pi_file :: string
  pi_rows :: nat
  pi_bytes :: nat

definition part_file_name :: "part_format \<Rightarrow> string \<Rightarrow> nat \<Rightarrow> string" where
  "part_file_name f run_id n = ''part-'' @ run_id @ ''-'' @ show_padded 5 n @ ''.''
     @ (case pf_compression f of NoCompression \<Rightarrow> ''csv'' | Gzip \<Rightarrow> ''csv.gz'')"

definition check_delimiter :: "char \<Rightarrow> unit res" where
  "check_delimiter d =
     (if \<not> code d < 128 \<or> d = DQ \<or> d = CR \<or> d = LF
      then Inl (Config (''Csv(delimiter='' @ [APOS, d, APOS]
        @ ''): the delimiter must be one ASCII character other than a double quote, CR or LF'')) else Inr ())"

definition needs_quotes :: "char \<Rightarrow> string \<Rightarrow> bool" where
  "needs_quotes d v \<longleftrightarrow> \<not> list_all (\<lambda>b. b \<noteq> d \<and> b \<noteq> DQ \<and> b \<noteq> LF \<and> b \<noteq> CR) v"

definition push_field :: "string \<Rightarrow> char \<Rightarrow> string" where
  "push_field v d =
     (if v = [] then [DQ, DQ]
      else if \<not> needs_quotes d v then v
      else [DQ] @ concat (map (\<lambda>b. if b = DQ then [DQ, b] else [b]) v) @ [DQ])"

fun separated :: "char \<Rightarrow> string list \<Rightarrow> string" where
  "separated d [] = []"
| "separated d [f] = f"
| "separated d (f # g # fs) = f @ [d] @ separated d (g # fs)"

definition push_header :: "string list \<Rightarrow> char \<Rightarrow> string" where
  "push_header names d = separated d (map (\<lambda>n. push_field n d) names) @ [LF]"

section \<open>Values\<close>

record csv_env =
  cv_base64 :: "string \<Rightarrow> string"
  cv_civil :: "int \<Rightarrow> (int \<times> nat \<times> nat) option"
  cv_display :: "data_type \<Rightarrow> cell \<Rightarrow> string res"
  cv_fault :: "nat \<Rightarrow> etl_error option"

definition write_year :: "int \<Rightarrow> string" where
  "write_year y =
     (if 0 \<le> y \<and> y \<le> 9999 then show_padded 4 (nat y)
      else (if y < 0 then ''-'' else ''+'') @ show_padded 4 (nat \<bar>y\<bar>))"

definition UNIX_EPOCH_DAYS_FROM_CE :: int where "UNIX_EPOCH_DAYS_FROM_CE = 719163"

definition write_date :: "csv_env \<Rightarrow> int \<Rightarrow> string res" where
  "write_date env days =
     (case Option.bind (checked 32 (days + UNIX_EPOCH_DAYS_FROM_CE)) (cv_civil env) of
        None \<Rightarrow> Inl (Decode (''date '' @ show_int days @ '' days from 1970 is out of range''))
      | Some (y, m, d) \<Rightarrow> Inr (write_year y @ ''-'' @ show_padded 2 m @ ''-'' @ show_padded 2 d))"

definition unit_scale :: "time_unit \<Rightarrow> int \<times> nat" where
  "unit_scale u = (case u of Second \<Rightarrow> (1, 0) | Millisecond \<Rightarrow> (1000, 3) | Microsecond \<Rightarrow> (1000000, 6)
     | Nanosecond \<Rightarrow> (1000000000, 9))"

definition unit_debug :: "time_unit \<Rightarrow> string" where
  "unit_debug u = (case u of Second \<Rightarrow> ''Second'' | Millisecond \<Rightarrow> ''Millisecond'' | Microsecond \<Rightarrow> ''Microsecond''
     | Nanosecond \<Rightarrow> ''Nanosecond'')"

definition write_timestamp :: "csv_env \<Rightarrow> int \<Rightarrow> time_unit \<Rightarrow> bool \<Rightarrow> string res" where
  "write_timestamp env v u utc =
     (let (per_sec, digits) = unit_scale u;
          secs = v div per_sec; frac = v mod per_sec;
          days = secs div 86400; sod = secs mod 86400
      in case cv_civil env (days + UNIX_EPOCH_DAYS_FROM_CE) of
           None \<Rightarrow> Inl (Decode (''timestamp '' @ show_int v @ '' ('' @ unit_debug u @ '') is out of range''))
         | Some (y, m, d) \<Rightarrow>
             Inr (write_year y @ ''-'' @ show_padded 2 m @ ''-'' @ show_padded 2 d
               @ ''T'' @ show_padded 2 (nat (sod div 3600)) @ '':'' @ show_padded 2 (nat (sod mod 3600 div 60))
               @ '':'' @ show_padded 2 (nat (sod mod 60))
               @ (if 0 < digits then ''.'' @ show_padded digits (nat frac) else [])
               @ (if utc then ''Z'' else [])))"

datatype encoder = EncText | EncBinary | EncBoolean | EncDate | EncTimestamp time_unit bool | EncNull | EncOther data_type

definition column_encoder :: "batch_field \<Rightarrow> encoder res" where
  "column_encoder f =
     (case bf_type f of
        Utf8 \<Rightarrow> Inr EncText
      | Binary \<Rightarrow> Inr EncBinary
      | Boolean \<Rightarrow> Inr EncBoolean
      | Date32 \<Rightarrow> Inr EncDate
      | Timestamp u tz \<Rightarrow> Inr (EncTimestamp u (tz \<noteq> None))
      | NullType \<Rightarrow> Inr EncNull
      | NestedType \<Rightarrow> Inl (Config (''column '' @ quoted (bf_name f)
            @ '' is a nested type, which has no CSV text; serialize it to a string (JSON, say) in the source''))
      | t \<Rightarrow> Inr (EncOther t))"

text \<open>The text of a non-NULL value, before it is framed as a field.\<close>

definition value_text :: "csv_env \<Rightarrow> encoder \<Rightarrow> cell \<Rightarrow> string res" where
  "value_text env e v =
     (case (e, v) of
        (EncText, CStr s) \<Rightarrow> Inr s
      | (EncBinary, CBin b) \<Rightarrow> Inr (cv_base64 env b)
      | (EncBoolean, CBool b) \<Rightarrow> Inr (if b then ''true'' else ''false'')
      | (EncDate, CDate d) \<Rightarrow> write_date env d
      | (EncTimestamp u utc, CTs m) \<Rightarrow> write_timestamp env m u utc
      | (EncOther t, v) \<Rightarrow> cv_display env t v
      | _ \<Rightarrow> Inl (Panic ''array of another type''))"

definition column_push :: "csv_env \<Rightarrow> encoder \<Rightarrow> char \<Rightarrow> cell \<Rightarrow> string res" where
  "column_push env e d v =
     (if v = CNull \<or> e = EncNull then Inr []
      else and_then (value_text env e v) (\<lambda>t. Inr (if e = EncBoolean then t else push_field t d)))"

section \<open>Part files\<close>

record part_writer =
  pw_file :: string
  pw_out :: string
  pw_delimiter :: char
  pw_rows :: nat
  pw_buf :: string

definition FLUSH_BYTES :: nat where "FLUSH_BYTES = 2 ^ 20"

definition flush_buf :: "csv_env \<Rightarrow> part_writer \<Rightarrow> part_writer \<times> unit res" where
  "flush_buf env pw =
     (if pw_buf pw = [] then (pw, Inr ())
      else case cv_fault env (length (pw_out pw)) of
             Some e \<Rightarrow> (pw, Inl e)
           | None \<Rightarrow> (pw\<lparr>pw_out := pw_out pw @ pw_buf pw, pw_buf := []\<rparr>, Inr ()))"

definition part_create :: "csv_env \<Rightarrow> string \<Rightarrow> part_format \<Rightarrow> string list \<Rightarrow> part_writer \<times> unit res" where
  "part_create env file fmt names =
     (let pw = \<lparr>pw_file = file, pw_out = [], pw_delimiter = pf_delimiter fmt, pw_rows = 0, pw_buf = []\<rparr> in
      if pf_header fmt then flush_buf env (pw\<lparr>pw_buf := push_header names (pf_delimiter fmt)\<rparr>) else (pw, Inr ()))"

text \<open>The fields of a row, each after its delimiter; an error leaves the fields before it in the buffer.\<close>

fun push_columns :: "csv_env \<Rightarrow> char \<Rightarrow> bool \<Rightarrow> (encoder \<times> cell) list \<Rightarrow> string \<Rightarrow> string \<times> unit res" where
  "push_columns env d first [] buf = (buf, Inr ())"
| "push_columns env d first ((e, v) # cs) buf =
     (let buf = (if first then buf else buf @ [d]) in
      case column_push env e d v of
        Inl err \<Rightarrow> (buf, Inl err)
      | Inr t \<Rightarrow> push_columns env d False cs (buf @ t))"

fun write_rows :: "csv_env \<Rightarrow> encoder list \<Rightarrow> cell list list \<Rightarrow> nat \<Rightarrow> part_writer \<Rightarrow> part_writer \<times> nat res" where
  "write_rows env es [] written pw =
     (case flush_buf env pw of
        (pw', Inl e) \<Rightarrow> (pw', Inl e)
      | (pw', Inr _) \<Rightarrow> (pw', Inr (written + length (pw_buf pw))))"
| "write_rows env es (r # rs) written pw =
     (case push_columns env (pw_delimiter pw) True (zip es r) (pw_buf pw) of
        (buf, Inl e) \<Rightarrow> (pw\<lparr>pw_buf := buf\<rparr>, Inl e)
      | (buf, Inr _) \<Rightarrow>
          let pw = pw\<lparr>pw_buf := buf @ [LF]\<rparr> in
          if FLUSH_BYTES \<le> length (pw_buf pw)
          then (case flush_buf env pw of
              (pw', Inl e) \<Rightarrow> (pw', Inl e)
            | (pw', Inr _) \<Rightarrow> write_rows env es rs (written + length (pw_buf pw)) pw')
          else write_rows env es rs written pw)"

definition part_write :: "csv_env \<Rightarrow> batch \<Rightarrow> part_writer \<Rightarrow> part_writer \<times> nat res" where
  "part_write env b pw =
     (case try_map column_encoder (bt_fields b) of
        Inl e \<Rightarrow> (pw, Inl e)
      | Inr es \<Rightarrow>
          (case write_rows env es (bt_rows b) 0 pw of
             (pw', Inl e) \<Rightarrow> (pw', Inl e)
           | (pw', Inr n) \<Rightarrow> (pw'\<lparr>pw_rows := pw_rows pw' + length (bt_rows b)\<rparr>, Inr n)))"

text \<open>\<open>compressed\<close> is the size of the text on disk.\<close>

definition part_finish :: "csv_env \<Rightarrow> (string \<Rightarrow> nat) \<Rightarrow> part_writer \<Rightarrow> part_writer \<times> part_info res" where
  "part_finish env compressed pw =
     (case flush_buf env pw of
        (pw', Inl e) \<Rightarrow> (pw', Inl e)
      | (pw', Inr _) \<Rightarrow>
          (pw', Inr \<lparr>pi_file = pw_file pw', pi_rows = pw_rows pw', pi_bytes = compressed (pw_out pw')\<rparr>))"

fun part_write_all :: "csv_env \<Rightarrow> batch list \<Rightarrow> part_writer \<Rightarrow> part_writer \<times> unit res" where
  "part_write_all env [] pw = (pw, Inr ())"
| "part_write_all env (b # bs) pw =
     (case part_write env b pw of
        (pw', Inl e) \<Rightarrow> (pw', Inl e)
      | (pw', Inr _) \<Rightarrow> part_write_all env bs pw')"

section \<open>Reading the text back\<close>

fun quoted_body :: "string \<Rightarrow> (string \<times> string) option" where
  "quoted_body [] = None"
| "quoted_body [c] = (if c = DQ then Some ([], []) else None)"
| "quoted_body (c # c' # s) =
     (if c = DQ \<and> c' = DQ then map_option (\<lambda>(v, r). (DQ # v, r)) (quoted_body s)
      else if c = DQ then Some ([], c' # s)
      else map_option (\<lambda>(v, r). (c # v, r)) (quoted_body (c' # s)))"

definition read_field :: "char \<Rightarrow> string \<Rightarrow> (string option \<times> string) option" where
  "read_field d s =
     (if s \<noteq> [] \<and> hd s = DQ then map_option (\<lambda>(v, r). (Some v, r)) (quoted_body (tl s))
      else let v = takeWhile (\<lambda>c. c \<noteq> d \<and> c \<noteq> LF) s in
           Some (if v = [] then None else Some v, dropWhile (\<lambda>c. c \<noteq> d \<and> c \<noteq> LF) s))"

partial_function (option) read_row :: "char \<Rightarrow> string \<Rightarrow> (string option list \<times> string) option" where
  [code]: "read_row d s =
     Option.bind (read_field d s) (\<lambda>(f, r).
       case r of
         [] \<Rightarrow> None
       | c # r' \<Rightarrow>
           if c = d then Option.bind (read_row d r') (\<lambda>(fs, r''). Some (f # fs, r''))
           else if c = LF then Some ([f], r') else None)"

partial_function (option) read_csv :: "char \<Rightarrow> string \<Rightarrow> string option list list option" where
  [code]: "read_csv d s =
     (if s = [] then Some []
      else Option.bind (read_row d s) (\<lambda>(row, r). Option.bind (read_csv d r) (\<lambda>rows. Some (row # rows))))"

lemmas csv_chars = DQ_def LF_def CR_def

text \<open>What stands after a field.\<close>

definition ends_field :: "char \<Rightarrow> string \<Rightarrow> bool" where
  "ends_field d s \<longleftrightarrow> s \<noteq> [] \<and> (hd s = d \<or> hd s = LF)"

definition good_delimiter :: "char \<Rightarrow> bool" where
  "good_delimiter d \<longleftrightarrow> d \<noteq> DQ \<and> d \<noteq> LF \<and> d \<noteq> CR"

lemma check_delimiter_good: "check_delimiter d = Inr () \<Longrightarrow> good_delimiter d"
  by (auto simp: check_delimiter_def good_delimiter_def split: if_splits)

lemma quoted_body_escaped:
  assumes "r = [] \<or> hd r \<noteq> DQ"
  shows "quoted_body (concat (map (\<lambda>b. if b = DQ then [DQ, b] else [b]) v) @ DQ # r) = Some (v, r)"
proof (induction v)
  case Nil
  then show ?case using assms by (cases r) auto
next
  case (Cons b v)
  obtain c s where cs: "concat (map (\<lambda>b. if b = DQ then [DQ, b] else [b]) v) @ DQ # r = c # s"
    by (cases "concat (map (\<lambda>b. if b = DQ then [DQ, b] else [b]) v) @ DQ # r") auto
  show ?case using Cons by (auto simp: cs)
qed

lemma take_drop_field:
  assumes "list_all (\<lambda>c. c \<noteq> d \<and> c \<noteq> LF) v" "ends_field d r"
  shows "takeWhile (\<lambda>c. c \<noteq> d \<and> c \<noteq> LF) (v @ r) = v" "dropWhile (\<lambda>c. c \<noteq> d \<and> c \<noteq> LF) (v @ r) = r"
  using assms by (induction v; cases r; auto simp: ends_field_def)+

lemma read_field_push:
  assumes "good_delimiter d" "ends_field d r"
  shows "read_field d (push_field v d @ r) = Some (Some v, r)"
proof -
  have r: "r = [] \<or> hd r \<noteq> DQ" using assms by (auto simp: ends_field_def good_delimiter_def csv_chars)
  consider "v = []" | "v \<noteq> []" "needs_quotes d v" | "v \<noteq> []" "\<not> needs_quotes d v" by blast
  then show ?thesis
  proof cases
    case 1
    then show ?thesis using quoted_body_escaped[OF r, of "[]"] by (simp add: push_field_def read_field_def)
  next
    case 2
    then show ?thesis using quoted_body_escaped[OF r, of v] by (simp add: push_field_def read_field_def)
  next
    case 3
    then have "list_all (\<lambda>c. c \<noteq> d \<and> c \<noteq> LF) v" "hd (v @ r) \<noteq> DQ"
      by (auto simp: needs_quotes_def list_all_iff)
    then show ?thesis using 3 take_drop_field[OF _ assms(2), of v] by (simp add: push_field_def read_field_def)
  qed
qed

lemma read_field_bare:
  assumes "list_all (\<lambda>c. c \<noteq> d \<and> c \<noteq> LF \<and> c \<noteq> DQ) v" "v \<noteq> []" "ends_field d r"
  shows "read_field d (v @ r) = Some (Some v, r)"
  using assms take_drop_field[of d v r] by (cases v) (auto simp: read_field_def list_all_iff)

lemma read_field_null:
  assumes "good_delimiter d" "ends_field d r"
  shows "read_field d r = Some (None, r)"
  using assms take_drop_field[of d "[]" r] by (auto simp: read_field_def ends_field_def good_delimiter_def csv_chars)

text \<open>A text that reads as one field.\<close>

definition field_text :: "char \<Rightarrow> string \<Rightarrow> string option \<Rightarrow> bool" where
  "field_text d t f \<longleftrightarrow> (\<forall>r. ends_field d r \<longrightarrow> read_field d (t @ r) = Some (f, r))"

lemma read_row_fields:
  assumes "good_delimiter d" "list_all2 (field_text d) ts fs" "ts \<noteq> []"
  shows "read_row d (separated d ts @ LF # r) = Some (fs, r)"
  using assms(2,3)
proof (induction ts arbitrary: fs rule: induct_list012)
  case (2 t)
  then obtain f where "fs = [f]" "field_text d t f" by (auto simp: list_all2_Cons1)
  then show ?case using assms(1) by (subst read_row.simps) (auto simp: field_text_def ends_field_def good_delimiter_def)
next
  case (3 t g ts)
  then obtain f fs' where f: "fs = f # fs'" "field_text d t f" "list_all2 (field_text d) (g # ts) fs'"
    by (auto simp: list_all2_Cons1)
  have "read_field d (t @ d # separated d (g # ts) @ LF # r) = Some (f, d # separated d (g # ts) @ LF # r)"
    using f(2) by (simp add: field_text_def ends_field_def)
  then show ?case using 3(2)[OF f(3)] f(1) by (subst read_row.simps) simp
qed simp

lemma read_csv_row:
  assumes "good_delimiter d" "list_all2 (field_text d) ts fs" "ts \<noteq> []"
  shows "read_csv d (separated d ts @ LF # r) = map_option (\<lambda>rows. fs # rows) (read_csv d r)"
  using read_row_fields[OF assms, of r]
  by (subst read_csv.simps) (auto simp: bind_eq_Some_conv split: Option.bind_split option.splits)

section \<open>A part reads back\<close>

text \<open>What a cell reads back as: nothing for a NULL, the text of its value otherwise.\<close>

definition field_of :: "csv_env \<Rightarrow> encoder \<Rightarrow> cell \<Rightarrow> string option" where
  "field_of env e v =
     (if v = CNull \<or> e = EncNull then None
      else case value_text env e v of Inr t \<Rightarrow> Some t | Inl _ \<Rightarrow> None)"

text \<open>A boolean is written bare, so its letters must not delimit.\<close>

definition letters_free :: "char \<Rightarrow> encoder list \<Rightarrow> bool" where
  "letters_free d es \<longleftrightarrow> (EncBoolean \<in> set es \<longrightarrow> d \<notin> set ''truefalse'')"

lemma column_push_reads:
  assumes "column_push env e d v = Inr t" "good_delimiter d" "e = EncBoolean \<Longrightarrow> d \<notin> set ''truefalse''"
  shows "field_text d t (field_of env e v)"
proof (cases "v = CNull \<or> e = EncNull")
  case True
  then show ?thesis using assms read_field_null[OF assms(2)] by (auto simp: column_push_def field_of_def field_text_def)
next
  case False
  then obtain u where u: "value_text env e v = Inr u" "t = (if e = EncBoolean then u else push_field u d)"
    using assms(1) by (auto simp: column_push_def qh_res)
  show ?thesis
  proof (cases "e = EncBoolean")
    case True
    then have b: "u = ''true'' \<or> u = ''false''" using u(1) by (auto simp: value_text_def split: cell.splits if_splits)
    then have "list_all (\<lambda>c. c \<noteq> d \<and> c \<noteq> LF \<and> c \<noteq> DQ) u" "u \<noteq> []"
      using assms(3)[OF True] by (auto simp: csv_chars)
    then show ?thesis using False u True read_field_bare by (auto simp: field_text_def field_of_def)
  next
    case False
    then show ?thesis using \<open>\<not> (v = CNull \<or> e = EncNull)\<close> u read_field_push[OF assms(2)]
      by (auto simp: field_text_def field_of_def)
  qed
qed

lemma separated_Cons: "separated d (t # ts) = t @ concat (map (\<lambda>t. d # t) ts)"
  by (induction ts arbitrary: t) auto

lemma push_columns_rest:
  "push_columns env d False cs buf = (buf', Inr ()) \<Longrightarrow>
    \<exists>ts. buf' = buf @ concat (map (\<lambda>t. d # t) ts) \<and> list_all2 (\<lambda>(e, v) t. column_push env e d v = Inr t) cs ts"
proof (induction cs arbitrary: buf)
  case (Cons c cs)
  obtain e v where c: "c = (e, v)" by (cases c)
  obtain t where t: "column_push env e d v = Inr t" "push_columns env d False cs (buf @ [d] @ t) = (buf', Inr ())"
    using Cons.prems c by (auto simp: Let_def split: sum.splits)
  from Cons.IH[OF t(2)] obtain ts where "buf' = (buf @ [d] @ t) @ concat (map (\<lambda>t. d # t) ts)"
    "list_all2 (\<lambda>(e, v) t. column_push env e d v = Inr t) cs ts" by blast
  then show ?case using c t(1) by (intro exI[of _ "t # ts"]) simp
qed simp

lemma push_columns_ok:
  assumes "push_columns env d True cs buf = (buf', Inr ())"
  shows "\<exists>ts. buf' = buf @ separated d ts \<and> list_all2 (\<lambda>(e, v) t. column_push env e d v = Inr t) cs ts"
proof (cases cs)
  case (Cons c cs')
  obtain e v where c: "c = (e, v)" by (cases c)
  obtain t where t: "column_push env e d v = Inr t" "push_columns env d False cs' (buf @ t) = (buf', Inr ())"
    using assms Cons c by (auto split: sum.splits)
  from push_columns_rest[OF t(2)] obtain ts where "buf' = (buf @ t) @ concat (map (\<lambda>t. d # t) ts)"
    "list_all2 (\<lambda>(e, v) t. column_push env e d v = Inr t) cs' ts" by blast
  then show ?thesis using Cons c t(1) by (intro exI[of _ "t # ts"]) (simp add: separated_Cons)
qed (use assms in simp)

text \<open>The text of rows that read as \<open>fss\<close>.\<close>

definition rows_text :: "char \<Rightarrow> string \<Rightarrow> string option list list \<Rightarrow> bool" where
  "rows_text d s fss \<longleftrightarrow> (\<exists>tss. s = concat (map (\<lambda>ts. separated d ts @ [LF]) tss)
     \<and> list_all2 (\<lambda>ts fs. ts \<noteq> [] \<and> list_all2 (field_text d) ts fs) tss fss)"

lemma rows_text_append: "rows_text d s fss \<Longrightarrow> rows_text d s' fss' \<Longrightarrow> rows_text d (s @ s') (fss @ fss')"
  unfolding rows_text_def
proof (elim exE conjE)
  fix tss tss'
  assume "s = concat (map (\<lambda>ts. separated d ts @ [LF]) tss)" "s' = concat (map (\<lambda>ts. separated d ts @ [LF]) tss')"
    and "list_all2 (\<lambda>ts fs. ts \<noteq> [] \<and> list_all2 (field_text d) ts fs) tss fss"
    and "list_all2 (\<lambda>ts fs. ts \<noteq> [] \<and> list_all2 (field_text d) ts fs) tss' fss'"
  then show "\<exists>tss. s @ s' = concat (map (\<lambda>ts. separated d ts @ [LF]) tss)
      \<and> list_all2 (\<lambda>ts fs. ts \<noteq> [] \<and> list_all2 (field_text d) ts fs) tss (fss @ fss')"
    by (intro exI[of _ "tss @ tss'"]) (auto intro: list_all2_appendI)
qed

lemma rows_text_Nil: "rows_text d [] []"
  by (simp add: rows_text_def)

lemma rows_text_reads:
  assumes "rows_text d s fss" "good_delimiter d"
  shows "read_csv d s = Some fss"
proof -
  obtain tss where s: "s = concat (map (\<lambda>ts. separated d ts @ [LF]) tss)"
    "list_all2 (\<lambda>ts fs. ts \<noteq> [] \<and> list_all2 (field_text d) ts fs) tss fss"
    using assms(1) by (auto simp: rows_text_def)
  show ?thesis using s(2) unfolding s(1)
  proof (induction tss fss rule: list_all2_induct)
    case Nil
    then show ?case by (subst read_csv.simps) simp
  next
    case (Cons ts tss fs fss)
    then show ?case using read_csv_row[OF assms(2), of ts fs] by simp
  qed
qed

lemma row_text:
  assumes "push_columns env d True (zip es r) buf = (buf', Inr ())" "good_delimiter d" "letters_free d es"
    and "length r = length es" "es \<noteq> []"
  shows "\<exists>s. buf' @ [LF] = buf @ s \<and> rows_text d s [map2 (field_of env) es r]"
proof -
  obtain ts where ts: "buf' = buf @ separated d ts" "list_all2 (\<lambda>(e, v) t. column_push env e d v = Inr t) (zip es r) ts"
    using push_columns_ok[OF assms(1)] by blast
  have f: "field_text d (ts ! i) (field_of env (es ! i) (r ! i))" if "i < length es" for i
  proof (rule column_push_reads[OF _ assms(2)])
    show "column_push env (es ! i) d (r ! i) = Inr (ts ! i)"
      using list_all2_nthD[OF ts(2), of i] that assms(4) by simp
    show "d \<notin> set ''truefalse''" if "es ! i = EncBoolean"
    proof -
      have "EncBoolean \<in> set es" using that \<open>i < length es\<close> nth_mem[of i es] by simp
      then show ?thesis using assms(3) by (simp add: letters_free_def)
    qed
  qed
  have l: "length ts = length es" using list_all2_lengthD[OF ts(2)] assms(4) by simp
  then have "list_all2 (field_text d) ts (map2 (field_of env) es r)" "ts \<noteq> []"
    using f assms(4,5) by (auto simp: list_all2_conv_all_nth)
  then have "rows_text d (separated d ts @ [LF]) [map2 (field_of env) es r]"
    unfolding rows_text_def by (intro exI[of _ "[ts]"]) simp
  then show ?thesis using ts(1) by (intro exI[of _ "separated d ts @ [LF]"]) simp
qed

lemma flush_buf_ok:
  "flush_buf env pw = (pw', Inr ()) \<Longrightarrow> pw_out pw' = pw_out pw @ pw_buf pw \<and> pw_buf pw' = []
     \<and> pw_delimiter pw' = pw_delimiter pw \<and> pw_rows pw' = pw_rows pw \<and> pw_file pw' = pw_file pw"
  by (auto simp: flush_buf_def split: if_splits option.splits)

lemma write_rows_ok:
  assumes "write_rows env es rs n pw = (pw', Inr m)" "good_delimiter (pw_delimiter pw)" "letters_free (pw_delimiter pw) es"
    and "\<forall>r \<in> set rs. length r = length es" "es \<noteq> []"
  shows "\<exists>s. pw_out pw' = pw_out pw @ pw_buf pw @ s \<and> rows_text (pw_delimiter pw) s (map (map2 (field_of env) es) rs)
    \<and> pw_buf pw' = [] \<and> pw_delimiter pw' = pw_delimiter pw \<and> pw_rows pw' = pw_rows pw \<and> pw_file pw' = pw_file pw"
  using assms
proof (induction rs arbitrary: n pw)
  case Nil
  then have "flush_buf env pw = (pw', Inr ())" by (auto split: prod.splits sum.splits)
  then show ?case using flush_buf_ok rows_text_Nil by force
next
  case (Cons r rs)
  let ?d = "pw_delimiter pw"
  obtain buf where b: "push_columns env ?d True (zip es r) (pw_buf pw) = (buf, Inr ())"
    using Cons.prems(1) by (auto split: prod.splits sum.splits)
  obtain s where s: "buf @ [LF] = pw_buf pw @ s" "rows_text ?d s [map2 (field_of env) es r]"
    using row_text[OF b Cons.prems(2,3)] Cons.prems(4,5) by auto
  let ?pw = "pw\<lparr>pw_buf := buf @ [LF]\<rparr>"
  obtain pw1 k where w: "write_rows env es rs k pw1 = (pw', Inr m)" "pw_out pw1 @ pw_buf pw1 = pw_out pw @ buf @ [LF]"
    "pw_delimiter pw1 = ?d" "pw_rows pw1 = pw_rows pw" "pw_file pw1 = pw_file pw"
  proof (cases "FLUSH_BYTES \<le> length (buf @ [LF])")
    case True
    obtain pw1 where f: "flush_buf env ?pw = (pw1, Inr ())"
      using Cons.prems(1) b True by (auto simp: Let_def split: prod.splits sum.splits)
    show ?thesis
      by (rule that[of "n + length (buf @ [LF])" pw1])
        (use Cons.prems(1) b True f flush_buf_ok[OF f] in \<open>auto simp: Let_def\<close>)
  next
    case False
    then show ?thesis using that[of n ?pw] Cons.prems(1) b by (simp add: Let_def)
  qed
  obtain s' where s': "pw_out pw' = pw_out pw1 @ pw_buf pw1 @ s'" "rows_text ?d s' (map (map2 (field_of env) es) rs)"
    "pw_buf pw' = []" "pw_delimiter pw' = ?d" "pw_rows pw' = pw_rows pw" "pw_file pw' = pw_file pw"
    using Cons.IH[OF w(1)] Cons.prems(2-5) w(3-5) by auto
  have "pw_out pw' = pw_out pw @ pw_buf pw @ s @ s'"
    using s'(1) w(2) s(1) by (metis append.assoc)
  moreover have "rows_text ?d (s @ s') (map (map2 (field_of env) es) (r # rs))"
    using rows_text_append[OF s(2) s'(2)] by simp
  ultimately show ?case using s'(3-6) by blast
qed

lemma part_write_all_ok:
  assumes "part_write_all env bs pw = (pw', Inr ())" "try_map column_encoder bfs = Inr es"
    and "good_delimiter (pw_delimiter pw)" "letters_free (pw_delimiter pw) es" "bfs \<noteq> []"
    and "\<forall>b \<in> set bs. bt_fields b = bfs \<and> (\<forall>r \<in> set (bt_rows b). length r = length bfs)"
  shows "\<exists>s. pw_out pw' @ pw_buf pw' = pw_out pw @ pw_buf pw @ s
    \<and> rows_text (pw_delimiter pw) s (map (map2 (field_of env) es) (concat (map bt_rows bs)))
    \<and> pw_delimiter pw' = pw_delimiter pw \<and> pw_rows pw' = pw_rows pw + length (concat (map bt_rows bs)) \<and> pw_file pw' = pw_file pw"
  using assms(1,3,4,6)
proof (induction bs arbitrary: pw)
  case Nil
  then show ?case using rows_text_Nil by (intro exI[of _ "[]"]) auto
next
  case (Cons b bs)
  let ?d = "pw_delimiter pw"
  have es: "es \<noteq> []" "length es = length bfs" using assms(2,5) try_map_length by fastforce+
  obtain pw1 m where w: "write_rows env es (bt_rows b) 0 pw = (pw1, Inr m)"
    "part_write_all env bs (pw1\<lparr>pw_rows := pw_rows pw1 + length (bt_rows b)\<rparr>) = (pw', Inr ())"
    using Cons.prems(1,4) assms(2) by (auto simp: part_write_def split: prod.splits sum.splits)
  obtain s where s: "pw_out pw1 = pw_out pw @ pw_buf pw @ s" "rows_text ?d s (map (map2 (field_of env) es) (bt_rows b))"
    "pw_buf pw1 = []" "pw_delimiter pw1 = ?d" "pw_rows pw1 = pw_rows pw" "pw_file pw1 = pw_file pw"
    using write_rows_ok[OF w(1) Cons.prems(2,3)] Cons.prems(4) es by auto
  obtain s' where s': "pw_out pw' @ pw_buf pw' = pw_out pw1 @ s'"
    "rows_text ?d s' (map (map2 (field_of env) es) (concat (map bt_rows bs)))"
    "pw_delimiter pw' = ?d" "pw_rows pw' = pw_rows pw1 + length (bt_rows b) + length (concat (map bt_rows bs))"
    "pw_file pw' = pw_file pw1"
    using Cons.IH[OF w(2)] Cons.prems(2-4) s(3,4) by auto
  have "rows_text ?d (s @ s') (map (map2 (field_of env) es) (concat (map bt_rows (b # bs))))"
    using rows_text_append[OF s(2) s'(2)] by simp
  then show ?case using s(1,5,6) s'(1,3-5) by (intro exI[of _ "s @ s'"]) auto
qed

lemma header_text:
  "good_delimiter d \<Longrightarrow> names \<noteq> [] \<Longrightarrow> rows_text d (push_header names d) [map Some names]"
  unfolding rows_text_def
  by (intro exI[of _ "[map (\<lambda>n. push_field n d) names]"])
    (auto simp: push_header_def list_all2_conv_all_nth field_text_def read_field_push)

text \<open>C31. A finished part file whose delimiter is not one of the letters of \<open>true\<close> and \<open>false\<close>, or which
  has no boolean column, reads back: its text, whatever flushes wrote it, is the header and one
  record per row, with NULLs as bare empty fields and every value (empty strings too) as its text, and
  the part's row count is right.  No value's text needs anything of its own characters.\<close>

theorem csv_part_reads_back:
  assumes "check_delimiter (pf_delimiter fmt) = Inr ()" "part_create env file fmt names = (pw0, Inr ())"
    and "part_write_all env bs pw0 = (pw, Inr ())" "part_finish env compressed pw = (pw', Inr info)"
    and "try_map column_encoder bfs = Inr es" "letters_free (pf_delimiter fmt) es"
    and "bfs \<noteq> []" "length names = length bfs"
    and "\<forall>b \<in> set bs. bt_fields b = bfs \<and> (\<forall>r \<in> set (bt_rows b). length r = length bfs)"
  shows "read_csv (pf_delimiter fmt) (pw_out pw')
      = Some ((if pf_header fmt then [map Some names] else []) @ map (map2 (field_of env) es) (concat (map bt_rows bs)))
    \<and> pi_rows info = length (concat (map bt_rows bs)) \<and> pi_file info = file"
proof -
  let ?d = "pf_delimiter fmt"
  note d = check_delimiter_good[OF assms(1)]
  let ?head = "if pf_header fmt then push_header names ?d else []"
  have pw0: "pw_out pw0 @ pw_buf pw0 = ?head" "pw_delimiter pw0 = ?d" "pw_rows pw0 = 0" "pw_file pw0 = file"
    using assms(2) flush_buf_ok[of env "\<lparr>pw_file = file, pw_out = [], pw_delimiter = ?d, pw_rows = 0, pw_buf = push_header names ?d\<rparr>" pw0]
    by (auto simp: part_create_def Let_def split: if_splits)
  have pd: "good_delimiter (pw_delimiter pw0)" "letters_free (pw_delimiter pw0) es" using d assms(6) pw0(2) by simp_all
  obtain s where s0: "pw_out pw @ pw_buf pw = pw_out pw0 @ pw_buf pw0 @ s"
    and s: "rows_text ?d s (map (map2 (field_of env) es) (concat (map bt_rows bs)))"
      "pw_rows pw = length (concat (map bt_rows bs))" "pw_file pw = file"
    using part_write_all_ok[OF assms(3,5) pd assms(7,9)] pw0(2-4) by auto
  have out: "pw_out pw @ pw_buf pw = ?head @ s" using s0 unfolding append_assoc[symmetric] pw0(1) .
  obtain pw1 where f: "flush_buf env pw = (pw1, Inr ())" "pw' = pw1"
    "info = \<lparr>pi_file = pw_file pw1, pi_rows = pw_rows pw1, pi_bytes = compressed (pw_out pw1)\<rparr>"
    using assms(4) by (auto simp: part_finish_def split: prod.splits sum.splits)
  note fl = flush_buf_ok[OF f(1)]
  have "rows_text ?d ?head (if pf_header fmt then [map Some names] else [])"
    using header_text[OF d, of names] assms(7,8) rows_text_Nil by (cases "names = []") auto
  then have "read_csv ?d (?head @ s)
      = Some ((if pf_header fmt then [map Some names] else []) @ map (map2 (field_of env) es) (concat (map bt_rows bs)))"
    by (intro rows_text_reads[OF rows_text_append[OF _ s(1)] d])
  then show ?thesis using fl f(2,3) s(2,3) out by simp
qed

definition sample_csv_env :: csv_env where
  "sample_csv_env = \<lparr>cv_base64 = (\<lambda>s. s), cv_civil = (\<lambda>d. Some (1970, 1, 1)), cv_display = (\<lambda>_ v. Inr ''7''), cv_fault = (\<lambda>_. None)\<rparr>"

definition sample_csv_fields :: "batch_field list" where
  "sample_csv_fields = [\<lparr>bf_name = ''id'', bf_type = Int64, bf_nullable = False\<rparr>, \<lparr>bf_name = ''note'', bf_type = Utf8, bf_nullable = True\<rparr>]"

definition sample_csv_batch :: batch where
  "sample_csv_batch = \<lparr>bt_fields = sample_csv_fields, bt_rows = [[CInt 7, CNull], [CInt 7, CStr ''''], [CInt 7, CStr ''a,b'']]\<rparr>"

definition sample_format :: part_format where
  "sample_format = \<lparr>pf_delimiter = CHR '','', pf_header = True, pf_compression = NoCompression\<rparr>"

lemma sample_part:
  "part_create sample_csv_env ''p'' sample_format [''id'', ''note'']
     = (\<lparr>pw_file = ''p'', pw_out = ''id,note'' @ [LF], pw_delimiter = CHR '','', pw_rows = 0, pw_buf = []\<rparr>, Inr ())"
  by (simp add: part_create_def sample_format_def push_header_def push_field_def needs_quotes_def csv_chars flush_buf_def sample_csv_env_def)

definition sample_written :: part_writer where
  "sample_written = \<lparr>pw_file = ''p'', pw_out = ''id,note'' @ [LF] @ ''7,'' @ [LF] @ ''7,'' @ [DQ, DQ, LF] @ ''7,'' @ [DQ] @ ''a,b'' @ [DQ, LF],
     pw_delimiter = CHR '','', pw_rows = 3, pw_buf = []\<rparr>"

lemma sample_part_rows:
  "part_write_all sample_csv_env [sample_csv_batch]
     \<lparr>pw_file = ''p'', pw_out = ''id,note'' @ [LF], pw_delimiter = CHR '','', pw_rows = 0, pw_buf = []\<rparr> = (sample_written, Inr ())"
  by (simp add: part_write_def sample_csv_batch_def sample_csv_fields_def column_encoder_def column_push_def sample_written_def
      value_text_def sample_csv_env_def push_field_def needs_quotes_def csv_chars flush_buf_def FLUSH_BYTES_def)

lemma sample_fields_encode: "try_map column_encoder sample_csv_fields = Inr [EncOther Int64, EncText]"
  by (simp add: sample_csv_fields_def column_encoder_def)

lemma csv_part_reads_back_witness:
  "read_csv CHR '','' (pw_out sample_written)
     = Some [[Some ''id'', Some ''note''], [Some ''7'', None], [Some ''7'', Some []], [Some ''7'', Some ''a,b'']]"
  using csv_part_reads_back[of sample_format sample_csv_env "''p''" "[''id'', ''note'']" _ "[sample_csv_batch]" sample_written length,
      OF _ sample_part sample_part_rows _ sample_fields_encode]
  by (simp add: sample_format_def check_delimiter_def code_def csv_chars part_finish_def flush_buf_def sample_written_def
      letters_free_def sample_csv_fields_def sample_csv_batch_def field_of_def value_text_def sample_csv_env_def)

text \<open>The delimiter \<open>e\<close> is accepted, and splits a boolean in two.\<close>

lemma boolean_letter_splits:
  "check_delimiter CHR ''e'' = Inr ()
   \<and> read_csv CHR ''e'' (fst (push_columns sample_csv_env CHR ''e'' True [(EncBoolean, CBool True)] []) @ [LF])
       = Some [[Some ''tru'', None]]"
  by (simp add: check_delimiter_def csv_chars code_def column_push_def value_text_def,
      (subst read_csv.simps, subst read_row.simps, simp add: read_field_def csv_chars)+)

end
