(* ===== verification/QH_Proto.thy ===== *)
theory QH_Proto
  imports QH_Csv
begin

unbundle bit_operations_syntax

text \<open>
  \<open>sink/bigquery_proto.rs\<close>: the rows of an Arrow batch as protobuf messages for the Storage Write API.  A
  row is encoded by hand on \<open>u64\<close> words; the message shape is the descriptor built from the same
  fields.  The abstract side is the wire format: a reader of messages, and of their fields by the
  descriptor's types, gets back exactly the values of the row, with a NULL as an absent field.
\<close>

section \<open>The wire\<close>

definition WIRE_VARINT :: nat where "WIRE_VARINT = 0"
definition WIRE_I64 :: nat where "WIRE_I64 = 1"
definition WIRE_LEN :: nat where "WIRE_LEN = 2"

definition byte_of :: "64 word \<Rightarrow> char" where
  "byte_of w = char_of (unat (ucast w :: 8 word))"

lemma drop_bit_unat: "unat (drop_bit n w) = unat w div 2 ^ n"
  by (metis unat_drop_bit_eq drop_bit_eq_div)

function push_varint :: "64 word \<Rightarrow> string" where
  "push_varint v =
     (let byte = v AND 0x7F; v' = drop_bit 7 v
      in if v' \<noteq> 0 then byte_of (byte OR 0x80) # push_varint v' else [byte_of byte])"
  by pat_completeness auto
termination by (relation "measure unat") (auto simp: drop_bit_unat word_unat_eq_iff)

declare push_varint.simps [simp del]

definition push_tag :: "nat \<Rightarrow> nat \<Rightarrow> string" where
  "push_tag number wire = push_varint (push_bit 3 (of_nat number) OR of_nat wire)"

definition write_varint :: "nat \<Rightarrow> 64 word \<Rightarrow> string" where
  "write_varint number v = push_tag number WIRE_VARINT @ push_varint v"

definition write_int :: "nat \<Rightarrow> 64 word \<Rightarrow> string" where
  "write_int number v = push_tag number WIRE_VARINT @ push_varint v"

definition to_le_bytes :: "64 word \<Rightarrow> string" where
  "to_le_bytes v = map (\<lambda>i. byte_of (drop_bit (8 * i) v)) [0..<8]"

definition write_double :: "nat \<Rightarrow> 64 word \<Rightarrow> string" where
  "write_double number bits = push_tag number WIRE_I64 @ to_le_bytes bits"

definition write_len :: "nat \<Rightarrow> string \<Rightarrow> string" where
  "write_len number bytes = push_tag number WIRE_LEN @ push_varint (of_nat (length bytes)) @ bytes"

text \<open>The bits of an \<open>f32\<close> as those of the same \<open>f64\<close>.\<close>

fun top_bit :: "nat \<Rightarrow> nat" where
  "top_bit n = (if n < 2 then 0 else Suc (top_bit (n div 2)))"

declare top_bit.simps [simp del]

definition widen_f32 :: "int \<Rightarrow> int" where
  "widen_f32 b =
     (let sign = b div 2 ^ 31; e = b div 2 ^ 23 mod 2 ^ 8; m = b mod 2 ^ 23; k = top_bit (nat m)
      in sign * 2 ^ 63
         + (if e = 255 then 2047 * 2 ^ 52 + (if m = 0 then 0 else if m < 2 ^ 22 then (m + 2 ^ 22) * 2 ^ 29 else m * 2 ^ 29)
            else if 0 < e then (e + 896) * 2 ^ 52 + m * 2 ^ 29
            else if m = 0 then 0
            else (int k + 874) * 2 ^ 52 + (m - 2 ^ k) * 2 ^ (52 - k)))"

section \<open>Fields\<close>

record field_enc =
  fe_name :: string
  fe_number :: nat
  fe_type :: data_type

datatype proto_type = PtBool | PtInt64 | PtInt32 | PtDouble | PtString | PtBytes

record field_descriptor =
  fd_name :: string
  fd_number :: nat
  fd_type :: proto_type

definition INTEGER_TYPES :: "data_type list" where
  "INTEGER_TYPES = [Int8, Int16, Int32, Int64, UInt8, UInt16, UInt32, UInt64]"

definition proto_type_for :: "data_type \<Rightarrow> proto_type res" where
  "proto_type_for dt =
     (if dt \<in> set INTEGER_TYPES then Inr PtInt64
      else case dt of
        Boolean \<Rightarrow> Inr PtBool
      | Float32 \<Rightarrow> Inr PtDouble
      | Float64 \<Rightarrow> Inr PtDouble
      | Utf8 \<Rightarrow> Inr PtString
      | Binary \<Rightarrow> Inr PtBytes
      | Date32 \<Rightarrow> Inr PtInt32
      | Timestamp Microsecond (Some _) \<Rightarrow> Inr PtInt64
      | Timestamp Microsecond None \<Rightarrow> Inr PtString
      | Decimal128 _ _ \<Rightarrow> Inr PtString
      | _ \<Rightarrow> Inl (Internal ''no BigQuery Storage Write proto mapping for Arrow type''))"

definition resolve_fields :: "batch_field list \<Rightarrow> field_enc list res" where
  "resolve_fields schema =
     try_map (\<lambda>(i, f). and_then (proto_type_for (bf_type f)) (\<lambda>_.
       Inr \<lparr>fe_name = bf_name f, fe_number = i + 1, fe_type = bf_type f\<rparr>)) (enumerate 0 schema)"

definition build_proto_descriptor :: "field_enc list \<Rightarrow> field_descriptor list res" where
  "build_proto_descriptor fs =
     try_map (\<lambda>fe. and_then (proto_type_for (fe_type fe)) (\<lambda>t.
       Inr \<lparr>fd_name = fe_name fe, fd_number = fe_number fe, fd_type = t\<rparr>)) fs"

section \<open>Rows\<close>

text \<open>chrono's calendar is \<open>civil\<close>, from days since the common era; a date past it is refused.\<close>

type_synonym civil = "int \<Rightarrow> (int \<times> nat \<times> nat) option"

definition civil_date :: "civil \<Rightarrow> int \<Rightarrow> string option" where
  "civil_date civil days =
     map_option (\<lambda>(y, m, d). write_year y @ ''-'' @ show_padded 2 m @ ''-'' @ show_padded 2 d)
       (civil (days + UNIX_EPOCH_DAYS_FROM_CE))"

definition timestamp_micros_to_iso :: "civil \<Rightarrow> int \<Rightarrow> bool \<Rightarrow> string res" where
  "timestamp_micros_to_iso civil micros has_tz =
     (let secs = micros div 1000000; frac = micros mod 1000000; sod = secs mod 86400
      in case civil_date civil (secs div 86400) of
           None \<Rightarrow> Inl (Internal (''timestamp '' @ show_int micros @ '' (us) out of representable range''))
         | Some date \<Rightarrow>
             Inr (date @ ''T'' @ show_padded 2 (nat (sod div 3600)) @ '':'' @ show_padded 2 (nat (sod mod 3600 div 60))
               @ '':'' @ show_padded 2 (nat (sod mod 60)) @ ''.'' @ show_padded 6 (nat frac)
               @ (if has_tz then ''Z'' else [])))"

definition downcast_failed :: etl_error where
  "downcast_failed = Internal ''Arrow array downcast failed (schema/builder type mismatch)''"

definition encode_cell :: "civil \<Rightarrow> nat \<Rightarrow> data_type \<Rightarrow> cell \<Rightarrow> string res" where
  "encode_cell civil n dt v =
     (if v = CNull then Inr []
      else if dt \<in> set INTEGER_TYPES then (case v of CInt i \<Rightarrow> Inr (write_int n (of_int i)) | _ \<Rightarrow> Inl downcast_failed)
      else case dt of
        Boolean \<Rightarrow> (case v of CBool b \<Rightarrow> Inr (write_varint n (of_bool b)) | _ \<Rightarrow> Inl downcast_failed)
      | Float32 \<Rightarrow> (case v of CFloat b \<Rightarrow> Inr (write_double n (of_int (widen_f32 b))) | _ \<Rightarrow> Inl downcast_failed)
      | Float64 \<Rightarrow> (case v of CFloat b \<Rightarrow> Inr (write_double n (of_int b)) | _ \<Rightarrow> Inl downcast_failed)
      | Utf8 \<Rightarrow> (case v of CStr s \<Rightarrow> Inr (write_len n s) | _ \<Rightarrow> Inl downcast_failed)
      | Binary \<Rightarrow> (case v of CBin s \<Rightarrow> Inr (write_len n s) | _ \<Rightarrow> Inl downcast_failed)
      | Date32 \<Rightarrow> (case v of CDate d \<Rightarrow> Inr (write_int n (of_int d)) | _ \<Rightarrow> Inl downcast_failed)
      | Timestamp Microsecond tz \<Rightarrow>
          (case v of
             CTs m \<Rightarrow>
               (case tz of
                  Some _ \<Rightarrow> Inr (write_int n (of_int m))
                | None \<Rightarrow> and_then (timestamp_micros_to_iso civil m False) (\<lambda>s. Inr (write_len n s)))
           | _ \<Rightarrow> Inl downcast_failed)
      | Decimal128 _ scale \<Rightarrow> (case v of CDec m \<Rightarrow> Inr (write_len n (decimal128_to_string m scale)) | _ \<Rightarrow> Inl downcast_failed)
      | _ \<Rightarrow> Inl (Internal ''no BigQuery Storage Write proto encoding for Arrow type''))"

definition encode_row :: "civil \<Rightarrow> cell list \<Rightarrow> field_enc list \<Rightarrow> string \<Rightarrow> string res" where
  "encode_row civil r fs buf =
     try_fold (\<lambda>buf fe.
       if length r \<le> fe_number fe - 1 then Inl (Panic ''index out of bounds'')
       else and_then (encode_cell civil (fe_number fe) (fe_type fe) (r ! (fe_number fe - 1))) (\<lambda>b. Inr (buf @ b))) buf fs"


section \<open>The reader\<close>

datatype wire_value = WVarint nat | WFixed nat | WBytes string

fun read_varint :: "nat \<Rightarrow> string \<Rightarrow> (nat \<times> string) option" where
  "read_varint 0 s = None"
| "read_varint (Suc n) [] = None"
| "read_varint (Suc n) (c # s) =
     (if code c < 128 then Some (code c, s)
      else map_option (\<lambda>(v, r). (code c - 128 + 128 * v, r)) (read_varint n s))"

fun le_value :: "string \<Rightarrow> nat" where
  "le_value [] = 0"
| "le_value (c # s) = code c + 256 * le_value s"

definition read_proto_field :: "string \<Rightarrow> ((nat \<times> wire_value) \<times> string) option" where
  "read_proto_field s =
     Option.bind (read_varint 10 s) (\<lambda>(tag, r).
       if tag mod 8 = 0 then map_option (\<lambda>(v, r). ((tag div 8, WVarint v), r)) (read_varint 10 r)
       else if tag mod 8 = 1 then (if length r < 8 then None else Some ((tag div 8, WFixed (le_value (take 8 r))), drop 8 r))
       else if tag mod 8 = 2 then
         Option.bind (read_varint 10 r) (\<lambda>(n, r). if length r < n then None else Some ((tag div 8, WBytes (take n r)), drop n r))
       else None)"

function read_message :: "string \<Rightarrow> (nat \<times> wire_value) list option" where
  "read_message s =
     (if s = [] then Some []
      else case read_proto_field s of
        None \<Rightarrow> None
      | Some (f, r) \<Rightarrow> if length r < length s then map_option (Cons f) (read_message r) else None)"
  by pat_completeness auto
termination by (relation "measure length") auto

declare read_message.simps [simp del]

datatype proto_value = PBool bool | PInt int | PDouble nat | PStr string | PBin string

definition signed_value :: "nat \<Rightarrow> nat \<Rightarrow> int" where
  "signed_value w n = (let m = n mod 2 ^ w in if m < 2 ^ (w - 1) then int m else int m - 2 ^ w)"

definition read_value :: "proto_type \<Rightarrow> wire_value \<Rightarrow> proto_value option" where
  "read_value t w =
     (case w of
        WVarint n \<Rightarrow> (case t of PtBool \<Rightarrow> Some (PBool (n \<noteq> 0)) | PtInt64 \<Rightarrow> Some (PInt (signed_value 64 n))
                     | PtInt32 \<Rightarrow> Some (PInt (signed_value 32 n)) | _ \<Rightarrow> None)
      | WFixed n \<Rightarrow> (if t = PtDouble then Some (PDouble n) else None)
      | WBytes s \<Rightarrow> (case t of PtString \<Rightarrow> Some (PStr s) | PtBytes \<Rightarrow> Some (PBin s) | _ \<Rightarrow> None))"

text \<open>The last occurrence of a field counts; one that is not there reads as NULL.\<close>

definition read_proto_row :: "field_descriptor list \<Rightarrow> string \<Rightarrow> proto_value option list option" where
  "read_proto_row ds s =
     map_option (\<lambda>fs. map (\<lambda>d. Option.bind (map_of (rev fs) (fd_number d)) (read_value (fd_type d))) ds) (read_message s)"

text \<open>What a cell means to BigQuery.\<close>

definition sent_value :: "civil \<Rightarrow> data_type \<Rightarrow> cell \<Rightarrow> proto_value option" where
  "sent_value civil dt v =
     (case v of
        CNull \<Rightarrow> None
      | CBool b \<Rightarrow> Some (PBool b)
      | CInt i \<Rightarrow> Some (PInt (if i < 2 ^ 63 then i else i - 2 ^ 64))
      | CFloat b \<Rightarrow> Some (PDouble (nat (if dt = Float32 then widen_f32 b else b)))
      | CStr s \<Rightarrow> Some (PStr s)
      | CBin s \<Rightarrow> Some (PBin s)
      | CDate d \<Rightarrow> Some (PInt d)
      | CTs m \<Rightarrow> (case dt of Timestamp _ None \<Rightarrow> (case timestamp_micros_to_iso civil m False of Inr s \<Rightarrow> Some (PStr s) | Inl _ \<Rightarrow> None)
                  | _ \<Rightarrow> Some (PInt m))
      | CDec m \<Rightarrow> (case dt of Decimal128 _ s \<Rightarrow> Some (PStr (decimal128_to_string m s)) | _ \<Rightarrow> None))"

text \<open>The values an array of the type holds, and lengths an allocation can have.\<close>

definition INTEGER_WIDTHS :: "(data_type \<times> bool \<times> nat) list" where
  "INTEGER_WIDTHS = [(Int8, True, 8), (Int16, True, 16), (Int32, True, 32), (Int64, True, 64),
     (UInt8, False, 8), (UInt16, False, 16), (UInt32, False, 32), (UInt64, False, 64)]"

definition array_holds :: "data_type \<Rightarrow> cell \<Rightarrow> bool" where
  "array_holds dt v =
     (case v of
        CInt i \<Rightarrow> (case map_of INTEGER_WIDTHS dt of Some (s, w) \<Rightarrow> if s then in_signed w i else in_unsigned w i | None \<Rightarrow> False)
      | CFloat b \<Rightarrow> in_unsigned (if dt = Float32 then 32 else 64) b
      | CStr s \<Rightarrow> length s < 2 ^ 63
      | CBin s \<Rightarrow> length s < 2 ^ 63
      | CDate d \<Rightarrow> in_signed 32 d
      | CTs m \<Rightarrow> in_signed 64 m
      | CDec m \<Rightarrow> in_signed 128 m \<and> (case dt of Decimal128 _ s \<Rightarrow> in_signed 8 s | _ \<Rightarrow> False)
      | _ \<Rightarrow> True)"

text \<open>chrono's years have at most six digits.\<close>

definition chrono_calendar :: "civil \<Rightarrow> bool" where
  "chrono_calendar civil \<longleftrightarrow> (\<forall>x y m d. civil x = Some (y, m, d) \<longrightarrow> \<bar>y\<bar> < 10 ^ 6 \<and> m \<le> 12 \<and> d \<le> 31)"

section \<open>Varints\<close>

lemma byte_code: "code (byte_of w) = unat w mod 256"
  by (simp add: byte_of_def code_def unsigned_ucast_eq take_bit_eq_mod)

lemma low_bits: "unat (v AND 0x7F :: 64 word) = unat v mod 128"
proof -
  have "(0x7F :: 64 word) = mask 7" by (simp add: mask_eq_exp_minus_1)
  then have "v AND 0x7F = take_bit 7 v" by (simp add: take_bit_eq_mask)
  then have "unat (v AND 0x7F) = take_bit 7 (unat v)" by (simp only: unsigned_take_bit_eq)
  then show ?thesis by (simp add: take_bit_eq_mod)
qed

lemma high_bit: "unat ((v AND 0x7F) OR 0x80 :: 64 word) = unat v mod 128 + 128"
proof -
  have "(v AND 0x7F) AND (0x80 :: 64 word) = 0" by (simp add: and.assoc)
  then have o: "(v AND 0x7F) OR 0x80 = (v AND 0x7F) + (0x80 :: 64 word)" by (simp add: disjunctive_add_eq_or)
  have "unat (v AND 0x7F :: 64 word) + unat (0x80 :: 64 word) < 2 ^ LENGTH(64)" by (simp add: low_bits less_imp_le_nat add_less_le_mono mod_less_divisor order.strict_trans1[OF add_right_mono[OF less_imp_le_nat[OF mod_less_divisor]]])
  then have "unat ((v AND 0x7F) + (0x80 :: 64 word)) = unat (v AND 0x7F :: 64 word) + unat (0x80 :: 64 word)"
    by (rule unat_add_lem[THEN iffD1])
  then show ?thesis by (simp add: o low_bits)
qed

lemma varint_reads_back:
  "unat v < 2 ^ (7 * n) \<Longrightarrow> 0 < n \<Longrightarrow> read_varint n (push_varint v @ r) = Some (unat v, r)"
proof (induction v arbitrary: n rule: push_varint.induct)
  case (1 v)
  obtain m where n: "n = Suc m" using 1 by (cases n) auto
  show ?case
  proof (cases "drop_bit 7 v = 0")
    case True
    then have "unat v div 128 = 0" using drop_bit_unat[of 7 v] by simp
    then have "unat v < 128" by (simp add: div_eq_0_iff)
    then show ?thesis using True by (subst push_varint.simps) (simp add: n Let_def byte_code low_bits)
  next
    case False
    let ?v = "drop_bit 7 v"
    have small: "unat ?v < 2 ^ (7 * m)"
      using 1(2) drop_bit_unat[of 7 v] by (simp add: n less_mult_imp_div_less power_add)
    have "0 < unat ?v" using False by (simp add: unat_gt_0)
    then have m: "0 < m" using small by (cases m) auto
    have "read_varint m (push_varint ?v @ r) = Some (unat ?v, r)" using 1(1)[OF refl refl False small m] .
    then show ?thesis using False drop_bit_unat[of 7 v]
      by (subst push_varint.simps) (simp add: n Let_def byte_code high_bit)
  qed
qed

lemma varint_word: "read_varint 10 (push_varint v @ r) = Some (unat v, r)"
proof (rule varint_reads_back)
  have "unat v < 2 ^ LENGTH(64)" by (rule unsigned_less)
  also have "\<dots> < (2::nat) ^ (7 * 10)" by simp
  finally show "unat v < 2 ^ (7 * 10)" .
qed simp

lemma tag_reads_back:
  assumes "n < 2 ^ 32" "w < 8"
  shows "read_varint 10 (push_tag n w @ r) = Some (8 * n + w, r)"
proof -
  have z: "push_bit 3 (of_nat n :: 64 word) AND of_nat w = 0"
  proof (rule bit_word_eqI)
    fix k assume "k < LENGTH(64)"
    have "\<not> bit w k" if "3 \<le> k"
    proof -
      have "w < 2 ^ k" using assms(2) power_increasing[OF that, of "2::nat"] by simp
      then show ?thesis by (simp add: bit_iff_odd)
    qed
    then show "bit (push_bit 3 (of_nat n :: 64 word) AND of_nat w) k \<longleftrightarrow> bit (0 :: 64 word) k"
      by (auto simp: bit_simps)
  qed
  have "push_bit 3 (of_nat n) OR of_nat w = (of_nat (8 * n + w) :: 64 word)"
    using z by (simp add: disjunctive_add_eq_or[symmetric] push_bit_eq_mult)
  moreover have "unat (of_nat (8 * n + w) :: 64 word) = (8 * n + w) mod 2 ^ LENGTH(64)"
    by (simp only: unsigned_of_nat take_bit_eq_mod of_nat_id)
  ultimately show ?thesis using assms by (simp only: push_tag_def varint_word) simp
qed

section \<open>A row reads back\<close>

lemma le_value_bytes: "le_value (map (\<lambda>i. byte_of (drop_bit (8 * i) v)) [k..<k + m]) = unat v div 256 ^ k mod 256 ^ m"
proof (induction m arbitrary: k)
  case (Suc m)
  have "unat (drop_bit (8 * k) v) = unat v div 256 ^ k"
    by (simp add: drop_bit_unat power_mult del: drop_bit_eq_div)
  then show ?case using Suc.IH[of "Suc k"]
    by (simp add: upt_conv_Cons byte_code mod_mult2_eq mult.commute del: upt_Suc flip: div_mult2_eq)
qed simp

lemma double_reads_back: "le_value (to_le_bytes v) = unat v" and le_bytes_length: "length (to_le_bytes v) = 8"
proof -
  have "unat v < 2 ^ LENGTH(64)" by (rule unsigned_less)
  then show "le_value (to_le_bytes v) = unat v" using le_value_bytes[of v 0 8] by (simp add: to_le_bytes_def)
qed (simp add: to_le_bytes_def)

text \<open>A field is one step of the reader.\<close>

lemma read_message_step:
  assumes "read_proto_field (f @ r) = Some (x, r)" "f \<noteq> []"
  shows "read_message (f @ r) = map_option (Cons x) (read_message r)"
  using assms by (subst read_message.simps) simp

lemma push_varint_nonempty: "push_varint v \<noteq> []"
  by (subst push_varint.simps) (simp add: Let_def)

lemma push_tag_nonempty: "push_tag n w \<noteq> []"
  by (simp add: push_tag_def push_varint_nonempty)

lemma written_fields_read:
  assumes n: "n < 2 ^ 32"
  shows "read_message (write_varint n v @ r) = map_option (Cons (n, WVarint (unat v))) (read_message r)"
    and "read_message (write_int n v @ r) = map_option (Cons (n, WVarint (unat v))) (read_message r)"
    and "read_message (write_double n v @ r) = map_option (Cons (n, WFixed (unat v))) (read_message r)"
    and "length s < 2 ^ 63 \<Longrightarrow> read_message (write_len n s @ r) = map_option (Cons (n, WBytes s)) (read_message r)"
proof -
  have l: "unat (of_nat (length s) :: 64 word) = length s" if "length s < 2 ^ 63"
  proof -
    have "unat (of_nat (length s) :: 64 word) = length s mod 2 ^ LENGTH(64)"
      by (simp only: unsigned_of_nat take_bit_eq_mod of_nat_id)
    then show ?thesis using that by simp
  qed
  have d: "Suc (8 * n) div 8 = n" "Suc (Suc (8 * n)) div 8 = n" "Suc (Suc (8 * n)) mod 8 = 2" by presburger+
  note tag = tag_reads_back[OF n]
  show "read_message (write_varint n v @ r) = map_option (Cons (n, WVarint (unat v))) (read_message r)"
    by (rule read_message_step)
      (simp_all add: write_varint_def read_proto_field_def WIRE_VARINT_def tag varint_word push_tag_nonempty)
  show "read_message (write_int n v @ r) = map_option (Cons (n, WVarint (unat v))) (read_message r)"
    by (rule read_message_step)
      (simp_all add: write_int_def read_proto_field_def WIRE_VARINT_def tag varint_word push_tag_nonempty)
  show "read_message (write_double n v @ r) = map_option (Cons (n, WFixed (unat v))) (read_message r)"
    by (rule read_message_step)
      (simp_all add: write_double_def read_proto_field_def WIRE_I64_def tag push_tag_nonempty double_reads_back le_bytes_length d)
  show "read_message (write_len n s @ r) = map_option (Cons (n, WBytes s)) (read_message r)" if "length s < 2 ^ 63"
    by (rule read_message_step)
      (simp_all add: write_len_def read_proto_field_def WIRE_LEN_def tag varint_word push_tag_nonempty l[OF that] d)
qed

text \<open>The field a cell becomes.\<close>

definition wire_of :: "civil \<Rightarrow> data_type \<Rightarrow> cell \<Rightarrow> wire_value option" where
  "wire_of civil dt v =
     (case v of
        CNull \<Rightarrow> None
      | CBool b \<Rightarrow> Some (WVarint (of_bool b))
      | CInt i \<Rightarrow> Some (WVarint (unat (of_int i :: 64 word)))
      | CFloat b \<Rightarrow> Some (WFixed (unat (of_int (if dt = Float32 then widen_f32 b else b) :: 64 word)))
      | CStr s \<Rightarrow> Some (WBytes s)
      | CBin s \<Rightarrow> Some (WBytes s)
      | CDate d \<Rightarrow> Some (WVarint (unat (of_int d :: 64 word)))
      | CTs m \<Rightarrow> (case dt of Timestamp _ None \<Rightarrow> (case timestamp_micros_to_iso civil m False of Inr s \<Rightarrow> Some (WBytes s) | Inl _ \<Rightarrow> None)
                  | _ \<Rightarrow> Some (WVarint (unat (of_int m :: 64 word))))
      | CDec m \<Rightarrow> (case dt of Decimal128 _ s \<Rightarrow> Some (WBytes (decimal128_to_string m s)) | _ \<Rightarrow> None))"

lemma show_padded_length: "0 < k \<Longrightarrow> n < 10 ^ k \<Longrightarrow> length (show_padded w n) \<le> max w k"
  using length_show_nat_le[of k n] by (simp add: show_padded_def pad_left_def)

lemma civil_date_length: "chrono_calendar civil \<Longrightarrow> civil_date civil days = Some s \<Longrightarrow> length s \<le> 13"
proof -
  assume c: "chrono_calendar civil" and s: "civil_date civil days = Some s"
  obtain y m d where x: "civil (days + UNIX_EPOCH_DAYS_FROM_CE) = Some (y, m, d)"
    and s: "s = write_year y @ ''-'' @ show_padded 2 m @ ''-'' @ show_padded 2 d"
    using s by (auto simp: civil_date_def)
  have b: "\<bar>y\<bar> < 10 ^ 6" "m \<le> 12" "d \<le> 31" using c x by (auto simp: chrono_calendar_def)
  then have "nat \<bar>y\<bar> < 10 ^ 6" by (simp add: nat_less_iff)
  then have "length (show_padded 4 (nat \<bar>y\<bar>)) \<le> 6" using show_padded_length[of 6 "nat \<bar>y\<bar>" 4] by simp
  moreover have "length (show_padded 2 m) \<le> 2" "length (show_padded 2 d) \<le> 2"
    using b show_padded_length[of 2 m 2] show_padded_length[of 2 d 2] by simp_all
  ultimately show ?thesis by (auto simp: s write_year_def)
qed

lemma time_text_length:
  assumes "length date \<le> 13" "a < 10 ^ 6" "b < 10 ^ 6" "c < 10 ^ 6" "f < 10 ^ 6"
  shows "length (date @ ''T'' @ show_padded 2 (nat a) @ '':'' @ show_padded 2 (nat b) @ '':'' @ show_padded 2 (nat c)
    @ ''.'' @ show_padded 6 (nat f)) < 2 ^ 63"
proof -
  have p: "length (show_padded w (nat i)) \<le> max w 6" if "i < 10 ^ 6" for w i
    using show_padded_length[of 6 "nat i" w] that by (simp add: nat_less_iff)
  show ?thesis using assms(1) p[OF assms(2), of 2] p[OF assms(3), of 2] p[OF assms(4), of 2] p[OF assms(5), of 6] by simp
qed

lemma iso_length:
  assumes c: "chrono_calendar civil" and s: "timestamp_micros_to_iso civil micros False = Inr s"
  shows "length s < 2 ^ 63"
proof -
  let ?sod = "micros div 1000000 mod 86400"
  obtain date where d: "civil_date civil (micros div 1000000 div 86400) = Some date"
    and s: "s = date @ ''T'' @ show_padded 2 (nat (?sod div 3600)) @ '':'' @ show_padded 2 (nat (?sod mod 3600 div 60))
               @ '':'' @ show_padded 2 (nat (?sod mod 60)) @ ''.'' @ show_padded 6 (nat (micros mod 1000000))"
    using s by (auto simp: timestamp_micros_to_iso_def Let_def split: option.splits)
  have "?sod div 3600 < 10 ^ 6" "?sod mod 3600 div 60 < 10 ^ 6" "?sod mod 60 < 10 ^ 6" "micros mod 1000000 < 10 ^ 6" by auto
  then show ?thesis using time_text_length[OF civil_date_length[OF c d]] unfolding s by blast
qed

lemma decimal_text_length:
  assumes "in_signed 128 m" "in_signed 8 s"
  shows "length (decimal128_to_string m s) < 2 ^ 63"
proof -
  have "\<bar>m\<bar> < 10 ^ 39" using assms(1) by (auto simp: in_signed_def abs_if)
  then have "nat \<bar>m\<bar> < 10 ^ 39" by (simp add: nat_less_iff)
  then have "length (show_nat (nat \<bar>m\<bar>)) \<le> 39" using length_show_nat_le[of 39 "nat \<bar>m\<bar>"] by simp
  moreover have "nat s \<le> 128" "nat (- s) \<le> 128" using assms(2) by (auto simp: in_signed_def)
  ultimately have "length (decimal128_to_string m s) \<le> 1000"
    by (auto simp: decimal128_to_string_def Let_def zeros_def)
  then show ?thesis by simp
qed

lemma append_one: "(@) [x] = (#) x"
  by (simp add: fun_eq_iff)

lemma cell_reads_back:
  assumes "encode_cell civil n dt v = Inr b" "n < 2 ^ 32" "array_holds dt v" "chrono_calendar civil"
  shows "read_message (b @ r) = map_option ((@) (case wire_of civil dt v of None \<Rightarrow> [] | Some w \<Rightarrow> [(n, w)])) (read_message r)"
proof (cases v)
  case CNull
  then show ?thesis using assms(1) by (cases "read_message r") (simp_all add: encode_cell_def wire_of_def)
next
  case (CBool x)
  then show ?thesis using assms(1,2)
    by (auto simp: encode_cell_def wire_of_def written_fields_read append_one INTEGER_TYPES_def
          split: if_splits data_type.splits time_unit.splits)
next
  case (CInt x)
  then show ?thesis using assms(1,2)
    by (auto simp: encode_cell_def wire_of_def written_fields_read append_one INTEGER_TYPES_def
          split: if_splits data_type.splits time_unit.splits)
next
  case (CFloat x)
  then show ?thesis using assms(1,2)
    by (auto simp: encode_cell_def wire_of_def written_fields_read append_one INTEGER_TYPES_def
          split: if_splits data_type.splits time_unit.splits)
next
  case (CStr x)
  then show ?thesis using assms(1,2,3)
    by (auto simp: encode_cell_def wire_of_def written_fields_read append_one INTEGER_TYPES_def array_holds_def
          split: if_splits data_type.splits time_unit.splits)
next
  case (CBin x)
  then show ?thesis using assms(1,2,3)
    by (auto simp: encode_cell_def wire_of_def written_fields_read append_one INTEGER_TYPES_def array_holds_def
          split: if_splits data_type.splits time_unit.splits)
next
  case (CDate x)
  then show ?thesis using assms(1,2)
    by (auto simp: encode_cell_def wire_of_def written_fields_read append_one INTEGER_TYPES_def
          split: if_splits data_type.splits time_unit.splits)
next
  case (CTs x)
  then show ?thesis using assms(1,2) iso_length[OF assms(4)]
    by (auto simp: encode_cell_def wire_of_def written_fields_read append_one INTEGER_TYPES_def qh_res
          split: if_splits data_type.splits time_unit.splits option.splits)
next
  case (CDec x)
  then show ?thesis using assms(1,2,3) decimal_text_length
    by (auto simp: encode_cell_def wire_of_def written_fields_read append_one INTEGER_TYPES_def array_holds_def
          split: if_splits data_type.splits time_unit.splits)
qed

section \<open>Values\<close>

lemma top_bit_bounds: "0 < n \<Longrightarrow> 2 ^ top_bit n \<le> n \<and> n < 2 * 2 ^ top_bit n"
proof (induction n rule: top_bit.induct)
  case (1 n)
  show ?case
  proof (cases "n < 2")
    case True
    then show ?thesis using 1(2) by (subst (1 2) top_bit.simps) auto
  next
    case False
    then have "2 ^ top_bit (n div 2) \<le> n div 2 \<and> n div 2 < 2 * 2 ^ top_bit (n div 2)" using 1(1) by simp
    moreover have "top_bit n = Suc (top_bit (n div 2))" using False by (subst top_bit.simps) simp
    ultimately show ?thesis by (simp only: power_Suc) linarith
  qed
qed

lemma word_of_range: "in_unsigned 64 b \<Longrightarrow> unat (of_int b :: 64 word) = nat b"
  by (simp add: in_unsigned_def unsigned_of_int take_bit_int_eq_self)

lemma word_of_signed:
  assumes "in_signed 64 i \<or> in_unsigned 64 i"
  shows "signed_value 64 (unat (of_int i :: 64 word)) = (if i < 2 ^ 63 then i else i - 2 ^ 64)"
proof -
  have u: "unat (of_int i :: 64 word) = nat (i mod 2 ^ 64)" by (simp add: unsigned_of_int take_bit_eq_mod)
  show ?thesis
  proof (cases "i < 0")
    case True
    then have low: "- (2 ^ 63) \<le> i" using assms by (auto simp: in_signed_def in_unsigned_def)
    then have "i mod 2 ^ 64 = i + 2 ^ 64"
      using True mod_pos_pos_trivial[of "i + 2 ^ 64" "2 ^ 64"] by simp
    then show ?thesis using True low by (auto simp: u signed_value_def Let_def nat_less_iff)
  next
    case False
    then have "i mod 2 ^ 64 = i" using assms by (auto simp: in_signed_def in_unsigned_def)
    then show ?thesis using False assms
      by (auto simp: u signed_value_def Let_def nat_less_iff in_signed_def in_unsigned_def)
  qed
qed


lemma widen_range:
  assumes "in_unsigned 32 b"
  shows "in_unsigned 64 (widen_f32 b)"
proof -
  define sign e m where "sign = b div 2 ^ 31" and "e = b div 2 ^ 23 mod 2 ^ 8" and "m = b mod (2 ^ 23 :: int)"
  have s: "0 \<le> sign" "sign \<le> 1" using assms by (auto simp: sign_def in_unsigned_def)
  have e: "0 \<le> e" "e \<le> 255" and m: "0 \<le> m" "m < 2 ^ 23" by (auto simp: e_def m_def)
  define body where "body =
     (if e = 255 then 2047 * 2 ^ 52 + (if m = 0 then 0 else if m < 2 ^ 22 then (m + 2 ^ 22) * 2 ^ 29 else m * 2 ^ 29)
      else if 0 < e then (e + 896) * 2 ^ 52 + m * 2 ^ 29
      else if m = 0 then 0
      else (int (top_bit (nat m)) + 874) * 2 ^ 52 + (m - 2 ^ top_bit (nat m)) * 2 ^ (52 - top_bit (nat m)))"
  have "0 \<le> body \<and> body < 2 ^ 63"
  proof (cases "e = 0 \<and> m \<noteq> 0")
    case True
    let ?k = "top_bit (nat m)"
    have "2 ^ ?k \<le> nat m" "nat m < 2 * 2 ^ ?k" using top_bit_bounds[of "nat m"] True m by auto
    then have k: "2 ^ ?k \<le> m" "m < 2 * 2 ^ ?k" using m by (auto simp: le_nat_iff nat_less_iff)
    have "(2::int) ^ ?k < 2 ^ 23" using k m by linarith
    then have k23: "?k < 23" using power_less_imp_less_exp[of "2::int" ?k 23] by simp
    have "(m - 2 ^ ?k) * 2 ^ (52 - ?k) < 2 ^ ?k * 2 ^ (52 - ?k)" using k by simp
    also have "\<dots> = (2::int) ^ 52" using k23 by (simp flip: power_add)
    finally have "(m - 2 ^ ?k) * 2 ^ (52 - ?k) < (2::int) ^ 52" .
    moreover have "0 \<le> (m - 2 ^ ?k) * 2 ^ (52 - ?k)" using k by simp
    moreover have "body = (int ?k + 874) * 2 ^ 52 + (m - 2 ^ ?k) * 2 ^ (52 - ?k)" using True by (simp add: body_def)
    ultimately show ?thesis using k23 by simp
  next
    case False
    then show ?thesis using e m by (auto simp: body_def)
  qed
  moreover have "widen_f32 b = sign * 2 ^ 63 + body"
    by (simp only: widen_f32_def Let_def body_def sign_def e_def m_def)
  ultimately show ?thesis using s by (simp add: in_unsigned_def)
qed

lemma value_reads_back:
  assumes "encode_cell civil n dt v = Inr b" "proto_type_for dt = Inr t" "array_holds dt v"
  shows "Option.bind (wire_of civil dt v) (read_value t) = sent_value civil dt v"
proof (cases v)
  case (CInt i)
  have dt: "dt \<in> set INTEGER_TYPES"
    using assms(1) CInt by (auto simp: encode_cell_def split: if_splits data_type.splits time_unit.splits)
  then have "in_signed 64 i \<or> in_unsigned 64 i"
    using assms(3) CInt by (auto simp: array_holds_def INTEGER_TYPES_def INTEGER_WIDTHS_def in_signed_def in_unsigned_def)
  then show ?thesis using assms(2) dt CInt
    by (simp add: wire_of_def sent_value_def read_value_def proto_type_for_def word_of_signed)
next
  case (CFloat x)
  then have "in_unsigned 64 (if dt = Float32 then widen_f32 x else x)"
    using assms(3) widen_range by (auto simp: array_holds_def)
  then have "unat (of_int (if dt = Float32 then widen_f32 x else x) :: 64 word) = nat (if dt = Float32 then widen_f32 x else x)"
    by (rule word_of_range)
  moreover have "t = PtDouble"
    using assms(1,2) CFloat
    by (auto simp: encode_cell_def proto_type_for_def split: if_splits data_type.splits time_unit.splits)
  ultimately show ?thesis using CFloat by (simp add: wire_of_def sent_value_def read_value_def)
next
  case (CDate d)
  have "t = PtInt32"
    using assms(1,2) CDate
    by (auto simp: encode_cell_def proto_type_for_def split: if_splits data_type.splits time_unit.splits)
  moreover have "signed_value 32 (unat (of_int d :: 64 word)) = d"
  proof -
    have d: "in_signed 32 d" using assms(3) CDate by (simp add: array_holds_def)
    have "unat (of_int d :: 64 word) mod 2 ^ 32 = nat (d mod 2 ^ 32)"
    proof -
      have "d mod 2 ^ 64 mod 2 ^ 32 = d mod 2 ^ 32" by (rule mod_mod_cancel) (simp add: le_imp_power_dvd)
      moreover have "nat (d mod 2 ^ 64) mod nat (2 ^ 32) = nat (d mod 2 ^ 64 mod 2 ^ 32)" by (simp add: nat_mod_distrib)
      ultimately show ?thesis by (simp add: unsigned_of_int take_bit_eq_mod)
    qed
    moreover have "d mod 2 ^ 32 = (if d < 0 then d + 2 ^ 32 else d)"
      using d mod_pos_pos_trivial[of "d + 2 ^ 32" "2 ^ 32"] by (auto simp: in_signed_def)
    ultimately show ?thesis using d by (auto simp: signed_value_def Let_def in_signed_def)
  qed
  ultimately show ?thesis using CDate by (simp add: wire_of_def sent_value_def read_value_def)
next
  case (CTs m)
  then have "in_signed 64 m \<or> in_unsigned 64 m" and range: "m < 2 ^ 63" using assms(3) by (auto simp: array_holds_def in_signed_def)
  from word_of_signed[OF this(1)] CTs assms(1,2) range show ?thesis
    by (auto simp: encode_cell_def proto_type_for_def wire_of_def sent_value_def read_value_def qh_res
          split: if_splits data_type.splits time_unit.splits option.splits sum.splits)
qed (use assms(1,2) in \<open>auto simp: encode_cell_def proto_type_for_def wire_of_def sent_value_def read_value_def
      split: if_splits data_type.splits time_unit.splits\<close>)


section \<open>Rows\<close>

definition row_message :: "civil \<Rightarrow> cell list \<Rightarrow> field_enc list \<Rightarrow> (nat \<times> wire_value) list" where
  "row_message civil r fs =
     List.map_filter (\<lambda>fe. map_option (Pair (fe_number fe)) (wire_of civil (fe_type fe) (r ! (fe_number fe - 1)))) fs"

lemma encode_row_reads:
  assumes "chrono_calendar civil" "encode_row civil r fs buf = Inr out"
    and "\<And>fe. fe \<in> set fs \<Longrightarrow> fe_number fe < 2 ^ 32"
    and "\<And>fe. fe \<in> set fs \<Longrightarrow> fe_number fe - 1 < length r \<Longrightarrow> array_holds (fe_type fe) (r ! (fe_number fe - 1))"
  shows "\<exists>body. out = buf @ body \<and> (\<forall>rest. read_message (body @ rest) = map_option ((@) (row_message civil r fs)) (read_message rest))"
  using assms(2-4)
proof (induction fs arbitrary: buf)
  case Nil
  then show ?case by (auto simp: encode_row_def row_message_def map_filter_simps split: option.split intro!: exI[of _ "[]"] option.map_ident[symmetric] simp: option.map_id[unfolded id_def])
next
  case (Cons fe fs)
  let ?i = "fe_number fe - 1"
  obtain b where i: "?i < length r" and b: "encode_cell civil (fe_number fe) (fe_type fe) (r ! ?i) = Inr b"
    and out: "encode_row civil r fs (buf @ b) = Inr out"
    using Cons.prems(1) by (auto simp: encode_row_def qh_res split: if_splits)
  obtain body where body: "out = (buf @ b) @ body"
    and read: "\<And>rest. read_message (body @ rest) = map_option ((@) (row_message civil r fs)) (read_message rest)"
    using Cons.IH[OF out] Cons.prems(2,3) by auto
  have "read_message ((b @ body) @ rest) = map_option ((@) (row_message civil r (fe # fs))) (read_message rest)" for rest
    using cell_reads_back[OF b, of "body @ rest"] Cons.prems(2,3)[of fe] i assms(1)
    by (cases "read_message rest") (auto simp: read row_message_def map_filter_simps split: option.split)
  then show ?case using body by (intro exI[of _ "b @ body"]) simp
qed

lemma resolve_fields_numbers:
  assumes "resolve_fields schema = Inr fs"
  shows "length fs = length schema"
    and "i < length schema \<Longrightarrow> fs ! i = \<lparr>fe_name = bf_name (schema ! i), fe_number = i + 1, fe_type = bf_type (schema ! i)\<rparr>"
    and "i < length schema \<Longrightarrow> is_ok (proto_type_for (bf_type (schema ! i)))"
proof -
  have all: "list_all2 (\<lambda>(i, f) fe. (case proto_type_for (bf_type f) of Inl _ \<Rightarrow> False
      | Inr _ \<Rightarrow> fe = \<lparr>fe_name = bf_name f, fe_number = i + 1, fe_type = bf_type f\<rparr>)) (enumerate 0 schema) fs"
    using assms unfolding resolve_fields_def try_map_all2
    by (rule list_all2_mono) (auto simp: qh_res split: sum.splits)
  show l: "length fs = length schema" using list_all2_lengthD[OF all] by simp
  show "fs ! i = \<lparr>fe_name = bf_name (schema ! i), fe_number = i + 1, fe_type = bf_type (schema ! i)\<rparr>"
    and "is_ok (proto_type_for (bf_type (schema ! i)))" if "i < length schema"
    using list_all2_nthD[OF all, of i] that by (auto simp: nth_enumerate_eq split: sum.splits)
qed

lemma message_lookup:
  assumes "resolve_fields schema = Inr fs" "i < length schema"
  shows "map_of (rev (row_message civil r fs)) (i + 1) = wire_of civil (bf_type (schema ! i)) (r ! i)"
proof -
  have number: "fe_number (fs ! j) = j + 1" if "j < length fs" for j
    using resolve_fields_numbers(1,2)[OF assms(1)] that by simp
  then have "map fe_number fs = map Suc [0..<length fs]" by (auto intro: nth_equalityI)
  then have d: "distinct (map fe_number fs)" by (simp add: distinct_map)
  have lookup: "map_of (rev (row_message civil r xs)) (fe_number fe) = wire_of civil (fe_type fe) (r ! (fe_number fe - 1))"
    if "fe \<in> set xs" "distinct (map fe_number xs)" for fe xs
    using that
  proof (induction xs)
    case (Cons x xs)
    have none: "map_of (rev (row_message civil r xs)) (fe_number x) = None" if "fe_number x \<notin> fe_number ` set xs" for x :: field_enc
      using that by (force simp: map_of_eq_None_iff row_message_def List.map_filter_def)
    have "fe_number fe \<noteq> fe_number x" if "fe \<in> set xs" using Cons.prems(2) that by simp (metis image_eqI)
    then show ?case using Cons none[of x] none[of fe]
      by (auto simp: row_message_def map_filter_simps map_add_def split: option.splits)
  qed simp
  have "i < length fs" using assms resolve_fields_numbers(1) by simp
  then have "map_of (rev (row_message civil r fs)) (fe_number (fs ! i)) = wire_of civil (fe_type (fs ! i)) (r ! (fe_number (fs ! i) - 1))"
    using lookup[of "fs ! i" fs] d by simp
  then show ?thesis using resolve_fields_numbers(2)[OF assms] by simp
qed


lemma encode_row_cell:
  assumes "encode_row civil r fs buf = Inr out" "fe \<in> set fs"
  shows "\<exists>b. encode_cell civil (fe_number fe) (fe_type fe) (r ! (fe_number fe - 1)) = Inr b"
  using assms by (induction fs arbitrary: buf) (auto simp: encode_row_def qh_res split: if_splits)

text \<open>C34. Every row the Storage Write encoder sends is read back, by the descriptor sent with it, as exactly the values
  of the row: a NULL as an absent field, zero and empty values as present ones, and each value under
  the name of its column.  Only a UInt64 above the largest i64 wraps.\<close>

theorem proto_row_reads_back:
  assumes "chrono_calendar civil" "resolve_fields schema = Inr fs" "length schema < 2 ^ 31"
    and "list_all2 (\<lambda>f v. array_holds (bf_type f) v) schema r"
    and "encode_row civil r fs [] = Inr buf"
  shows "\<exists>ds. build_proto_descriptor fs = Inr ds \<and> map fd_name ds = map bf_name schema
    \<and> read_proto_row ds buf = Some (map2 (\<lambda>f v. sent_value civil (bf_type f) v) schema r)"
proof -
  note fs = resolve_fields_numbers[OF assms(2)]
  have len: "length r = length schema" using assms(4) by (simp add: list_all2_lengthD)
  define ds where "ds = map (\<lambda>fe. \<lparr>fd_name = fe_name fe, fd_number = fe_number fe,
    fd_type = (case proto_type_for (fe_type fe) of Inr t \<Rightarrow> t | Inl _ \<Rightarrow> PtBool)\<rparr>) fs"
  have ok: "is_ok (proto_type_for (fe_type fe))" if "fe \<in> set fs" for fe
    using that fs by (auto simp: in_set_conv_nth)
  then have ds: "build_proto_descriptor fs = Inr ds"
    unfolding build_proto_descriptor_def try_map_all2 ds_def
    by (auto simp: list_all2_conv_all_nth qh_res split: sum.splits) (metis is_ok.simps nth_mem sum.exhaust)
  have holds: "array_holds (fe_type fe) (r ! (fe_number fe - 1))" if "fe \<in> set fs" for fe
    using that fs assms(4) by (auto simp: in_set_conv_nth list_all2_conv_all_nth)
  have small: "fe_number fe < 2 ^ 32" if "fe \<in> set fs" for fe
    using that fs assms(3) by (auto simp: in_set_conv_nth)
  obtain msg where "buf = [] @ msg" "\<forall>rest. read_message (msg @ rest) = map_option ((@) (row_message civil r fs)) (read_message rest)"
    using encode_row_reads[OF assms(1,5) small holds] by blast
  then have msg: "read_message buf = Some (row_message civil r fs)"
    using read_message.simps[of "[]"] by (metis append.left_neutral append_Nil2 option.simps(9))
  have val: "Option.bind (map_of (rev (row_message civil r fs)) (fd_number (ds ! i))) (read_value (fd_type (ds ! i)))
      = sent_value civil (bf_type (schema ! i)) (r ! i)" if i: "i < length schema" for i
  proof -
    obtain t where t: "proto_type_for (bf_type (schema ! i)) = Inr t" using fs(3)[OF i] by (cases "proto_type_for (bf_type (schema ! i))") auto
    have d: "fd_number (ds ! i) = i + 1" "fd_type (ds ! i) = t" using i fs(1,2) t by (simp_all add: ds_def)
    obtain b where "encode_cell civil (i + 1) (bf_type (schema ! i)) (r ! i) = Inr b"
      using encode_row_cell[OF assms(5) nth_mem[of i fs]] fs(1) fs(2)[OF i] i by auto
    then show ?thesis
      using value_reads_back t assms(4) i message_lookup[OF assms(2) i] by (auto simp: d list_all2_conv_all_nth)
  qed
  show ?thesis
  proof (intro exI conjI)
    show "build_proto_descriptor fs = Inr ds" by (rule ds)
    show "map fd_name ds = map bf_name schema" using fs by (auto simp: ds_def intro: nth_equalityI)
    show "read_proto_row ds buf = Some (map2 (\<lambda>f v. sent_value civil (bf_type f) v) schema r)"
      using val fs(1) len by (auto simp: read_proto_row_def msg ds_def intro!: nth_equalityI)
  qed
qed


definition sample_proto_schema :: "batch_field list" where
  "sample_proto_schema = map (\<lambda>(n, t). \<lparr>bf_name = n, bf_type = t, bf_nullable = True\<rparr>)
     [(''id'', Int64), (''name'', Utf8), (''gone'', Boolean), (''price'', Float32), (''big'', UInt64)]"

definition sample_proto_row :: "cell list" where
  "sample_proto_row = [CInt (- 42), CStr [], CNull, CFloat 1080033280, CInt (2 ^ 64 - 1)]"

theorem proto_row_reads_back_witness:
  "\<exists>fs buf ds. resolve_fields sample_proto_schema = Inr fs
     \<and> encode_row (\<lambda>_. Some (1970, 1, 1)) sample_proto_row fs [] = Inr buf
     \<and> build_proto_descriptor fs = Inr ds
     \<and> read_proto_row ds buf = Some [Some (PInt (- 42)), Some (PStr []), None, Some (PDouble 4615063718147915776), Some (PInt (- 1))]"
proof -
  define fs where "fs = map (\<lambda>(i, f). \<lparr>fe_name = bf_name f, fe_number = i + 1, fe_type = bf_type f\<rparr>) (enumerate 0 sample_proto_schema)"
  have fs: "resolve_fields sample_proto_schema = Inr fs" unfolding fs_def by code_simp
  have "is_ok (encode_row (\<lambda>_. Some (1970, 1, 1)) sample_proto_row fs [])"
    by (simp add: fs_def sample_proto_schema_def sample_proto_row_def encode_row_def encode_cell_def INTEGER_TYPES_def)
  then obtain buf where buf: "encode_row (\<lambda>_. Some (1970, 1, 1)) sample_proto_row fs [] = Inr buf"
    by (cases "encode_row (\<lambda>_. Some (1970, 1, 1)) sample_proto_row fs []") auto
  have cal: "chrono_calendar (\<lambda>_. Some (1970, 1, 1))" by (simp add: chrono_calendar_def)
  have len: "length sample_proto_schema < 2 ^ 31" by (simp add: sample_proto_schema_def)
  have rows: "list_all2 (\<lambda>f v. array_holds (bf_type f) v) sample_proto_schema sample_proto_row"
    by (simp add: sample_proto_schema_def sample_proto_row_def array_holds_def INTEGER_WIDTHS_def in_signed_def in_unsigned_def)
  have sent: "map2 (\<lambda>f v. sent_value (\<lambda>_. Some (1970, 1, 1)) (bf_type f) v) sample_proto_schema sample_proto_row
      = [Some (PInt (- 42)), Some (PStr []), None, Some (PDouble 4615063718147915776), Some (PInt (- 1))]"
    by (simp add: sample_proto_schema_def sample_proto_row_def sent_value_def widen_f32_def Let_def)
  show ?thesis using proto_row_reads_back[OF cal fs len rows buf] fs buf sent by auto
qed

end
