(* ===== verification/QH_Effects.thy ===== *)
theory QH_Effects
  imports QH_Error
begin

text \<open>
  Operations on a world that may fail: an operation takes the world and returns it changed, with a
  result.  An error does not undo what was done before it, as in the code.  \<open>act_seq\<close> is the \<open>?\<close>
  operator after \<open>.await\<close>.  The triples have one postcondition for each kind of result; every
  operation is a total function, so they say that it returns.
\<close>

type_synonym ('w, 'a) act = "'w \<Rightarrow> 'w \<times> 'a res"

definition act_ok :: "'a \<Rightarrow> ('w, 'a) act" where
  "act_ok a w = (w, Inr a)"

definition act_err :: "etl_error \<Rightarrow> ('w, 'a) act" where
  "act_err e w = (w, Inl e)"

definition act_seq :: "('w, 'a) act \<Rightarrow> ('a \<Rightarrow> ('w, 'b) act) \<Rightarrow> ('w, 'b) act" where
  "act_seq m f w = (case m w of (w', Inl e) \<Rightarrow> (w', Inl e) | (w', Inr a) \<Rightarrow> f a w')"

definition act_result :: "('w, 'a) act \<Rightarrow> ('w, 'a res) act" where
  "act_result m w = (case m w of (w', r) \<Rightarrow> (w', Inr r))"

definition act_lift :: "'a res \<Rightarrow> ('w, 'a) act" where
  "act_lift r w = (w, r)"

definition act_get :: "('w \<Rightarrow> 'a) \<Rightarrow> ('w, 'a) act" where
  "act_get f w = (w, Inr (f w))"

definition act_modify :: "('w \<Rightarrow> 'w) \<Rightarrow> ('w, unit) act" where
  "act_modify f w = (f w, Inr ())"

text \<open>What is done on the way out when the first part failed; its own error is dropped.\<close>

definition act_cleanup :: "('w, 'a) act \<Rightarrow> ('w, unit) act \<Rightarrow> ('w, 'a) act" where
  "act_cleanup m c w = (case m w of (w', Inl e) \<Rightarrow> (fst (c w'), Inl e) | (w', Inr a) \<Rightarrow> (w', Inr a))"

fun act_each :: "('a \<Rightarrow> ('w, unit) act) \<Rightarrow> 'a list \<Rightarrow> ('w, unit) act" where
  "act_each f [] = act_ok ()"
| "act_each f (x # xs) = act_seq (f x) (\<lambda>_. act_each f xs)"

lemmas act_defs = act_ok_def act_err_def act_lift_def act_get_def act_modify_def

section \<open>Triples\<close>

definition triple :: "('w \<Rightarrow> bool) \<Rightarrow> ('w, 'a) act \<Rightarrow> ('a \<Rightarrow> 'w \<Rightarrow> bool) \<Rightarrow> (etl_error \<Rightarrow> 'w \<Rightarrow> bool) \<Rightarrow> bool" where
  "triple P m Q E \<longleftrightarrow> (\<forall>w. P w \<longrightarrow> (case m w of (w', Inl e) \<Rightarrow> E e w' | (w', Inr a) \<Rightarrow> Q a w'))"

named_theorems qh_act \<open>the triple of each construct and operation\<close>

lemma tripleI:
  assumes "\<And>w w' a. P w \<Longrightarrow> m w = (w', Inr a) \<Longrightarrow> Q a w'" "\<And>w w' e. P w \<Longrightarrow> m w = (w', Inl e) \<Longrightarrow> E e w'"
  shows "triple P m Q E"
  using assms by (auto simp: triple_def split: prod.split sum.split)

lemma tripleD:
  assumes "triple P m Q E" "P w"
  shows "m w = (w', Inr a) \<Longrightarrow> Q a w'" "m w = (w', Inl e) \<Longrightarrow> E e w'"
  using assms by (auto simp: triple_def split: prod.splits sum.splits)

lemma triple_weaken:
  assumes "triple P m Q E" "\<And>w. P' w \<Longrightarrow> P w" "\<And>a w. Q a w \<Longrightarrow> Q' a w" "\<And>e w. E e w \<Longrightarrow> E' e w"
  shows "triple P' m Q' E'"
  using assms by (fastforce simp: triple_def split: prod.split sum.split)

lemma triple_ok: "(\<And>w. P w \<Longrightarrow> Q a w) \<Longrightarrow> triple P (act_ok a) Q E"
  by (simp add: triple_def act_ok_def)

lemma triple_err: "(\<And>w. P w \<Longrightarrow> E e w) \<Longrightarrow> triple P (act_err e) Q E"
  by (simp add: triple_def act_err_def)

lemma triple_lift:
  "(\<And>w a. P w \<Longrightarrow> r = Inr a \<Longrightarrow> Q a w) \<Longrightarrow> (\<And>w e. P w \<Longrightarrow> r = Inl e \<Longrightarrow> E e w) \<Longrightarrow> triple P (act_lift r) Q E"
  by (cases r) (auto simp: triple_def act_lift_def)

lemma triple_modify: "(\<And>w. P w \<Longrightarrow> Q () (f w)) \<Longrightarrow> triple P (act_modify f) Q E"
  by (simp add: triple_def act_modify_def)

lemma triple_get: "(\<And>w. P w \<Longrightarrow> Q (f w) w) \<Longrightarrow> triple P (act_get f) Q E"
  by (simp add: triple_def act_get_def)

lemma triple_seq:
  assumes "triple P m R E" "\<And>a. triple (R a) (f a) Q E"
  shows "triple P (act_seq m f) Q E"
  unfolding triple_def act_seq_def
proof (intro allI impI)
  fix w assume w: "P w"
  show "case (case m w of (w', Inl e) \<Rightarrow> (w', Inl e) | (w', Inr a) \<Rightarrow> f a w') of
      (w', Inl e) \<Rightarrow> E e w' | (w', Inr a) \<Rightarrow> Q a w'"
  proof (cases "m w")
    case (Pair w' r)
    show ?thesis
    proof (cases r)
      case (Inl e)
      then show ?thesis using tripleD(2)[OF assms(1) w] Pair by simp
    next
      case (Inr a)
      then have "R a w'" using tripleD(1)[OF assms(1) w] Pair by simp
      then show ?thesis using assms(2)[of a] Pair Inr by (simp add: triple_def)
    qed
  qed
qed

lemma triple_result:
  assumes "triple P m (\<lambda>a. Q (Inr a)) (\<lambda>e. Q (Inl e))"
  shows "triple P (act_result m) Q E"
proof (rule tripleI)
  fix w w' r assume "P w" "act_result m w = (w', Inr r)"
  then show "Q r w'"
    using tripleD[OF assms, of w w'] by (cases r) (auto simp: act_result_def split: prod.splits)
qed (auto simp: act_result_def split: prod.splits)

lemma triple_cleanup:
  assumes "triple P m Q E'" "\<And>e. triple (E' e) c (\<lambda>_. E e) (\<lambda>_. E e)"
  shows "triple P (act_cleanup m c) Q E"
  unfolding triple_def act_cleanup_def
proof (intro allI impI)
  fix w assume w: "P w"
  show "case (case m w of (w', Inl e) \<Rightarrow> (fst (c w'), Inl e) | (w', Inr a) \<Rightarrow> (w', Inr a)) of
      (w', Inl e) \<Rightarrow> E e w' | (w', Inr a) \<Rightarrow> Q a w'"
  proof (cases "m w")
    case (Pair w' r)
    show ?thesis
    proof (cases r)
      case (Inl e)
      then have "E' e w'" using tripleD(2)[OF assms(1) w] Pair by simp
      then have "E e (fst (c w'))"
        using assms(2)[of e] by (cases "c w'"; cases "snd (c w')") (auto simp: triple_def split: prod.splits)
      then show ?thesis using Pair Inl by simp
    next
      case (Inr a)
      then show ?thesis using tripleD(1)[OF assms(1) w] Pair by simp
    qed
  qed
qed

lemma triple_each:
  assumes "\<And>x. x \<in> set xs \<Longrightarrow> triple I (f x) (\<lambda>_. I) E"
  shows "triple I (act_each f xs) (\<lambda>_. I) E"
  using assms by (induction xs) (auto intro!: triple_ok intro: triple_seq)

lemma triple_if: "(b \<Longrightarrow> triple P m Q E) \<Longrightarrow> (\<not> b \<Longrightarrow> triple P n Q E) \<Longrightarrow> triple P (if b then m else n) Q E"
  by simp

lemma triple_conj:
  "triple P m Q E \<Longrightarrow> triple P' m Q' E' \<Longrightarrow>
    triple (\<lambda>w. P w \<and> P' w) m (\<lambda>a w. Q a w \<and> Q' a w) (\<lambda>e w. E e w \<and> E' e w)"
  by (auto simp: triple_def split: prod.splits sum.splits)

lemma triple_fix:
  assumes "\<And>w0. P w0 \<Longrightarrow> triple (\<lambda>w. w = w0) m (Q w0) (E w0)"
  shows "triple P m (\<lambda>a w. \<exists>w0. P w0 \<and> Q w0 a w) (\<lambda>e w. \<exists>w0. P w0 \<and> E w0 e w)"
  using assms by (fastforce simp: triple_def split: prod.splits sum.splits)

section \<open>An operation on a part of a larger world\<close>

definition act_on :: "('v \<Rightarrow> 'w) \<Rightarrow> ('w \<Rightarrow> 'v \<Rightarrow> 'v) \<Rightarrow> ('w, 'a) act \<Rightarrow> ('v, 'a) act" where
  "act_on part put m v = (case m (part v) of (w', r) \<Rightarrow> (put w' v, r))"

lemma triple_on:
  assumes "\<And>v. P v \<Longrightarrow> triple (\<lambda>w. w = part v) m (\<lambda>a w. Q a (put w v)) (\<lambda>e w. E e (put w v))"
  shows "triple P (act_on part put m) Q E"
  using assms by (fastforce simp: triple_def act_on_def split: prod.splits sum.splits)

end
