(* ===== verification/QH_Sink.thy ===== *)
theory QH_Sink
  imports QH_Warnings QH_Effects
begin

text \<open>
  The destination seam (\<open>sink/mod.rs\<close>): the trait \<open>Sink\<close> as a record of operations on a world \<open>'w\<close>,
  the helpers that compare column names, and the checks \<open>sync.rs\<close> makes of the existing destination
  before it writes.  A run's own state (\<open>run\<close>) is the sink's world, the warning collector and the
  counters.  Warning texts are their first words.
\<close>

section \<open>Comparing columns\<close>

definition column_key :: "string \<Rightarrow> bool \<Rightarrow> string" where
  "column_key name case_insensitive = (if case_insensitive then lowercase name else name)"

definition missing_columns :: "string list \<Rightarrow> column_type list \<Rightarrow> bool \<Rightarrow> column_type list" where
  "missing_columns existing desired ci =
     (let have = set (map (\<lambda>s. column_key s ci) existing)
      in filter (\<lambda>c. column_key (ct_name c) ci \<notin> have) desired)"

definition dropped_columns :: "string list \<Rightarrow> column_type list \<Rightarrow> bool \<Rightarrow> string list" where
  "dropped_columns existing written ci =
     (if existing = [] then [] else map ct_name (missing_columns existing written ci))"

definition unsourced_columns :: "string list \<Rightarrow> column_type list \<Rightarrow> bool \<Rightarrow> string list" where
  "unsourced_columns existing written ci =
     (let fed = set (map (\<lambda>c. column_key (ct_name c) ci) written)
      in filter (\<lambda>name. column_key name ci \<notin> fed) existing)"

text \<open>Adding what is missing leaves nothing to drop, and the two directions together say that the
  tables have the same columns.\<close>

lemma no_column_dropped_after_adding:
  "dropped_columns (existing @ map ct_name (missing_columns existing written ci)) written ci = []"
  by (auto simp: dropped_columns_def missing_columns_def Let_def filter_empty_conv)

lemma columns_agree_iff:
  assumes "existing \<noteq> []"
  shows "dropped_columns existing written ci = [] \<and> unsourced_columns existing written ci = []
    \<longleftrightarrow> (\<lambda>n. column_key n ci) ` set existing = (\<lambda>c. column_key (ct_name c) ci) ` set written"
  using assms by (auto simp: dropped_columns_def missing_columns_def unsourced_columns_def Let_def filter_empty_conv)

section \<open>The trait\<close>

record 'w sink_ops =
  so_kind :: dest_kind
  so_namespace :: string
  so_requires_staging :: bool
  so_refresh_names_columns :: bool
  so_stages_direct_writes :: bool
  so_stages_from_destination :: bool
  so_deletes_within_merge :: bool
  so_supports_row_delete :: bool
  so_table_exists :: "string \<Rightarrow> ('w, bool) act"
  so_column_types :: "string \<Rightarrow> ('w, (string \<times> string) list option) act"
  so_create_table :: "transfer_config \<Rightarrow> string \<Rightarrow> column_type list \<Rightarrow> ('w, unit) act"
  so_clone_structure :: "string \<Rightarrow> string \<Rightarrow> ('w, unit) act"
  so_insert :: "string \<Rightarrow> string \<Rightarrow> batch list \<Rightarrow> ('w, nat) act"
  so_atomic_swap :: "string \<Rightarrow> string \<Rightarrow> column_type list \<Rightarrow> ('w, unit) act"
  so_row_count :: "string \<Rightarrow> ('w, nat option) act"
  so_merged_count :: "string \<Rightarrow> ('w, nat option) act"
  so_drop_table :: "string \<Rightarrow> ('w, unit) act"
  so_ensure_state :: "string \<Rightarrow> ('w, unit) act"
  so_persist_watermark :: "transfer_config \<Rightarrow> string \<Rightarrow> nat \<Rightarrow> ('w, unit) act"
  so_add_missing :: "transfer_config \<Rightarrow> string \<Rightarrow> column_type list \<Rightarrow> ('w, string list) act"
  so_unsourced :: "string \<Rightarrow> column_type list \<Rightarrow> ('w, string list) act"
  so_dropped :: "string \<Rightarrow> column_type list \<Rightarrow> ('w, string list) act"
  so_non_replacing :: "transfer_config \<Rightarrow> string \<Rightarrow> ('w, string option) act"
  so_canonical_type :: "string \<Rightarrow> ('w, string option) act"
  so_check_write :: "transfer_config \<Rightarrow> string \<Rightarrow> column_type list \<Rightarrow> ('w, unit) act"
  so_merge_into :: "transfer_config \<Rightarrow> string \<Rightarrow> string \<Rightarrow> column_type list \<Rightarrow> ('w, unit) act"
  so_write_warnings :: "('w, transfer_warning list) act"
  so_stage_for_retries :: "transfer_config \<Rightarrow> string \<Rightarrow> ('w, bool) act"
  so_insert_select :: "string \<Rightarrow> string \<Rightarrow> column_type list \<Rightarrow> ('w, unit) act"
  so_clustering :: "string \<Rightarrow> ('w, string list option) act"
  so_delete_stale :: "string \<Rightarrow> string \<Rightarrow> string list \<Rightarrow> string \<Rightarrow> ('w, nat) act"

text \<open>What an operation the destination leaves at its default answers.\<close>

definition unsupported :: "string \<Rightarrow> ('w, 'a) act" where
  "unsupported what = act_err (Internal (what @ '': this destination does not support it''))"

section \<open>The state of a run\<close>

record 'w run =
  rn_sink :: 'w
  rn_warnings :: warnings
  rn_rows_read :: nat
  rn_rows_written :: nat
  rn_bytes_written :: nat
  rn_landed :: nat

definition new_run :: "'w \<Rightarrow> transfer_warning list \<Rightarrow> 'w run" where
  "new_run w carried = \<lparr>rn_sink = w, rn_warnings = foldl (\<lambda>ws t. push_warning t ws) no_warnings carried,
     rn_rows_read = 0, rn_rows_written = 0, rn_bytes_written = 0, rn_landed = 0\<rparr>"

definition on_sink :: "('w, 'a) act \<Rightarrow> ('w run, 'a) act" where
  "on_sink m = act_on rn_sink (\<lambda>w r. r\<lparr>rn_sink := w\<rparr>) m"

definition warn :: "transfer_warning \<Rightarrow> ('w run, unit) act" where
  "warn t = act_modify (\<lambda>r. r\<lparr>rn_warnings := push_warning t (rn_warnings r)\<rparr>)"

definition check_point :: "'w sink_ops \<Rightarrow> transfer_config \<Rightarrow> checkpoint \<Rightarrow> ('w run, unit) act" where
  "check_point ops cfg cp =
     act_seq (on_sink (so_write_warnings ops)) (\<lambda>written r.
       case check_fatal cfg written (rn_warnings r) cp of (ws, res) \<Rightarrow> (r\<lparr>rn_warnings := ws\<rparr>, res))"

section \<open>Checks of the existing destination\<close>

fun unsourced_effect :: "dest_kind \<Rightarrow> sync_mode \<Rightarrow> string" where
  "unsourced_effect DestClickHouse Incremental = ''Every row this run writes sets it to the type's default''"
| "unsourced_effect DestBigQuery Incremental = ''The MERGE keeps it on rows this run updates and sets it NULL on rows it inserts''"
| "unsourced_effect DestClickHouse Full = ''The refresh rebuilds every row without it, so every row ends up with the type's default''"
| "unsourced_effect DestBigQuery Full = ''The refresh rebuilds every row without it, so every row ends up NULL there''"
| "unsourced_effect DestClickHouse Append = ''Every row this run appends gets the type's default there''"
| "unsourced_effect DestBigQuery Append = ''Every row this run appends gets NULL there''"
| "unsourced_effect DestCsv _ = ''The part files this run writes have no such column''"

definition warn_on_unsourced_columns :: "'w sink_ops \<Rightarrow> transfer_config \<Rightarrow> column_type list \<Rightarrow> ('w run, unit) act" where
  "warn_on_unsourced_columns ops cfg cols =
     act_seq (on_sink (so_unsourced ops (cfg_dest_table cfg) cols)) (act_each (\<lambda>column.
       warn \<lparr>tw_kind = UnsourcedDestinationColumn, tw_column = Some column, tw_count = 0, tw_sample = None,
         tw_message = ''destination column '' @ quoted column @ '' of '' @ quoted (cfg_dest_table cfg)
           @ '' gets no value from this run. '' @ unsourced_effect (so_kind ops) (cfg_mode cfg)\<rparr>))"

definition dropped_column_message :: "transfer_config \<Rightarrow> string \<Rightarrow> string \<Rightarrow> string" where
  "dropped_column_message cfg source column =
     (if source = column then ''source column '' @ quoted source
      else ''source column '' @ quoted source @ '' (renamed '' @ quoted column @ '')'')
     @ '' has no column in '' @ quoted (cfg_dest_table cfg) @ '' to land in. ''
     @ (case cfg_mode cfg of Full \<Rightarrow> ''The refreshed table has no such column''
        | _ \<Rightarrow> ''Turning evolve_schema on later adds the column but leaves it NULL on the rows this run writes'')"

definition source_of_column :: "select_plan \<Rightarrow> string \<Rightarrow> string" where
  "source_of_column pl column =
     (case find (\<lambda>(c, _). ct_name c = column) (zip (sp_dest_columns pl) (sp_source_columns pl)) of
        Some (_, s) \<Rightarrow> s | None \<Rightarrow> column)"

definition warn_on_dropped_columns :: "'w sink_ops \<Rightarrow> transfer_config \<Rightarrow> select_plan \<Rightarrow> bool \<Rightarrow> ('w run, unit) act" where
  "warn_on_dropped_columns ops cfg pl staged =
     (if cfg_evolve_schema cfg \<or> (cfg_mode cfg = Incremental \<and> staged) then act_ok ()
      else act_seq (on_sink (so_dropped ops (cfg_dest_table cfg) (sp_dest_columns pl))) (act_each (\<lambda>column.
        let source = source_of_column pl column in
        warn \<lparr>tw_kind = DroppedSourceColumn, tw_column = Some source, tw_count = 0, tw_sample = None,
          tw_message = dropped_column_message cfg source column\<rparr>)))"

text \<open>White space outside quotes is dropped; the quote itself is kept.\<close>

fun outside_quotes :: "bool \<Rightarrow> string \<Rightarrow> string" where
  "outside_quotes q [] = []"
| "outside_quotes q (c # cs) =
     (let q' = (if c = APOS then \<not> q else q)
      in (if q' \<or> \<not> is_ws c then [c] else []) @ outside_quotes q' cs)"

definition unwrapped :: "string \<Rightarrow> string \<Rightarrow> string \<Rightarrow> string option" where
  "unwrapped before after s = Option.bind (strip_prefix before s) (strip_suffix after)"

definition normalized_clickhouse_type :: "string \<Rightarrow> string" where
  "normalized_clickhouse_type t =
     (let out = outside_quotes False (trim t);
          out = (case unwrapped ''Nullable('' '')'' out of Some inner \<Rightarrow> inner | None \<Rightarrow> out)
      in case unwrapped ''LowCardinality(Nullable('' ''))'' out of
           Some inner \<Rightarrow> ''LowCardinality('' @ inner @ '')'' | None \<Rightarrow> out)"

definition bigquery_alias :: "string \<Rightarrow> string" where
  "bigquery_alias base =
     (if base = ''INT64'' then ''INTEGER'' else if base = ''FLOAT64'' then ''FLOAT''
      else if base = ''BOOL'' then ''BOOLEAN'' else if base = ''STRUCT'' then ''RECORD''
      else if base = ''DECIMAL'' then ''NUMERIC'' else if base = ''BIGDECIMAL'' then ''BIGNUMERIC'' else base)"

definition normalized_bigquery_type :: "string \<Rightarrow> string" where
  "normalized_bigquery_type t =
     (let t = uppercase (filter (\<lambda>c. \<not> is_ws c) t)
      in bigquery_alias (takeWhile (\<lambda>c. c \<noteq> CHR ''('') t) @ dropWhile (\<lambda>c. c \<noteq> CHR ''('') t)"

fun same_column_type :: "dest_kind \<Rightarrow> string \<Rightarrow> string \<Rightarrow> bool" where
  "same_column_type DestClickHouse a b \<longleftrightarrow> normalized_clickhouse_type a = normalized_clickhouse_type b"
| "same_column_type DestBigQuery a b \<longleftrightarrow> normalized_bigquery_type a = normalized_bigquery_type b"
| "same_column_type DestCsv a b \<longleftrightarrow> a = b"

datatype ignored_by = ByTypeOverrides | ByNumericAsDecimal

text \<open>The override that speaks of a planned column: by source name, then by destination name, then
  \<open>numeric_as_decimal\<close>, as (setting, key, type asked for).\<close>

definition speaks_of :: "transfer_config \<Rightarrow> (string \<times> string) list \<Rightarrow> string \<Rightarrow> column_type
    \<Rightarrow> (ignored_by \<times> string \<times> string) option" where
  "speaks_of cfg overrides source column =
     (case or_else (map_option (Pair source) (map_of overrides source))
             (map_option (Pair (ct_name column)) (map_of overrides (ct_name column))) of
        Some (key, asked) \<Rightarrow> Some (ByTypeOverrides, key, asked)
      | None \<Rightarrow>
          if ct_arbitrary_precision_decimal column \<and> map_of (cfg_type_overrides cfg) source = None
             \<and> map_of (cfg_type_overrides cfg) (ct_name column) = None
          then map_option (\<lambda>nad. (ByNumericAsDecimal, ct_name column, nad)) (cfg_numeric_as_decimal cfg)
          else None)"

definition existing_type :: "dest_kind \<Rightarrow> (string \<times> string) list \<Rightarrow> string \<Rightarrow> string option" where
  "existing_type kind existing name =
     (case map_of existing name of
        Some t \<Rightarrow> Some t
      | None \<Rightarrow> if kind = DestBigQuery then map_option snd (find (\<lambda>(n, _). eq_ignore_case n name) existing) else None)"

text \<open>The name a table column type has in BigQuery's API.\<close>

fun bq_api_name :: "bq_type \<Rightarrow> string" where
  "bq_api_name BqBoolean = ''BOOLEAN''"
| "bq_api_name BqInteger = ''INTEGER''"
| "bq_api_name BqFloat = ''FLOAT''"
| "bq_api_name BqString = ''STRING''"
| "bq_api_name BqBytes = ''BYTES''"
| "bq_api_name BqDate = ''DATE''"
| "bq_api_name BqDatetime = ''DATETIME''"
| "bq_api_name BqTimestamp = ''TIMESTAMP''"
| "bq_api_name _ = ''NUMERIC''"

fun wanted_type :: "dest_kind \<Rightarrow> ignored_by \<Rightarrow> column_type \<Rightarrow> string \<Rightarrow> string option" where
  "wanted_type DestClickHouse _ column asked = Some (ct_clickhouse_inner column)"
| "wanted_type DestCsv _ column asked = None"
| "wanted_type DestBigQuery ByTypeOverrides column asked = Some asked"
| "wanted_type DestBigQuery ByNumericAsDecimal column asked =
     map_option bq_api_name (arrow_to_bigquery_type (ct_arrow column))"

definition ignored_override_message :: "transfer_config \<Rightarrow> ignored_by \<Rightarrow> string \<Rightarrow> string \<Rightarrow> string \<Rightarrow> string \<Rightarrow> string" where
  "ignored_override_message cfg by' key asked column has =
     (case by' of ByTypeOverrides \<Rightarrow> ''type_overrides'' | ByNumericAsDecimal \<Rightarrow> ''numeric_as_decimal'')
     @ '' asks for ''
     @ (if key = column then ''column '' @ quoted column else ''column '' @ quoted key @ '' (renamed '' @ quoted column @ '')'')
     @ '' to be '' @ quoted asked @ '', but destination '' @ quoted (cfg_dest_table cfg) @ '' already has it as '' @ quoted has"

definition check_override :: "'w sink_ops \<Rightarrow> transfer_config \<Rightarrow> (string \<times> string) list \<Rightarrow> (string \<times> string) list
    \<Rightarrow> string \<times> column_type \<Rightarrow> ('w run, unit) act" where
  "check_override ops cfg overrides existing sc =
     (let (source, column) = sc in
      case (speaks_of cfg overrides source column, existing_type (so_kind ops) existing (ct_name column)) of
        (Some (by', key, asked), Some has) \<Rightarrow>
          (case wanted_type (so_kind ops) by' column asked of
             None \<Rightarrow> act_ok ()
           | Some wanted \<Rightarrow>
               if same_column_type (so_kind ops) wanted has then act_ok ()
               else act_seq (act_result (on_sink (so_canonical_type ops wanted))) (\<lambda>canonical.
                 if (case canonical of Inr (Some c) \<Rightarrow> same_column_type (so_kind ops) c has | _ \<Rightarrow> False) then act_ok ()
                 else warn \<lparr>tw_kind = IgnoredTypeOverride, tw_column = Some key, tw_count = 0, tw_sample = Some has,
                        tw_message = ignored_override_message cfg by' key asked (ct_name column) has\<rparr>))
      | _ \<Rightarrow> act_ok ())"

definition warn_on_ignored_overrides :: "'w sink_ops \<Rightarrow> transfer_config \<Rightarrow> select_plan \<Rightarrow> (string \<times> string) list
    \<Rightarrow> ('w run, unit) act" where
  "warn_on_ignored_overrides ops cfg pl overrides =
     (if overrides = [] \<and> cfg_numeric_as_decimal cfg = None then act_ok ()
      else act_seq (on_sink (so_column_types ops (cfg_dest_table cfg))) (\<lambda>types.
        case types of
          None \<Rightarrow> act_ok ()
        | Some existing \<Rightarrow>
            act_each (check_override ops cfg overrides existing) (zip (sp_source_columns pl) (sp_dest_columns pl))))"

definition warn_on_non_replacing_target :: "'w sink_ops \<Rightarrow> transfer_config \<Rightarrow> bool \<Rightarrow> ('w run, unit) act" where
  "warn_on_non_replacing_target ops cfg from_start =
     (if cfg_mode cfg \<noteq> Incremental \<or> cfg_key cfg = [] then act_ok ()
      else act_seq (on_sink (so_non_replacing ops cfg (cfg_dest_table cfg))) (\<lambda>engine.
        case engine of
          None \<Rightarrow> act_ok ()
        | Some e \<Rightarrow> warn \<lparr>tw_kind = NonReplacingIncrementalTarget, tw_column = None, tw_count = 0, tw_sample = Some e,
            tw_message = ''destination '' @ quoted (cfg_dest_table cfg) @ '' is a '' @ e
              @ '', which doesn't replace a stored row with a newer one of the same key''
              @ (if from_start then '' (with no cursor to start from, this run writes the whole source)'' else [])\<rparr>))"

definition warn_on_destination :: "'w sink_ops \<Rightarrow> transfer_config \<Rightarrow> select_plan \<Rightarrow> bool \<Rightarrow> bool
    \<Rightarrow> (string \<times> string) list \<Rightarrow> ('w run, unit) act" where
  "warn_on_destination ops cfg pl staged from_start overrides =
     act_seq (on_sink (so_check_write ops cfg (cfg_dest_table cfg) (sp_dest_columns pl))) (\<lambda>_.
     act_seq (warn_on_unsourced_columns ops cfg (sp_dest_columns pl)) (\<lambda>_.
     act_seq (warn_on_dropped_columns ops cfg pl staged) (\<lambda>_.
     act_seq (warn_on_ignored_overrides ops cfg pl overrides) (\<lambda>_.
       warn_on_non_replacing_target ops cfg from_start))))"

end
