(* ===== verification/QH_Transfer.thy ===== *)
theory QH_Transfer
  imports QH_Sink QH_Watermark
begin

text \<open>
  The write side of a transfer (\<open>run_transfer\<close> and \<open>run_transfer_impl\<close> of \<open>sync.rs\<close>): the target
  table, the read phase as the inserts that reach the sink, the promotion of what was staged, the
  cursor, the clean-up, and the attempts of a run.  Reading, planning and the choice of the cursor are
  their own theories; here they are the fields of \<open>transfer_plan\<close>.  Chunked reads are \<open>QH_Chunk\<close>.
\<close>

section \<open>What a run is given\<close>

record read_event =
  ev_stream :: string
  ev_read :: nat
  ev_batches :: "batch list"

text \<open>The inserts in the order the sink takes them, the warnings of the read, and the error that ended
  it.  Inserts already in flight when one fails may still land, so the events after a failure count.\<close>

record read_phase =
  rp_events :: "read_event list"
  rp_collected :: "collector_op list"
  rp_error :: "etl_error option"

record staged_info =
  si_table :: string
  si_database :: string
  si_kind :: dest_kind
  si_rows :: nat

record transfer_plan =
  tp_select :: select_plan
  tp_staging :: string
  tp_force_stage :: bool
  tp_gate :: "(staged_info \<Rightarrow> unit res) option"
  tp_overrides :: "(string \<times> string) list"
  tp_from_start :: bool
  tp_discarded :: bool
  tp_read :: read_phase
  tp_watermark_read :: bool
  tp_bounded_below :: bool
  tp_cursor :: "string option"
  tp_cursor_warnings :: "transfer_warning list"

record transfer_result =
  tr_rows_read :: nat
  tr_rows_written :: nat
  tr_bytes_written :: nat
  tr_rows_deleted :: nat
  tr_new_watermark :: "string option"
  tr_warnings :: "transfer_warning list"
  tr_failed_attempts :: nat

section \<open>The target table\<close>

definition ensure_destination :: "'w sink_ops \<Rightarrow> transfer_config \<Rightarrow> column_type list \<Rightarrow> bool \<Rightarrow> ('w run, bool) act" where
  "ensure_destination ops cfg cols evolve =
     act_seq (on_sink (so_table_exists ops (cfg_dest_table cfg))) (\<lambda>existed.
     act_seq
       (if \<not> existed then
          (if cfg_create_if_missing cfg then on_sink (so_create_table ops cfg (cfg_dest_table cfg) cols)
           else act_err (Config (''destination table '' @ cfg_dest_table cfg @ '' does not exist and create_if_missing=false'')))
        else if evolve then act_seq (on_sink (so_add_missing ops cfg (cfg_dest_table cfg) cols)) (\<lambda>_. act_ok ())
        else act_ok ())
       (\<lambda>_. act_ok existed))"

definition create_staging :: "'w sink_ops \<Rightarrow> transfer_config \<Rightarrow> column_type list \<Rightarrow> string \<Rightarrow> bool \<Rightarrow> ('w run, unit) act" where
  "create_staging ops cfg cols staging existed =
     (if existed \<and> so_stages_from_destination ops then on_sink (so_clone_structure ops staging (cfg_dest_table cfg))
      else on_sink (so_create_table ops cfg staging cols))"

definition prepare_target :: "'w sink_ops \<Rightarrow> transfer_config \<Rightarrow> column_type list \<Rightarrow> string \<Rightarrow> bool
    \<Rightarrow> ('w run, string \<times> bool) act" where
  "prepare_target ops cfg cols staging force =
     (let dest = cfg_dest_table cfg in
      case cfg_mode cfg of
        Full \<Rightarrow>
          act_seq (ensure_destination ops cfg cols (cfg_evolve_schema cfg \<and> so_refresh_names_columns ops)) (\<lambda>existed.
          act_seq (create_staging ops cfg cols staging existed) (\<lambda>_.
          act_seq (if existed \<and> so_stages_from_destination ops \<and> cfg_evolve_schema cfg
                   then act_seq (on_sink (so_add_missing ops cfg staging cols)) (\<lambda>_. act_ok ()) else act_ok ()) (\<lambda>_.
          act_ok (staging, \<not> existed))))
      | Incremental \<Rightarrow>
          if so_requires_staging ops \<and> cfg_key cfg = []
          then act_err (Config ''key is required for incremental mode with this destination'')
          else act_seq (ensure_destination ops cfg cols (cfg_evolve_schema cfg)) (\<lambda>existed.
               act_seq (on_sink (so_ensure_state ops (cfg_state_table_name cfg))) (\<lambda>_.
               if so_requires_staging ops \<or> force
               then act_seq (create_staging ops cfg cols staging existed) (\<lambda>_. act_ok (staging, \<not> existed))
               else act_ok (dest, \<not> existed)))
      | Append \<Rightarrow>
          act_seq (ensure_destination ops cfg cols (cfg_evolve_schema cfg)) (\<lambda>existed.
          act_seq (on_sink (so_ensure_state ops (cfg_state_table_name cfg))) (\<lambda>_.
          if force then act_seq (create_staging ops cfg cols staging existed) (\<lambda>_. act_ok (staging, \<not> existed))
          else act_ok (dest, \<not> existed))))"

definition clear_discarded :: "'w sink_ops \<Rightarrow> transfer_config \<Rightarrow> ('w run, unit) act" where
  "clear_discarded ops cfg =
     (if \<not> cfg_advance_watermark cfg then act_ok ()
      else act_seq (on_sink (so_ensure_state ops (cfg_state_table_name cfg))) (\<lambda>_.
        on_sink (so_persist_watermark ops cfg [] 0)))"

definition staging_name :: "string \<Rightarrow> string \<Rightarrow> string \<Rightarrow> string" where
  "staging_name dest suffix run_id = dest @ suffix @ ''_'' @ run_id"

section \<open>The read phase\<close>

definition event_rows :: "read_event \<Rightarrow> nat" where
  "event_rows ev = sum_list (map (\<lambda>b. length (bt_rows b)) (ev_batches ev))"

definition insert_event :: "'w sink_ops \<Rightarrow> string \<Rightarrow> bool \<Rightarrow> read_event \<Rightarrow> ('w run, unit) act" where
  "insert_event ops target direct ev =
     act_seq (act_modify (\<lambda>r. r\<lparr>rn_rows_read := rn_rows_read r + ev_read ev\<rparr>)) (\<lambda>_.
     act_seq (on_sink (so_insert ops target (ev_stream ev) (ev_batches ev))) (\<lambda>bytes.
       act_modify (\<lambda>r. r\<lparr>rn_rows_written := rn_rows_written r + event_rows ev,
         rn_bytes_written := rn_bytes_written r + bytes,
         rn_landed := rn_landed r + (if direct then event_rows ev else 0)\<rparr>)))"

fun run_events :: "(read_event \<Rightarrow> ('w run, unit) act) \<Rightarrow> read_event list \<Rightarrow> ('w run, unit) act" where
  "run_events f [] r = (r, Inr ())"
| "run_events f (ev # evs) r =
     (case f ev r of
        (r', Inl e) \<Rightarrow> (fst (run_events f evs r'), Inl e)
      | (r', Inr _) \<Rightarrow> run_events f evs r')"

definition read_source :: "'w sink_ops \<Rightarrow> string \<Rightarrow> bool \<Rightarrow> read_phase \<Rightarrow> ('w run, unit) act" where
  "read_source ops target direct rp =
     act_seq (act_modify (\<lambda>r. r\<lparr>rn_warnings := foldl collect (rn_warnings r) (rp_collected rp)\<rparr>)) (\<lambda>_.
     act_seq (run_events (insert_event ops target direct) (rp_events rp)) (\<lambda>_.
       case rp_error rp of None \<Rightarrow> act_ok () | Some e \<Rightarrow> act_err e))"

section \<open>Promotion\<close>

definition run_staged_validation :: "(staged_info \<Rightarrow> unit res) option \<Rightarrow> 'w sink_ops \<Rightarrow> string \<Rightarrow> nat \<Rightarrow> ('w run, unit) act" where
  "run_staged_validation gate ops staging rows =
     (case gate of
        None \<Rightarrow> act_ok ()
      | Some cb \<Rightarrow> act_lift (cb \<lparr>si_table = staging, si_database = so_namespace ops, si_kind = so_kind ops, si_rows = rows\<rparr>))"

datatype shrink_verdict = Proceed | ProceedWithWarning nat nat | Refuse nat nat

definition full_refresh_shrink_verdict :: "nat option \<Rightarrow> nat \<Rightarrow> bool \<Rightarrow> shrink_verdict" where
  "full_refresh_shrink_verdict existing new_rows allow_shrink =
     (case existing of
        None \<Rightarrow> Proceed
      | Some n \<Rightarrow>
          if n \<le> new_rows then Proceed
          else if allow_shrink then ProceedWithWarning n (n - new_rows) else Refuse n (n - new_rows))"

definition merged_counts :: "'w sink_ops \<Rightarrow> string \<Rightarrow> string \<Rightarrow> ('w run, (nat \<times> nat) option) act" where
  "merged_counts ops dest staging =
     act_seq (act_result
       (act_seq (on_sink (so_merged_count ops dest)) (\<lambda>d.
          case d of
            None \<Rightarrow> act_ok None
          | Some n \<Rightarrow> act_seq (on_sink (so_merged_count ops staging)) (\<lambda>s. act_ok (map_option (Pair n) s)))))
       (\<lambda>counts. act_ok (case counts of Inr c \<Rightarrow> c | Inl _ \<Rightarrow> None))"

definition shrink_text :: "transfer_config \<Rightarrow> nat \<Rightarrow> nat \<Rightarrow> nat \<Rightarrow> nat \<Rightarrow> string" where
  "shrink_text cfg existing new_rows lost left_out =
     ''REPLACE '' @ quoted (cfg_dest_table cfg) @ '' ('' @ show_nat existing @ '' row(s)) with only '' @ show_nat new_rows
     @ '' row(s), shrinking the destination by '' @ show_nat lost
     @ (if left_out = 0 then [] else '' This run read '' @ show_nat left_out @ '' row(s) it left out for a NULL key or watermark'')"

definition guard_full_refresh_shrink :: "'w sink_ops \<Rightarrow> transfer_config \<Rightarrow> string \<Rightarrow> nat \<Rightarrow> ('w run, unit) act" where
  "guard_full_refresh_shrink ops cfg staging new_rows =
     act_seq (act_result (on_sink (so_row_count ops (cfg_dest_table cfg)))) (\<lambda>counted.
       case counted of
         Inl _ \<Rightarrow> act_ok ()
       | Inr existing \<Rightarrow>
           act_seq (if (case existing of Some n \<Rightarrow> new_rows < n | None \<Rightarrow> False)
                    then merged_counts ops (cfg_dest_table cfg) staging else act_ok None) (\<lambda>merged.
           let (existing, new_rows) = (case merged of Some (dest, staged) \<Rightarrow> (Some dest, staged) | None \<Rightarrow> (existing, new_rows))
           in act_seq (act_get (\<lambda>r. left_out_total (rn_warnings r))) (\<lambda>left_out.
              case full_refresh_shrink_verdict existing new_rows (cfg_allow_full_refresh_shrink cfg) of
                Proceed \<Rightarrow> act_ok ()
              | ProceedWithWarning n lost \<Rightarrow>
                  warn \<lparr>tw_kind = FullRefreshShrink, tw_column = None, tw_count = lost, tw_sample = None,
                    tw_message = ''full-refresh will '' @ shrink_text cfg n new_rows lost left_out\<rparr>
              | Refuse n lost \<Rightarrow>
                  act_err (Config (''refusing full-refresh: swapping staging would '' @ shrink_text cfg n new_rows lost left_out)))))"

definition warn_unclustered_merge_target :: "'w sink_ops \<Rightarrow> transfer_config \<Rightarrow> ('w run, unit) act" where
  "warn_unclustered_merge_target ops cfg =
     (if cfg_key cfg = [] then act_ok ()
      else act_seq (act_result (on_sink (so_clustering ops (cfg_dest_table cfg)))) (\<lambda>clustering.
        case clustering of
          Inl _ \<Rightarrow> act_ok ()
        | Inr cols \<Rightarrow>
            if clustering_binds cols (cfg_key cfg) then act_ok ()
            else warn \<lparr>tw_kind = UnclusteredMergeTarget, tw_column = None, tw_count = 0,
                   tw_sample = map_option (join '', '') cols,
                   tw_message = quoted (cfg_dest_table cfg) @ '' is ''
                     @ (case cols of Some (c # cs) \<Rightarrow> ''clustered by '' @ join '', '' (c # cs) | _ \<Rightarrow> ''not clustered at all'')
                     @ '', but this run MERGEs on '' @ join '', '' (cfg_key cfg)\<rparr>))"

text \<open>The merge and the check of the clustering run side by side; the check never fails.\<close>

definition merge_staged :: "'w sink_ops \<Rightarrow> transfer_config \<Rightarrow> string \<Rightarrow> column_type list \<Rightarrow> ('w run, unit) act" where
  "merge_staged ops cfg staging cols =
     act_seq (act_result (on_sink (so_merge_into ops cfg (cfg_dest_table cfg) staging cols))) (\<lambda>merged.
     act_seq (warn_unclustered_merge_target ops cfg) (\<lambda>_. act_lift merged))"

definition promote_staged_incremental :: "'w sink_ops \<Rightarrow> transfer_config \<Rightarrow> (staged_info \<Rightarrow> unit res) option
    \<Rightarrow> string \<Rightarrow> column_type list \<Rightarrow> nat \<Rightarrow> ('w run, nat) act" where
  "promote_staged_incremental ops cfg gate staging cols rows =
     act_seq (run_staged_validation gate ops staging rows) (\<lambda>_.
     act_seq (if cfg_delete_stale_in_window cfg \<and> \<not> so_deletes_within_merge ops
              then (case cfg_merge_prune_partition_by cfg of
                      None \<Rightarrow> act_err (Internal ''delete_stale_in_window without merge_prune_partition_by (should have been validated)'')
                    | Some window \<Rightarrow> on_sink (so_delete_stale ops (cfg_dest_table cfg) staging (cfg_key cfg) window))
              else act_ok 0) (\<lambda>deleted.
     act_seq (if so_requires_staging ops then merge_staged ops cfg staging cols
              else on_sink (so_insert_select ops (cfg_dest_table cfg) staging cols)) (\<lambda>_.
     act_seq (on_sink (so_drop_table ops staging)) (\<lambda>_. act_ok deleted))))"

definition promote_staged_append :: "'w sink_ops \<Rightarrow> transfer_config \<Rightarrow> string \<Rightarrow> column_type list \<Rightarrow> ('w run, unit) act" where
  "promote_staged_append ops cfg staging cols =
     act_seq (on_sink (so_insert_select ops (cfg_dest_table cfg) staging cols)) (\<lambda>_. on_sink (so_drop_table ops staging))"

definition promote_refresh :: "'w sink_ops \<Rightarrow> transfer_config \<Rightarrow> transfer_plan \<Rightarrow> bool \<Rightarrow> ('w run, unit) act" where
  "promote_refresh ops cfg tp created =
     act_seq (act_get rn_rows_written) (\<lambda>rows.
     act_seq (run_staged_validation (tp_gate tp) ops (tp_staging tp) rows) (\<lambda>_.
     act_seq (guard_full_refresh_shrink ops cfg (tp_staging tp) rows) (\<lambda>_.
     act_seq (check_point ops cfg (before_swap created)) (\<lambda>_.
     act_seq (on_sink (so_atomic_swap ops (cfg_dest_table cfg) (tp_staging tp) (sp_dest_columns (tp_select tp)))) (\<lambda>_.
       on_sink (so_drop_table ops (tp_staging tp)))))))"

definition note_unwatermarked_read :: "transfer_config \<Rightarrow> nat \<Rightarrow> ('w run, unit) act" where
  "note_unwatermarked_read cfg rows_read =
     act_modify (\<lambda>r. r\<lparr>rn_warnings :=
       warn_on_unwatermarked_read (effective_state_key cfg) (cfg_watermark cfg) rows_read (rn_warnings r)\<rparr>)"

definition landed_in_destination :: "('w run, unit) act" where
  "landed_in_destination = act_modify (\<lambda>r. r\<lparr>rn_landed := rn_landed r + rn_rows_written r\<rparr>)"

definition keep_cursor :: "'w sink_ops \<Rightarrow> transfer_config \<Rightarrow> transfer_plan \<Rightarrow> bool \<Rightarrow> bool \<Rightarrow> ('w run, nat) act" where
  "keep_cursor ops cfg tp used_staging created =
     (let appending = (cfg_mode cfg = Append); cols = sp_dest_columns (tp_select tp) in
      act_seq (act_get rn_rows_read) (\<lambda>rows_read.
      act_seq (if rows_read \<noteq> 0 \<and> \<not> tp_watermark_read tp \<and> \<not> tp_bounded_below tp
               then note_unwatermarked_read cfg rows_read else act_ok ()) (\<lambda>_.
      act_seq (if used_staging \<and> \<not> appending
               then act_seq (check_point ops cfg (before_merge created)) (\<lambda>_.
                    act_seq (act_get rn_rows_written) (\<lambda>rows.
                    act_seq (promote_staged_incremental ops cfg (tp_gate tp) (tp_staging tp) cols rows) (\<lambda>deleted.
                    act_seq (if so_requires_staging ops then act_ok () else landed_in_destination) (\<lambda>_. act_ok deleted))))
               else act_ok 0) (\<lambda>deleted.
      act_seq (act_each warn (tp_cursor_warnings tp)) (\<lambda>_.
      act_seq (if appending \<and> used_staging
               then act_seq (check_point ops cfg (before_append created)) (\<lambda>_.
                    act_seq (promote_staged_append ops cfg (tp_staging tp) cols) (\<lambda>_. landed_in_destination))
               else act_ok ()) (\<lambda>_.
      act_seq (check_point ops cfg BeforeCursor) (\<lambda>_.
      act_seq (case tp_cursor tp of
                 Some w \<Rightarrow> if cfg_advance_watermark cfg
                   then act_seq (act_get rn_rows_written) (\<lambda>rows. on_sink (so_persist_watermark ops cfg w rows)) else act_ok ()
               | None \<Rightarrow> act_ok ()) (\<lambda>_.
        act_ok deleted))))))))"

definition report :: "transfer_plan \<Rightarrow> nat \<Rightarrow> ('w run, transfer_result) act" where
  "report tp deleted r =
     (let (ws, left) = drain (rn_warnings r) in
      (r\<lparr>rn_warnings := left\<rparr>,
       Inr \<lparr>tr_rows_read = rn_rows_read r, tr_rows_written = rn_rows_written r, tr_bytes_written = rn_bytes_written r,
         tr_rows_deleted = deleted, tr_new_watermark = tp_cursor tp, tr_warnings = ws, tr_failed_attempts = 0\<rparr>))"

definition transfer_tail :: "'w sink_ops \<Rightarrow> transfer_config \<Rightarrow> transfer_plan \<Rightarrow> string \<Rightarrow> bool \<Rightarrow> ('w run, transfer_result) act" where
  "transfer_tail ops cfg tp target created =
     (let used_staging = (target \<noteq> cfg_dest_table cfg) in
      act_seq (read_source ops target (\<not> used_staging) (tp_read tp)) (\<lambda>_.
      act_seq (if cfg_mode cfg = Full then promote_refresh ops cfg tp created else act_ok ()) (\<lambda>_.
      act_seq (if keeps_cursor (cfg_mode cfg) then keep_cursor ops cfg tp used_staging created else act_ok 0) (\<lambda>deleted.
        report tp deleted))))"

definition transfer_attempt :: "'w sink_ops \<Rightarrow> transfer_config \<Rightarrow> transfer_plan \<Rightarrow> ('w run, transfer_result) act" where
  "transfer_attempt ops cfg tp =
     act_seq (warn_on_destination ops cfg (tp_select tp) (tp_force_stage tp) (tp_from_start tp) (tp_overrides tp)) (\<lambda>_.
     act_seq (check_point ops cfg BeforeWrite) (\<lambda>_.
     act_seq (if tp_discarded tp then clear_discarded ops cfg else act_ok ()) (\<lambda>_.
     act_seq (prepare_target ops cfg (sp_dest_columns (tp_select tp)) (tp_staging tp) (tp_force_stage tp)) (\<lambda>(target, created).
       act_cleanup (transfer_tail ops cfg tp target created)
         (if target \<noteq> cfg_dest_table cfg then on_sink (so_drop_table ops (tp_staging tp)) else act_ok ())))))"

section \<open>The attempts of a run\<close>

definition MAX_INSERT_ATTEMPTS :: nat where "MAX_INSERT_ATTEMPTS = 4"
definition BACKOFF_BASE_MS :: nat where "BACKOFF_BASE_MS = 250"

definition backoff_delay :: "nat \<Rightarrow> nat" where
  "backoff_delay k = BACKOFF_BASE_MS * 2 ^ min (k - 1) 6"

definition partial_write_warning :: "transfer_config \<Rightarrow> nat \<Rightarrow> nat \<Rightarrow> transfer_warning" where
  "partial_write_warning cfg k rows =
     \<lparr>tw_kind = RetriedAfterPartialWrite, tw_column = None, tw_count = rows, tw_sample = None,
      tw_message = ''attempt '' @ show_nat k @ '' of the transfer into '' @ quoted (cfg_dest_table cfg) @ '' failed after writing ''
        @ show_nat rows @ '' row(s) into it''\<rparr>"

text \<open>\<open>one k\<close> is attempt \<open>k\<close>, given the warnings carried to it; it says what it landed.  The first
  argument counts the attempts still allowed after this one.\<close>

fun run_attempts :: "(nat \<Rightarrow> transfer_warning list \<Rightarrow> 'w \<Rightarrow> 'w \<times> nat \<times> transfer_result res) \<Rightarrow> transfer_config \<Rightarrow> string
    \<Rightarrow> nat \<Rightarrow> nat \<Rightarrow> nat \<Rightarrow> transfer_warning list \<Rightarrow> 'w \<Rightarrow> 'w \<times> transfer_result res" where
  "run_attempts one cfg ctx left k partial carried w =
     (case one k carried w of
        (w', landed_rows, Inr r) \<Rightarrow> (w', Inr (r\<lparr>tr_failed_attempts := partial\<rparr>))
      | (w', landed_rows, Inl e) \<Rightarrow>
          (case left of
             0 \<Rightarrow> (w', Inl (Context ctx e))
           | Suc left' \<Rightarrow>
               if is_transient_source e
               then let partial' = partial + landed_rows in
                    run_attempts one cfg ctx left' (Suc k) partial'
                      (if 0 < landed_rows then [partial_write_warning cfg k partial'] else carried) w'
               else (w', Inl (Context ctx e))))"

definition attempt_once :: "'w sink_ops \<Rightarrow> transfer_config \<Rightarrow> (nat \<Rightarrow> transfer_plan) \<Rightarrow> nat \<Rightarrow> transfer_warning list
    \<Rightarrow> 'w \<Rightarrow> 'w \<times> nat \<times> transfer_result res" where
  "attempt_once ops cfg tps k carried w =
     (case transfer_attempt ops cfg (tps k) (new_run w carried) of (r, res) \<Rightarrow> (rn_sink r, rn_landed r, res))"

definition run_transfer :: "'w sink_ops \<Rightarrow> transfer_config \<Rightarrow> string \<Rightarrow> (nat \<Rightarrow> transfer_plan) \<Rightarrow> 'w \<Rightarrow> 'w \<times> transfer_result res" where
  "run_transfer ops cfg ctx tps w =
     run_attempts (attempt_once ops cfg tps) cfg ctx (max (cfg_retry_max_attempts cfg) 1 - 1) 1 0 [] w"

section \<open>What is staged\<close>

text \<open>Whether an incremental or append run stages its rows although the destination could take them directly:
  for a gate, for retries that would leave copies, for a delete that needs the batch in a table, or because the
  destination stages every direct write.\<close>

definition force_stage_incremental :: "'w sink_ops \<Rightarrow> transfer_config \<Rightarrow> bool \<Rightarrow> ('w, bool) act" where
  "force_stage_incremental ops cfg gated =
     (let inc = (cfg_mode cfg = Incremental) in
      act_seq (if inc \<and> 1 < cfg_retry_max_attempts cfg \<and> \<not> so_requires_staging ops
               then so_stage_for_retries ops cfg (cfg_dest_table cfg) else act_ok False) (\<lambda>retries.
        if cfg_delete_stale_in_window cfg \<and> \<not> so_supports_row_delete ops
        then act_err (Config ''delete_stale_in_window is not supported by this destination (it cannot delete individual rows)'')
        else act_ok
          (inc \<and> \<not> so_requires_staging ops
             \<and> (gated \<or> retries \<or> cfg_delete_stale_in_window cfg \<and> \<not> so_deletes_within_merge ops)
           \<or> cfg_mode cfg \<noteq> Full \<and> so_stages_direct_writes ops)))"

lemma direct_writes_staged:
  assumes "force_stage_incremental ops cfg gated w = (w', Inr force)" "cfg_mode cfg \<noteq> Full"
  shows "so_stages_direct_writes ops \<Longrightarrow> force"
    and "gated \<Longrightarrow> cfg_mode cfg = Incremental \<Longrightarrow> force \<or> so_requires_staging ops"
    and "cfg_delete_stale_in_window cfg \<Longrightarrow> cfg_mode cfg = Incremental \<Longrightarrow> force \<or> so_requires_staging ops \<or> so_deletes_within_merge ops"
  using assms by (auto simp: force_stage_incremental_def Let_def act_seq_def act_ok_def act_err_def split: if_splits prod.splits sum.splits)

end
