(* ===== verification/QH_Transfer_Laws.thy ===== *)
theory QH_Transfer_Laws
  imports QH_Transfer
begin

text \<open>
  What a run needs of a destination, as a locale, and what it then guarantees.  \<open>held\<close> is what a reader
  sees in a table, \<open>staged\<close> what this run has loaded into it, \<open>saved\<close> the cursor; \<open>lands\<close> says what
  an insert that reported success has left (once for an exact destination, several times for one that
  may repeat a send).  The assumptions are promises of the sinks, discharged where they are modelled.
\<close>

section \<open>Observing a sink\<close>

definition keeps :: "('w \<Rightarrow> bool) \<Rightarrow> ('w \<Rightarrow> string \<Rightarrow> 'v) \<Rightarrow> ('w \<Rightarrow> string \<Rightarrow> 'v) \<Rightarrow> ('w \<Rightarrow> string option)
    \<Rightarrow> string set \<Rightarrow> ('w, 'a) act \<Rightarrow> bool" where
  "keeps good held staged saved T m \<longleftrightarrow>
     (\<forall>w. good w \<longrightarrow> good (fst (m w)) \<and> saved (fst (m w)) = saved w
        \<and> (\<forall>t. t \<notin> T \<longrightarrow> held (fst (m w)) t = held w t \<and> staged (fst (m w)) t = staged w t))"

type_synonym 'v snapshot = "(string \<Rightarrow> 'v) \<Rightarrow> (string \<Rightarrow> 'v) \<Rightarrow> string option \<Rightarrow> nat \<Rightarrow> bool"

definition snap :: "('w \<Rightarrow> bool) \<Rightarrow> ('w \<Rightarrow> string \<Rightarrow> 'v) \<Rightarrow> ('w \<Rightarrow> string \<Rightarrow> 'v) \<Rightarrow> ('w \<Rightarrow> string option)
    \<Rightarrow> 'v snapshot \<Rightarrow> 'w run \<Rightarrow> bool" where
  "snap good held staged saved A r \<longleftrightarrow> good (rn_sink r)
     \<and> A (held (rn_sink r)) (staged (rn_sink r)) (saved (rn_sink r)) (rn_rows_written r)"

definition quiet :: "('w \<Rightarrow> bool) \<Rightarrow> ('w \<Rightarrow> string \<Rightarrow> 'v) \<Rightarrow> ('w \<Rightarrow> string \<Rightarrow> 'v) \<Rightarrow> ('w \<Rightarrow> string option)
    \<Rightarrow> ('w run, 'a) act \<Rightarrow> bool" where
  "quiet good held staged saved m \<longleftrightarrow>
     (\<forall>A. triple (snap good held staged saved A) m (\<lambda>_. snap good held staged saved A) (\<lambda>_. snap good held staged saved A))"

inductive lands_all :: "(batch list \<Rightarrow> 'r multiset \<Rightarrow> bool) \<Rightarrow> read_event list \<Rightarrow> 'r multiset \<Rightarrow> bool" for lands where
  lands_none: "lands_all lands [] {#}"
| lands_event: "lands (ev_batches ev) X \<Longrightarrow> lands_all lands evs Y \<Longrightarrow> lands_all lands (ev # evs) (X + Y)"

inductive_cases lands_all_NilE: "lands_all lands [] X"
inductive_cases lands_all_ConsE: "lands_all lands (ev # evs) X"

section \<open>Quiet operations\<close>

named_theorems quiet_intros

lemma quiet_triple: "quiet g h s c m \<Longrightarrow> triple (snap g h s c A) m (\<lambda>_. snap g h s c A) (\<lambda>_. snap g h s c A)"
  by (simp add: quiet_def)

lemma keepsD:
  assumes "keeps g h s c T m" "g w" "m w = (w', r)"
  shows "g w' \<and> c w' = c w \<and> (\<forall>t. t \<notin> T \<longrightarrow> h w' t = h w t \<and> s w' t = s w t)"
  using assms by (metis fst_conv keeps_def)

lemma keeps_nothing:
  assumes "keeps g h s c {} m" "g w" "m w = (w', r)"
  shows "g w' \<and> c w' = c w \<and> h w' = h w \<and> s w' = s w"
  using keepsD[OF assms] by auto

lemma quiet_on [quiet_intros]:
  assumes "keeps g h s c {} m"
  shows "quiet g h s c (on_sink m)"
  unfolding quiet_def on_sink_def
proof (intro allI triple_on)
  fix A r assume "snap g h s c A r"
  then show "triple (\<lambda>w. w = rn_sink r) m (\<lambda>a w. snap g h s c A (r\<lparr>rn_sink := w\<rparr>)) (\<lambda>e w. snap g h s c A (r\<lparr>rn_sink := w\<rparr>))"
    by (intro tripleI) (use keeps_nothing[OF assms] in \<open>auto simp: snap_def\<close>)
qed

lemma quiet_ok [quiet_intros]: "quiet g h s c (act_ok a)"
  by (auto simp: quiet_def intro: triple_ok)

lemma quiet_err [quiet_intros]: "quiet g h s c (act_err e)"
  by (auto simp: quiet_def intro: triple_err)

lemma quiet_lift [quiet_intros]: "quiet g h s c (act_lift r)"
  by (auto simp: quiet_def intro: triple_lift)

lemma quiet_get [quiet_intros]: "quiet g h s c (act_get f)"
  by (auto simp: quiet_def intro: triple_get)

lemma quiet_warn [quiet_intros]: "quiet g h s c (warn t)"
  unfolding quiet_def warn_def by (intro allI triple_modify) (simp add: snap_def)

lemma quiet_seq [quiet_intros]: "quiet g h s c m \<Longrightarrow> (\<And>a. quiet g h s c (f a)) \<Longrightarrow> quiet g h s c (act_seq m f)"
  by (auto simp: quiet_def intro: triple_seq)

lemma quiet_each [quiet_intros]: "(\<And>x. quiet g h s c (f x)) \<Longrightarrow> quiet g h s c (act_each f xs)"
  by (auto simp: quiet_def intro: triple_each)

lemma quiet_result [quiet_intros]: "quiet g h s c m \<Longrightarrow> quiet g h s c (act_result m)"
  by (auto simp: quiet_def intro: triple_result)

lemma quiet_if [quiet_intros]: "quiet g h s c m \<Longrightarrow> quiet g h s c n \<Longrightarrow> quiet g h s c (if b then m else n)"
  by simp

lemma quiet_option [quiet_intros]:
  "quiet g h s c m \<Longrightarrow> (\<And>a. quiet g h s c (f a)) \<Longrightarrow> quiet g h s c (case x of None \<Rightarrow> m | Some a \<Rightarrow> f a)"
  by (cases x) auto

lemma quiet_sum [quiet_intros]:
  "(\<And>e. quiet g h s c (m e)) \<Longrightarrow> (\<And>a. quiet g h s c (f a)) \<Longrightarrow> quiet g h s c (case x of Inl e \<Rightarrow> m e | Inr a \<Rightarrow> f a)"
  by (cases x) auto

lemma quiet_prod [quiet_intros]: "(\<And>a b. quiet g h s c (f a b)) \<Longrightarrow> quiet g h s c (case x of (a, b) \<Rightarrow> f a b)"
  by (cases x) auto

lemma quiet_verdict [quiet_intros]:
  "quiet g h s c m \<Longrightarrow> (\<And>a b. quiet g h s c (f a b)) \<Longrightarrow> (\<And>a b. quiet g h s c (f' a b))
    \<Longrightarrow> quiet g h s c (case v of Proceed \<Rightarrow> m | ProceedWithWarning a b \<Rightarrow> f a b | Refuse a b \<Rightarrow> f' a b)"
  by (cases v) auto

lemma quiet_on_run:
  "(\<And>r. rn_sink (fst (m r)) = rn_sink r \<and> rn_rows_written (fst (m r)) = rn_rows_written r) \<Longrightarrow> quiet g h s c m"
  unfolding quiet_def by (intro allI tripleI; metis fst_conv snap_def)

lemma quiet_check_point [quiet_intros]:
  assumes "keeps g h s c {} (so_write_warnings ops)"
  shows "quiet g h s c (check_point ops cfg cp)"
  unfolding check_point_def
  by (intro quiet_seq quiet_on assms quiet_on_run) (auto split: prod.split)

lemma quiet_unwatermarked [quiet_intros]: "quiet g h s c (note_unwatermarked_read cfg n)"
  by (rule quiet_on_run) (simp add: note_unwatermarked_read_def act_modify_def)

lemma quiet_landed [quiet_intros]: "quiet g h s c landed_in_destination"
  by (rule quiet_on_run) (simp add: landed_in_destination_def act_modify_def)

lemma quiet_report [quiet_intros]: "quiet g h s c (report tp n)"
  by (rule quiet_on_run) (simp add: report_def split: prod.split)

lemma triple_sink:
  assumes "keeps g h s c T m"
    and "\<And>w w' a n. g w \<Longrightarrow> A (h w) (s w) (c w) n \<Longrightarrow> m w = (w', Inr a) \<Longrightarrow> g w' \<Longrightarrow> c w' = c w
        \<Longrightarrow> \<forall>t. t \<notin> T \<longrightarrow> h w' t = h w t \<and> s w' t = s w t \<Longrightarrow> Q a (h w') (s w') (c w') n"
    and "\<And>w w' e n. g w \<Longrightarrow> A (h w) (s w) (c w) n \<Longrightarrow> m w = (w', Inl e) \<Longrightarrow> g w' \<Longrightarrow> c w' = c w
        \<Longrightarrow> \<forall>t. t \<notin> T \<longrightarrow> h w' t = h w t \<and> s w' t = s w t \<Longrightarrow> E e (h w') (s w') (c w') n"
  shows "triple (snap g h s c A) (on_sink m) (\<lambda>a. snap g h s c (Q a)) (\<lambda>e. snap g h s c (E e))"
  unfolding on_sink_def
proof (rule triple_on, rule tripleI)
  fix r w w' a assume "snap g h s c A r" "w = rn_sink r" "m w = (w', Inr a)"
  then show "snap g h s c (Q a) (r\<lparr>rn_sink := w'\<rparr>)"
    using keepsD[OF assms(1), of w w'] assms(2)[of w "rn_rows_written r" w' a] by (simp add: snap_def)
next
  fix r w w' e assume "snap g h s c A r" "w = rn_sink r" "m w = (w', Inl e)"
  then show "snap g h s c (E e) (r\<lparr>rn_sink := w'\<rparr>)"
    using keepsD[OF assms(1), of w w'] assms(3)[of w "rn_rows_written r" w' e] by (simp add: snap_def)
qed

lemma snap_mono: "snap g h s c A r \<Longrightarrow> (\<And>H S cu n. A H S cu n \<Longrightarrow> B H S cu n) \<Longrightarrow> snap g h s c B r"
  by (auto simp: snap_def)

lemma quiet_weaken:
  assumes "quiet g h s c m" "\<And>H S cu n. A H S cu n \<Longrightarrow> Q H S cu n" "\<And>H S cu n. A H S cu n \<Longrightarrow> E H S cu n"
  shows "triple (snap g h s c A) m (\<lambda>_. snap g h s c Q) (\<lambda>_. snap g h s c E)"
  by (rule triple_weaken[OF quiet_triple[OF assms(1), of A]]) (auto simp: snap_def intro: assms(2,3))

lemma snap_weaken:
  assumes "triple (snap g h s c A) m (\<lambda>a. snap g h s c (Q a)) (\<lambda>e. snap g h s c (E e))"
    and "\<And>H S cu n. A' H S cu n \<Longrightarrow> A H S cu n" "\<And>a H S cu n. Q a H S cu n \<Longrightarrow> Q' a H S cu n"
    and "\<And>e H S cu n. E e H S cu n \<Longrightarrow> E' e H S cu n"
  shows "triple (snap g h s c A') m (\<lambda>a. snap g h s c (Q' a)) (\<lambda>e. snap g h s c (E' e))"
  by (rule triple_weaken[OF assms(1)]) (auto simp: snap_def intro: assms(2-4))

lemma triple_query:
  assumes "keeps g h s c {} m"
    and "\<And>w w' a n. g w \<Longrightarrow> A (h w) (s w) (c w) n \<Longrightarrow> m w = (w', Inr a) \<Longrightarrow> Q a (h w) (s w) (c w) n"
    and "\<And>w w' e n. g w \<Longrightarrow> A (h w) (s w) (c w) n \<Longrightarrow> m w = (w', Inl e) \<Longrightarrow> E e (h w) (s w) (c w) n"
  shows "triple (snap g h s c A) (on_sink m) (\<lambda>a. snap g h s c (Q a)) (\<lambda>e. snap g h s c (E e))"
  by (rule triple_sink[OF assms(1)]; use keeps_nothing[OF assms(1)] assms(2,3) in metis)

section \<open>What a failed run may leave\<close>

definition outside :: "(string \<Rightarrow> 'v) \<Rightarrow> (string \<Rightarrow> 'v) \<Rightarrow> string set \<Rightarrow> (string \<Rightarrow> 'v) \<Rightarrow> (string \<Rightarrow> 'v) \<Rightarrow> bool" where
  "outside H0 S0 T H S \<longleftrightarrow> (\<forall>t. t \<notin> T \<longrightarrow> H t = H0 t \<and> S t = S0 t)"

definition same_or_created :: "'r multiset option \<Rightarrow> 'r multiset option \<Rightarrow> bool" where
  "same_or_created x0 x \<longleftrightarrow> x = x0 \<or> (x0 = None \<and> x = Some {#})"

definition rows_before :: "'r multiset option \<Rightarrow> 'r multiset" where
  "rows_before x = (case x of None \<Rightarrow> {#} | Some D \<Rightarrow> D)"

lemma outside_step:
  "outside H0 S0 T H S \<Longrightarrow> \<forall>t. t \<notin> U \<longrightarrow> H' t = H t \<and> S' t = S t \<Longrightarrow> U \<subseteq> T \<Longrightarrow> outside H0 S0 T H' S'"
  by (auto simp: outside_def)

lemma outside_refl [simp]: "outside H S T H S"
  by (simp add: outside_def)

definition event_total :: "read_event list \<Rightarrow> nat" where
  "event_total evs = sum_list (map event_rows evs)"

lemma triple_events_Cons:
  assumes "triple P (f ev) (\<lambda>_. R) (\<lambda>_. E')" "triple R (run_events f evs) Q (\<lambda>_. E)"
    and "triple E' (run_events f evs) (\<lambda>_. E) (\<lambda>_. E)"
  shows "triple P (run_events f (ev # evs)) Q (\<lambda>_. E)"
  unfolding triple_def
proof (intro allI impI)
  fix r assume P: "P r"
  obtain r1 x where f: "f ev r = (r1, x)" by (cases "f ev r")
  show "case run_events f (ev # evs) r of (r', Inl e) \<Rightarrow> E r' | (r', Inr a) \<Rightarrow> Q a r'"
  proof (cases x)
    case (Inl e)
    then have "E' r1" using tripleD(2)[OF assms(1) P] f by simp
    then show ?thesis using assms(3) f Inl
      by (cases "run_events f evs r1"; cases "snd (run_events f evs r1)") (auto simp: triple_def split: prod.splits)
  next
    case (Inr a)
    then have "R r1" using tripleD(1)[OF assms(1) P] f by simp
    then show ?thesis using assms(2) f Inr by (simp add: triple_def)
  qed
qed

lemma triple_events_nil: "(\<And>r. P r \<Longrightarrow> Q () r) \<Longrightarrow> triple P (run_events f []) Q E"
  by (simp add: triple_def)

lemma counted_event:
  assumes "triple (snap g h s c A) (on_sink m) (\<lambda>a. snap g h s c (\<lambda>H S cu n. Q H S cu (n + event_rows ev))) (\<lambda>_. snap g h s c E)"
    and "m = so_insert ops target (ev_stream ev) (ev_batches ev)"
  shows "triple (snap g h s c A) (insert_event ops target dir ev) (\<lambda>_. snap g h s c Q) (\<lambda>_. snap g h s c E)"
  unfolding insert_event_def
proof (intro triple_seq[OF _ triple_seq])
  show "triple (snap g h s c A) (act_modify (\<lambda>r. r\<lparr>rn_rows_read := rn_rows_read r + ev_read ev\<rparr>)) (\<lambda>_. snap g h s c A) (\<lambda>_. snap g h s c E)"
    by (rule triple_modify) (simp add: snap_def)
  show "triple (snap g h s c A) (on_sink (so_insert ops target (ev_stream ev) (ev_batches ev)))
     (\<lambda>_. snap g h s c (\<lambda>H S cu n. Q H S cu (n + event_rows ev))) (\<lambda>_. snap g h s c E)" for a
    using assms by simp
  show "triple (snap g h s c (\<lambda>H S cu n. Q H S cu (n + event_rows ev)))
     (act_modify (\<lambda>r. r\<lparr>rn_rows_written := rn_rows_written r + event_rows ev, rn_bytes_written := rn_bytes_written r + bytes,
        rn_landed := rn_landed r + (if dir then event_rows ev else 0)\<rparr>)) (\<lambda>_. snap g h s c Q) (\<lambda>_. snap g h s c E)" for bytes
    by (rule triple_modify) (simp add: snap_def)
qed

lemma events_kept:
  assumes "\<And>ev. triple P (f ev) (\<lambda>_. P) (\<lambda>_. P)"
  shows "triple P (run_events f evs) (\<lambda>_. P) (\<lambda>_. P)"
proof (induction evs)
  case Nil
  show ?case by (rule triple_events_nil)
next
  case (Cons ev evs)
  show ?case by (rule triple_events_Cons[OF assms Cons Cons])
qed

text \<open>\<open>v\<close> is where the events load their rows; \<open>B\<close> is what no insert changes.\<close>

lemma events_loaded:
  assumes "\<And>ev. triple (snap g h s c (\<lambda>H S cu n. B H S cu)) (f ev) (\<lambda>_. snap g h s c (\<lambda>H S cu n. B H S cu)) (\<lambda>_. snap g h s c (\<lambda>H S cu n. B H S cu))"
    and one: "\<And>ev R k. triple (snap g h s c (\<lambda>H S cu n. B H S cu \<and> n = k \<and> v H S = Some R)) (f ev)
        (\<lambda>_. snap g h s c (\<lambda>H S cu n. B H S cu \<and> n = k + event_rows ev \<and> (\<exists>Y. lands (ev_batches ev) Y \<and> v H S = Some (R + Y))))
        (\<lambda>_. snap g h s c (\<lambda>H S cu n. B H S cu))"
  shows "triple (snap g h s c (\<lambda>H S cu n. B H S cu \<and> n = k \<and> v H S = Some R)) (run_events f evs)
        (\<lambda>_. snap g h s c (\<lambda>H S cu n. B H S cu \<and> n = k + event_total evs \<and> (\<exists>X. lands_all lands evs X \<and> v H S = Some (R + X))))
        (\<lambda>_. snap g h s c (\<lambda>H S cu n. B H S cu))"
proof (induction evs arbitrary: k R)
  case Nil
  show ?case by (rule triple_events_nil) (auto simp: snap_def event_total_def intro: lands_none)
next
  case (Cons ev evs)
  let ?I = "\<lambda>R k. snap g h s c (\<lambda>H S cu n. B H S cu \<and> n = k \<and> v H S = Some R)"
  let ?M = "snap g h s c (\<lambda>H S cu n. B H S cu \<and> n = k + event_rows ev \<and> (\<exists>Y. lands (ev_batches ev) Y \<and> v H S = Some (R + Y)))"
  let ?Q = "snap g h s c (\<lambda>H S cu n. B H S cu \<and> n = k + event_total (ev # evs) \<and> (\<exists>X. lands_all lands (ev # evs) X \<and> v H S = Some (R + X)))"
  have split: "\<exists>Y. lands (ev_batches ev) Y \<and> ?I (R + Y) (k + event_rows ev) r" if "?M r" for r
    using that by (auto simp: snap_def)
  have rest: "triple ?M (run_events f evs) (\<lambda>_. ?Q) (\<lambda>_. snap g h s c (\<lambda>H S cu n. B H S cu))"
  proof (rule tripleI)
    fix r r' and u :: unit
    assume "?M r" and run: "run_events f evs r = (r', Inr u)"
    then obtain Y where Y: "lands (ev_batches ev) Y" "?I (R + Y) (k + event_rows ev) r" using split by blast
    from tripleD(1)[OF Cons.IH Y(2) run] obtain X where X: "lands_all lands evs X"
      "snap g h s c (\<lambda>H S cu n. B H S cu \<and> n = k + event_rows ev + event_total evs \<and> v H S = Some (R + Y + X)) r'"
      by (auto simp: snap_def)
    then show "?Q r'"
      using lands_event[of lands ev Y evs X] Y(1) by (auto simp: snap_def event_total_def add.assoc intro!: exI[of _ "Y + X"])
  next
    fix r r' e
    assume "?M r" and run: "run_events f evs r = (r', Inl e)"
    then obtain Y where Y: "?I (R + Y) (k + event_rows ev) r" using split by blast
    show "snap g h s c (\<lambda>H S cu n. B H S cu) r'" by (rule tripleD(2)[OF Cons.IH Y run])
  qed
  show ?case by (rule triple_events_Cons[OF one rest events_kept[OF assms(1)]])
qed

lemma source_loaded:
  assumes "triple (snap g h s c (\<lambda>H S cu n. B H S cu \<and> n = 0 \<and> v H S = Some R)) (run_events (insert_event ops t dir) (rp_events rp))
        (\<lambda>_. snap g h s c Q) (\<lambda>_. snap g h s c E)"
    and "\<And>H S cu n. Q H S cu n \<Longrightarrow> E H S cu n"
  shows "triple (snap g h s c (\<lambda>H S cu n. B H S cu \<and> n = 0 \<and> v H S = Some R)) (read_source ops t dir rp) (\<lambda>_. snap g h s c Q) (\<lambda>_. snap g h s c E)"
  unfolding read_source_def
proof (rule triple_seq[where R = "\<lambda>_. snap g h s c (\<lambda>H S cu n. B H S cu \<and> n = 0 \<and> v H S = Some R)"], goal_cases)
  case 1
  show ?case by (rule triple_modify) (simp add: snap_def)
next
  case 2
  show ?case
    by (rule triple_seq[OF assms(1)]; cases "rp_error rp") (auto intro!: triple_ok triple_err simp: snap_def assms(2))
qed

definition gate_passes :: "(staged_info \<Rightarrow> unit res) option \<Rightarrow> 'w sink_ops \<Rightarrow> string \<Rightarrow> nat \<Rightarrow> bool" where
  "gate_passes gate ops staging rows \<longleftrightarrow>
     (case gate of
        None \<Rightarrow> True
      | Some cb \<Rightarrow> cb \<lparr>si_table = staging, si_database = so_namespace ops, si_kind = so_kind ops, si_rows = rows\<rparr> = Inr ())"

lemma validation_passes:
  "(\<And>r. P r \<Longrightarrow> gate_passes gate ops staging rows \<Longrightarrow> Q () r) \<Longrightarrow> (\<And>e r. P r \<Longrightarrow> E e r)
    \<Longrightarrow> triple P (run_staged_validation gate ops staging rows) Q E"
  unfolding run_staged_validation_def gate_passes_def
  by (cases gate) (auto intro!: triple_ok triple_lift)

lemma triple_rows_written:
  assumes "\<And>H S cu n. A H S cu n \<Longrightarrow> n = k" "triple (snap g h s c A) (f k) Q E"
  shows "triple (snap g h s c A) (act_seq (act_get rn_rows_written) f) Q E"
proof (rule triple_seq[where R = "\<lambda>n r. n = k \<and> snap g h s c A r"])
  show "triple (snap g h s c A) (act_get rn_rows_written) (\<lambda>n r. n = k \<and> snap g h s c A r) E"
    by (rule triple_get) (auto simp: snap_def dest: assms(1))
  show "triple (\<lambda>r. n = k \<and> snap g h s c A r) (f n) Q E" for n
    using assms(2) by (cases "n = k") (auto simp: triple_def)
qed

lemma attempts_invariant:
  assumes "\<And>k carried w w' n r. P k w \<Longrightarrow> one k carried w = (w', n, Inr r) \<Longrightarrow> Q w'"
    and "\<And>k carried w w' n e. P k w \<Longrightarrow> one k carried w = (w', n, Inl e) \<Longrightarrow> P (Suc k) w'"
    and "P k w" "run_attempts one cfg ctx left k partial carried w = (w', res)"
  shows "case res of Inr _ \<Rightarrow> Q w' | Inl _ \<Rightarrow> \<exists>k'. P k' w'"
  using assms(3,4)
proof (induction left arbitrary: k partial carried w)
  case 0
  obtain w1 n x where one: "one k carried w = (w1, n, x)" by (cases "one k carried w") auto
  show ?case
  proof (cases x)
    case (Inl e)
    then show ?thesis using 0 one assms(2)[OF 0(1), of carried w1 n e] by auto
  next
    case (Inr r)
    then show ?thesis using 0 one assms(1)[OF 0(1), of carried w1 n r] by auto
  qed
next
  case (Suc left)
  obtain w1 n x where one: "one k carried w = (w1, n, x)" by (cases "one k carried w") auto
  show ?case
  proof (cases x)
    case (Inl e)
    then have P1: "P (Suc k) w1" using assms(2) Suc.prems(1) one by blast
    then show ?thesis using Suc.IH[OF P1] Suc.prems(2) one Inl by (auto simp: Let_def split: if_splits)
  next
    case (Inr r)
    then show ?thesis using assms(1) Suc.prems one by auto
  qed
qed

text \<open>Every attempt but the last failed with a transient error, there are at most \<open>retry_max_attempts\<close>
  of them, and the rows reported for the failed ones are what they landed.\<close>

definition traced :: "(nat \<Rightarrow> transfer_warning list \<Rightarrow> 'w \<Rightarrow> 'w \<times> nat \<times> transfer_result res) \<Rightarrow> transfer_config \<Rightarrow> string
    \<Rightarrow> nat \<Rightarrow> nat \<Rightarrow> nat \<Rightarrow> transfer_warning list \<Rightarrow> 'w \<times> transfer_result res \<Rightarrow> (nat \<times> etl_error) list \<Rightarrow> bool" where
  "traced one cfg ctx left k partial carried out fails \<longleftrightarrow>
     length fails \<le> left \<and> list_all (\<lambda>(_, e). is_transient_source e) fails
     \<and> (\<exists>w1 carried1 n x. one (k + length fails) carried1 w1 = (fst out, n, x)
         \<and> (case x of
              Inr r \<Rightarrow> snd out = Inr (r\<lparr>tr_failed_attempts := partial + sum_list (map fst fails)\<rparr>)
            | Inl e \<Rightarrow> snd out = Inl (Context ctx e) \<and> (length fails < left \<longrightarrow> \<not> is_transient_source e))
         \<and> (carried1 = carried \<and> sum_list (map fst fails) = 0
            \<or> (\<exists>j < k + length fails. carried1 = [partial_write_warning cfg j (partial + sum_list (map fst fails))])))"

lemma traced_Nil:
  assumes "one k carried w = (w', n, x)"
    and "case x of Inr r \<Rightarrow> res = Inr (r\<lparr>tr_failed_attempts := partial\<rparr>)
       | Inl e \<Rightarrow> res = Inl (Context ctx e) \<and> (0 < left \<longrightarrow> \<not> is_transient_source e)"
  shows "traced one cfg ctx left k partial carried (w', res) []"
  unfolding traced_def using assms
  by (intro conjI exI[of _ w] exI[of _ carried] exI[of _ n] exI[of _ x]) (auto split: sum.splits)

lemma traced_Cons:
  assumes "is_transient_source e"
    and "traced one cfg ctx left (Suc k) (partial + n) (if 0 < n then [partial_write_warning cfg k (partial + n)] else carried) out fails"
  shows "traced one cfg ctx (Suc left) k partial carried out ((n, e) # fails)"
proof -
  let ?c = "if 0 < n then [partial_write_warning cfg k (partial + n)] else carried"
  obtain w1 carried1 m x where x: "one (Suc k + length fails) carried1 w1 = (fst out, m, x)"
    "case x of Inr r \<Rightarrow> snd out = Inr (r\<lparr>tr_failed_attempts := partial + n + sum_list (map fst fails)\<rparr>)
       | Inl e \<Rightarrow> snd out = Inl (Context ctx e) \<and> (length fails < left \<longrightarrow> \<not> is_transient_source e)"
    "carried1 = ?c \<and> sum_list (map fst fails) = 0
       \<or> (\<exists>j < Suc k + length fails. carried1 = [partial_write_warning cfg j (partial + n + sum_list (map fst fails))])"
    using assms(2) unfolding traced_def by (elim conjE exE) (rule that; assumption)
  have "carried1 = carried \<and> sum_list (map fst ((n, e) # fails)) = 0
       \<or> (\<exists>j < k + length ((n, e) # fails). carried1 = [partial_write_warning cfg j (partial + sum_list (map fst ((n, e) # fails)))])"
    using x(3) by (cases "n = 0") (auto simp: add.assoc less_Suc_eq_le simp del: sum_list_eq_0_iff
        intro: exI[of "\<lambda>j. j \<le> k + length fails \<and> _ j" k])
  moreover have "length fails \<le> left" "list_all (\<lambda>(_, e). is_transient_source e) fails"
    using assms(2) by (auto simp: traced_def)
  ultimately show ?thesis
    unfolding traced_def using x(1,2) assms(1)
    by (intro conjI exI[of _ w1] exI[of _ carried1] exI[of _ m] exI[of _ x]) (auto simp: add.assoc split: sum.splits)
qed

lemma attempts_traced:
  assumes "run_attempts one cfg ctx left k partial carried w = (w', res)"
  shows "\<exists>fails. traced one cfg ctx left k partial carried (w', res) fails"
  using assms
proof (induction left arbitrary: k partial carried w)
  case 0
  obtain w1 n x where one: "one k carried w = (w1, n, x)" by (cases "one k carried w") auto
  show ?case
    by (rule exI[of _ "[]"], rule traced_Nil[of one k carried w w' n x]) (use 0 one in \<open>auto split: sum.splits\<close>)
next
  case (Suc left)
  obtain w1 n x where one: "one k carried w = (w1, n, x)" by (cases "one k carried w") auto
  show ?case
  proof (cases "\<exists>e. x = Inl e \<and> is_transient_source e")
    case True
    then obtain e where e: "x = Inl e" "is_transient_source e" by blast
    then have "\<exists>fails. traced one cfg ctx left (Suc k) (partial + n)
        (if 0 < n then [partial_write_warning cfg k (partial + n)] else carried) (w', res) fails"
      using Suc.prems one by (intro Suc.IH) (simp add: Let_def)
    then show ?thesis using traced_Cons[OF e(2)] by blast
  next
    case False
    show ?thesis
      by (rule exI[of _ "[]"], rule traced_Nil[of one k carried w w' n x]) (use Suc.prems one False in \<open>auto simp: Let_def split: sum.splits if_splits\<close>)
  qed
qed

section \<open>The promises of a destination\<close>

locale load_sink =
  fixes ops :: "'w sink_ops" and cfg :: transfer_config
    and good :: "'w \<Rightarrow> bool" and held :: "'w \<Rightarrow> string \<Rightarrow> 'r multiset option" and staged :: "'w \<Rightarrow> string \<Rightarrow> 'r multiset option"
    and saved :: "'w \<Rightarrow> string option" and lands :: "batch list \<Rightarrow> 'r multiset \<Rightarrow> bool"
  assumes exists_quiet: "keeps good held staged saved {} (so_table_exists ops t)"
    and types_quiet: "keeps good held staged saved {} (so_column_types ops t)"
    and count_quiet: "keeps good held staged saved {} (so_row_count ops t)"
    and merged_count_quiet: "keeps good held staged saved {} (so_merged_count ops t)"
    and state_quiet: "keeps good held staged saved {} (so_ensure_state ops (cfg_state_table_name cfg))"
    and unsourced_quiet: "keeps good held staged saved {} (so_unsourced ops t cols)"
    and dropped_quiet: "keeps good held staged saved {} (so_dropped ops t cols)"
    and non_replacing_quiet: "keeps good held staged saved {} (so_non_replacing ops cfg t)"
    and canonical_quiet: "keeps good held staged saved {} (so_canonical_type ops t)"
    and check_quiet: "keeps good held staged saved {} (so_check_write ops cfg t cols)"
    and written_quiet: "keeps good held staged saved {} (so_write_warnings ops)"
    and clustering_quiet: "keeps good held staged saved {} (so_clustering ops t)"
    and missing_quiet: "keeps good held staged saved {} (so_add_missing ops cfg t cols)"
    and create_keeps: "keeps good held staged saved {t} (so_create_table ops cfg t cols)"
    and clone_keeps: "keeps good held staged saved {t} (so_clone_structure ops t like)"
    and insert_keeps: "keeps good held staged saved {t} (so_insert ops t stream bs)"
    and swap_keeps: "keeps good held staged saved {t, u} (so_atomic_swap ops t u cols)"
    and drop_keeps: "keeps good held staged saved {t} (so_drop_table ops t)"
    and exists_right: "good w \<Longrightarrow> so_table_exists ops t w = (w', Inr True) \<Longrightarrow> held w t \<noteq> None"
    and created: "good w \<Longrightarrow> so_create_table ops cfg t cols w = (w', Inr ()) \<Longrightarrow> held w' t = Some (rows_before (held w t))"
    and created_empty: "good w \<Longrightarrow> held w t = None \<Longrightarrow> so_create_table ops cfg t cols w = (w', Inr ()) \<Longrightarrow> staged w' t = Some {#}"
    and create_failed: "good w \<Longrightarrow> so_create_table ops cfg t cols w = (w', Inl e) \<Longrightarrow> same_or_created (held w t) (held w' t)"
    and cloned: "good w \<Longrightarrow> held w t = None \<Longrightarrow> so_clone_structure ops t like w = (w', Inr ()) \<Longrightarrow> staged w' t = Some {#}"
    and inserted: "good w \<Longrightarrow> staged w t = Some R \<Longrightarrow> so_insert ops t stream bs w = (w', Inr n)
        \<Longrightarrow> \<exists>X. lands bs X \<and> staged w' t = Some (R + X)"
    and swapped: "good w \<Longrightarrow> t \<noteq> u \<Longrightarrow> t \<noteq> cfg_state_table_name cfg \<Longrightarrow> staged w u = Some R \<Longrightarrow> so_atomic_swap ops t u cols w = (w', Inr ()) \<Longrightarrow> held w' t = Some R"
    and swap_failed: "good w \<Longrightarrow> t \<noteq> u \<Longrightarrow> staged w u = Some R \<Longrightarrow> so_atomic_swap ops t u cols w = (w', Inl e)
        \<Longrightarrow> held w' t = held w t \<or> held w' t = Some R"
    and dropped: "good w \<Longrightarrow> t \<noteq> cfg_state_table_name cfg \<Longrightarrow> so_drop_table ops t w = (w', Inr ()) \<Longrightarrow> held w' t = None"
begin

lemmas quiet_ops = exists_quiet types_quiet count_quiet merged_count_quiet state_quiet unsourced_quiet dropped_quiet
  non_replacing_quiet canonical_quiet check_quiet written_quiet clustering_quiet missing_quiet

lemma destination_checked_quietly:
  "quiet good held staged saved (warn_on_destination ops cfg pl st fs ov)"
  unfolding warn_on_destination_def warn_on_unsourced_columns_def warn_on_dropped_columns_def
    warn_on_ignored_overrides_def warn_on_non_replacing_target_def check_override_def Let_def
  by (intro quiet_intros quiet_ops)

lemma guard_quiet: "quiet good held staged saved (guard_full_refresh_shrink ops cfg s n)"
  unfolding guard_full_refresh_shrink_def merged_counts_def Let_def
  by (intro quiet_intros quiet_ops)

text \<open>The destination is there, and nothing else has changed.\<close>

lemma destination_ensured:
  assumes "d = cfg_dest_table cfg"
  shows "triple (snap good held staged saved (\<lambda>H S c n. H = H0 \<and> S = S0 \<and> c = c0 \<and> n = n0))
    (ensure_destination ops cfg cols ev)
    (\<lambda>existed. snap good held staged saved (\<lambda>H S c n. outside H0 S0 {d} H S \<and> c = c0 \<and> n = n0 \<and> H d = Some (rows_before (H0 d))))
    (\<lambda>_. snap good held staged saved (\<lambda>H S c n. outside H0 S0 {d} H S \<and> c = c0 \<and> same_or_created (H0 d) (H d)))"
  unfolding ensure_destination_def assms(1)[symmetric]
proof (rule triple_seq[where R = "\<lambda>b. snap good held staged saved (\<lambda>H S c n. H = H0 \<and> S = S0 \<and> c = c0 \<and> n = n0 \<and> (b \<longrightarrow> H0 d \<noteq> None))"],
    goal_cases)
  case 1
  show ?case
  proof (rule triple_query[OF exists_quiet], goal_cases)
    case (1 w w' a n)
    then show ?case using exists_right[OF 1(1), of d w'] by (cases a) auto
  qed (simp add: same_or_created_def)
next
  case (2 existed)
  let ?Q = "\<lambda>H S c n. outside H0 S0 {d} H S \<and> c = c0 \<and> n = n0 \<and> H d = Some (rows_before (H0 d))"
  let ?E = "\<lambda>H S c n. outside H0 S0 {d} H S \<and> c = c0 \<and> same_or_created (H0 d) (H d)"
  have made: "triple (snap good held staged saved (\<lambda>H S c n. H = H0 \<and> S = S0 \<and> c = c0 \<and> n = n0))
    (on_sink (so_create_table ops cfg d cols)) (\<lambda>_. snap good held staged saved ?Q) (\<lambda>_. snap good held staged saved ?E)"
    by (rule triple_sink[OF create_keeps])
      (auto simp: outside_def dest: created create_failed)
  have "triple (snap good held staged saved (\<lambda>H S c n. H = H0 \<and> S = S0 \<and> c = c0 \<and> n = n0 \<and> (existed \<longrightarrow> H0 d \<noteq> None)))
     (if \<not> existed then
        (if cfg_create_if_missing cfg then on_sink (so_create_table ops cfg d cols)
         else act_err (Config (''destination table '' @ d @ '' does not exist and create_if_missing=false'')))
      else if ev then act_seq (on_sink (so_add_missing ops cfg d cols)) (\<lambda>_. act_ok ())
      else act_ok ()) (\<lambda>_. snap good held staged saved ?Q) (\<lambda>_. snap good held staged saved ?E)"
  proof (cases existed)
    case True
    then show ?thesis
      by (simp only: not_True_eq_False if_False, intro quiet_weaken quiet_intros quiet_ops)
        (auto simp: rows_before_def same_or_created_def)
  next
    case False
    show ?thesis
    proof (cases "cfg_create_if_missing cfg")
      case True
      with False show ?thesis by (simp, intro snap_weaken[OF made]) auto
    next
      case not_made: False
      show ?thesis
        using False not_made by (auto intro!: triple_err simp: snap_def same_or_created_def)
    qed
  qed
  then show ?case by (rule triple_seq) (rule triple_ok)
qed

lemma staging_created:
  assumes "d = cfg_dest_table cfg" "g \<noteq> d" "H0 g = None"
  shows "triple (snap good held staged saved (\<lambda>H S c n. outside H0 S0 {d} H S \<and> c = c0 \<and> n = n0 \<and> H d = x))
    (create_staging ops cfg cols g existed)
    (\<lambda>_. snap good held staged saved (\<lambda>H S c n. outside H0 S0 {d, g} H S \<and> c = c0 \<and> n = n0 \<and> H d = x \<and> S g = Some {#}))
    (\<lambda>_. snap good held staged saved (\<lambda>H S c n. outside H0 S0 {d, g} H S \<and> c = c0 \<and> H d = x))"
proof -
  have none: "outside H0 S0 {d} H S \<Longrightarrow> H g = None" for H S
    using assms(2,3) by (simp add: outside_def)
  show ?thesis
    unfolding create_staging_def assms(1)[symmetric]
  proof (rule triple_if, goal_cases)
    case 1
    show ?case
    proof (rule triple_sink[OF clone_keeps], goal_cases)
      case (1 w w' a n)
      then show ?case using cloned[OF 1(1), of g d w'] none[of "held w" "staged w"] assms(2) by (simp add: outside_def)
    qed (use assms(2) in \<open>simp add: outside_def\<close>)
  next
    case 2
    show ?case
    proof (rule triple_sink[OF create_keeps], goal_cases)
      case (1 w w' a n)
      then show ?case using created_empty[OF 1(1), of g cols w'] none[of "held w" "staged w"] assms(2) by (simp add: outside_def)
    qed (use assms(2) in \<open>simp add: outside_def\<close>)
  qed
qed

section \<open>A full refresh\<close>

lemma refresh_promoted:
  assumes "d = cfg_dest_table cfg" "g = tp_staging tp" "g \<noteq> d" "cfg_state_table_name cfg \<notin> {d, g}"
  shows "triple (snap good held staged saved (\<lambda>H S c n. outside H0 S0 {d, g} H S \<and> c = c0 \<and> H d = x \<and> n = k
        \<and> (\<exists>X. lands_all lands evs X \<and> S g = Some X)))
    (promote_refresh ops cfg tp new)
    (\<lambda>_. snap good held staged saved (\<lambda>H S c n. outside H0 S0 {d, g} H S \<and> c = c0 \<and> H g = None
        \<and> gate_passes (tp_gate tp) ops g k \<and> (\<exists>X. lands_all lands evs X \<and> H d = Some X)))
    (\<lambda>_. snap good held staged saved (\<lambda>H S c n. outside H0 S0 {d, g} H S \<and> c = c0
        \<and> (H d = x \<or> gate_passes (tp_gate tp) ops g k \<and> (\<exists>X. lands_all lands evs X \<and> H d = Some X))))"
    (is "triple (snap _ _ _ _ ?L) _ (\<lambda>_. snap _ _ _ _ ?Q) (\<lambda>_. snap _ _ _ _ ?E)")
proof -
  let ?N = "\<lambda>H S c (n :: nat). outside H0 S0 {d, g} H S \<and> c = c0 \<and> gate_passes (tp_gate tp) ops g k
      \<and> (\<exists>X. lands_all lands evs X \<and> H d = Some X)"
  let ?S = "snap good held staged saved"
  show ?thesis
    unfolding promote_refresh_def assms(1,2)[symmetric]
  proof (rule triple_rows_written[where k = k], blast, rule triple_seq[where R = "\<lambda>_ r. ?S ?L r \<and> gate_passes (tp_gate tp) ops g k"],
      goal_cases)
    case 1
    show ?case by (rule validation_passes) (auto simp: snap_def)
  next
    case (2 u)
    show ?case
    proof (cases "gate_passes (tp_gate tp) ops g k")
      case True
      have "triple (?S ?L) (guard_full_refresh_shrink ops cfg g k) (\<lambda>_. ?S ?L) (\<lambda>_. ?S ?E)"
        by (rule quiet_weaken[OF guard_quiet]) auto
      moreover have "triple (?S ?L) (check_point ops cfg (before_swap new)) (\<lambda>_. ?S ?L) (\<lambda>_. ?S ?E)"
        by (rule quiet_weaken[OF quiet_check_point[OF written_quiet]]) auto
      moreover have "triple (?S ?L) (on_sink (so_atomic_swap ops d g (sp_dest_columns (tp_select tp)))) (\<lambda>_. ?S ?N) (\<lambda>_. ?S ?E)"
      proof (rule triple_sink[OF swap_keeps], goal_cases)
        case (1 w w' a n)
        then show ?case using swapped[OF 1(1), of d g _ "sp_dest_columns (tp_select tp)" w'] assms(3,4) True by (auto simp: outside_def)
      next
        case (2 w w' e n)
        then show ?case using swap_failed[OF 2(1), of d g _ "sp_dest_columns (tp_select tp)" w' e] assms(3) True
          by (auto simp: outside_def)
      qed
      moreover have "triple (?S ?N) (on_sink (so_drop_table ops g)) (\<lambda>_. ?S ?Q) (\<lambda>_. ?S ?E)"
      proof (rule triple_sink[OF drop_keeps], goal_cases)
        case (1 w w' a n)
        then show ?case using dropped[OF 1(1), of g w'] assms(3,4) by (auto simp: outside_def)
      qed (use assms(3) in \<open>auto simp: outside_def\<close>)
      ultimately have "triple (?S ?L) (act_seq (guard_full_refresh_shrink ops cfg g k) (\<lambda>_.
          act_seq (check_point ops cfg (before_swap new)) (\<lambda>_.
          act_seq (on_sink (so_atomic_swap ops d g (sp_dest_columns (tp_select tp)))) (\<lambda>_. on_sink (so_drop_table ops g)))))
          (\<lambda>_. ?S ?Q) (\<lambda>_. ?S ?E)"
        by (meson triple_seq)
      then show ?thesis using True by simp
    next
      case False
      then show ?thesis by (simp add: triple_def)
    qed
  qed
qed

lemma read_staged:
  assumes "g \<noteq> d"
  shows "triple (snap good held staged saved (\<lambda>H S c n. outside H0 S0 {d, g} H S \<and> c = c0 \<and> H d = x \<and> n = 0 \<and> S g = Some {#}))
    (read_source ops g dir rp)
    (\<lambda>_. snap good held staged saved (\<lambda>H S c n. outside H0 S0 {d, g} H S \<and> c = c0 \<and> H d = x \<and> n = event_total (rp_events rp)
        \<and> (\<exists>X. lands_all lands (rp_events rp) X \<and> S g = Some X)))
    (\<lambda>_. snap good held staged saved (\<lambda>H S c n. outside H0 S0 {d, g} H S \<and> c = c0 \<and> H d = x))"
proof -
  let ?B = "\<lambda>H S c. outside H0 S0 {d, g} H S \<and> c = c0 \<and> H d = x"
  have "triple (snap good held staged saved (\<lambda>H S c n. ?B H S c \<and> n = 0 \<and> S g = Some {#})) (run_events (insert_event ops g dir) (rp_events rp))
     (\<lambda>_. snap good held staged saved (\<lambda>H S c n. ?B H S c \<and> n = 0 + event_total (rp_events rp)
        \<and> (\<exists>X. lands_all lands (rp_events rp) X \<and> S g = Some ({#} + X)))) (\<lambda>_. snap good held staged saved (\<lambda>H S c n. ?B H S c))"
  proof (rule events_loaded, goal_cases)
    case 1
    show ?case by (rule counted_event[OF _ refl], rule triple_sink[OF insert_keeps]) (use assms in \<open>auto simp: outside_def\<close>)
  next
    case (2 ev R k)
    show ?case
    proof (rule counted_event[OF _ refl], rule triple_sink[OF insert_keeps], goal_cases)
      case (1 w w' a n)
      then show ?case using inserted[OF 1(1) _ 1(3)] assms by (auto simp: outside_def)
    next
      case (2 w w' e n)
      then show ?case using assms by (auto simp: outside_def)
    qed
  qed
  from source_loaded[OF this] show ?thesis by (simp add: conj_assoc)
qed

lemma refresh_target:
  assumes "d = cfg_dest_table cfg" "g \<noteq> d" "H0 g = None" "cfg_mode cfg = Full"
  shows "triple (snap good held staged saved (\<lambda>H S c n. H = H0 \<and> S = S0 \<and> c = c0 \<and> n = n0))
    (prepare_target ops cfg cols g force)
    (\<lambda>(target, new) r. target = g \<and> snap good held staged saved (\<lambda>H S c n. outside H0 S0 {d, g} H S \<and> c = c0 \<and> n = n0
        \<and> H d = Some (rows_before (H0 d)) \<and> S g = Some {#}) r)
    (\<lambda>_. snap good held staged saved (\<lambda>H S c n. outside H0 S0 {d, g} H S \<and> c = c0 \<and> same_or_created (H0 d) (H d)))"
    (is "triple _ _ _ (\<lambda>_. ?E)")
proof -
  have same: "same_or_created (H0 d) (Some (rows_before (H0 d)))"
    by (auto simp: same_or_created_def rows_before_def split: option.splits)
  have wide: "outside H0 S0 {d} H S \<Longrightarrow> outside H0 S0 {d, g} H S" for H S by (auto simp: outside_def)
  let ?A = "snap good held staged saved (\<lambda>H S c n. outside H0 S0 {d} H S \<and> c = c0 \<and> n = n0 \<and> H d = Some (rows_before (H0 d)))"
  let ?B = "snap good held staged saved (\<lambda>H S c n. outside H0 S0 {d, g} H S \<and> c = c0 \<and> n = n0
        \<and> H d = Some (rows_before (H0 d)) \<and> S g = Some {#})"
  have ensured: "triple (snap good held staged saved (\<lambda>H S c n. H = H0 \<and> S = S0 \<and> c = c0 \<and> n = n0))
      (ensure_destination ops cfg cols ev) (\<lambda>_. ?A) (\<lambda>_. ?E)" for ev
    by (rule snap_weaken[OF destination_ensured[OF assms(1), where ?n0.0 = n0]]) (auto intro: wide)
  have made: "triple ?A (create_staging ops cfg cols g existed) (\<lambda>_. ?B) (\<lambda>_. ?E)" for existed
    by (rule snap_weaken[OF staging_created[where ?H0.0 = H0 and ?S0.0 = S0 and ?n0.0 = n0, OF assms(1-3)]]) (auto simp: same)
  have added: "triple ?B (if existed \<and> so_stages_from_destination ops \<and> cfg_evolve_schema cfg
      then act_seq (on_sink (so_add_missing ops cfg g cols)) (\<lambda>_. act_ok ()) else act_ok ()) (\<lambda>_. ?B) (\<lambda>_. ?E)" for existed
    by (rule quiet_weaken) (auto intro: quiet_intros quiet_ops simp: same)
  show ?thesis
    unfolding prepare_target_def assms(4) Let_def sync_mode.case
    by (rule triple_seq[OF ensured], rule triple_seq[OF made], rule triple_seq[OF added], rule triple_ok) simp
qed

lemma refresh_attempt:
  assumes "cfg_mode cfg = Full" "\<not> tp_discarded tp" "d = cfg_dest_table cfg" "g = tp_staging tp" "g \<noteq> d" "H0 g = None"
    and "cfg_state_table_name cfg \<notin> {d, g}"
  shows "triple (snap good held staged saved (\<lambda>H S c n. H = H0 \<and> S = S0 \<and> c = c0 \<and> n = 0))
    (transfer_attempt ops cfg tp)
    (\<lambda>_. snap good held staged saved (\<lambda>H S c n. outside H0 S0 {d, g} H S \<and> c = c0 \<and> H g = None
        \<and> gate_passes (tp_gate tp) ops g (event_total (rp_events (tp_read tp))) \<and> (\<exists>X. lands_all lands (rp_events (tp_read tp)) X \<and> H d = Some X)))
    (\<lambda>_. snap good held staged saved (\<lambda>H S c n. outside H0 S0 {d, g} H S \<and> c = c0
        \<and> (same_or_created (H0 d) (H d) \<or> gate_passes (tp_gate tp) ops g (event_total (rp_events (tp_read tp)))
            \<and> (\<exists>X. lands_all lands (rp_events (tp_read tp)) X \<and> H d = Some X))))"
    (is "triple (snap _ _ _ _ ?A) _ (\<lambda>_. snap _ _ _ _ ?Q) (\<lambda>_. snap _ _ _ _ ?E)")
proof -
  let ?S = "snap good held staged saved"
  let ?x = "Some (rows_before (H0 d))"
  have same: "same_or_created (H0 d) ?x"
    by (auto simp: same_or_created_def rows_before_def split: option.splits)
  let ?B = "\<lambda>H S c n. outside H0 S0 {d, g} H S \<and> c = c0 \<and> n = 0 \<and> H d = ?x \<and> S g = Some {#}"
  let ?L = "\<lambda>H S c n. outside H0 S0 {d, g} H S \<and> c = c0 \<and> H d = ?x \<and> n = event_total (rp_events (tp_read tp))
        \<and> (\<exists>X. lands_all lands (rp_events (tp_read tp)) X \<and> S g = Some X)"
  have start: "triple (?S ?A) m (\<lambda>_. ?S ?A) (\<lambda>_. ?S ?E)" if "quiet good held staged saved m" for m :: "('w run, unit) act"
    by (rule quiet_weaken[OF that]) (auto simp: same_or_created_def)
  have tail: "triple (?S ?B) (transfer_tail ops cfg tp g new) (\<lambda>_. ?S ?Q) (\<lambda>_. ?S ?E)" for new
    unfolding transfer_tail_def Let_def assms(1) sync_mode.simps
  proof (rule triple_seq[where R = "\<lambda>_. ?S ?L"], goal_cases)
    case 1
    show ?case by (rule snap_weaken[OF read_staged[OF assms(5)]]) (use same in auto)
  next
    case (2 u)
    show ?case
    proof (rule triple_seq[where R = "\<lambda>_. ?S ?Q"], goal_cases)
      case 1
      show ?case
        by (subst if_P[OF refl], rule snap_weaken[OF refresh_promoted[OF assms(3-5,7), where x = ?x and evs = "rp_events (tp_read tp)"
              and k = "event_total (rp_events (tp_read tp))"]]) (use same in auto)
    next
      case 2
      show ?case
        by (simp add: assms(1), rule quiet_weaken, intro quiet_intros) auto
    qed
  qed
  have cleaned: "triple (?S ?E) (on_sink (so_drop_table ops g)) (\<lambda>_. ?S ?E) (\<lambda>_. ?S ?E)"
    by (rule triple_sink[OF drop_keeps]) (use assms(5) in \<open>auto simp: outside_def\<close>)
  have cleaned_tail: "triple (?S ?B) (act_cleanup (transfer_tail ops cfg tp g new)
      (if g \<noteq> d then on_sink (so_drop_table ops g) else act_ok ())) (\<lambda>_. ?S ?Q) (\<lambda>_. ?S ?E)" for new
    using triple_cleanup[OF tail cleaned] assms(5) by simp
  show ?thesis
    unfolding transfer_attempt_def assms(4)[symmetric] assms(3)[symmetric]
  proof (rule triple_seq[OF start[OF destination_checked_quietly]], rule triple_seq[OF start[OF quiet_check_point[OF written_quiet]]],
      rule triple_seq[where R = "\<lambda>_. ?S ?A"], goal_cases)
    case 1
    show ?case using assms(2) by (simp add: start quiet_ok)
  next
    case 2
    have "triple (?S ?A) (prepare_target ops cfg (sp_dest_columns (tp_select tp)) g (tp_force_stage tp))
        (\<lambda>(target, new) r. target = g \<and> ?S ?B r) (\<lambda>_. ?S ?E)"
      by (rule triple_weaken[OF refresh_target[where ?H0.0 = H0 and ?S0.0 = S0 and ?n0.0 = 0, OF assms(3,5,6,1)]]) (auto simp: snap_def)
    then show ?case
      by (rule triple_seq) (use cleaned_tail in \<open>auto simp: triple_def split: prod.splits\<close>)
  qed
qed

text \<open>A whole run: however many attempts it makes, the destination is what it was, empty if the run
  created it, or the staged rows of one attempt that passed the gate; the latter when the run succeeds.\<close>

lemma refresh_run:
  assumes run: "run_transfer ops cfg ctx tps w0 = (w', res)" and "good w0" and mode: "cfg_mode cfg = Full"
    and d: "d = cfg_dest_table cfg"
    and plans: "\<And>k. \<not> tp_discarded (tps k) \<and> tp_staging (tps k) \<noteq> d \<and> held w0 (tp_staging (tps k)) = None"
    and apart: "cfg_state_table_name cfg \<noteq> d" "\<And>k. cfg_state_table_name cfg \<noteq> tp_staging (tps k)"
    and fresh: "inj (\<lambda>k. tp_staging (tps k))"
  defines "refreshed \<equiv> \<lambda>k H. gate_passes (tp_gate (tps k)) ops (tp_staging (tps k)) (event_total (rp_events (tp_read (tps k))))
      \<and> (\<exists>X. lands_all lands (rp_events (tp_read (tps k))) X \<and> H d = Some X)"
  shows "good w' \<and> saved w' = saved w0 \<and> (\<forall>t. t \<noteq> d \<and> (\<forall>k. t \<noteq> tp_staging (tps k)) \<longrightarrow> held w' t = held w0 t)
    \<and> (same_or_created (held w0 d) (held w' d) \<or> (\<exists>k. refreshed k (held w')))
    \<and> (is_ok res \<longrightarrow> (\<exists>k. refreshed k (held w')))"
proof -
  let ?g = "\<lambda>k. tp_staging (tps k)"
  define P where "P k w \<longleftrightarrow> good w \<and> saved w = saved w0 \<and> (\<forall>t. t \<noteq> d \<and> (\<forall>j < k. t \<noteq> ?g j) \<longrightarrow> held w t = held w0 t)
      \<and> (same_or_created (held w0 d) (held w d) \<or> (\<exists>j. refreshed j (held w)))" for k w
  define Q where "Q w \<longleftrightarrow> (\<exists>k. P k w \<and> refreshed k (held w))" for w
  have step: "(case x of Inr r \<Rightarrow> P (Suc k) w1 \<and> refreshed k (held w1) | Inl e \<Rightarrow> P (Suc k) w1)"
    if Pk: "P k w" and one: "attempt_once ops cfg tps k carried w = (w1, n, x)" for k carried w w1 n x
  proof -
    obtain r1 where r1: "transfer_attempt ops cfg (tps k) (new_run w carried) = (r1, x)" "w1 = rn_sink r1"
      using one by (auto simp: attempt_once_def split: prod.splits)
    have none: "held w (?g k) = None"
    proof -
      have "?g k \<noteq> ?g j" if "j < k" for j using injD[OF fresh, of k j] that by auto
      then show ?thesis using Pk plans[of k] by (auto simp: P_def)
    qed
    have start: "snap good held staged saved (\<lambda>H S c n. H = held w \<and> S = staged w \<and> c = saved w \<and> n = 0) (new_run w carried)"
      using Pk by (simp add: snap_def P_def new_run_def)
    note at = refresh_attempt[OF mode _ d refl, of "tps k" "held w" "staged w" "saved w"]
    have frame: "t \<noteq> d \<and> (\<forall>j < Suc k. t \<noteq> ?g j) \<Longrightarrow> held w t = held w0 t \<and> t \<notin> {d, ?g k}" for t
      using Pk by (auto simp: P_def)
    have chain: "same_or_created (held w0 d) y \<or> (\<exists>j. y = held w d \<and> refreshed j (held w))"
      if "same_or_created (held w d) y" for y
      using Pk that by (auto simp: P_def same_or_created_def refreshed_def)
    show ?thesis
    proof (cases x)
      case (Inl e)
      have post: "snap good held staged saved (\<lambda>H S c n. outside (held w) (staged w) {d, ?g k} H S \<and> c = saved w
          \<and> (same_or_created (held w d) (H d) \<or> refreshed k H)) r1"
        using tripleD(2)[OF at start, of r1 e] plans apart none r1(1) Inl by (simp add: refreshed_def)
      then have "P (Suc k) w1"
        using chain[of "held w1 d"] Pk frame r1(2) by (auto simp: P_def snap_def outside_def refreshed_def)
      then show ?thesis using Inl by simp
    next
      case (Inr a)
      have post: "snap good held staged saved (\<lambda>H S c n. outside (held w) (staged w) {d, ?g k} H S \<and> c = saved w
          \<and> H (?g k) = None \<and> refreshed k H) r1"
        using tripleD(1)[OF at start, of r1 a] plans apart none r1(1) Inr by (simp add: refreshed_def)
      then show ?thesis using Pk frame r1(2) Inr by (auto simp: P_def snap_def outside_def)
    qed
  qed
  have "case res of Inr _ \<Rightarrow> (\<exists>k. P k w' \<and> (\<exists>j. refreshed j (held w'))) | Inl _ \<Rightarrow> \<exists>k'. P k' w'"
  proof (rule attempts_invariant[OF _ _ _ run[unfolded run_transfer_def]])
    show "P 1 w0" using assms(2) by (simp add: P_def same_or_created_def)
  qed (use step in \<open>force+\<close>)
  then show ?thesis by (cases res) (auto simp: P_def)
qed

end

end
