(* ===== verification/QH_Transfer_Cursor.thy ===== *)
theory QH_Transfer_Cursor
  imports QH_Transfer_Laws
begin

text \<open>
  When a run moves the saved cursor: the promises of a destination that keeps one, and that a run of
  any mode saves it only once the rows it covers are in the destination.
\<close>

definition stored :: "string \<Rightarrow> string option" where
  "stored x = (if x = [] then None else Some x)"

text \<open>The rows of the read are in the destination: beside those held before (less the stale ones a
  window-scoped delete takes), or merged into them.\<close>

definition reached :: "(batch list \<Rightarrow> 'r multiset \<Rightarrow> bool) \<Rightarrow> ('r multiset \<Rightarrow> 'r multiset \<Rightarrow> 'r multiset) \<Rightarrow> read_event list
    \<Rightarrow> bool \<Rightarrow> bool \<Rightarrow> 'r multiset \<Rightarrow> 'r multiset option \<Rightarrow> bool" where
  "reached lands upserted evs merges deletes D0 x \<longleftrightarrow>
     (\<exists>D X. lands_all lands evs X \<and> D \<subseteq># D0 \<and> (\<not> deletes \<longrightarrow> D = D0)
        \<and> x = Some (if merges then upserted D X else D + X))"

text \<open>The cursor after a run whose read is in the destination.\<close>

definition advanced :: "transfer_config \<Rightarrow> transfer_plan \<Rightarrow> string option \<Rightarrow> string option" where
  "advanced cfg tp c = (if tp_cursor tp \<noteq> None \<and> cfg_advance_watermark cfg then stored (the (tp_cursor tp)) else c)"

lemma triple_cursor:
  assumes "\<And>c1. C c1 \<Longrightarrow> triple (snap g h s c (\<lambda>H S cu n. A H S n \<and> cu = c1)) m (\<lambda>a. snap g h s c (Q a)) (\<lambda>e. snap g h s c (E e))"
  shows "triple (snap g h s c (\<lambda>H S cu n. A H S n \<and> C cu)) m (\<lambda>a. snap g h s c (Q a)) (\<lambda>e. snap g h s c (E e))"
proof (rule tripleI)
  fix r r' a assume "snap g h s c (\<lambda>H S cu n. A H S n \<and> C cu) r" "m r = (r', Inr a)"
  then show "snap g h s c (Q a) r'" using tripleD(1)[OF assms[of "c (rn_sink r)"], of r] by (auto simp: snap_def)
next
  fix r r' e assume "snap g h s c (\<lambda>H S cu n. A H S n \<and> C cu) r" "m r = (r', Inl e)"
  then show "snap g h s c (E e) r'" using tripleD(2)[OF assms[of "c (rn_sink r)"], of r] by (auto simp: snap_def)
qed

locale cursor_sink = load_sink +
  fixes upserted :: "'b multiset \<Rightarrow> 'b multiset \<Rightarrow> 'b multiset"
  assumes persist_keeps: "good w \<Longrightarrow> so_persist_watermark ops cfg x n w = (w', r)
        \<Longrightarrow> good w' \<and> held w' = held w \<and> staged w' = staged w"
    and persisted: "good w \<Longrightarrow> so_persist_watermark ops cfg x n w = (w', Inr ()) \<Longrightarrow> saved w' = stored x"
    and persist_failed: "good w \<Longrightarrow> so_persist_watermark ops cfg x n w = (w', Inl e) \<Longrightarrow> saved w' = saved w \<or> saved w' = stored x"
    and move_keeps: "keeps good held staged saved {t, u} (so_insert_select ops t u cols)"
    and moved: "good w \<Longrightarrow> t \<noteq> u \<Longrightarrow> t \<noteq> cfg_state_table_name cfg \<Longrightarrow> staged w u = Some R \<Longrightarrow> held w t = Some D
        \<Longrightarrow> so_insert_select ops t u cols w = (w', Inr ()) \<Longrightarrow> held w' t = Some (D + R)"
    and merge_keeps: "keeps good held staged saved {t, u} (so_merge_into ops cfg t u cols)"
    and merged: "good w \<Longrightarrow> t \<noteq> u \<Longrightarrow> t \<noteq> cfg_state_table_name cfg \<Longrightarrow> staged w u = Some R \<Longrightarrow> held w t = Some D
        \<Longrightarrow> so_merge_into ops cfg t u cols w = (w', Inr ()) \<Longrightarrow> held w' t = Some (upserted D R)"
    and delete_keeps: "keeps good held staged saved {t} (so_delete_stale ops t u key col)"
    and stale_deleted: "good w \<Longrightarrow> held w t = Some D \<Longrightarrow> so_delete_stale ops t u key col w = (w', Inr n)
        \<Longrightarrow> \<exists>D'. D' \<subseteq># D \<and> held w' t = Some D'"
    and stale_kept_staging: "good w \<Longrightarrow> t \<noteq> u \<Longrightarrow> so_delete_stale ops t u key col w = (w', dr) \<Longrightarrow> staged w' u = staged w u"
    and inserted_directly: "\<not> so_stages_direct_writes ops \<Longrightarrow> t \<noteq> cfg_state_table_name cfg \<Longrightarrow> good w \<Longrightarrow> held w t = Some D
        \<Longrightarrow> so_insert ops t stream bs w = (w', Inr n) \<Longrightarrow> \<exists>X. lands bs X \<and> held w' t = Some (D + X)"
begin

lemma read_directly:
  assumes "\<not> so_stages_direct_writes ops" "d \<noteq> cfg_state_table_name cfg"
  shows "triple (snap good held staged saved (\<lambda>H S c n. outside H0 S0 {d} H S \<and> c = c0 \<and> n = 0 \<and> H d = Some D))
    (read_source ops d dir rp)
    (\<lambda>_. snap good held staged saved (\<lambda>H S c n. outside H0 S0 {d} H S \<and> c = c0 \<and> n = event_total (rp_events rp)
        \<and> (\<exists>X. lands_all lands (rp_events rp) X \<and> H d = Some (D + X))))
    (\<lambda>_. snap good held staged saved (\<lambda>H S c n. outside H0 S0 {d} H S \<and> c = c0))"
proof -
  let ?B = "\<lambda>H S c. outside H0 S0 {d} H S \<and> c = c0"
  have "triple (snap good held staged saved (\<lambda>H S c n. ?B H S c \<and> n = 0 \<and> H d = Some D)) (run_events (insert_event ops d dir) (rp_events rp))
     (\<lambda>_. snap good held staged saved (\<lambda>H S c n. ?B H S c \<and> n = 0 + event_total (rp_events rp)
        \<and> (\<exists>X. lands_all lands (rp_events rp) X \<and> H d = Some (D + X)))) (\<lambda>_. snap good held staged saved (\<lambda>H S c n. ?B H S c))"
  proof (rule events_loaded, goal_cases)
    case 1
    show ?case by (rule counted_event[OF _ refl], rule triple_sink[OF insert_keeps]) (auto simp: outside_def)
  next
    case (2 ev R k)
    show ?case
    proof (rule counted_event[OF _ refl], rule triple_sink[OF insert_keeps], goal_cases)
      case (1 w w' a n)
      then show ?case using inserted_directly[OF assms 1(1) _ 1(3)] by (auto simp: outside_def)
    next
      case (2 w w' e n)
      then show ?case by (auto simp: outside_def)
    qed
  qed
  from source_loaded[OF this] show ?thesis by (simp add: conj_assoc)
qed

text \<open>The promotion of what an incremental run staged.\<close>

lemma incremental_promoted:
  assumes "d = cfg_dest_table cfg" "g \<noteq> d" and apart: "d \<noteq> cfg_state_table_name cfg"
  shows "triple (snap good held staged saved (\<lambda>H S c n. outside H0 S0 {d, g} H S \<and> c = c0 \<and> H d = Some D
        \<and> (\<exists>X. lands_all lands evs X \<and> S g = Some X)))
    (promote_staged_incremental ops cfg gate g cols k)
    (\<lambda>_. snap good held staged saved (\<lambda>H S c n. outside H0 S0 {d, g} H S \<and> c = c0
        \<and> reached lands upserted evs (so_requires_staging ops) (cfg_delete_stale_in_window cfg) D (H d)))
    (\<lambda>_. snap good held staged saved (\<lambda>H S c n. outside H0 S0 {d, g} H S \<and> c = c0))"
    (is "triple (?S ?L) _ (\<lambda>_. ?S ?Q) (\<lambda>_. ?S ?E)")
proof -
  let ?D = "\<lambda>H S c (n :: nat). outside H0 S0 {d, g} H S \<and> c = c0
      \<and> (\<exists>D'. D' \<subseteq># D \<and> (\<not> cfg_delete_stale_in_window cfg \<longrightarrow> D' = D) \<and> H d = Some D')
      \<and> (\<exists>X. lands_all lands evs X \<and> S g = Some X)"
  have checked: "triple (?S ?L) (run_staged_validation gate ops g k) (\<lambda>_. ?S ?L) (\<lambda>_. ?S ?E)"
    by (rule validation_passes) (auto simp: snap_def)
  have deleted: "triple (?S ?L) (if cfg_delete_stale_in_window cfg \<and> \<not> so_deletes_within_merge ops
      then (case cfg_merge_prune_partition_by cfg of
              None \<Rightarrow> act_err (Internal ''delete_stale_in_window without merge_prune_partition_by (should have been validated)'')
            | Some window \<Rightarrow> on_sink (so_delete_stale ops d g (cfg_key cfg) window))
      else act_ok 0) (\<lambda>_. ?S ?D) (\<lambda>_. ?S ?E)"
  proof (rule triple_if, goal_cases)
    case 1
    show ?case
    proof (cases "cfg_merge_prune_partition_by cfg")
      case None
      then show ?thesis by (auto intro!: triple_err simp: snap_def)
    next
      case (Some window)
      have "triple (?S ?L) (on_sink (so_delete_stale ops d g (cfg_key cfg) window)) (\<lambda>_. ?S ?D) (\<lambda>_. ?S ?E)"
      proof (rule triple_sink[OF delete_keeps], goal_cases)
        case (1 w w' a n)
        then show ?case
          using stale_deleted[OF 1(1) _ 1(3)] stale_kept_staging[OF 1(1) _ 1(3)] assms(2) \<open>cfg_delete_stale_in_window cfg \<and> _\<close>
          by (auto simp: outside_def)
      qed (use assms(2) in \<open>auto simp: outside_def\<close>)
      then show ?thesis using Some by simp
    qed
  next
    case 2
    show ?case by (rule triple_ok) (auto simp: snap_def)
  qed
  have written: "triple (?S ?D) (if so_requires_staging ops then merge_staged ops cfg g cols else on_sink (so_insert_select ops d g cols))
      (\<lambda>_. ?S ?Q) (\<lambda>_. ?S ?E)"
  proof (rule triple_if, goal_cases)
    case 1
    have merge: "triple (?S ?D) (on_sink (so_merge_into ops cfg d g cols)) (\<lambda>_. ?S ?Q) (\<lambda>_. ?S ?E)"
    proof (rule triple_sink[OF merge_keeps], goal_cases)
      case inner: (1 w w' a n)
      then obtain D' X where DX: "D' \<subseteq># D" "\<not> cfg_delete_stale_in_window cfg \<longrightarrow> D' = D" "held w d = Some D'"
        "lands_all lands evs X" "staged w g = Some X" by blast
      then have "held w' d = Some (upserted D' X)"
        using merged[of w d g X D' cols w'] inner assms(2) apart by simp
      then show ?case using inner assms(2) DX 1 by (auto simp: outside_def reached_def)
    qed (use assms(2) in \<open>auto simp: outside_def\<close>)
    have "triple (?S ?D) (act_result (on_sink (so_merge_into ops cfg d g cols)))
        (\<lambda>x. case x of Inr _ \<Rightarrow> ?S ?Q | Inl _ \<Rightarrow> ?S ?E) (\<lambda>_. ?S ?E)"
      by (rule triple_result) (use merge in simp)
    moreover have "triple (case x of Inr _ \<Rightarrow> ?S ?Q | Inl _ \<Rightarrow> ?S ?E) (act_seq (warn_unclustered_merge_target ops cfg) (\<lambda>_. act_lift x))
        (\<lambda>_. ?S ?Q) (\<lambda>_. ?S ?E)" for x :: "unit res"
    proof -
      have quiet: "quiet good held staged saved (warn_unclustered_merge_target ops cfg)"
        unfolding warn_unclustered_merge_target_def by (intro quiet_intros quiet_ops)
      have "triple (?S A) (act_seq (warn_unclustered_merge_target ops cfg) (\<lambda>_. act_lift x)) (\<lambda>_. ?S ?Q) (\<lambda>_. ?S ?E)"
        if "\<And>H S c n. A H S c n \<Longrightarrow> ?E H S c n" "\<And>H S c n. x = Inr () \<Longrightarrow> A H S c n \<Longrightarrow> ?Q H S c n" for A
        by (rule triple_seq[where R = "\<lambda>_. ?S A"], rule quiet_weaken[OF quiet], assumption, erule that(1), rule triple_lift)
          (auto simp: snap_def dest: that)
      then show ?thesis by (cases x) auto
    qed
    ultimately show ?case unfolding merge_staged_def assms(1)[symmetric] by (rule triple_seq)
  next
    case 2
    show ?case
    proof (rule triple_sink[OF move_keeps], goal_cases)
      case inner: (1 w w' a n)
      then obtain D' X where DX: "D' \<subseteq># D" "\<not> cfg_delete_stale_in_window cfg \<longrightarrow> D' = D" "held w d = Some D'"
        "lands_all lands evs X" "staged w g = Some X" by blast
      then have "held w' d = Some (D' + X)"
        using moved[of w d g X D' cols w'] inner assms(2) apart by simp
      then show ?case using inner assms(2) DX 2 by (auto simp: outside_def reached_def)
    qed (use assms(2) in \<open>auto simp: outside_def\<close>)
  qed
  have dropped: "triple (?S ?Q) (on_sink (so_drop_table ops g)) (\<lambda>_. ?S ?Q) (\<lambda>_. ?S ?E)"
    by (rule triple_sink[OF drop_keeps]) (use assms(2) in \<open>auto simp: outside_def\<close>)
  show ?thesis
    unfolding promote_staged_incremental_def assms(1)[symmetric]
    by (rule triple_seq[OF checked], rule triple_seq[OF deleted], rule triple_seq[OF written], rule triple_seq[OF dropped], rule triple_ok)
qed

lemma append_promoted:
  assumes "d = cfg_dest_table cfg" "g \<noteq> d" and apart: "d \<noteq> cfg_state_table_name cfg"
  shows "triple (snap good held staged saved (\<lambda>H S c n. outside H0 S0 {d, g} H S \<and> c = c0 \<and> H d = Some D
        \<and> (\<exists>X. lands_all lands evs X \<and> S g = Some X)))
    (promote_staged_append ops cfg g cols)
    (\<lambda>_. snap good held staged saved (\<lambda>H S c n. outside H0 S0 {d, g} H S \<and> c = c0 \<and> reached lands upserted evs False del D (H d)))
    (\<lambda>_. snap good held staged saved (\<lambda>H S c n. outside H0 S0 {d, g} H S \<and> c = c0))"
    (is "triple (?S ?L) _ (\<lambda>_. ?S ?Q) (\<lambda>_. ?S ?E)")
proof -
  have "triple (?S ?L) (on_sink (so_insert_select ops d g cols)) (\<lambda>_. ?S ?Q) (\<lambda>_. ?S ?E)"
  proof (rule triple_sink[OF move_keeps], goal_cases)
    case (1 w w' a n)
    then obtain X where X: "lands_all lands evs X" "staged w g = Some X" "held w d = Some D" by blast
    then have "held w' d = Some (D + X)" using moved[of w d g X D cols w'] 1 assms(2) apart by simp
    then show ?case using 1 assms(2) X by (auto simp: outside_def reached_def)
  qed (use assms(2) in \<open>auto simp: outside_def\<close>)
  moreover have "triple (?S ?Q) (on_sink (so_drop_table ops g)) (\<lambda>_. ?S ?Q) (\<lambda>_. ?S ?E)"
    by (rule triple_sink[OF drop_keeps]) (use assms(2) in \<open>auto simp: outside_def\<close>)
  ultimately show ?thesis unfolding promote_staged_append_def assms(1)[symmetric] by (rule triple_seq)
qed

text \<open>Where an incremental or append run writes.\<close>

lemma cursor_target:
  assumes "d = cfg_dest_table cfg" "g \<noteq> d" "H0 g = None" "keeps_cursor (cfg_mode cfg)"
    and "so_stages_direct_writes ops \<Longrightarrow> force" and inc: "inc \<longleftrightarrow> cfg_mode cfg = Incremental"
  shows "triple (snap good held staged saved (\<lambda>H S c n. H = H0 \<and> S = S0 \<and> n = 0 \<and> c = c1))
    (prepare_target ops cfg cols g force)
    (\<lambda>(target, new) r.
        target = g \<and> snap good held staged saved (\<lambda>H S c n. outside H0 S0 {d, g} H S \<and> c = c1 \<and> n = 0
            \<and> H d = Some (rows_before (H0 d)) \<and> S g = Some {#}) r
      \<or> target = d \<and> \<not> so_stages_direct_writes ops \<and> (inc \<longrightarrow> \<not> so_requires_staging ops)
          \<and> snap good held staged saved (\<lambda>H S c n. outside H0 S0 {d} H S \<and> c = c1 \<and> n = 0 \<and> H d = Some (rows_before (H0 d))) r)
    (\<lambda>_. snap good held staged saved (\<lambda>H S c n. outside H0 S0 {d, g} H S \<and> c = c1))"
    (is "triple ?P _ ?Q (\<lambda>_. ?E)")
proof -
  let ?A = "snap good held staged saved (\<lambda>H S c n. outside H0 S0 {d} H S \<and> c = c1 \<and> n = 0 \<and> H d = Some (rows_before (H0 d)))"
  have ensured: "triple ?P (ensure_destination ops cfg cols ev) (\<lambda>_. ?A) (\<lambda>_. ?E)" for ev
    by (rule snap_weaken[OF destination_ensured[OF assms(1), where ?n0.0 = 0]]) (auto simp: outside_def)
  have state: "triple ?A (on_sink (so_ensure_state ops (cfg_state_table_name cfg))) (\<lambda>_. ?A) (\<lambda>_. ?E)"
    by (rule quiet_weaken[OF quiet_on[OF state_quiet]]) (auto simp: outside_def)
  have made: "triple ?A (act_seq (create_staging ops cfg cols g existed) (\<lambda>_. act_ok (g, new))) ?Q (\<lambda>_. ?E)" for existed new
    by (rule triple_seq[OF snap_weaken[OF staging_created[where ?H0.0 = H0 and ?S0.0 = S0 and ?n0.0 = 0, OF assms(1-3)]]], assumption, assumption)
      (auto intro!: triple_ok)
  have direct: "triple ?A (act_ok (d, new)) ?Q (\<lambda>_. ?E)" if "\<not> force" "inc \<longrightarrow> \<not> so_requires_staging ops" for new
    using that assms(5) by (intro triple_ok) auto
  have err: "triple ?P (act_err e) ?Q (\<lambda>_. ?E)" for e
    by (rule triple_err) (auto simp: snap_def)
  show ?thesis
  proof (cases "cfg_mode cfg")
    case Full
    then show ?thesis using assms(4) by simp
  next
    case Incremental
    show ?thesis
      unfolding prepare_target_def Let_def Incremental sync_mode.case assms(1)[symmetric]
      by (intro triple_if err triple_seq[OF ensured] triple_seq[OF state] made direct) auto
  next
    case Append
    show ?thesis
      unfolding prepare_target_def Let_def Append sync_mode.case assms(1)[symmetric]
      by (intro triple_if triple_seq[OF ensured] triple_seq[OF state] made direct) (auto simp: inc Append)
  qed
qed

lemma cursor_persisted:
  assumes "\<And>H S n. A H S c1 n \<Longrightarrow> B H S n"
  shows "triple (snap good held staged saved (\<lambda>H S c n. A H S c n \<and> c = c1)) (on_sink (so_persist_watermark ops cfg x k))
    (\<lambda>_. snap good held staged saved (\<lambda>H S c n. B H S n \<and> c = stored x))
    (\<lambda>_. snap good held staged saved (\<lambda>H S c n. B H S n \<and> (c = c1 \<or> c = stored x)))"
  unfolding on_sink_def
proof (rule triple_on, rule tripleI)
  fix r w w' and a :: unit
  assume "snap good held staged saved (\<lambda>H S c n. A H S c n \<and> c = c1) r" "w = rn_sink r" "so_persist_watermark ops cfg x k w = (w', Inr a)"
  then show "snap good held staged saved (\<lambda>H S c n. B H S n \<and> c = stored x) (r\<lparr>rn_sink := w'\<rparr>)"
    using persist_keeps[of w x k w' "Inr a"] persisted[of w x k w'] assms by (auto simp: snap_def)
next
  fix r w w' e
  assume "snap good held staged saved (\<lambda>H S c n. A H S c n \<and> c = c1) r" "w = rn_sink r" "so_persist_watermark ops cfg x k w = (w', Inl e)"
  then show "snap good held staged saved (\<lambda>H S c n. B H S n \<and> (c = c1 \<or> c = stored x)) (r\<lparr>rn_sink := w'\<rparr>)"
    using persist_keeps[of w x k w' "Inl e"] persist_failed[of w x k w' e] assms by (auto simp: snap_def)
qed

lemma incremental_step:
  assumes "d = cfg_dest_table cfg" "g \<noteq> d" and apart: "d \<noteq> cfg_state_table_name cfg"
    and "\<And>x. reached lands upserted evs (so_requires_staging ops) (cfg_delete_stale_in_window cfg) D x \<Longrightarrow> reach x"
  shows "triple (snap good held staged saved (\<lambda>H S c n. outside H0 S0 {d, g} H S \<and> c = c1 \<and> H d = Some D
        \<and> (\<exists>X. lands_all lands evs X \<and> S g = Some X)))
      (act_seq (check_point ops cfg (before_merge new)) (\<lambda>_.
        act_seq (act_get rn_rows_written) (\<lambda>rows.
        act_seq (promote_staged_incremental ops cfg gate g cols rows) (\<lambda>deleted.
        act_seq (if so_requires_staging ops then act_ok () else landed_in_destination) (\<lambda>_. act_ok deleted)))))
      (\<lambda>_. snap good held staged saved (\<lambda>H S c n. outside H0 S0 {d, g} H S \<and> c = c1 \<and> reach (H d)))
      (\<lambda>_. snap good held staged saved (\<lambda>H S c n. outside H0 S0 {d, g} H S \<and> c = c1))"
    (is "triple (?S ?P) _ (\<lambda>_. ?S ?R) (\<lambda>_. ?S ?E)")
proof -
  have quiet: "triple (?S ?P) m (\<lambda>_. ?S ?P) (\<lambda>_. ?S ?E)" if "quiet good held staged saved m" for m :: "('a run, 'x) act"
    by (rule quiet_weaken[OF that]) auto
  have promoted: "triple (?S ?P) (promote_staged_incremental ops cfg gate g cols rows) (\<lambda>_. ?S ?R) (\<lambda>_. ?S ?E)" for rows
    by (rule snap_weaken[OF incremental_promoted[OF assms(1,2) apart, where evs = evs and D = D and ?H0.0 = H0 and ?S0.0 = S0 and ?c0.0 = c1]])
      (use assms(4) in auto)
  have counted: "triple (?S ?R) (act_seq (if so_requires_staging ops then act_ok () else landed_in_destination) (\<lambda>_. act_ok a))
      (\<lambda>_. ?S ?R) (\<lambda>_. ?S ?E)" for a
    by (rule quiet_weaken) (auto intro!: quiet_intros)
  show ?thesis
    by (rule triple_seq[OF quiet[OF quiet_check_point[OF written_quiet]]], rule triple_seq[OF quiet[OF quiet_get]],
        rule triple_seq[OF promoted counted])
qed

lemma append_step:
  assumes "d = cfg_dest_table cfg" "g \<noteq> d" and apart: "d \<noteq> cfg_state_table_name cfg"
    and "\<And>x. reached lands upserted evs False del D x \<Longrightarrow> reach x"
  shows "triple (snap good held staged saved (\<lambda>H S c n. outside H0 S0 {d, g} H S \<and> c = c1 \<and> H d = Some D
        \<and> (\<exists>X. lands_all lands evs X \<and> S g = Some X)))
      (act_seq (check_point ops cfg (before_append new)) (\<lambda>_.
        act_seq (promote_staged_append ops cfg g cols) (\<lambda>_. landed_in_destination)))
      (\<lambda>_. snap good held staged saved (\<lambda>H S c n. outside H0 S0 {d, g} H S \<and> c = c1 \<and> reach (H d)))
      (\<lambda>_. snap good held staged saved (\<lambda>H S c n. outside H0 S0 {d, g} H S \<and> c = c1))"
    (is "triple (?S ?P) _ (\<lambda>_. ?S ?R) (\<lambda>_. ?S ?E)")
proof -
  have checked: "triple (?S ?P) (check_point ops cfg (before_append new)) (\<lambda>_. ?S ?P) (\<lambda>_. ?S ?E)"
    by (rule quiet_weaken[OF quiet_check_point[OF written_quiet]]) auto
  have promoted: "triple (?S ?P) (promote_staged_append ops cfg g cols) (\<lambda>_. ?S ?R) (\<lambda>_. ?S ?E)"
    by (rule snap_weaken[OF append_promoted[OF assms(1,2) apart, where evs = evs and D = D and ?H0.0 = H0 and ?S0.0 = S0 and ?c0.0 = c1 and del = del]])
      (use assms(4) in auto)
  have counted: "triple (?S ?R) landed_in_destination (\<lambda>_. ?S ?R) (\<lambda>_. ?S ?E)"
    by (rule quiet_weaken[OF quiet_landed]) auto
  show ?thesis by (rule triple_seq[OF checked], rule triple_seq[OF promoted counted])
qed

lemma cursor_saved:
  "triple (snap good held staged saved (\<lambda>H S c n. outside H0 S0 T H S \<and> c = c1 \<and> reach (H d)))
    (case tp_cursor tp of
       Some w \<Rightarrow> if cfg_advance_watermark cfg
         then act_seq (act_get rn_rows_written) (\<lambda>rows. on_sink (so_persist_watermark ops cfg w rows)) else act_ok ()
     | None \<Rightarrow> act_ok ())
    (\<lambda>_. snap good held staged saved (\<lambda>H S c n. outside H0 S0 T H S \<and> reach (H d) \<and> c = advanced cfg tp c1))
    (\<lambda>_. snap good held staged saved (\<lambda>H S c n. outside H0 S0 T H S \<and> reach (H d) \<and> (c = c1 \<or> c = advanced cfg tp c1)))"
    (is "triple (?S ?R) _ (\<lambda>_. ?S ?Q) (\<lambda>_. ?S ?E)")
proof (cases "tp_cursor tp")
  case None
  then show ?thesis by (auto intro!: triple_ok simp: snap_def advanced_def)
next
  case (Some x)
  have "triple (?S ?R) (on_sink (so_persist_watermark ops cfg x rows)) (\<lambda>_. ?S ?Q) (\<lambda>_. ?S ?E)"
    if "cfg_advance_watermark cfg" for rows
    by (rule snap_weaken[OF cursor_persisted[where A = "\<lambda>H S c n. outside H0 S0 T H S \<and> reach (H d)"
          and B = "\<lambda>H S n. outside H0 S0 T H S \<and> reach (H d)" and ?c1.0 = c1]]) (use Some that in \<open>auto simp: advanced_def\<close>)
  moreover have "triple (?S ?R) (act_get rn_rows_written) (\<lambda>_. ?S ?R) (\<lambda>_. ?S ?E)"
    by (rule triple_get) simp
  ultimately show ?thesis
    using Some by (auto intro!: triple_seq triple_ok simp: snap_def advanced_def)
qed

text \<open>Once the read is done: promote, then save.\<close>

lemma cursor_kept:
  fixes D evs
  assumes "d = cfg_dest_table cfg" "g = tp_staging tp" "g \<noteq> d" "keeps_cursor (cfg_mode cfg)" and inc: "inc \<longleftrightarrow> cfg_mode cfg = Incremental"
    and direct: "\<not> used \<Longrightarrow> inc \<Longrightarrow> \<not> so_requires_staging ops" and apart: "d \<noteq> cfg_state_table_name cfg"
  defines "reach \<equiv> reached lands upserted evs (inc \<and> so_requires_staging ops) (cfg_delete_stale_in_window cfg) D"
  shows "triple (snap good held staged saved (\<lambda>H S c n. outside H0 S0 {d, g} H S \<and> c = c1
        \<and> (if used then H d = Some D \<and> (\<exists>X. lands_all lands evs X \<and> S g = Some X) else \<exists>X. lands_all lands evs X \<and> H d = Some (D + X))))
    (keep_cursor ops cfg tp used new)
    (\<lambda>_. snap good held staged saved (\<lambda>H S c n. outside H0 S0 {d, g} H S \<and> reach (H d) \<and> c = advanced cfg tp c1))
    (\<lambda>_. snap good held staged saved (\<lambda>H S c n. outside H0 S0 {d, g} H S \<and> (c = c1 \<or> reach (H d) \<and> c = advanced cfg tp c1)))"
    (is "triple (?S ?P) _ (\<lambda>_. ?S ?Q) (\<lambda>_. ?S ?E)")
proof -
  let ?R = "\<lambda>H S c (n :: nat). outside H0 S0 {d, g} H S \<and> c = c1 \<and> reach (H d)"
  let ?app = "cfg_mode cfg = Append"
  let ?M = "if used \<and> \<not> ?app then ?R else ?P"
  have app: "?app \<longleftrightarrow> \<not> inc" using assms(4) inc by (cases "cfg_mode cfg") auto
  have q: "triple (?S A) m (\<lambda>_. ?S A) (\<lambda>_. ?S ?E)"
    if "quiet good held staged saved m" "\<And>H S c n. A H S c n \<Longrightarrow> outside H0 S0 {d, g} H S \<and> c = c1" for A and m :: "('a run, 'x) act"
    by (rule quiet_weaken[OF that(1)]) (use that(2) in auto)
  have reach_direct: "lands_all lands evs X \<Longrightarrow> \<not> used \<Longrightarrow> reach (Some (D + X))" for X
    using direct by (auto simp: reach_def reached_def)
  have merged: "triple (?S ?P) (if used \<and> \<not> ?app
       then act_seq (check_point ops cfg (before_merge new)) (\<lambda>_.
            act_seq (act_get rn_rows_written) (\<lambda>rows.
            act_seq (promote_staged_incremental ops cfg (tp_gate tp) g (sp_dest_columns (tp_select tp)) rows) (\<lambda>deleted.
            act_seq (if so_requires_staging ops then act_ok () else landed_in_destination) (\<lambda>_. act_ok deleted))))
       else act_ok 0) (\<lambda>_. ?S ?M) (\<lambda>_. ?S ?E)"
  proof (rule triple_if, goal_cases)
    case 1
    then show ?case
      using app by (intro snap_weaken[OF incremental_step[OF assms(1,3) apart, where evs = evs and D = D and reach = reach
        and ?H0.0 = H0 and ?S0.0 = S0 and ?c1.0 = c1]]) (auto simp: reach_def)
  next
    case 2
    then show ?case by (intro triple_ok) auto
  qed
  have appended: "triple (?S ?M) (if ?app \<and> used
       then act_seq (check_point ops cfg (before_append new)) (\<lambda>_.
            act_seq (promote_staged_append ops cfg g (sp_dest_columns (tp_select tp))) (\<lambda>_. landed_in_destination))
       else act_ok ()) (\<lambda>_. ?S ?R) (\<lambda>_. ?S ?E)"
  proof (rule triple_if, goal_cases)
    case 1
    then show ?case
      using app by (intro snap_weaken[OF append_step[OF assms(1,3) apart, where evs = evs and D = D and reach = reach
        and ?H0.0 = H0 and ?S0.0 = S0 and ?c1.0 = c1 and del = "cfg_delete_stale_in_window cfg"]]) (auto simp: reach_def)
  next
    case 2
    then show ?case using reach_direct by (intro triple_ok) (auto simp: snap_def split: if_splits)
  qed
  have saved: "triple (?S ?R) (act_seq (check_point ops cfg BeforeCursor) (\<lambda>_. act_seq (case tp_cursor tp of
         Some w \<Rightarrow> if cfg_advance_watermark cfg
           then act_seq (act_get rn_rows_written) (\<lambda>rows. on_sink (so_persist_watermark ops cfg w rows)) else act_ok ()
       | None \<Rightarrow> act_ok ()) (\<lambda>_. act_ok deleted))) (\<lambda>_. ?S ?Q) (\<lambda>_. ?S ?E)" for deleted :: nat
    by (rule triple_seq[OF q[OF quiet_check_point[OF written_quiet]]], simp,
        rule triple_seq[OF snap_weaken[OF cursor_saved]], assumption, assumption) (auto intro: triple_ok)
  show ?thesis
    unfolding keep_cursor_def Let_def assms(2)[symmetric]
    by (rule triple_seq[OF q[OF quiet_get]], simp, rule triple_seq[OF q], intro quiet_intros, simp,
        rule triple_seq[OF merged], rule triple_seq[OF q], intro quiet_intros, simp split: if_splits,
        rule triple_seq[OF appended], rule saved)
qed

lemma discarded_cleared:
  "triple (snap good held staged saved (\<lambda>H S c n. H = H0 \<and> S = S0 \<and> n = 0 \<and> c = c0)) (clear_discarded ops cfg)
    (\<lambda>_. snap good held staged saved (\<lambda>H S c n. (H = H0 \<and> S = S0 \<and> n = 0) \<and> (c = c0 \<or> c = None)))
    (\<lambda>_. snap good held staged saved (\<lambda>H S c n. H = H0 \<and> S = S0 \<and> (c = c0 \<or> c = None)))"
    (is "triple ?P _ _ (\<lambda>_. ?E)")
  unfolding clear_discarded_def
proof (rule triple_if, goal_cases)
  case 1
  show ?case by (rule triple_ok) (auto simp: snap_def)
next
  case 2
  have "triple ?P (on_sink (so_ensure_state ops (cfg_state_table_name cfg))) (\<lambda>_. ?P) (\<lambda>_. ?E)"
    by (rule quiet_weaken[OF quiet_on[OF state_quiet]]) auto
  moreover have "triple ?P (on_sink (so_persist_watermark ops cfg [] 0))
      (\<lambda>_. snap good held staged saved (\<lambda>H S c n. (H = H0 \<and> S = S0 \<and> n = 0) \<and> (c = c0 \<or> c = None))) (\<lambda>_. ?E)"
    by (rule snap_weaken[OF cursor_persisted[where A = "\<lambda>H S c n. H = H0 \<and> S = S0 \<and> n = 0"
          and B = "\<lambda>H S n. H = H0 \<and> S = S0 \<and> n = 0" and ?c1.0 = c0]]) (auto simp: stored_def)
  ultimately show ?case by (rule triple_seq)
qed

lemma cursor_tail:
  fixes tp H0 d
  assumes "d = cfg_dest_table cfg" "g = tp_staging tp" "g \<noteq> d" "keeps_cursor (cfg_mode cfg)" "inc \<longleftrightarrow> cfg_mode cfg = Incremental"
    and "target = g \<or> target = d \<and> \<not> so_stages_direct_writes ops \<and> (inc \<longrightarrow> \<not> so_requires_staging ops)"
    and apart: "d \<noteq> cfg_state_table_name cfg"
  defines "reach \<equiv> reached lands upserted (rp_events (tp_read tp)) (inc \<and> so_requires_staging ops) (cfg_delete_stale_in_window cfg)
      (rows_before (H0 d))"
  shows "triple (snap good held staged saved (\<lambda>H S c n. outside H0 S0 (if target = g then {d, g} else {d}) H S \<and> c = c1 \<and> n = 0
        \<and> H d = Some (rows_before (H0 d)) \<and> (target = g \<longrightarrow> S g = Some {#})))
    (transfer_tail ops cfg tp target new)
    (\<lambda>_. snap good held staged saved (\<lambda>H S c n. outside H0 S0 {d, g} H S \<and> reach (H d) \<and> c = advanced cfg tp c1))
    (\<lambda>_. snap good held staged saved (\<lambda>H S c n. outside H0 S0 {d, g} H S \<and> (c = c1 \<or> reach (H d) \<and> c = advanced cfg tp c1)))"
    (is "triple (?S ?P) _ (\<lambda>_. ?S ?Q) (\<lambda>_. ?S ?E)")
proof -
  let ?D = "rows_before (H0 d)" and ?evs = "rp_events (tp_read tp)"
  let ?L = "\<lambda>H S c (n :: nat). outside H0 S0 {d, g} H S \<and> c = c1
        \<and> (if target \<noteq> d then H d = Some ?D \<and> (\<exists>X. lands_all lands ?evs X \<and> S g = Some X)
           else \<exists>X. lands_all lands ?evs X \<and> H d = Some (?D + X))"
  have not_full: "cfg_mode cfg \<noteq> Full" using assms(4) by auto
  have read: "triple (?S ?P) (read_source ops target (\<not> target \<noteq> d) (tp_read tp)) (\<lambda>_. ?S ?L) (\<lambda>_. ?S ?E)"
  proof (cases "target = g")
    case True
    show ?thesis
      by (rule snap_weaken[OF read_staged[OF assms(3), of H0 S0 c1 "Some ?D", folded True]]) (use True assms(3) in auto)
  next
    case False
    then have t: "target = d" "\<not> so_stages_direct_writes ops" using assms(6) by auto
    show ?thesis
      unfolding t(1)
      by (rule snap_weaken[OF read_directly[OF t(2) apart, of H0 S0 c1 ?D]]) (use False t assms(3) in \<open>auto simp: outside_def\<close>)
  qed
  have kept: "triple (?S ?L) (keep_cursor ops cfg tp (target \<noteq> d) new) (\<lambda>_. ?S ?Q) (\<lambda>_. ?S ?E)"
    unfolding reach_def by (rule cursor_kept[OF assms(1-5) _ apart]) (use assms(3,6) in auto)
  have reported: "triple (?S ?Q) (report tp n) (\<lambda>_. ?S ?Q) (\<lambda>_. ?S ?E)" for n
    by (rule quiet_weaken[OF quiet_report]) (auto split: option.splits if_splits)
  have skipped: "triple (?S ?L) (if cfg_mode cfg = Full then promote_refresh ops cfg tp new else act_ok ()) (\<lambda>_. ?S ?L) (\<lambda>_. ?S ?E)"
    using not_full by (auto intro: triple_ok)
  show ?thesis
    unfolding transfer_tail_def Let_def assms(1)[symmetric] if_P[OF assms(4)]
    by (rule triple_seq[OF read], rule triple_seq[OF skipped], rule triple_seq[OF kept], rule reported)
qed

lemma cursor_attempt:
  fixes tp H0 d
  assumes "d = cfg_dest_table cfg" "g = tp_staging tp" "g \<noteq> d" "H0 g = None" "keeps_cursor (cfg_mode cfg)"
    and "so_stages_direct_writes ops \<Longrightarrow> tp_force_stage tp" "inc \<longleftrightarrow> cfg_mode cfg = Incremental"
    and apart: "d \<noteq> cfg_state_table_name cfg"
  defines "reach \<equiv> reached lands upserted (rp_events (tp_read tp)) (inc \<and> so_requires_staging ops) (cfg_delete_stale_in_window cfg)
      (rows_before (H0 d))"
  shows "triple (snap good held staged saved (\<lambda>H S c n. H = H0 \<and> S = S0 \<and> n = 0 \<and> c = c0))
    (transfer_attempt ops cfg tp)
    (\<lambda>_. snap good held staged saved (\<lambda>H S c n. outside H0 S0 {d, g} H S \<and> reach (H d)
        \<and> (c = advanced cfg tp c0 \<or> tp_discarded tp \<and> c = advanced cfg tp None)))
    (\<lambda>_. snap good held staged saved (\<lambda>H S c n. outside H0 S0 {d, g} H S
        \<and> (c = c0 \<or> tp_discarded tp \<and> c = None
           \<or> reach (H d) \<and> (c = advanced cfg tp c0 \<or> tp_discarded tp \<and> c = advanced cfg tp None))))"
    (is "triple (?S ?A) _ (\<lambda>_. ?S ?Q) (\<lambda>_. ?S ?E)")
proof -
  have start: "triple (?S ?A) m (\<lambda>_. ?S ?A) (\<lambda>_. ?S ?E)" if "quiet good held staged saved m" for m :: "('a run, unit) act"
    by (rule quiet_weaken[OF that]) auto
  let ?C = "\<lambda>c. c = c0 \<or> tp_discarded tp \<and> c = None"
  have cleared: "triple (?S ?A) (if tp_discarded tp then clear_discarded ops cfg else act_ok ())
      (\<lambda>_. ?S (\<lambda>H S c n. (H = H0 \<and> S = S0 \<and> n = 0) \<and> ?C c)) (\<lambda>_. ?S ?E)"
  proof (rule triple_if, goal_cases)
    case 1
    then show ?case by (intro snap_weaken[OF discarded_cleared[where ?H0.0 = H0 and ?S0.0 = S0 and ?c0.0 = c0]]) auto
  next
    case 2
    show ?case by (rule triple_ok) (auto simp: snap_def)
  qed
  have cleanup: "triple (?S ?E) (if target \<noteq> d then on_sink (so_drop_table ops g) else act_ok ()) (\<lambda>_. ?S ?E) (\<lambda>_. ?S ?E)" for target
  proof (rule triple_if, goal_cases)
    case 1
    show ?case by (rule triple_sink[OF drop_keeps]) (use assms(3) in \<open>auto simp: outside_def\<close>)
  next
    case 2
    show ?case by (rule triple_ok)
  qed
  have written: "triple (?S (\<lambda>H S c n. (H = H0 \<and> S = S0 \<and> n = 0) \<and> c = c1))
      (act_seq (prepare_target ops cfg (sp_dest_columns (tp_select tp)) g (tp_force_stage tp)) (\<lambda>(target, new).
        act_cleanup (transfer_tail ops cfg tp target new) (if target \<noteq> d then on_sink (so_drop_table ops g) else act_ok ())))
      (\<lambda>_. ?S ?Q) (\<lambda>_. ?S ?E)" if C: "?C c1" for c1
  proof (rule triple_seq)
    show "triple (?S (\<lambda>H S c n. (H = H0 \<and> S = S0 \<and> n = 0) \<and> c = c1))
        (prepare_target ops cfg (sp_dest_columns (tp_select tp)) g (tp_force_stage tp))
        (\<lambda>(target, new) r.
            target = g \<and> ?S (\<lambda>H S c n. outside H0 S0 {d, g} H S \<and> c = c1 \<and> n = 0 \<and> H d = Some (rows_before (H0 d)) \<and> S g = Some {#}) r
          \<or> target = d \<and> \<not> so_stages_direct_writes ops \<and> (inc \<longrightarrow> \<not> so_requires_staging ops)
              \<and> ?S (\<lambda>H S c n. outside H0 S0 {d} H S \<and> c = c1 \<and> n = 0 \<and> H d = Some (rows_before (H0 d))) r)
        (\<lambda>_. ?S ?E)"
      by (rule triple_weaken[OF cursor_target[where ?H0.0 = H0 and ?S0.0 = S0 and ?c1.0 = c1, OF assms(1,3,4,5,6,7)]])
        (use C in \<open>auto simp: snap_def\<close>)
  next
    fix a :: "string \<times> bool"
    let ?target = "fst a" and ?new = "snd a"
    show "triple (case a of (target, new) \<Rightarrow> \<lambda>r.
            target = g \<and> ?S (\<lambda>H S c n. outside H0 S0 {d, g} H S \<and> c = c1 \<and> n = 0 \<and> H d = Some (rows_before (H0 d)) \<and> S g = Some {#}) r
          \<or> target = d \<and> \<not> so_stages_direct_writes ops \<and> (inc \<longrightarrow> \<not> so_requires_staging ops)
              \<and> ?S (\<lambda>H S c n. outside H0 S0 {d} H S \<and> c = c1 \<and> n = 0 \<and> H d = Some (rows_before (H0 d))) r)
        (case a of (target, new) \<Rightarrow> act_cleanup (transfer_tail ops cfg tp target new)
           (if target \<noteq> d then on_sink (so_drop_table ops g) else act_ok ())) (\<lambda>_. ?S ?Q) (\<lambda>_. ?S ?E)"
    proof (cases "?target = g \<or> ?target = d \<and> \<not> so_stages_direct_writes ops \<and> (inc \<longrightarrow> \<not> so_requires_staging ops)")
      case True
      have "triple (?S (\<lambda>H S c n. outside H0 S0 (if ?target = g then {d, g} else {d}) H S \<and> c = c1 \<and> n = 0
            \<and> H d = Some (rows_before (H0 d)) \<and> (?target = g \<longrightarrow> S g = Some {#})))
          (transfer_tail ops cfg tp ?target ?new) (\<lambda>_. ?S ?Q) (\<lambda>_. ?S ?E)"
        by (rule snap_weaken[OF cursor_tail[OF assms(1-3,5,7) True apart, where ?H0.0 = H0 and ?S0.0 = S0 and ?c1.0 = c1]])
          (use C in \<open>auto simp: reach_def split: option.splits if_splits\<close>)
      from triple_cleanup[OF this cleanup[of ?target]] show ?thesis
        unfolding case_prod_beta by (rule triple_weaken) (use assms(3) in \<open>auto simp: snap_def\<close>)
    next
      case False
      then show ?thesis by (auto simp: triple_def split: prod.splits)
    qed
  qed
  show ?thesis
    unfolding transfer_attempt_def assms(1)[symmetric] assms(2)[symmetric]
    by (rule triple_seq[OF start[OF destination_checked_quietly]], rule triple_seq[OF start[OF quiet_check_point[OF written_quiet]]],
        rule triple_seq[OF cleared], rule triple_cursor, rule written)
qed

end

end
