(* ===== verification/QH_Ch_Sink.thy ===== *)
theory QH_Ch_Sink
  imports QH_Ddl QH_Transfer
begin

text \<open>
  The ClickHouse destination (\<open>sink/clickhouse.rs\<close>): the statements it sends, how a response is read,
  and the operations of the trait.  The server is a parameter: it takes a request and answers it, or
  the connection is lost; a connection may also be lost while the body of a response is read.  What a
  batch weighs on the wire (Arrow IPC and the compression) is a parameter too.
\<close>

section \<open>Reading what the server writes\<close>

text \<open>One field of \<open>TabSeparated\<close>; None is NULL.\<close>

fun tsv_unescape :: "string \<Rightarrow> string" where
  "tsv_unescape [] = []"
| "tsv_unescape (c # r) =
     (if c \<noteq> BSL then c # tsv_unescape r
      else case r of
        [] \<Rightarrow> [BSL]
      | x # r' \<Rightarrow>
          (if x = CHR ''n'' then [LF] else if x = CHR ''t'' then [CHR 0x09] else if x = CHR ''r'' then [CR]
           else if x = CHR ''0'' then [CHR 0x00] else if x = BSL then [BSL] else if x = APOS then [APOS]
           else [BSL, x]) @ tsv_unescape r')"

definition tsv_field :: "string \<Rightarrow> string option" where
  "tsv_field raw = (if raw = [BSL, CHR ''N''] then None else if BSL \<notin> set raw then Some raw else Some (tsv_unescape raw))"

definition strip_cr :: "string \<Rightarrow> string" where
  "strip_cr line = (if line \<noteq> [] \<and> List.last line = CR then butlast line else line)"

definition body_lines :: "string \<Rightarrow> string list" where
  "body_lines body = filter (\<lambda>l. l \<noteq> []) (map strip_cr (split_all LF body))"

definition parse_count :: "string \<Rightarrow> nat option" where
  "parse_count s = map_option nat (parse_unsigned 64 (trim s))"

section \<open>Engines\<close>

definition engine_name :: "string \<Rightarrow> string" where
  "engine_name engine = trim (takeWhile (\<lambda>c. c \<noteq> CHR ''('') engine)"

definition ends_with :: "string \<Rightarrow> string \<Rightarrow> bool" where
  "ends_with p s \<longleftrightarrow> starts_with (rev p) (rev s)"

definition engine_keeps_duplicates :: "string \<Rightarrow> bool" where
  "engine_keeps_duplicates engine \<longleftrightarrow>
     ends_with ''MergeTree'' (engine_name engine) \<and> \<not> contains_text ''Replacing'' (engine_name engine)"

definition stages_for_retries :: "string \<Rightarrow> bool" where
  "stages_for_retries engine \<longleftrightarrow> engine_keeps_duplicates engine \<and> \<not> starts_with ''Replicated'' (engine_name engine)"

definition non_replacing :: "string option \<Rightarrow> string option \<Rightarrow> string option" where
  "non_replacing existing requested =
     (if (case requested of Some e \<Rightarrow> engine_keeps_duplicates e | None \<Rightarrow> False) then None
      else case existing of Some e \<Rightarrow> if engine_keeps_duplicates e then Some e else None | None \<Rightarrow> None)"

definition engine_merges_rows :: "string \<Rightarrow> bool" where
  "engine_merges_rows engine =
     is_row_merging_engine (case strip_prefix ''Shared'' engine of Some e \<Rightarrow> e | None \<Rightarrow> engine)"

section \<open>Statements\<close>

record ch_state_row =
  cr_source :: string
  cr_dest :: string
  cr_watermark :: string
  cr_rows :: nat
  cr_chunk_cursor :: string
  cr_chunk_upper :: string
  cr_chunk_read :: string

datatype statement =
    ExistsTable string
  | ReadColumns string
  | ReadColumnNames string
  | ReadPlainColumns string
  | ReadColumnType string string
  | ReadEngine string
  | ReadPrimaryKey string
  | ReadTypeName string
  | CountRows string
  | CountFinal string
  | CountWhere string string
  | DistinctKeys string string string
  | ReadCursor string string string
  | ReadChunkState string string string
  | ReadStateKeys string "nat option"
  | CreateTable string string
  | CreateLike string string
  | AddColumn string column_type
  | CreateState string
  | MigrateState string
  | OptimizeFinal string
  | ExchangeTables string string
  | DropTable string
  | InsertArrow string
  | InsertSelect string string "string list"
  | DeleteWhere string string
  | InsertState string string ch_state_row

definition escape_sql_string :: "string \<Rightarrow> string" where
  "escape_sql_string s = replace_char APOS [APOS, APOS] (replace_char BSL [BSL, BSL] s)"

definition literal :: "string \<Rightarrow> string" where
  "literal s = [APOS] @ escape_sql_string s @ [APOS]"

definition from_system :: "string \<Rightarrow> string \<Rightarrow> string \<Rightarrow> string \<Rightarrow> string \<Rightarrow> string" where
  "from_system what system db name_column table =
     ''SELECT '' @ what @ '' FROM system.'' @ system @ '' WHERE database = '' @ literal db @ '' AND '' @ name_column @ '' = '' @ literal table"

definition state_row_insert_sql :: "string \<Rightarrow> string \<Rightarrow> string \<Rightarrow> ch_state_row \<Rightarrow> string" where
  "state_row_insert_sql db state_table token row =
     ''INSERT INTO '' @ qualified_name db state_table
     @ '' (source_table, dest_table, last_watermark, rows, chunk_cursor, chunk_upper, chunk_read)''
     @ '' SETTINGS insert_deduplication_token = '' @ literal token
     @ '' VALUES ('' @ literal (cr_source row) @ '', '' @ literal (cr_dest row) @ '', '' @ literal (cr_watermark row) @ '', ''
     @ show_nat (cr_rows row) @ '', '' @ literal (cr_chunk_cursor row) @ '', '' @ literal (cr_chunk_upper row) @ '', ''
     @ literal (cr_chunk_read row) @ '')''"

definition state_filter :: "string \<Rightarrow> string \<Rightarrow> string" where
  "state_filter source dest =
     '' FINAL WHERE source_table = '' @ literal source @ '' AND dest_table = '' @ literal dest @ '' ORDER BY run_ts DESC LIMIT 1''"

text \<open>The text of a statement.\<close>

fun statement_sql :: "string \<Rightarrow> statement \<Rightarrow> string" where
  "statement_sql db (ExistsTable t) = ''EXISTS TABLE '' @ qualified_name db t"
| "statement_sql db (ReadColumns t) = from_system ''name, type'' ''columns'' db ''table'' t"
| "statement_sql db (ReadColumnNames t) = from_system ''name'' ''columns'' db ''table'' t"
| "statement_sql db (ReadPlainColumns t) =
     from_system ''name'' ''columns'' db ''table'' t @ '' AND default_kind = '' @ literal [] @ '' ORDER BY position''"
| "statement_sql db (ReadColumnType t c) = from_system ''type'' ''columns'' db ''table'' t @ '' AND name = '' @ literal c"
| "statement_sql db (ReadEngine t) = from_system ''engine'' ''tables'' db ''name'' t"
| "statement_sql db (ReadPrimaryKey t) = from_system ''primary_key'' ''tables'' db ''name'' t"
| "statement_sql db (ReadTypeName ty) = ''SELECT toTypeName(defaultValueOfTypeName('' @ literal ty @ '')) FORMAT TabSeparated''"
| "statement_sql db (CountRows t) = ''SELECT count() FROM '' @ qualified_name db t"
| "statement_sql db (CountFinal t) = ''SELECT count() FROM '' @ qualified_name db t @ '' FINAL''"
| "statement_sql db (CountWhere t cond) = ''SELECT count() FROM '' @ qualified_name db t @ '' WHERE '' @ cond"
| "statement_sql db (DistinctKeys t k cond) =
     ''SELECT DISTINCT toString('' @ quote_ident k @ '') FROM '' @ qualified_name db t @ '' WHERE '' @ cond"
| "statement_sql db (ReadCursor st source dest) =
     ''SELECT last_watermark FROM '' @ qualified_name db st @ state_filter source dest"
| "statement_sql db (ReadChunkState st source dest) =
     ''SELECT chunk_cursor, chunk_upper, chunk_read FROM '' @ qualified_name db st @ state_filter source dest @ '' FORMAT TabSeparated''"
| "statement_sql db (ReadStateKeys st idle) =
     ''SELECT source_table, dest_table, argMax(last_watermark, run_ts), toString(max(run_ts), '' @ literal ''UTC'' @ ''), count() FROM ''
     @ qualified_name db st @ '' GROUP BY source_table, dest_table''
     @ (case idle of Some d \<Rightarrow> '' HAVING max(run_ts) < now64(3) - INTERVAL '' @ show_nat d @ '' DAY'' | None \<Rightarrow> [])
     @ '' ORDER BY max(run_ts), source_table, dest_table FORMAT TabSeparated''"
| "statement_sql db (CreateTable t ddl) = ddl"
| "statement_sql db (CreateLike t like) = ''CREATE TABLE '' @ qualified_name db t @ '' AS '' @ qualified_name db like"
| "statement_sql db (AddColumn t c) = add_column db t c"
| "statement_sql db (CreateState st) = create_state_table db st"
| "statement_sql db (MigrateState st) = migrate_state_table db st"
| "statement_sql db (OptimizeFinal st) = ''OPTIMIZE TABLE '' @ qualified_name db st @ '' FINAL''"
| "statement_sql db (ExchangeTables t u) = ''EXCHANGE TABLES '' @ qualified_name db t @ '' AND '' @ qualified_name db u"
| "statement_sql db (DropTable t) = ''DROP TABLE IF EXISTS '' @ qualified_name db t"
| "statement_sql db (InsertArrow t) = ''INSERT INTO '' @ qualified_name db t @ '' FORMAT ArrowStream''"
| "statement_sql db (InsertSelect t u cols) =
     (let names = join '', '' (map quote_ident cols)
      in ''INSERT INTO '' @ qualified_name db t @ '' ('' @ names @ '') SELECT '' @ names @ '' FROM '' @ qualified_name db u)"
| "statement_sql db (DeleteWhere t cond) = ''DELETE FROM '' @ qualified_name db t @ '' WHERE '' @ cond"
| "statement_sql db (InsertState st token row) = state_row_insert_sql db st token row"

section \<open>Requests and responses\<close>

record request =
  rq_statement :: statement
  rq_settings :: "(string \<times> string) list"
  rq_body :: "batch list"

text \<open>No response, or a status with the body; None for a body that could not be read.\<close>

datatype reply = Lost string | Reply nat "string option"

record ch_config =
  cc_database :: string
  cc_insert_dedup_token :: bool
  cc_settings :: "(string \<times> string) list"

record 's ch_sink =
  cs_cfg :: ch_config
  cs_run_token :: string
  cs_ask :: "request \<Rightarrow> 's \<Rightarrow> 's \<times> reply"
  cs_wire :: "batch list \<Rightarrow> nat"

record 's ch_world =
  cw_server :: 's
  cw_insert_epoch :: nat
  cw_state_epoch :: nat
  cw_ready :: "string list"

definition DEDUP_TOKEN_SETTING :: string where "DEDUP_TOKEN_SETTING = ''insert_deduplication_token''"

definition send_request :: "'s ch_sink \<Rightarrow> request \<Rightarrow> ('s ch_world, reply) act" where
  "send_request sk rq w = (case cs_ask sk rq (cw_server w) of (s, rp) \<Rightarrow> (w\<lparr>cw_server := s\<rparr>, Inr rp))"

definition base_request :: "'s ch_sink \<Rightarrow> statement \<Rightarrow> request" where
  "base_request sk st = \<lparr>rq_statement = st, rq_settings = cc_settings (cs_cfg sk), rq_body = []\<rparr>"

definition succeeded :: "nat \<Rightarrow> bool" where
  "succeeded status \<longleftrightarrow> 200 \<le> status \<and> status < 300"

definition body_text :: "string option \<Rightarrow> string" where
  "body_text b = (case b of Some t \<Rightarrow> t | None \<Rightarrow> [])"

definition http_error :: "nat \<Rightarrow> string option \<Rightarrow> etl_error" where
  "http_error status b = ClickHouse (''HTTP '' @ show_nat status @ '': '' @ body_text b)"

fun check_reply :: "reply \<Rightarrow> string res" where
  "check_reply (Lost e) = Inl (Http e)"
| "check_reply (Reply status b) = (if succeeded status then Inr (body_text b) else Inl (http_error status b))"

definition ask_body :: "'s ch_sink \<Rightarrow> statement \<Rightarrow> ('s ch_world, string) act" where
  "ask_body sk st = act_seq (send_request sk (base_request sk st)) (\<lambda>rp. act_lift (check_reply rp))"

definition execute :: "'s ch_sink \<Rightarrow> statement \<Rightarrow> ('s ch_world, unit) act" where
  "execute sk st = act_seq (ask_body sk st) (\<lambda>_. act_ok ())"

definition query_scalar :: "'s ch_sink \<Rightarrow> statement \<Rightarrow> ('s ch_world, string option) act" where
  "query_scalar sk st = act_seq (ask_body sk st) (\<lambda>body. act_ok (if trim body = [] then None else Some (trim body)))"

definition query_column :: "'s ch_sink \<Rightarrow> statement \<Rightarrow> ('s ch_world, string list) act" where
  "query_column sk st = act_seq (ask_body sk st) (\<lambda>body. act_ok (body_lines body))"

fun is_unknown_table :: "etl_error \<Rightarrow> bool" where
  "is_unknown_table (ClickHouse m) \<longleftrightarrow> contains_text ''UNKNOWN_TABLE'' m \<or> contains_text ''Code: 60.'' m"
| "is_unknown_table (Http m) \<longleftrightarrow> contains_text ''UNKNOWN_TABLE'' m \<or> contains_text ''Code: 60.'' m"
| "is_unknown_table _ \<longleftrightarrow> False"

section \<open>Questions\<close>

definition ch_table_exists :: "'s ch_sink \<Rightarrow> string \<Rightarrow> ('s ch_world, bool) act" where
  "ch_table_exists sk t = act_seq (query_scalar sk (ExistsTable t)) (\<lambda>r. act_ok (r = Some ''1''))"

definition name_and_type :: "string \<Rightarrow> (string \<times> string) option" where
  "name_and_type line =
     (case split_once (CHR 0x09) line of
        None \<Rightarrow> None
      | Some (n, ty) \<Rightarrow> (case (tsv_field n, tsv_field ty) of (Some n, Some ty) \<Rightarrow> Some (n, ty) | _ \<Rightarrow> None))"

definition ch_column_types :: "'s ch_sink \<Rightarrow> string \<Rightarrow> ('s ch_world, (string \<times> string) list option) act" where
  "ch_column_types sk t =
     act_seq (query_column sk (ReadColumns t)) (\<lambda>ls. act_ok (Some (List.map_filter name_and_type ls)))"

definition ch_canonical_type :: "'s ch_sink \<Rightarrow> string \<Rightarrow> ('s ch_world, string option) act" where
  "ch_canonical_type sk ty =
     act_seq (act_result (query_scalar sk (ReadTypeName ty))) (\<lambda>r.
       act_ok (case r of Inr (Some raw) \<Rightarrow> tsv_field raw | _ \<Rightarrow> None))"

definition ch_table_engine :: "'s ch_sink \<Rightarrow> string \<Rightarrow> ('s ch_world, string option) act" where
  "ch_table_engine sk t = query_scalar sk (ReadEngine t)"

definition ch_stage_for_retries :: "'s ch_sink \<Rightarrow> transfer_config \<Rightarrow> string \<Rightarrow> ('s ch_world, bool) act" where
  "ch_stage_for_retries sk cfg t =
     act_seq (ch_table_engine sk t) (\<lambda>e. act_ok (stages_for_retries (case e of Some e \<Rightarrow> e | None \<Rightarrow> effective_engine cfg)))"

definition ch_non_replacing_engine :: "'s ch_sink \<Rightarrow> transfer_config \<Rightarrow> string \<Rightarrow> ('s ch_world, string option) act" where
  "ch_non_replacing_engine sk cfg t =
     (if (case cfg_engine cfg of Some e \<Rightarrow> engine_keeps_duplicates e | None \<Rightarrow> False) then act_ok None
      else act_seq (ch_table_engine sk t) (\<lambda>e. act_ok (non_replacing e (cfg_engine cfg))))"

definition ch_row_count :: "'s ch_sink \<Rightarrow> string \<Rightarrow> ('s ch_world, nat option) act" where
  "ch_row_count sk t =
     act_seq (ch_table_exists sk t) (\<lambda>b.
       if \<not> b then act_ok None
       else act_seq (query_scalar sk (CountRows t)) (\<lambda>r. act_ok (Option.bind r parse_count)))"

definition ch_merged_count :: "'s ch_sink \<Rightarrow> string \<Rightarrow> ('s ch_world, nat option) act" where
  "ch_merged_count sk t =
     act_seq (query_scalar sk (ReadEngine t)) (\<lambda>e.
       if (case e of Some e \<Rightarrow> engine_merges_rows e | None \<Rightarrow> False)
       then act_seq (query_scalar sk (CountFinal t)) (\<lambda>r. act_ok (Option.bind r parse_count))
       else act_ok None)"

definition ch_unsourced :: "'s ch_sink \<Rightarrow> string \<Rightarrow> column_type list \<Rightarrow> ('s ch_world, string list) act" where
  "ch_unsourced sk t cols =
     act_seq (query_column sk (ReadPlainColumns t)) (\<lambda>ls. act_ok (unsourced_columns (List.map_filter tsv_field ls) cols False))"

definition ch_dropped :: "'s ch_sink \<Rightarrow> string \<Rightarrow> column_type list \<Rightarrow> ('s ch_world, string list) act" where
  "ch_dropped sk t cols =
     act_seq (query_column sk (ReadColumnNames t)) (\<lambda>ls. act_ok (dropped_columns (List.map_filter tsv_field ls) cols False))"

definition ch_primary_key_columns :: "'s ch_sink \<Rightarrow> string \<Rightarrow> ('s ch_world, string list option) act" where
  "ch_primary_key_columns sk t =
     act_seq (query_scalar sk (ReadPrimaryKey t)) (\<lambda>r.
       act_ok (map_option (\<lambda>pk. filter (\<lambda>c. c \<noteq> []) (map trim (split_all CHR '','' pk))) r))"

section \<open>Tables\<close>

definition ch_add_missing :: "'s ch_sink \<Rightarrow> string \<Rightarrow> column_type list \<Rightarrow> ('s ch_world, string list) act" where
  "ch_add_missing sk t cols =
     act_seq (query_column sk (ReadColumnNames t)) (\<lambda>existing.
       let missing = missing_columns existing cols False
       in act_seq (act_each (\<lambda>c. execute sk (AddColumn t c)) missing) (\<lambda>_. act_ok (map ct_name missing)))"

definition ch_create_table :: "'s ch_sink \<Rightarrow> transfer_config \<Rightarrow> string \<Rightarrow> column_type list \<Rightarrow> ('s ch_world, unit) act" where
  "ch_create_table sk cfg t cols =
     act_seq (act_lift (create_table (cc_database (cs_cfg sk)) t cols cfg)) (\<lambda>ddl. execute sk (CreateTable t ddl))"

definition ch_clone_structure :: "'s ch_sink \<Rightarrow> string \<Rightarrow> string \<Rightarrow> ('s ch_world, unit) act" where
  "ch_clone_structure sk t like = execute sk (CreateLike t like)"

definition ch_atomic_swap :: "'s ch_sink \<Rightarrow> string \<Rightarrow> string \<Rightarrow> column_type list \<Rightarrow> ('s ch_world, unit) act" where
  "ch_atomic_swap sk dest staging cols = execute sk (ExchangeTables dest staging)"

definition ch_drop_table :: "'s ch_sink \<Rightarrow> string \<Rightarrow> ('s ch_world, unit) act" where
  "ch_drop_table sk t = execute sk (DropTable t)"

definition ch_insert_select :: "'s ch_sink \<Rightarrow> string \<Rightarrow> string \<Rightarrow> column_type list \<Rightarrow> ('s ch_world, unit) act" where
  "ch_insert_select sk dest staging cols = execute sk (InsertSelect dest staging (map ct_name cols))"

section \<open>Inserts\<close>

definition next_dedup_token :: "'s ch_sink \<Rightarrow> ('s ch_world, string option) act" where
  "next_dedup_token sk w =
     (if \<not> cc_insert_dedup_token (cs_cfg sk) \<or> map_of (cc_settings (cs_cfg sk)) DEDUP_TOKEN_SETTING \<noteq> None then (w, Inr None)
      else (w\<lparr>cw_insert_epoch := Suc (cw_insert_epoch w)\<rparr>, Inr (Some (cs_run_token sk @ ''-'' @ show_nat (cw_insert_epoch w)))))"

definition insert_request :: "'s ch_sink \<Rightarrow> string \<Rightarrow> batch list \<Rightarrow> string option \<Rightarrow> request" where
  "insert_request sk t bs token =
     \<lparr>rq_statement = InsertArrow t,
      rq_settings = cc_settings (cs_cfg sk) @ (case token of Some k \<Rightarrow> [(DEDUP_TOKEN_SETTING, k)] | None \<Rightarrow> []),
      rq_body = bs\<rparr>"

datatype send_outcome = Sent | Transient etl_error | Permanent etl_error

fun send_insert :: "reply \<Rightarrow> send_outcome" where
  "send_insert (Lost e) = Transient (Http e)"
| "send_insert (Reply status b) =
     (if succeeded status then Sent
      else if 500 \<le> status \<and> status < 600 \<or> status = 429 then Transient (http_error status b)
      else Permanent (http_error status b))"

function insert_attempts :: "'s ch_sink \<Rightarrow> string \<Rightarrow> batch list \<Rightarrow> string option \<Rightarrow> nat \<Rightarrow> ('s ch_world, nat) act" where
  "insert_attempts sk t bs token attempt w =
     (case send_request sk (insert_request sk t bs token) w of
        (w', Inl e) \<Rightarrow> (w', Inl e)
      | (w', Inr rp) \<Rightarrow>
          (case send_insert rp of
             Sent \<Rightarrow> (w', Inr (cs_wire sk bs))
           | Permanent e \<Rightarrow> (w', Inl e)
           | Transient e \<Rightarrow>
               if MAX_INSERT_ATTEMPTS \<le> attempt
               then (w', Inl (ClickHouse (''insert failed after '' @ show_nat attempt @ '' attempts'')))
               else insert_attempts sk t bs token (Suc attempt) w'))"
  by pat_completeness auto
termination by (relation "measure (\<lambda>(sk, t, bs, token, attempt, w). MAX_INSERT_ATTEMPTS - attempt)") auto

declare insert_attempts.simps [simp del]

definition ch_insert_batches :: "'s ch_sink \<Rightarrow> string \<Rightarrow> batch list \<Rightarrow> ('s ch_world, nat) act" where
  "ch_insert_batches sk t bs =
     (if list_all (\<lambda>b. bt_rows b = []) bs then act_ok 0
      else act_seq (next_dedup_token sk) (\<lambda>token. insert_attempts sk t bs token 1))"

section \<open>Deletes\<close>

definition and_where :: "string option list \<Rightarrow> string" where
  "and_where parts =
     (let live = map (\<lambda>p. ''('' @ p @ '')'') (List.map_filter (\<lambda>p. p) parts)
      in if live = [] then ''1'' else join '' AND '' live)"

definition count_where :: "'s ch_sink \<Rightarrow> string \<Rightarrow> string \<Rightarrow> ('s ch_world, nat) act" where
  "count_where sk t cond =
     act_seq (query_scalar sk (CountWhere t cond)) (\<lambda>r. act_ok (case Option.bind r parse_count of Some n \<Rightarrow> n | None \<Rightarrow> 0))"

definition stale_condition :: "string \<Rightarrow> string \<Rightarrow> string list \<Rightarrow> string \<Rightarrow> string" where
  "stale_condition db staging key window =
     (let w = quote_ident window; names = join '', '' (map quote_ident key); there = qualified_name db staging
      in and_where [
        Some (w @ '' >= (SELECT min('' @ w @ '') FROM '' @ there @ '') AND '' @ w @ '' <= (SELECT max('' @ w @ '') FROM '' @ there @ '')''),
        Some (''('' @ names @ '') NOT IN (SELECT '' @ names @ '' FROM '' @ there @ '')'')])"

definition ch_delete_stale :: "'s ch_sink \<Rightarrow> string \<Rightarrow> string \<Rightarrow> string list \<Rightarrow> string \<Rightarrow> ('s ch_world, nat) act" where
  "ch_delete_stale sk dest staging key window =
     (if key = [] then act_err (Internal ''delete_stale_against_staging called with an empty key (should have been validated before staging began)'')
      else act_seq (count_where sk staging ''1'') (\<lambda>staged_rows.
        if staged_rows = 0 then act_ok 0
        else let cond = stale_condition (cc_database (cs_cfg sk)) staging key window in
          act_seq (count_where sk dest cond) (\<lambda>deleted.
            if deleted = 0 then act_ok 0
            else act_seq (execute sk (DeleteWhere dest cond)) (\<lambda>_. act_ok deleted))))"

definition bare_column_type :: "'s ch_sink \<Rightarrow> string \<Rightarrow> string \<Rightarrow> ('s ch_world, string) act" where
  "bare_column_type sk t column =
     act_seq (query_scalar sk (ReadColumnType t column)) (\<lambda>r.
       case r of
         None \<Rightarrow> act_err (Config (''column '' @ quoted column @ '' not found on '' @ cc_database (cs_cfg sk) @ ''.'' @ t))
       | Some ty \<Rightarrow> act_ok (unwrap_type (trim ty)))"

text \<open>\<open>is_number\<close> is the standard library's reading of a float.\<close>

definition key_literals :: "(string \<Rightarrow> bool) \<Rightarrow> string \<Rightarrow> string \<Rightarrow> string list \<Rightarrow> string list res" where
  "key_literals is_number bare_type column vals =
     (let numeric = list_ex (\<lambda>p. starts_with p bare_type) [''Int'', ''UInt'', ''Float'', ''Decimal'']
      in try_map (\<lambda>v.
           if \<not> numeric then Inr (literal v)
           else if is_number v \<and> \<not> list_ex is_ws v then Inr v
           else Inl (Config (''key value '' @ quoted v @ '' is not a valid literal for the numeric column '' @ quoted column))) vals)"

definition DELETE_KEY_CHUNK :: nat where "DELETE_KEY_CHUNK = 10000"

function chunks_of :: "nat \<Rightarrow> 'a list \<Rightarrow> 'a list list" where
  "chunks_of n xs = (if xs = [] \<or> n = 0 then [] else take n xs # chunks_of n (drop n xs))"
  by pat_completeness auto
termination by (relation "measure (\<lambda>(n, xs). length xs)") auto

fun delete_chunks :: "(string \<Rightarrow> bool) \<Rightarrow> 's ch_sink \<Rightarrow> string \<Rightarrow> string \<Rightarrow> string \<Rightarrow> string option \<Rightarrow> nat
    \<Rightarrow> string list list \<Rightarrow> ('s ch_world, nat) act" where
  "delete_chunks is_number sk t key bare window deleted [] = act_ok deleted"
| "delete_chunks is_number sk t key bare window deleted (chunk # rest) =
     act_seq (act_lift (key_literals is_number bare key chunk)) (\<lambda>lits.
     let cond = and_where [window, Some (quote_ident key @ '' IN ('' @ join '', '' lits @ '')'')] in
     act_seq (count_where sk t cond) (\<lambda>n.
     act_seq (execute sk (DeleteWhere t cond)) (\<lambda>_.
       delete_chunks is_number sk t key bare window (deleted + n) rest)))"

definition ch_delete_keys :: "(string \<Rightarrow> bool) \<Rightarrow> 's ch_sink \<Rightarrow> string \<Rightarrow> string \<Rightarrow> string list \<Rightarrow> string option \<Rightarrow> ('s ch_world, nat) act" where
  "ch_delete_keys is_number sk t key vals window =
     (if vals = [] then act_ok 0
      else act_seq (bare_column_type sk t key) (\<lambda>bare.
        delete_chunks is_number sk t key bare window 0 (chunks_of DELETE_KEY_CHUNK vals)))"

definition ch_distinct_keys :: "'s ch_sink \<Rightarrow> string \<Rightarrow> string \<Rightarrow> string option \<Rightarrow> ('s ch_world, string list) act" where
  "ch_distinct_keys sk t key window =
     query_column sk (DistinctKeys t key (and_where [window, Some (quote_ident key @ '' IS NOT NULL'')]))"

section \<open>The state table\<close>

text \<open>The state tables this process has checked are \<open>cw_ready\<close>; the URL and the database are fixed.\<close>

definition mark_ready :: "string \<Rightarrow> ('s ch_world, unit) act" where
  "mark_ready st = act_modify (\<lambda>w. w\<lparr>cw_ready := st # filter (\<lambda>x. x \<noteq> st) (cw_ready w)\<rparr>)"

definition forget_state_table :: "string \<Rightarrow> ('s ch_world, unit) act" where
  "forget_state_table st = act_modify (\<lambda>w. w\<lparr>cw_ready := filter (\<lambda>x. x \<noteq> st) (cw_ready w)\<rparr>)"

definition state_table_ready :: "string \<Rightarrow> ('s ch_world, bool) act" where
  "state_table_ready st = act_get (\<lambda>w. st \<in> set (cw_ready w))"

definition ch_ensure_state :: "'s ch_sink \<Rightarrow> string \<Rightarrow> ('s ch_world, unit) act" where
  "ch_ensure_state sk st =
     act_seq (state_table_ready st) (\<lambda>ready.
     if ready then act_ok ()
     else act_seq (execute sk (CreateState st)) (\<lambda>_.
          act_seq (query_column sk (ReadColumnNames st)) (\<lambda>existing.
          act_seq (if state_table_needs_migration existing then execute sk (MigrateState st) else act_ok ()) (\<lambda>_.
            mark_ready st))))"

definition state_dedup_token :: "'s ch_sink \<Rightarrow> ('s ch_world, string) act" where
  "state_dedup_token sk w =
     (w\<lparr>cw_state_epoch := Suc (cw_state_epoch w)\<rparr>,
      Inr (''quickhouse-state-'' @ cs_run_token sk @ ''-'' @ show_nat (cw_state_epoch w)))"

definition insert_state_row :: "'s ch_sink \<Rightarrow> transfer_config \<Rightarrow> ch_state_row \<Rightarrow> ('s ch_world, unit) act" where
  "insert_state_row sk cfg row =
     (let st = cfg_state_table_name cfg in
      act_seq (state_dedup_token sk) (\<lambda>token.
      act_seq (act_result (execute sk (InsertState st token row))) (\<lambda>r.
        case r of
          Inr _ \<Rightarrow> act_ok ()
        | Inl e \<Rightarrow>
            if is_unknown_table e
            then act_seq (forget_state_table st) (\<lambda>_.
                 act_seq (ch_ensure_state sk st) (\<lambda>_. execute sk (InsertState st token row)))
            else act_err e)))"

definition ch_persist_watermark :: "'s ch_sink \<Rightarrow> transfer_config \<Rightarrow> string \<Rightarrow> nat \<Rightarrow> ('s ch_world, unit) act" where
  "ch_persist_watermark sk cfg x n =
     insert_state_row sk cfg \<lparr>cr_source = effective_state_key cfg, cr_dest = cfg_dest_table cfg, cr_watermark = x, cr_rows = n,
       cr_chunk_cursor = [], cr_chunk_upper = [], cr_chunk_read = []\<rparr>"

definition ch_persist_chunk_cursor :: "'s ch_sink \<Rightarrow> transfer_config \<Rightarrow> string option \<Rightarrow> string \<Rightarrow> string \<Rightarrow> nat \<Rightarrow> ('s ch_world, unit) act" where
  "ch_persist_chunk_cursor sk cfg committed cursor upper n =
     insert_state_row sk cfg \<lparr>cr_source = effective_state_key cfg, cr_dest = cfg_dest_table cfg,
       cr_watermark = (case committed of Some c \<Rightarrow> c | None \<Rightarrow> []), cr_rows = n,
       cr_chunk_cursor = cursor, cr_chunk_upper = upper, cr_chunk_read = chunk_read_id cfg\<rparr>"

text \<open>A read of the state that finds the table gone answers as if there was none.\<close>

definition or_no_table :: "string \<Rightarrow> ('s ch_world, 'a option) act \<Rightarrow> ('s ch_world, 'a option) act" where
  "or_no_table st m =
     act_seq (act_result m) (\<lambda>r.
       case r of
         Inr a \<Rightarrow> act_ok a
       | Inl e \<Rightarrow> if is_unknown_table e then act_seq (forget_state_table st) (\<lambda>_. act_ok None) else act_err e)"

definition ch_read_last_watermark :: "'s ch_sink \<Rightarrow> transfer_config \<Rightarrow> ('s ch_world, string option) act" where
  "ch_read_last_watermark sk cfg =
     (let st = cfg_state_table_name cfg in
      act_seq (state_table_ready st) (\<lambda>ready.
      act_seq (if ready then act_ok True else ch_table_exists sk st) (\<lambda>there.
        if \<not> there then act_ok None
        else or_no_table st (query_scalar sk (ReadCursor st (effective_state_key cfg) (cfg_dest_table cfg))))))"

fun chunk_fields :: "nat \<Rightarrow> string \<Rightarrow> string list" where
  "chunk_fields 0 s = []"
| "chunk_fields (Suc 0) s = [s]"
| "chunk_fields (Suc n) s = (case split_once (CHR 0x09) s of Some (a, r) \<Rightarrow> a # chunk_fields n r | None \<Rightarrow> [s])"

definition nth_text :: "string list \<Rightarrow> nat \<Rightarrow> string" where
  "nth_text fs i = (if i < length fs then fs ! i else [])"

definition chunk_state_of :: "string list \<Rightarrow> (string \<times> string \<times> string) option" where
  "chunk_state_of ls =
     (case ls of
        [] \<Rightarrow> None
      | line # _ \<Rightarrow>
          let fs = chunk_fields 3 line
          in if nth_text fs 0 = [] then None else Some (nth_text fs 0, nth_text fs 1, nth_text fs 2))"

definition ch_read_chunk_state :: "'s ch_sink \<Rightarrow> transfer_config \<Rightarrow> ('s ch_world, (string \<times> string \<times> string) option) act" where
  "ch_read_chunk_state sk cfg =
     (let st = cfg_state_table_name cfg;
          read = or_no_table st (act_seq (query_column sk (ReadChunkState st (effective_state_key cfg) (cfg_dest_table cfg)))
            (\<lambda>ls. act_ok (chunk_state_of ls))) in
      act_seq (state_table_ready st) (\<lambda>ready.
        if ready then read
        else act_seq (ch_table_exists sk st) (\<lambda>there.
          if \<not> there then act_ok None else act_seq (ch_ensure_state sk st) (\<lambda>_. read))))"

definition ch_compact_state :: "'s ch_sink \<Rightarrow> string \<Rightarrow> ('s ch_world, nat) act" where
  "ch_compact_state sk st =
     act_seq (ch_row_count sk st) (\<lambda>before.
       case before of
         None \<Rightarrow> act_ok 0
       | Some n \<Rightarrow>
           act_seq (execute sk (OptimizeFinal st)) (\<lambda>_.
           act_seq (ch_row_count sk st) (\<lambda>after. act_ok (n - (case after of Some m \<Rightarrow> m | None \<Rightarrow> 0)))))"

record state_key =
  sk_state_key :: string
  sk_dest :: string
  sk_watermark :: string
  sk_last_run :: string
  sk_rows :: nat

definition state_key_of :: "string \<Rightarrow> state_key res" where
  "state_key_of line =
     (case map (\<lambda>v. case tsv_field v of Some t \<Rightarrow> t | None \<Rightarrow> []) (split_all (CHR 0x09) line) of
        [key, dest, wm, run, n] \<Rightarrow>
          Inr \<lparr>sk_state_key = key, sk_dest = dest, sk_watermark = wm, sk_last_run = run,
            sk_rows = (case parse_unsigned 64 n of Some k \<Rightarrow> nat k | None \<Rightarrow> 0)\<rparr>
      | _ \<Rightarrow> Inl (ClickHouse (''unexpected state_keys row: '' @ line)))"

definition ch_state_keys :: "'s ch_sink \<Rightarrow> string \<Rightarrow> nat option \<Rightarrow> ('s ch_world, state_key list) act" where
  "ch_state_keys sk st idle =
     act_seq (ch_table_exists sk st) (\<lambda>there.
       if \<not> there then act_ok []
       else act_seq (query_column sk (ReadStateKeys st idle)) (\<lambda>ls. act_lift (try_map state_key_of ls)))"

section \<open>The trait\<close>

definition ch_ops :: "'s ch_sink \<Rightarrow> 's ch_world sink_ops" where
  "ch_ops sk =
     \<lparr>so_kind = DestClickHouse, so_namespace = cc_database (cs_cfg sk), so_requires_staging = False,
      so_refresh_names_columns = False, so_stages_direct_writes = False, so_stages_from_destination = True,
      so_deletes_within_merge = False, so_supports_row_delete = True,
      so_table_exists = ch_table_exists sk, so_column_types = ch_column_types sk,
      so_create_table = ch_create_table sk, so_clone_structure = ch_clone_structure sk,
      so_insert = (\<lambda>t stream bs. ch_insert_batches sk t bs), so_atomic_swap = ch_atomic_swap sk,
      so_row_count = ch_row_count sk, so_merged_count = ch_merged_count sk, so_drop_table = ch_drop_table sk,
      so_ensure_state = ch_ensure_state sk, so_persist_watermark = ch_persist_watermark sk,
      so_add_missing = (\<lambda>cfg. ch_add_missing sk), so_unsourced = ch_unsourced sk, so_dropped = ch_dropped sk,
      so_non_replacing = ch_non_replacing_engine sk, so_canonical_type = ch_canonical_type sk,
      so_check_write = (\<lambda>cfg t cols. act_ok ()), so_merge_into = (\<lambda>cfg dest staging cols. unsupported ''merge_into''),
      so_write_warnings = act_ok [], so_stage_for_retries = ch_stage_for_retries sk,
      so_insert_select = ch_insert_select sk, so_clustering = ch_primary_key_columns sk, so_delete_stale = ch_delete_stale sk\<rparr>"

end
