(* ===== verification/QH_Bq_Write.thy ===== *)
theory QH_Bq_Write
  imports QH_Proto QH_Ch_Sink
begin

text \<open>
  How \<open>sink/bigquery.rs\<close> writes rows: as JSON through \<open>insertAll\<close>, with an id on every row, or as
  protobuf messages appended at explicit offsets to a committed stream of the Storage Write API.  The
  service is an argument: a request is answered, and its state changed, by a function of the sink.  What
  BigQuery documents of offsets is a condition on that function; under it every row is in the stream
  exactly once however many appends lose their answer.
\<close>

section \<open>The service\<close>

record grpc_status =
  gs_code :: nat
  gs_message :: string

datatype append_response = AppendResult | AppendError grpc_status

record append_message =
  am_row_errors :: "(nat \<times> string) list"
  am_response :: "append_response option"

text \<open>A request refused, or a stream of messages that ends or breaks.\<close>

datatype append_reply = Refused grpc_status | Answered "append_message list" "grpc_status option"

datatype bq_error = BqResponse nat string | BqHttpClient "nat option" string | BqMiddleware string | BqToken string

datatype write_method = InsertAll | StorageWrite

datatype bq_value = BvNull | BvBool bool | BvInt int | BvFloat int | BvString string

type_synonym insert_row = "string \<times> (string \<times> bq_value) list"

record 's bq_writer =
  bw_project :: string
  bw_dataset :: string
  bw_method :: write_method
  bw_run_token :: string
  bw_civil :: civil
  bw_base64 :: "string \<Rightarrow> string"
  bw_json_size :: "insert_row list \<Rightarrow> nat"
  bw_open :: "string \<Rightarrow> 's \<Rightarrow> 's \<times> (grpc_status + nat)"
  bw_append :: "nat \<Rightarrow> field_descriptor list \<Rightarrow> string list \<Rightarrow> int \<Rightarrow> 's \<Rightarrow> 's \<times> append_reply"
  bw_finalize :: "nat \<Rightarrow> 's \<Rightarrow> 's \<times> (grpc_status + int)"
  bw_insert_all :: "string \<Rightarrow> insert_row list \<Rightarrow> 's \<Rightarrow> 's \<times> (bq_error + (nat \<times> string) list)"

record 's bq_world =
  bs_server :: 's
  bs_epoch :: nat
  bs_warnings :: "transfer_warning list"

definition ask_service :: "('s \<Rightarrow> 's \<times> 'a) \<Rightarrow> 's bq_world \<Rightarrow> 's bq_world \<times> 'a" where
  "ask_service f w = (case f (bs_server w) of (s, a) \<Rightarrow> (w\<lparr>bs_server := s\<rparr>, a))"

section \<open>Which failures are worth a retry\<close>

definition bq_error_text :: "bq_error \<Rightarrow> string" where
  "bq_error_text e = (case e of BqResponse _ m \<Rightarrow> m | BqHttpClient _ m \<Rightarrow> m | BqMiddleware m \<Rightarrow> m | BqToken m \<Rightarrow> m)"

definition classify_bq_error :: "bq_error \<Rightarrow> string \<Rightarrow> send_outcome" where
  "classify_bq_error e ctx =
     (let err = Other (ctx @ '': '' @ bq_error_text e);
          transient = (case e of BqResponse status _ \<Rightarrow> 500 \<le> status \<or> status = 429 | BqHttpClient _ _ \<Rightarrow> True
            | BqMiddleware _ \<Rightarrow> True | BqToken _ \<Rightarrow> False)
      in if transient then Transient err else Permanent err)"

definition classify_status :: "grpc_status \<Rightarrow> string \<Rightarrow> send_outcome" where
  "classify_status s ctx =
     (let err = Other (ctx @ '': '' @ gs_message s)
      in if gs_code s \<in> {14, 13, 10, 4, 8} then Transient err else Permanent err)"

definition classify_rpc_status :: "grpc_status \<Rightarrow> string \<Rightarrow> string \<Rightarrow> send_outcome" where
  "classify_rpc_status s table dataset =
     (let err = Other (''bigquery storage-write append error into '' @ dataset @ ''.'' @ table @ '': code ''
            @ show_nat (gs_code s) @ '' '' @ gs_message s)
      in if gs_code s \<in> {13, 14, 10, 8, 4} then Transient err else Permanent err)"

text \<open>The retry loop both write paths have; \<open>left\<close> counts the attempts still allowed.\<close>

fun send_attempts :: "string \<Rightarrow> ('w \<Rightarrow> 'w \<times> send_outcome) \<Rightarrow> nat \<Rightarrow> nat \<Rightarrow> ('w, unit) act" where
  "send_attempts what send left attempt w =
     (case send w of
        (w', Sent) \<Rightarrow> (w', Inr ())
      | (w', Permanent e) \<Rightarrow> (w', Inl e)
      | (w', Transient e) \<Rightarrow>
          (case left of
             0 \<Rightarrow> (w', Inl (Other (what @ '' failed after '' @ show_nat attempt @ '' attempts'')))
           | Suc left' \<Rightarrow> send_attempts what send left' (Suc attempt) w'))"

section \<open>Rows as JSON\<close>

definition INSERT_ALL_MAX_ROWS_PER_REQUEST :: nat where "INSERT_ALL_MAX_ROWS_PER_REQUEST = 5000"

text \<open>JSON has no NaN and no infinity: the exponent of their bits is all ones.\<close>

definition json_float :: "int \<Rightarrow> bq_value" where
  "json_float bits = (if bits div 2 ^ 52 mod 2 ^ 11 = 2047 then BvNull else BvFloat bits)"

definition date32_to_iso :: "civil \<Rightarrow> int \<Rightarrow> string res" where
  "date32_to_iso civil days =
     (case civil_date civil days of Some d \<Rightarrow> Inr d | None \<Rightarrow> Inl (Panic ''date out of range''))"

definition array_value_to_json :: "civil \<Rightarrow> (string \<Rightarrow> string) \<Rightarrow> data_type \<Rightarrow> cell \<Rightarrow> bq_value res" where
  "array_value_to_json civil base64 dt v =
     (if dt \<in> set INTEGER_TYPES then (case v of CInt i \<Rightarrow> Inr (BvInt i) | _ \<Rightarrow> Inl downcast_failed)
      else case dt of
        Boolean \<Rightarrow> (case v of CBool b \<Rightarrow> Inr (BvBool b) | _ \<Rightarrow> Inl downcast_failed)
      | Float32 \<Rightarrow> (case v of CFloat b \<Rightarrow> Inr (json_float (widen_f32 b)) | _ \<Rightarrow> Inl downcast_failed)
      | Float64 \<Rightarrow> (case v of CFloat b \<Rightarrow> Inr (json_float b) | _ \<Rightarrow> Inl downcast_failed)
      | Utf8 \<Rightarrow> (case v of CStr s \<Rightarrow> Inr (BvString s) | _ \<Rightarrow> Inl downcast_failed)
      | Binary \<Rightarrow> (case v of CBin s \<Rightarrow> Inr (BvString (base64 s)) | _ \<Rightarrow> Inl downcast_failed)
      | Date32 \<Rightarrow> (case v of CDate d \<Rightarrow> and_then (date32_to_iso civil d) (\<lambda>s. Inr (BvString s)) | _ \<Rightarrow> Inl downcast_failed)
      | Timestamp Microsecond tz \<Rightarrow>
          (case v of CTs m \<Rightarrow> and_then (timestamp_micros_to_iso civil m (tz \<noteq> None)) (\<lambda>s. Inr (BvString s)) | _ \<Rightarrow> Inl downcast_failed)
      | Decimal128 _ scale \<Rightarrow> (case v of CDec m \<Rightarrow> Inr (BvString (decimal128_to_string m scale)) | _ \<Rightarrow> Inl downcast_failed)
      | _ \<Rightarrow> Inl (Internal ''no BigQuery JSON conversion implemented for Arrow type''))"

definition batch_row_to_json :: "civil \<Rightarrow> (string \<Rightarrow> string) \<Rightarrow> batch_field list \<Rightarrow> cell list \<Rightarrow> (string \<times> bq_value) list res" where
  "batch_row_to_json civil base64 fs r =
     try_map (\<lambda>(f, v). and_then (if v = CNull then Inr BvNull else array_value_to_json civil base64 (bf_type f) v)
       (\<lambda>j. Inr (bf_name f, j))) (zip fs r)"

definition insert_id :: "string \<Rightarrow> nat \<Rightarrow> nat \<Rightarrow> string" where
  "insert_id token epoch k = token @ ''-'' @ show_nat epoch @ ''-'' @ show_nat k"

definition try_insert :: "'s bq_writer \<Rightarrow> string \<Rightarrow> insert_row list \<Rightarrow> 's bq_world \<Rightarrow> 's bq_world \<times> send_outcome" where
  "try_insert sk t rows w =
     (case ask_service (bw_insert_all sk t rows) w of
        (w', Inl e) \<Rightarrow> (w', classify_bq_error e ''bigquery insertAll'')
      | (w', Inr errors) \<Rightarrow>
          (w', if errors = [] then Sent
               else Permanent (Other (''bigquery insertAll rejected '' @ show_nat (length errors) @ '' row(s) into ''
                 @ bw_dataset sk @ ''.'' @ t))))"

text \<open>The requests of a call: the row number goes on over them.\<close>

fun insert_requests :: "'s bq_writer \<Rightarrow> string \<Rightarrow> nat \<Rightarrow> (batch_field list \<times> cell list list) list \<Rightarrow> nat \<Rightarrow> nat \<Rightarrow> ('s bq_world, nat) act" where
  "insert_requests sk t epoch [] ordinal bytes = act_ok bytes"
| "insert_requests sk t epoch ((fs, chunk) # rest) ordinal bytes =
     act_seq (act_lift (try_map (\<lambda>(k, r). and_then (batch_row_to_json (bw_civil sk) (bw_base64 sk) fs r)
       (\<lambda>j. Inr (insert_id (bw_run_token sk) epoch k, j))) (enumerate ordinal chunk))) (\<lambda>rows.
     act_seq (send_attempts (''bigquery insert into '' @ bw_dataset sk @ ''.'' @ t) (try_insert sk t rows) (MAX_INSERT_ATTEMPTS - 1) 1) (\<lambda>_.
       insert_requests sk t epoch rest (ordinal + length chunk) (bytes + bw_json_size sk rows)))"

definition take_epoch :: "('s bq_world, nat) act" where
  "take_epoch w = (w\<lparr>bs_epoch := bs_epoch w + 1\<rparr>, Inr (bs_epoch w))"

definition insert_batches_insert_all :: "'s bq_writer \<Rightarrow> string \<Rightarrow> batch list \<Rightarrow> ('s bq_world, nat) act" where
  "insert_batches_insert_all sk t bs =
     (if list_all (\<lambda>b. bt_rows b = []) bs then act_ok 0
      else act_seq take_epoch (\<lambda>epoch.
        insert_requests sk t epoch
          (concat (map (\<lambda>b. map (Pair (bt_fields b)) (chunks_of INSERT_ALL_MAX_ROWS_PER_REQUEST (bt_rows b))) bs)) 0 0))"

section \<open>Rows on a stream\<close>

definition STORAGE_WRITE_MAX_ROWS_PER_APPEND :: nat where "STORAGE_WRITE_MAX_ROWS_PER_APPEND = 5000"
definition RPC_CODE_ALREADY_EXISTS :: nat where "RPC_CODE_ALREADY_EXISTS = 6"
definition RPC_CODE_NOT_FOUND :: nat where "RPC_CODE_NOT_FOUND = 5"

fun drain_responses :: "string \<Rightarrow> string \<Rightarrow> append_message list \<Rightarrow> grpc_status option \<Rightarrow> send_outcome" where
  "drain_responses dataset t [] None = Sent"
| "drain_responses dataset t [] (Some s) = classify_status s ''bigquery storage-write stream''"
| "drain_responses dataset t (m # ms) e =
     (if am_row_errors m \<noteq> []
      then Permanent (Other (''bigquery storage-write rejected '' @ show_nat (length (am_row_errors m)) @ '' row(s) into '' @ dataset @ ''.'' @ t))
      else case am_response m of
        Some (AppendError s) \<Rightarrow> if gs_code s = RPC_CODE_ALREADY_EXISTS then Sent else classify_rpc_status s t dataset
      | _ \<Rightarrow> drain_responses dataset t ms e)"

definition try_append :: "'s bq_writer \<Rightarrow> nat \<Rightarrow> field_descriptor list \<Rightarrow> string list \<Rightarrow> string \<Rightarrow> int \<Rightarrow> 's bq_world \<Rightarrow> 's bq_world \<times> send_outcome" where
  "try_append sk stream ds rows t offset w =
     (case ask_service (bw_append sk stream ds rows offset) w of
        (w', Refused s) \<Rightarrow>
          (w', if gs_code s = RPC_CODE_ALREADY_EXISTS then Sent else classify_status s ''bigquery storage-write append'')
      | (w', Answered ms e) \<Rightarrow> (w', drain_responses (bw_dataset sk) t ms e))"

definition stream_resource :: "'s bq_writer \<Rightarrow> string \<Rightarrow> string" where
  "stream_resource sk t = ''projects/'' @ bw_project sk @ ''/datasets/'' @ bw_dataset sk @ ''/tables/'' @ t"

text \<open>A table made a moment ago may not be found yet.\<close>

fun open_stream :: "'s bq_writer \<Rightarrow> string \<Rightarrow> nat \<Rightarrow> ('s bq_world, nat) act" where
  "open_stream sk t left w =
     (case ask_service (bw_open sk (stream_resource sk t)) w of
        (w', Inr stream) \<Rightarrow> (w', Inr stream)
      | (w', Inl s) \<Rightarrow>
          (case left of
             Suc left' \<Rightarrow> if gs_code s = RPC_CODE_NOT_FOUND then open_stream sk t left' w'
               else (w', Inl (Other (''bigquery storage-write: open committed stream for '' @ stream_resource sk t)))
           | 0 \<Rightarrow> (w', Inl (Other (''bigquery storage-write: open committed stream for '' @ stream_resource sk t)))))"

fun append_chunks :: "'s bq_writer \<Rightarrow> nat \<Rightarrow> field_enc list \<Rightarrow> field_descriptor list \<Rightarrow> string \<Rightarrow> cell list list list
    \<Rightarrow> nat \<Rightarrow> nat \<Rightarrow> ('s bq_world, nat \<times> nat) act" where
  "append_chunks sk stream fs ds t [] offset bytes = act_ok (offset, bytes)"
| "append_chunks sk stream fs ds t (chunk # rest) offset bytes =
     act_seq (act_lift (try_map (\<lambda>r. encode_row (bw_civil sk) r fs []) chunk)) (\<lambda>rows.
     act_seq (send_attempts (''bigquery storage-write append into '' @ bw_dataset sk @ ''.'' @ t)
         (try_append sk stream ds rows t (int offset)) (MAX_INSERT_ATTEMPTS - 1) 1) (\<lambda>_.
       append_chunks sk stream fs ds t rest (offset + length chunk) (bytes + sum_list (map length rows))))"

definition finalized_row_count_warning :: "string \<Rightarrow> string \<Rightarrow> int \<Rightarrow> int \<Rightarrow> transfer_warning option" where
  "finalized_row_count_warning dataset t row_count appended =
     (if row_count = appended then None
      else let d = nat \<bar>row_count - appended\<bar>;
               what = (if appended < row_count then ''duplicated'' else ''missing'')
        in Some \<lparr>tw_kind = StorageWriteCountMismatch, tw_column = None, tw_count = d,
             tw_sample = Some (dataset @ ''.'' @ t),
             tw_message = ''bigquery storage-write into '' @ dataset @ ''.'' @ t @ '' finalized its stream with ''
               @ show_int row_count @ '' row(s), but '' @ show_int appended @ '' were appended ('' @ show_nat d @ '' '' @ what @ '')''\<rparr>)"

text \<open>A stream that cannot be finalized expires on its own.\<close>

definition finalize_stream :: "'s bq_writer \<Rightarrow> nat \<Rightarrow> string \<Rightarrow> nat \<Rightarrow> ('s bq_world, unit) act" where
  "finalize_stream sk stream t appended w =
     (case ask_service (bw_finalize sk stream) w of
        (w', Inl _) \<Rightarrow> (w', Inr ())
      | (w', Inr n) \<Rightarrow>
          (case finalized_row_count_warning (bw_dataset sk) t n (int appended) of
             None \<Rightarrow> (w', Inr ())
           | Some x \<Rightarrow> (w'\<lparr>bs_warnings := bs_warnings w' @ [x]\<rparr>, Inr ())))"

definition insert_batches_storage_write :: "'s bq_writer \<Rightarrow> string \<Rightarrow> batch_field list \<Rightarrow> batch list \<Rightarrow> ('s bq_world, nat) act" where
  "insert_batches_storage_write sk t schema bs =
     (if list_all (\<lambda>b. bt_rows b = []) bs then act_ok 0
      else act_seq (act_lift (resolve_fields schema)) (\<lambda>fs.
        act_seq (act_lift (build_proto_descriptor fs)) (\<lambda>ds.
        act_seq (open_stream sk t (MAX_INSERT_ATTEMPTS - 1)) (\<lambda>stream.
        act_seq (append_chunks sk stream fs ds t (concat (map (\<lambda>b. chunks_of STORAGE_WRITE_MAX_ROWS_PER_APPEND (bt_rows b)) bs)) 0 0) (\<lambda>(offset, bytes).
        act_seq (finalize_stream sk stream t offset) (\<lambda>_. act_ok bytes))))))"

definition bq_insert_batches :: "'s bq_writer \<Rightarrow> string \<Rightarrow> batch_field list \<Rightarrow> batch list \<Rightarrow> ('s bq_world, nat) act" where
  "bq_insert_batches sk t schema bs =
     (case bw_method sk of
        InsertAll \<Rightarrow> insert_batches_insert_all sk t bs
      | StorageWrite \<Rightarrow> insert_batches_storage_write sk t schema bs)"

definition take_write_warnings :: "('s bq_world, transfer_warning list) act" where
  "take_write_warnings w = (w\<lparr>bs_warnings := []\<rparr>, Inr (bs_warnings w))"

section \<open>Exactly once\<close>

text \<open>What BigQuery documents of a committed stream.  \<open>rows s k\<close> is what stream \<open>k\<close> holds.  Rows are appended at
  the offset that is the stream's length or not at all, whatever becomes of the answer; an answer with a
  result says that they were, \<open>ALREADY_EXISTS\<close> that the offset was taken before.  A request has one response.\<close>

definition reports_exists :: "append_reply \<Rightarrow> bool" where
  "reports_exists rp \<longleftrightarrow>
     (case rp of Refused s \<Rightarrow> gs_code s = RPC_CODE_ALREADY_EXISTS
      | Answered (m # _) _ \<Rightarrow> am_row_errors m = [] \<and> (case am_response m of Some (AppendError s) \<Rightarrow> gs_code s = RPC_CODE_ALREADY_EXISTS | _ \<Rightarrow> False)
      | _ \<Rightarrow> False)"

definition one_response :: "append_reply \<Rightarrow> bool" where
  "one_response rp \<longleftrightarrow>
     (case rp of Refused _ \<Rightarrow> True | Answered [m] None \<Rightarrow> am_response m \<noteq> None \<or> am_row_errors m \<noteq> [] | Answered [] (Some _) \<Rightarrow> True | _ \<Rightarrow> False)"

definition append_effect :: "string list \<Rightarrow> string list \<Rightarrow> string list \<Rightarrow> int \<Rightarrow> append_reply \<Rightarrow> bool" where
  "append_effect new before after offset rp \<longleftrightarrow>
     (after = before \<or> offset = int (length before) \<and> after = before @ new)
     \<and> (rp = Answered [\<lparr>am_row_errors = [], am_response = Some AppendResult\<rparr>] None \<longrightarrow> offset = int (length before) \<and> after = before @ new)
     \<and> (reports_exists rp \<longrightarrow> after = before \<and> offset < int (length before))"

definition offsets_honoured :: "('s \<Rightarrow> nat \<Rightarrow> string list) \<Rightarrow> 's bq_writer \<Rightarrow> bool" where
  "offsets_honoured rows sk \<longleftrightarrow>
     (\<forall>r s s' a. bw_open sk r s = (s', a) \<longrightarrow> rows s' = rows s \<and> (\<forall>k. a = Inr k \<longrightarrow> rows s k = []))
     \<and> (\<forall>k ds new off s s' rp. bw_append sk k ds new off s = (s', rp) \<longrightarrow>
          one_response rp \<and> append_effect new (rows s k) (rows s' k) off rp \<and> (\<forall>j. j \<noteq> k \<longrightarrow> rows s' j = rows s j))
     \<and> (\<forall>k s s' a. bw_finalize sk k s = (s', a) \<longrightarrow> rows s' = rows s \<and> (\<forall>n. a = Inr n \<longrightarrow> n = int (length (rows s k))))"

text \<open>The rows of a stream while a chunk is being appended at offset \<open>length before\<close>.\<close>

definition streams :: "('s \<Rightarrow> nat \<Rightarrow> string list) \<Rightarrow> (nat \<Rightarrow> string list) \<Rightarrow> nat \<Rightarrow> string list \<Rightarrow> transfer_warning list \<Rightarrow> 's bq_world \<Rightarrow> bool" where
  "streams rows base k xs ws w \<longleftrightarrow> rows (bs_server w) = base(k := xs) \<and> bs_warnings w = ws"

lemma try_append_sent:
  assumes law: "offsets_honoured rows sk" and new: "new \<noteq> []"
    and w: "streams rows base k xs ws w" "xs = before \<or> xs = before @ new"
    and step: "try_append sk k ds new t (int (length before)) w = (w', r)"
  shows "(streams rows base k before ws w' \<or> streams rows base k (before @ new) ws w')
    \<and> (r = Sent \<longrightarrow> streams rows base k (before @ new) ws w')"
proof -
  obtain s' rp where ask: "bw_append sk k ds new (int (length before)) (bs_server w) = (s', rp)"
    by (cases "bw_append sk k ds new (int (length before)) (bs_server w)")
  have w': "w' = w\<lparr>bs_server := s'\<rparr>"
    using step ask by (auto simp: try_append_def ask_service_def split: append_reply.splits)
  have one: "one_response rp" and eff: "append_effect new (rows (bs_server w) k) (rows s' k) (int (length before)) rp"
    and other: "\<And>j. j \<noteq> k \<Longrightarrow> rows s' j = rows (bs_server w) j"
    using law ask by (auto simp: offsets_honoured_def)
  have rows: "rows s' = base(k := rows s' k)" using other w(1) by (auto simp: streams_def fun_eq_iff)
  have xs: "rows (bs_server w) k = xs" using w(1) by (simp add: streams_def)
  have e1: "rows s' k = xs \<or> length before = length xs \<and> rows s' k = xs @ new"
    and e2: "rp = Answered [\<lparr>am_row_errors = [], am_response = Some AppendResult\<rparr>] None \<Longrightarrow> length before = length xs \<and> rows s' k = xs @ new"
    and e3: "reports_exists rp \<Longrightarrow> rows s' k = xs \<and> length before < length xs"
    using eff by (simp_all only: append_effect_def xs of_nat_eq_iff of_nat_less_iff)
  have same: "length before = length xs \<Longrightarrow> xs = before" using w(2) new by (cases new) auto
  have cases: "rows s' k = before \<or> rows s' k = before @ new"
    using e1 same w(2) by metis
  have sent: "rows s' k = before @ new" if r: "r = Sent"
  proof (cases "reports_exists rp")
    case True
    then show ?thesis using e3 w(2) by auto
  next
    case False
    have "rp = Answered [\<lparr>am_row_errors = [], am_response = Some AppendResult\<rparr>] None"
    proof (cases rp)
      case (Refused s)
      then show ?thesis using step ask r False
        by (auto simp: try_append_def ask_service_def reports_exists_def classify_status_def Let_def split: if_splits)
    next
      case (Answered ms e)
      then show ?thesis using step ask r False one
        by (auto simp: try_append_def ask_service_def one_response_def reports_exists_def classify_status_def classify_rpc_status_def Let_def
            split: list.splits option.splits append_response.splits if_splits)
    qed
    then show ?thesis using e2 same by metis
  qed
  show ?thesis using cases sent rows w(1) by (auto simp: streams_def w')
qed

lemma append_attempts_sent:
  assumes "offsets_honoured rows sk" "new \<noteq> []"
  shows "streams rows base k xs ws w \<Longrightarrow> xs = before \<or> xs = before @ new
    \<Longrightarrow> send_attempts what (try_append sk k ds new t (int (length before))) left attempt w = (w', r)
    \<Longrightarrow> (streams rows base k before ws w' \<or> streams rows base k (before @ new) ws w')
      \<and> (r = Inr () \<longrightarrow> streams rows base k (before @ new) ws w')"
proof (induction what "try_append sk k ds new t (int (length before))" left attempt w arbitrary: xs rule: send_attempts.induct)
  case (1 what left attempt w)
  obtain w1 out where step: "try_append sk k ds new t (int (length before)) w = (w1, out)"
    by (cases "try_append sk k ds new t (int (length before)) w")
  note one = try_append_sent[OF assms 1(2,3) step]
  show ?case
  proof (cases out)
    case (Transient e)
    then show ?thesis using 1(1)[OF step[symmetric] Transient] 1(4) step one by (cases left) auto
  qed (use 1(4) step one in auto)
qed

lemma chunks_of_concat: "0 < n \<Longrightarrow> concat (chunks_of n xs) = xs \<and> [] \<notin> set (chunks_of n xs)"
proof (induction n xs rule: chunks_of.induct)
  case (1 n xs)
  then show ?case by (cases "xs = []") (subst (1 2) chunks_of.simps, auto)+
qed

lemma try_map_append: "try_map f (xs @ ys) = and_then (try_map f xs) (\<lambda>a. and_then (try_map f ys) (\<lambda>b. Inr (a @ b)))"
  by (induction xs) (auto simp: and_then_assoc split: sum.splits, cases "try_map f ys", auto)

abbreviation encoded :: "'s bq_writer \<Rightarrow> field_enc list \<Rightarrow> cell list list \<Rightarrow> string list res" where
  "encoded sk fs rs \<equiv> try_map (\<lambda>r. encode_row (bw_civil sk) r fs []) rs"

lemma append_chunks_exact:
  assumes law: "offsets_honoured rows sk"
  shows "streams rows base k xs ws w \<Longrightarrow> length xs = off \<Longrightarrow> [] \<notin> set chunks
    \<Longrightarrow> append_chunks sk k fs ds t chunks off bytes w = (w', r)
    \<Longrightarrow> \<exists>m enc. encoded sk fs (take m (concat chunks)) = Inr enc \<and> streams rows base k (xs @ enc) ws w'
        \<and> (\<forall>off' b. r = Inr (off', b) \<longrightarrow> m = length (concat chunks) \<and> off' = off + m \<and> b = bytes + sum_list (map length enc))"
proof (induction chunks arbitrary: xs off bytes w)
  case Nil
  then show ?case by (intro exI[of _ 0] exI[of _ "[]"]) (auto simp: act_ok_def)
next
  case (Cons chunk rest)
  show ?case
  proof (cases "encoded sk fs chunk")
    case (Inl e)
    then have "w' = w" "r = Inl e" using Cons.prems(4) by (auto simp: act_seq_def act_lift_def)
    then show ?thesis using Cons.prems(1) by (intro exI[of _ 0] exI[of _ "[]"]) auto
  next
    case (Inr new)
    have len: "length new = length chunk" using Inr by (rule try_map_length)
    then have new: "new \<noteq> []" using Cons.prems(3) by auto
    obtain w1 r1 where send: "send_attempts (''bigquery storage-write append into '' @ bw_dataset sk @ ''.'' @ t)
        (try_append sk k ds new t (int (length xs))) (MAX_INSERT_ATTEMPTS - 1) 1 w = (w1, r1)"
      by (cases "send_attempts (''bigquery storage-write append into '' @ bw_dataset sk @ ''.'' @ t)
        (try_append sk k ds new t (int (length xs))) (MAX_INSERT_ATTEMPTS - 1) 1 w")
    note one = append_attempts_sent[OF law new Cons.prems(1) disjI1[OF refl] send]
    show ?thesis
    proof (cases r1)
      case (Inl e)
      then have r: "w' = w1" "r = Inl e" using Cons.prems(2,4) send Inr by (auto simp: act_seq_def act_lift_def)
      from one show ?thesis
      proof (elim conjE disjE)
        assume "streams rows base k xs ws w1"
        then show ?thesis using r by (intro exI[of _ 0] exI[of _ "[]"]) auto
      next
        assume "streams rows base k (xs @ new) ws w1"
        then show ?thesis using r Inr by (intro exI[of _ "length chunk"] exI[of _ new]) auto
      qed
    next
      case r1: (Inr u)
      then have w1: "streams rows base k (xs @ new) ws w1" using one by simp
      have rest: "append_chunks sk k fs ds t rest (off + length chunk) (bytes + sum_list (map length new)) w1 = (w', r)"
        using Cons.prems(2,4) send Inr r1 by (auto simp: act_seq_def act_lift_def)
      obtain m enc where m: "encoded sk fs (take m (concat rest)) = Inr enc" "streams rows base k ((xs @ new) @ enc) ws w'"
        "\<forall>off' b. r = Inr (off', b) \<longrightarrow> m = length (concat rest) \<and> off' = off + length chunk + m
           \<and> b = bytes + sum_list (map length new) + sum_list (map length enc)"
        using Cons.IH[OF w1 _ _ rest] Cons.prems(2,3) len by auto
      have "encoded sk fs (take (length chunk + m) (concat (chunk # rest))) = Inr (new @ enc)"
        using m(1) Inr by (simp add: try_map_append)
      then show ?thesis using m by (intro exI[of _ "length chunk + m"] exI[of _ "new @ enc"]) auto
    qed
  qed
qed

lemma open_stream_fresh:
  assumes law: "offsets_honoured rows sk"
  shows "open_stream sk t left w = (w', r) \<Longrightarrow> rows (bs_server w') = rows (bs_server w) \<and> bs_warnings w' = bs_warnings w
    \<and> (\<forall>k. r = Inr k \<longrightarrow> rows (bs_server w) k = [])"
proof (induction left arbitrary: w)
  case 0
  then show ?case using law
    by (auto simp: ask_service_def offsets_honoured_def split: prod.splits sum.splits)
next
  case (Suc left)
  obtain s' a where a: "bw_open sk (stream_resource sk t) (bs_server w) = (s', a)"
    by (cases "bw_open sk (stream_resource sk t) (bs_server w)")
  then have s': "rows s' = rows (bs_server w)" "\<And>k. a = Inr k \<Longrightarrow> rows (bs_server w) k = []"
    using law by (auto simp: offsets_honoured_def)
  show ?case
  proof (cases a)
    case (Inl st)
    show ?thesis
    proof (cases "gs_code st = RPC_CODE_NOT_FOUND")
      case True
      then have "open_stream sk t left (w\<lparr>bs_server := s'\<rparr>) = (w', r)" using Suc.prems a Inl by (simp add: ask_service_def)
      from Suc.IH[OF this] show ?thesis using s' by simp
    next
      case False
      then show ?thesis using Suc.prems a Inl s' by (auto simp: ask_service_def)
    qed
  next
    case (Inr k)
    then show ?thesis using Suc.prems a s' by (auto simp: ask_service_def)
  qed
qed

lemma finalize_quiet:
  assumes "offsets_honoured rows sk" "rows (bs_server w) k = xs" "finalize_stream sk k t (length xs) w = (w', r)"
  shows "rows (bs_server w') = rows (bs_server w) \<and> bs_warnings w' = bs_warnings w \<and> r = Inr ()"
proof -
  obtain s' a where a: "bw_finalize sk k (bs_server w) = (s', a)" by (cases "bw_finalize sk k (bs_server w)")
  then have "rows s' = rows (bs_server w)" "\<And>n. a = Inr n \<Longrightarrow> n = int (length xs)"
    using assms(1,2) by (auto simp: offsets_honoured_def)
  then show ?thesis using assms(3) a
    by (cases a) (auto simp: finalize_stream_def ask_service_def finalized_row_count_warning_def)
qed

definition stream_chunks :: "batch list \<Rightarrow> cell list list list" where
  "stream_chunks bs = concat (map (\<lambda>b. chunks_of STORAGE_WRITE_MAX_ROWS_PER_APPEND (bt_rows b)) bs)"

lemma stream_chunks_rows: "concat (stream_chunks bs) = concat (map bt_rows bs) \<and> [] \<notin> set (stream_chunks bs)"
proof -
  have "0 < STORAGE_WRITE_MAX_ROWS_PER_APPEND" by (simp add: STORAGE_WRITE_MAX_ROWS_PER_APPEND_def)
  note one = chunks_of_concat[OF this]
  show ?thesis by (induction bs) (auto simp: stream_chunks_def one simp del: chunks_of.simps)
qed

lemma stream_filled:
  assumes law: "offsets_honoured rows sk" and w: "rows (bs_server w) = base" "base k = []"
    and run: "act_seq (append_chunks sk k fs ds t (stream_chunks bs) 0 0) (\<lambda>(offset, bytes).
        act_seq (finalize_stream sk k t offset) (\<lambda>_. act_ok bytes)) w = (w', res)"
  shows "\<exists>m enc. rows (bs_server w') = base(k := enc) \<and> encoded sk fs (take m (concat (map bt_rows bs))) = Inr enc
    \<and> (\<forall>n. res = Inr n \<longrightarrow> m = length (concat (map bt_rows bs)) \<and> n = sum_list (map length enc) \<and> bs_warnings w' = bs_warnings w)"
proof -
  let ?all = "concat (map bt_rows bs)"
  note chunks = stream_chunks_rows[of bs]
  have start: "streams rows base k [] (bs_warnings w) w" using w by (auto simp: streams_def)
  obtain w2 r where ap: "append_chunks sk k fs ds t (stream_chunks bs) 0 0 w = (w2, r)"
    by (cases "append_chunks sk k fs ds t (stream_chunks bs) 0 0 w")
  obtain m enc where m: "encoded sk fs (take m ?all) = Inr enc" "streams rows base k enc (bs_warnings w) w2"
    "\<forall>off b. r = Inr (off, b) \<longrightarrow> m = length ?all \<and> off = m \<and> b = sum_list (map length enc)"
    using append_chunks_exact[OF law start _ _ ap] chunks by auto
  show ?thesis
  proof (cases r)
    case (Inl e)
    then have "w' = w2" "res = Inl e" using run ap by (auto simp: act_seq_def)
    then show ?thesis using m by (intro exI[of _ m] exI[of _ enc]) (auto simp: streams_def)
  next
    case (Inr x)
    obtain off b where x: "x = (off, b)" by (cases x)
    then have off: "off = length enc" "m = length ?all" "b = sum_list (map length enc)"
      using m(1,3) Inr by (auto dest: try_map_length)
    obtain w3 f where fin: "finalize_stream sk k t (length enc) w2 = (w3, f)" by (cases "finalize_stream sk k t (length enc) w2")
    have quiet: "rows (bs_server w3) = rows (bs_server w2) \<and> bs_warnings w3 = bs_warnings w2 \<and> f = Inr ()"
      using finalize_quiet[OF law _ fin] m(2) by (simp add: streams_def)
    then have "w' = w3" "res = Inr b" using run ap Inr x off fin by (auto simp: act_seq_def act_ok_def)
    then show ?thesis using m quiet off by (intro exI[of _ m] exI[of _ enc]) (auto simp: streams_def)
  qed
qed

declare open_stream.simps [simp del] append_chunks.simps [simp del] chunks_of.simps [simp del]

abbreviation filling :: "'s bq_writer \<Rightarrow> string \<Rightarrow> batch list \<Rightarrow> field_enc list \<Rightarrow> field_descriptor list \<Rightarrow> nat \<Rightarrow> ('s bq_world, nat) act" where
  "filling sk t bs fs ds k \<equiv> act_seq (append_chunks sk k fs ds t (stream_chunks bs) 0 0) (\<lambda>(offset, bytes).
     act_seq (finalize_stream sk k t offset) (\<lambda>_. act_ok bytes))"

lemma storage_write_cases:
  "insert_batches_storage_write sk t schema bs w =
     (if list_all (\<lambda>b. bt_rows b = []) bs then (w, Inr 0)
      else case resolve_fields schema of
        Inl e \<Rightarrow> (w, Inl e)
      | Inr fs \<Rightarrow>
          (case build_proto_descriptor fs of
             Inl e \<Rightarrow> (w, Inl e)
           | Inr ds \<Rightarrow>
               (case open_stream sk t (MAX_INSERT_ATTEMPTS - 1) w of
                  (w1, Inl e) \<Rightarrow> (w1, Inl e)
                | (w1, Inr k) \<Rightarrow> filling sk t bs fs ds k w1)))"
  by (auto simp: insert_batches_storage_write_def stream_chunks_def act_seq_def act_lift_def act_ok_def
      split: sum.split prod.split)

text \<open>C35. Whatever answers are lost and however often appends are repeated, a Storage Write call leaves on its
  stream, a new one, the encoded rows of its batches in order, each at most once, and touches no other
  stream; when it returns, all of them are there, and no row count is reported as wrong.\<close>

theorem storage_write_exactly_once:
  assumes "offsets_honoured rows sk" "insert_batches_storage_write sk t schema bs w = (w', res)"
  shows "\<exists>k m enc. rows (bs_server w') = (rows (bs_server w))(k := rows (bs_server w) k @ enc)
    \<and> (enc \<noteq> [] \<longrightarrow> rows (bs_server w) k = [])
    \<and> (case resolve_fields schema of
         Inr fs \<Rightarrow> try_map (\<lambda>r. encode_row (bw_civil sk) r fs []) (take m (concat (map bt_rows bs))) = Inr enc
       | Inl _ \<Rightarrow> enc = [])
    \<and> (\<forall>n. res = Inr n \<longrightarrow> m = length (concat (map bt_rows bs)) \<and> n = sum_list (map length enc) \<and> bs_warnings w' = bs_warnings w)"
proof -
  let ?all = "concat (map bt_rows bs)"
  have unchanged: ?thesis if "rows (bs_server w') = rows (bs_server w)" "\<And>n. res = Inr n \<Longrightarrow> ?all = [] \<and> n = 0 \<and> bs_warnings w' = bs_warnings w"
    using that by (intro exI[of _ 0] exI[of _ "0::nat"] exI[of _ "[]"]) (auto split: sum.split)
  consider (no_rows) "list_all (\<lambda>b. bt_rows b = []) bs" "w' = w" "res = Inr 0"
    | (refused) e where "w' = w" "res = Inl e"
    | (unopened) e where "open_stream sk t (MAX_INSERT_ATTEMPTS - 1) w = (w', Inl e)" "res = Inl e"
    | (opened) fs ds k w1 where "resolve_fields schema = Inr fs"
        "open_stream sk t (MAX_INSERT_ATTEMPTS - 1) w = (w1, Inr k)" "filling sk t bs fs ds k w1 = (w', res)"
    using assms(2) unfolding storage_write_cases by (auto split: if_splits sum.splits prod.splits)
  then show ?thesis
  proof cases
    case no_rows
    then have "?all = []" by (simp add: list_all_iff)
    with no_rows show ?thesis by (intro unchanged) auto
  next
    case refused
    then show ?thesis by (intro unchanged) auto
  next
    case unopened
    then show ?thesis using open_stream_fresh[OF assms(1) unopened(1)] by (intro unchanged) auto
  next
    case opened
    note fresh = open_stream_fresh[OF assms(1) opened(2)]
    obtain m enc where m: "rows (bs_server w') = (rows (bs_server w))(k := enc)" "encoded sk fs (take m ?all) = Inr enc"
      "\<forall>n. res = Inr n \<longrightarrow> m = length ?all \<and> n = sum_list (map length enc) \<and> bs_warnings w' = bs_warnings w1"
      using stream_filled[OF assms(1) _ _ opened(3)] fresh by auto
    have e: "rows (bs_server w) k = []" and quiet: "bs_warnings w1 = bs_warnings w" using fresh by auto
    show ?thesis
    proof (intro exI conjI)
      show "rows (bs_server w') = (rows (bs_server w))(k := rows (bs_server w) k @ enc)" using m(1) e by simp
      show "enc \<noteq> [] \<longrightarrow> rows (bs_server w) k = []" using e by simp
      show "case resolve_fields schema of Inr fs \<Rightarrow> encoded sk fs (take m ?all) = Inr enc | Inl _ \<Rightarrow> enc = []"
        using m(2) opened(1) by simp
      show "\<forall>n. res = Inr n \<longrightarrow> m = length ?all \<and> n = sum_list (map length enc) \<and> bs_warnings w' = bs_warnings w"
        using m(3) by (simp add: quiet)
    qed
  qed
qed

section \<open>A service\<close>

text \<open>Streams as lists of messages; requests are numbered, and the answer of some is lost after the rows were
  appended.\<close>

record ref_streams =
  rt_streams :: "string list list"
  rt_clock :: nat
  rt_lost :: "nat list"

definition ref_stream_rows :: "ref_streams \<Rightarrow> nat \<Rightarrow> string list" where
  "ref_stream_rows s k = (if k < length (rt_streams s) then rt_streams s ! k else [])"

definition ref_open :: "string \<Rightarrow> ref_streams \<Rightarrow> ref_streams \<times> (grpc_status + nat)" where
  "ref_open r s = (s\<lparr>rt_streams := rt_streams s @ [[]]\<rparr>, Inr (length (rt_streams s)))"

definition ref_append :: "nat \<Rightarrow> field_descriptor list \<Rightarrow> string list \<Rightarrow> int \<Rightarrow> ref_streams \<Rightarrow> ref_streams \<times> append_reply" where
  "ref_append k ds new off s =
     (let s' = s\<lparr>rt_clock := Suc (rt_clock s)\<rparr>; held = ref_stream_rows s k in
      if length (rt_streams s) \<le> k then (s', Refused \<lparr>gs_code = 5, gs_message = ''no such stream''\<rparr>)
      else if off < int (length held) then (s', Refused \<lparr>gs_code = 6, gs_message = ''offset taken''\<rparr>)
      else if int (length held) < off then (s', Refused \<lparr>gs_code = 11, gs_message = ''offset past the end''\<rparr>)
      else (s'\<lparr>rt_streams := (rt_streams s)[k := held @ new]\<rparr>,
        if rt_clock s \<in> set (rt_lost s) then Refused \<lparr>gs_code = 14, gs_message = ''connection reset''\<rparr>
        else Answered [\<lparr>am_row_errors = [], am_response = Some AppendResult\<rparr>] None))"

definition ref_finalize :: "nat \<Rightarrow> ref_streams \<Rightarrow> ref_streams \<times> (grpc_status + int)" where
  "ref_finalize k s = (s, Inr (int (length (ref_stream_rows s k))))"

definition ref_writer :: "ref_streams bq_writer" where
  "ref_writer = \<lparr>bw_project = ''p'', bw_dataset = ''d'', bw_method = StorageWrite, bw_run_token = ''r'',
     bw_civil = (\<lambda>_. Some (1970, 1, 1)), bw_base64 = (\<lambda>s. s), bw_json_size = length, bw_open = ref_open,
     bw_append = ref_append, bw_finalize = ref_finalize, bw_insert_all = (\<lambda>t rows s. (s, Inr []))\<rparr>"

lemma ref_writer_honours: "offsets_honoured ref_stream_rows ref_writer"
proof -
  have open_rows: "ref_stream_rows (fst (ref_open r s)) = ref_stream_rows s" for r s
    by (auto simp: ref_open_def ref_stream_rows_def fun_eq_iff nth_append)
  have append: "one_response rp \<and> append_effect new (ref_stream_rows s k) (ref_stream_rows s' k) off rp \<and> (\<forall>j. j \<noteq> k \<longrightarrow> ref_stream_rows s' j = ref_stream_rows s j)"
    if "ref_append k ds new off s = (s', rp)" for k ds new off s s' rp
    using that
    by (auto simp: ref_append_def Let_def ref_stream_rows_def one_response_def append_effect_def reports_exists_def
        RPC_CODE_ALREADY_EXISTS_def split: if_splits)
  show ?thesis
    unfolding offsets_honoured_def ref_writer_def bq_writer.select_convs
  proof (intro conjI allI impI)
    fix r s s' a assume "ref_open r s = (s', a :: grpc_status + nat)"
    then show "ref_stream_rows s' = ref_stream_rows s" using open_rows[of r s] by simp
    fix k assume "a = Inr k"
    then show "ref_stream_rows s k = []" using \<open>ref_open r s = (s', a)\<close> by (simp add: ref_open_def ref_stream_rows_def)
  next
    fix k ds new off s s' rp assume "ref_append k ds new off s = (s', rp)"
    note append[OF this]
    then show "one_response rp" "append_effect new (ref_stream_rows s k) (ref_stream_rows s' k) off rp"
      "\<And>j. j \<noteq> k \<Longrightarrow> ref_stream_rows s' j = ref_stream_rows s j" by simp_all
  qed (simp_all add: ref_finalize_def)
qed

definition lossy_streams :: "ref_streams bq_world" where
  "lossy_streams = \<lparr>bs_server = \<lparr>rt_streams = [], rt_clock = 0, rt_lost = [0]\<rparr>, bs_epoch = 0, bs_warnings = []\<rparr>"

definition sample_bool_batch :: batch where
  "sample_bool_batch = \<lparr>bt_fields = [\<lparr>bf_name = ''ok'', bf_type = Boolean, bf_nullable = True\<rparr>], bt_rows = [[CBool True], [CNull]]\<rparr>"

theorem storage_write_exactly_once_witness:
  "\<exists>w' n k enc. insert_batches_storage_write ref_writer ''t'' (bt_fields sample_bool_batch) [sample_bool_batch] lossy_streams = (w', Inr n)
     \<and> rt_clock (bs_server w') = 2 \<and> ref_stream_rows (bs_server w') k = enc \<and> length enc = 2"
proof -
  let ?run = "insert_batches_storage_write ref_writer ''t'' (bt_fields sample_bool_batch) [sample_bool_batch] lossy_streams"
  have "case ?run of (w', r) \<Rightarrow> is_ok r \<and> rt_clock (bs_server w') = 2" by code_simp
  then obtain w' n where run: "?run = (w', Inr n)" and tick: "rt_clock (bs_server w') = 2"
    by (cases ?run; cases "snd ?run") auto
  have none: "ref_stream_rows (bs_server lossy_streams) = (\<lambda>_. [])"
    by (simp add: lossy_streams_def ref_stream_rows_def fun_eq_iff)
  have "is_ok (resolve_fields (bt_fields sample_bool_batch))" by code_simp
  then obtain fs where fs: "resolve_fields (bt_fields sample_bool_batch) = Inr fs" by (cases "resolve_fields (bt_fields sample_bool_batch)") auto
  obtain k m enc where rows: "ref_stream_rows (bs_server w') = (\<lambda>_. [])(k := enc)"
    and enc: "encoded ref_writer fs (take m (bt_rows sample_bool_batch)) = Inr enc" and m: "m = length (bt_rows sample_bool_batch)"
    using storage_write_exactly_once[OF ref_writer_honours run] fs none by auto
  have "length enc = 2" using try_map_length[OF enc] by (simp add: m sample_bool_batch_def)
  then show ?thesis using rows run tick by (intro exI[of _ w'] exI[of _ n] exI[of _ k] exI[of _ enc]) simp
qed

text \<open>An append whose response stream ends before any message counts as sent.\<close>

lemma unanswered_append_counts: "drain_responses dataset t [] None = Sent"
  by simp

text \<open>JSON carries an unsigned value as it is; the protobuf field wraps it.\<close>

lemma unsigned_values_differ:
  "array_value_to_json civil b64 UInt64 (CInt (2 ^ 64 - 1)) = Inr (BvInt (2 ^ 64 - 1))
   \<and> sent_value civil UInt64 (CInt (2 ^ 64 - 1)) = Some (PInt (- 1))"
  by (simp add: array_value_to_json_def INTEGER_TYPES_def sent_value_def)

text \<open>The ids of the rows of one \<open>insertAll\<close> call are distinct, so none is dropped as another's copy.\<close>

lemma show_nat_no_dash: "CHR ''-'' \<notin> set (show_nat n)"
  using all_digits_show_nat[of n] by (auto simp: list_all_iff is_digit_def code_def)

lemma insert_id_distinct: "insert_id token e k = insert_id token e' k' \<longleftrightarrow> e = e' \<and> k = k'"
proof -
  have "e = e' \<and> k = k'" if eq: "show_nat e @ ''-'' @ show_nat k = show_nat e' @ ''-'' @ show_nat k'"
  proof -
    have split: "takeWhile (\<lambda>c. c \<noteq> CHR ''-'') (show_nat e @ ''-'' @ show_nat k) = show_nat e" for e k
      using show_nat_no_dash[of e] by (subst takeWhile_append2) auto
    have "show_nat e = show_nat e'" using split[of e k] split[of e' k'] eq by metis
    then show ?thesis using eq by simp
  qed
  then show ?thesis by (auto simp: insert_id_def)
qed

end
