(* ===== verification/QH_Bq_Jobs.thy ===== *)
theory QH_Bq_Jobs
  imports QH_Bq_Write QH_Merge QH_Chunk
begin

text \<open>
  The statements of \<open>sink/bigquery.rs\<close>: query jobs, submitted under one id until the id is known to be taken
  and polled until they are done; tables and their metadata; the state table.  The service is an argument.
  Under what BigQuery documents of jobs a statement is applied at most once, and exactly once when the call
  returns.
\<close>

section \<open>Jobs\<close>

record job_reference =
  jr_id :: string
  jr_location :: "string option"

record job_error =
  je_reason :: "string option"
  je_message :: "string option"

record bq_job =
  jb_ref :: job_reference
  jb_done :: bool
  jb_error :: "job_error option"
  jb_affected :: "int option"

record 's bq_service =
  bv_project :: string
  bv_dataset :: string
  bv_now :: "'s \<Rightarrow> 's \<times> int"
  bv_create :: "string \<Rightarrow> string \<Rightarrow> 's \<Rightarrow> 's \<times> (bq_error + bq_job)"
  bv_get :: "job_reference \<Rightarrow> 's \<Rightarrow> 's \<times> (bq_error + bq_job)"
  bv_location :: "'s \<Rightarrow> 's \<times> string option"

text \<open>One underscore for each character that is not alphanumeric: the bytes that continue one are left out.\<close>

definition unique_job_id :: "string \<Rightarrow> string \<Rightarrow> int \<Rightarrow> string" where
  "unique_job_id prefix t now =
     ''quickhouse_'' @ prefix @ ''_'' @ concat (map (\<lambda>c. if is_alnum c then [c] else if 128 \<le> code c \<and> code c < 192 then [] else ''_'') t) @ ''_'' @ show_int now"

definition JOB_HTTP_ATTEMPTS :: nat where "JOB_HTTP_ATTEMPTS = 5"
definition RATE_LIMITED_JOB_ATTEMPTS :: nat where "RATE_LIMITED_JOB_ATTEMPTS = 6"

definition is_transient_bq :: "bq_error \<Rightarrow> bool" where
  "is_transient_bq e =
     (case e of
        BqResponse status _ \<Rightarrow> 500 \<le> status \<or> status = 429
      | BqHttpClient status _ \<Rightarrow> (case status of None \<Rightarrow> True | Some n \<Rightarrow> 500 \<le> n \<and> n < 600 \<or> n = 429)
      | BqMiddleware _ \<Rightarrow> True
      | BqToken _ \<Rightarrow> False)"

definition is_conflict :: "bq_error \<Rightarrow> bool" where
  "is_conflict e = (case e of BqResponse status _ \<Rightarrow> status = 409 | BqHttpClient status _ \<Rightarrow> status = Some 409 | _ \<Rightarrow> False)"

definition is_not_found :: "bq_error \<Rightarrow> bool" where
  "is_not_found e = (case e of BqResponse status _ \<Rightarrow> status = 404 | _ \<Rightarrow> False)"

text \<open>\<open>left\<close> counts the attempts still allowed after this one.\<close>

fun retry_job_call :: "('s \<Rightarrow> 's \<times> (bq_error + 'a)) \<Rightarrow> nat \<Rightarrow> 's \<Rightarrow> 's \<times> (bq_error + 'a)" where
  "retry_job_call call left s =
     (case call s of
        (s', Inl e) \<Rightarrow>
          (case left of
             Suc left' \<Rightarrow> if is_transient_bq e then retry_job_call call left' s' else (s', Inl e)
           | 0 \<Rightarrow> (s', Inl e))
      | (s', Inr a) \<Rightarrow> (s', Inr a))"

fun submit_attempts :: "('s \<Rightarrow> 's \<times> (bq_error + bq_job)) \<Rightarrow> ('s \<Rightarrow> 's \<times> (bq_error + bq_job)) \<Rightarrow> bool \<Rightarrow> nat \<Rightarrow> 's \<Rightarrow> 's \<times> (bq_error + bq_job)" where
  "submit_attempts create get again left s =
     (case create s of
        (s', Inl e) \<Rightarrow>
          if again \<and> is_conflict e then get s'
          else (case left of
             Suc left' \<Rightarrow> if is_transient_bq e then submit_attempts create get True left' s' else (s', Inl e)
           | 0 \<Rightarrow> (s', Inl e))
      | (s', Inr job) \<Rightarrow> (s', Inr job))"

definition submit_job :: "('s \<Rightarrow> 's \<times> (bq_error + bq_job)) \<Rightarrow> ('s \<Rightarrow> 's \<times> (bq_error + bq_job)) \<Rightarrow> 's \<Rightarrow> 's \<times> (bq_error + bq_job)" where
  "submit_job create get = submit_attempts create get False (JOB_HTTP_ATTEMPTS - 1)"

definition get_job :: "'s bq_service \<Rightarrow> job_reference \<Rightarrow> 's \<Rightarrow> 's \<times> (bq_error + bq_job)" where
  "get_job sv r = retry_job_call (bv_get sv r) (JOB_HTTP_ATTEMPTS - 1)"

text \<open>The id sent names no location; the lookup of a job submitted before needs it.\<close>

definition job_error_as :: "string \<Rightarrow> (bq_error + 'a) \<Rightarrow> 'a res" where
  "job_error_as what r = (case r of Inl e \<Rightarrow> Inl (Other (what @ '': '' @ bq_error_text e)) | Inr a \<Rightarrow> Inr a)"

definition look_up_job :: "'s bq_service \<Rightarrow> string \<Rightarrow> 's \<Rightarrow> 's \<times> (bq_error + bq_job)" where
  "look_up_job sv i s = (case bv_location sv s of (s', loc) \<Rightarrow> get_job sv \<lparr>jr_id = i, jr_location = loc\<rparr> s')"

definition create_job :: "'s bq_service \<Rightarrow> string \<Rightarrow> string \<Rightarrow> string \<Rightarrow> ('s, bq_job) act" where
  "create_job sv i query what s =
     (case submit_job (bv_create sv i query) (look_up_job sv i) s of
        (s', r) \<Rightarrow> (s', job_error_as (''bigquery '' @ what @ '' job error'') r))"

text \<open>Polling goes on until the job is done; None when \<open>polls\<close> polls did not see it done.\<close>

fun wait_for_job :: "'s bq_service \<Rightarrow> nat \<Rightarrow> bq_job \<Rightarrow> ('s, bq_job option) act" where
  "wait_for_job sv 0 job s = (s, Inr (if jb_done job then Some job else None))"
| "wait_for_job sv (Suc polls) job s =
     (if jb_done job then (s, Inr (Some job))
      else case get_job sv (jb_ref job) s of
        (s', Inl e) \<Rightarrow> (s', Inl (Other (''bigquery job get error: '' @ bq_error_text e)))
      | (s', Inr job') \<Rightarrow> wait_for_job sv polls job' s')"

definition job_outcome :: "bq_job \<Rightarrow> bq_job res" where
  "job_outcome job =
     (case jb_error job of
        Some e \<Rightarrow> Inl (Other (''bigquery job '' @ jr_id (jb_ref job) @ '' failed: ''
          @ (case je_message e of Some m \<Rightarrow> m | None \<Rightarrow> ''unknown error'')))
      | None \<Rightarrow> Inr job)"

definition is_retryable_job_error :: "job_error \<Rightarrow> bool" where
  "is_retryable_job_error e \<longleftrightarrow>
     je_reason e \<in> {Some ''rateLimitExceeded'', Some ''jobRateLimitExceeded'', Some ''backendError'', Some ''internalError''}"

definition rate_limit_backoff :: "nat \<Rightarrow> nat" where
  "rate_limit_backoff attempt = 2 * 2 ^ min (attempt - 1) 4"

fun job_attempts :: "'s bq_service \<Rightarrow> nat \<Rightarrow> string \<Rightarrow> string \<Rightarrow> string \<Rightarrow> nat \<Rightarrow> ('s, bq_job option) act" where
  "job_attempts sv polls query prefix t left s0 =
     (case bv_now sv s0 of (s1, now) \<Rightarrow>
      case create_job sv (unique_job_id prefix t now) query prefix s1 of
        (s2, Inl e) \<Rightarrow> (s2, Inl e)
      | (s2, Inr created) \<Rightarrow>
          (case wait_for_job sv polls created s2 of
             (s3, Inl e) \<Rightarrow> (s3, Inl e)
           | (s3, Inr None) \<Rightarrow> (s3, Inr None)
           | (s3, Inr (Some job)) \<Rightarrow>
               (case (jb_error job, left) of
                  (Some e, Suc left') \<Rightarrow>
                    if is_retryable_job_error e then job_attempts sv polls query prefix t left' s3
                    else (s3, map_sum (\<lambda>x. x) Some (job_outcome job))
                | _ \<Rightarrow> (s3, map_sum (\<lambda>x. x) Some (job_outcome job)))))"

declare job_attempts.simps [simp del]

definition run_query_job :: "'s bq_service \<Rightarrow> nat \<Rightarrow> string \<Rightarrow> string \<Rightarrow> string \<Rightarrow> ('s, bq_job option) act" where
  "run_query_job sv polls query prefix t = job_attempts sv polls query prefix t (RATE_LIMITED_JOB_ATTEMPTS - 1)"

text \<open>A job submitted once and polled: a failed one is not tried again.\<close>

definition run_job_once :: "'s bq_service \<Rightarrow> nat \<Rightarrow> string \<Rightarrow> string \<Rightarrow> string \<Rightarrow> string \<Rightarrow> ('s, bq_job option) act" where
  "run_job_once sv polls query prefix what t s0 =
     (case bv_now sv s0 of (s1, now) \<Rightarrow>
      act_seq (create_job sv (unique_job_id prefix t now) query what) (\<lambda>created.
      act_seq (wait_for_job sv polls created) (\<lambda>r.
        case r of None \<Rightarrow> act_ok None | Some job \<Rightarrow> act_lift (map_sum (\<lambda>x. x) Some (job_outcome job)))) s1)"

definition bq_atomic_swap :: "'s bq_service \<Rightarrow> nat \<Rightarrow> string \<Rightarrow> string \<Rightarrow> string list \<Rightarrow> ('s, bq_job option) act" where
  "bq_atomic_swap sv polls dest staging columns =
     run_job_once sv polls (build_swap_sql (bv_project sv) (bv_dataset sv) dest staging columns) ''swap'' ''swap'' dest"

definition bq_clone_structure :: "'s bq_service \<Rightarrow> nat \<Rightarrow> string \<Rightarrow> string \<Rightarrow> ('s, bq_job option) act" where
  "bq_clone_structure sv polls new_table like_table =
     run_job_once sv polls (''CREATE TABLE '' @ table_ref (bv_project sv) (bv_dataset sv) new_table @ '' LIKE ''
       @ table_ref (bv_project sv) (bv_dataset sv) like_table) ''clone'' ''clone-table'' new_table"

section \<open>At most once\<close>

text \<open>What BigQuery documents of jobs.  Of the jobs of this process \<open>sub\<close> is the statement submitted under an id,
  \<open>app\<close> how often it has been applied, \<open>dead\<close> that it ended in failure.  An id is taken once; a job applies
  its statement once or, if it fails, not at all, at any time after it was submitted, whatever became of
  the answer; an id made of the clock's reading is not in use.\<close>

definition goes_on :: "('s \<Rightarrow> string \<Rightarrow> string option) \<Rightarrow> ('s \<Rightarrow> string \<Rightarrow> nat) \<Rightarrow> ('s \<Rightarrow> string \<Rightarrow> bool) \<Rightarrow> 's \<Rightarrow> 's \<Rightarrow> bool" where
  "goes_on sub app dead s s' \<longleftrightarrow>
     (\<forall>i. (sub s i \<noteq> None \<longrightarrow> sub s' i = sub s i) \<and> (dead s i \<longrightarrow> dead s' i) \<and> (dead s' i \<longrightarrow> app s' i = 0)
        \<and> app s' i \<le> 1 \<and> (sub s' i = None \<longrightarrow> app s' i = 0) \<and> app s i \<le> app s' i)"

definition reports :: "('s \<Rightarrow> string \<Rightarrow> nat) \<Rightarrow> ('s \<Rightarrow> string \<Rightarrow> bool) \<Rightarrow> bq_job \<Rightarrow> 's \<Rightarrow> bool" where
  "reports app dead job s \<longleftrightarrow>
     (jb_done job \<longrightarrow> (if jb_error job = None then app s (jr_id (jb_ref job)) = 1 else dead s (jr_id (jb_ref job))))"

definition jobs_once :: "('s \<Rightarrow> string \<Rightarrow> string option) \<Rightarrow> ('s \<Rightarrow> string \<Rightarrow> nat) \<Rightarrow> ('s \<Rightarrow> string \<Rightarrow> bool) \<Rightarrow> 's bq_service \<Rightarrow> bool" where
  "jobs_once sub app dead sv \<longleftrightarrow>
     (\<forall>s s' n. bv_now sv s = (s', n) \<longrightarrow> goes_on sub app dead s s' \<and> sub s' = sub s \<and> (\<forall>p t. sub s' (unique_job_id p t n) = None))
     \<and> (\<forall>s s' l. bv_location sv s = (s', l) \<longrightarrow> goes_on sub app dead s s' \<and> sub s' = sub s)
     \<and> (\<forall>i q s s' r. bv_create sv i q s = (s', r) \<longrightarrow> goes_on sub app dead s s' \<and> (\<forall>j. j \<noteq> i \<longrightarrow> sub s' j = sub s j)
          \<and> (sub s i = None \<longrightarrow> sub s' i \<in> {None, Some q})
          \<and> (\<forall>job. r = Inr job \<longrightarrow> sub s i = None \<and> sub s' i = Some q \<and> jr_id (jb_ref job) = i \<and> reports app dead job s'))
     \<and> (\<forall>rf s s' r. bv_get sv rf s = (s', r) \<longrightarrow> goes_on sub app dead s s' \<and> sub s' = sub s
          \<and> (\<forall>job. r = Inr job \<longrightarrow> sub s' (jr_id rf) \<noteq> None \<and> jr_id (jb_ref job) = jr_id rf \<and> reports app dead job s'))"

lemma goes_on_trans:
  assumes "goes_on sub app dead s t" "goes_on sub app dead t u" shows "goes_on sub app dead s u"
  unfolding goes_on_def
proof (intro allI)
  fix i
  note a = assms(1)[unfolded goes_on_def, rule_format, of i] and b = assms(2)[unfolded goes_on_def, rule_format, of i]
  show "(sub s i \<noteq> None \<longrightarrow> sub u i = sub s i) \<and> (dead s i \<longrightarrow> dead u i) \<and> (dead u i \<longrightarrow> app u i = 0)
      \<and> app u i \<le> 1 \<and> (sub u i = None \<longrightarrow> app u i = 0) \<and> app s i \<le> app u i"
    using a b by (intro conjI impI) (simp, simp, simp, simp, simp, linarith)
qed

lemma reports_stays:
  assumes "reports app dead job s" "goes_on sub app dead s t" shows "reports app dead job t"
proof -
  note g = assms(2)[unfolded goes_on_def, rule_format, of "jr_id (jb_ref job)"]
  show ?thesis using assms(1) g by (auto simp: reports_def split: if_splits)
qed

text \<open>What an answer about the job of id \<open>i\<close> says.\<close>

definition tells :: "('s \<Rightarrow> string \<Rightarrow> string option) \<Rightarrow> ('s \<Rightarrow> string \<Rightarrow> nat) \<Rightarrow> ('s \<Rightarrow> string \<Rightarrow> bool) \<Rightarrow> string \<Rightarrow> ('e + bq_job) \<Rightarrow> 's \<Rightarrow> bool" where
  "tells sub app dead i r s \<longleftrightarrow>
     (\<forall>job. r = Inr job \<longrightarrow> sub s i \<noteq> None \<and> jr_id (jb_ref job) = i \<and> reports app dead job s)"

lemma jobs_once_now:
  assumes "jobs_once sub app dead sv" "bv_now sv s = (s', n)"
  shows "goes_on sub app dead s s' \<and> sub s' = sub s \<and> (\<forall>p t. sub s' (unique_job_id p t n) = None)"
  by (rule assms(1)[unfolded jobs_once_def, THEN conjunct1, THEN spec, THEN spec, THEN spec, THEN mp, OF assms(2)])

lemma jobs_once_location:
  assumes "jobs_once sub app dead sv" "bv_location sv s = (s', l)"
  shows "goes_on sub app dead s s' \<and> sub s' = sub s"
  by (rule assms(1)[unfolded jobs_once_def, THEN conjunct2, THEN conjunct1, THEN spec, THEN spec, THEN spec, THEN mp, OF assms(2)])

lemma jobs_once_create:
  assumes "jobs_once sub app dead sv" "bv_create sv i q s = (s', r)"
  shows "goes_on sub app dead s s' \<and> (\<forall>j. j \<noteq> i \<longrightarrow> sub s' j = sub s j)
          \<and> (sub s i = None \<longrightarrow> sub s' i \<in> {None, Some q}) \<and> tells sub app dead i r s'"
proof -
  note f = assms(1)[unfolded jobs_once_def, THEN conjunct2, THEN conjunct2, THEN conjunct1,
      THEN spec, THEN spec, THEN spec, THEN spec, THEN spec, THEN mp, OF assms(2)]
  show ?thesis
    using f unfolding tells_def by simp
qed

lemma jobs_once_get:
  assumes "jobs_once sub app dead sv" "bv_get sv rf s = (s', r)"
  shows "goes_on sub app dead s s' \<and> sub s' = sub s \<and> tells sub app dead (jr_id rf) r s'"
  unfolding tells_def
  by (rule assms(1)[unfolded jobs_once_def, THEN conjunct2, THEN conjunct2, THEN conjunct2,
      THEN spec, THEN spec, THEN spec, THEN spec, THEN mp, OF assms(2)])

lemma get_job_tells:
  assumes law: "jobs_once sub app dead sv"
  shows "get_job sv rf s = (s', r) \<Longrightarrow> goes_on sub app dead s s' \<and> sub s' = sub s \<and> tells sub app dead (jr_id rf) r s'"
proof -
  have "retry_job_call (bv_get sv rf) left s = (s', r) \<Longrightarrow> goes_on sub app dead s s' \<and> sub s' = sub s \<and> tells sub app dead (jr_id rf) r s'" for left
  proof (induction left arbitrary: s)
    case 0
    then have "bv_get sv rf s = (s', r)" by (auto split: prod.splits sum.splits)
    then show ?case by (rule jobs_once_get[OF law])
  next
    case (Suc left)
    obtain s1 a where a: "bv_get sv rf s = (s1, a)" by (cases "bv_get sv rf s")
    then have one: "goes_on sub app dead s s1" "sub s1 = sub s" "tells sub app dead (jr_id rf) a s1"
      using jobs_once_get[OF law a] by auto
    show ?case
    proof (cases "\<exists>e. a = Inl e \<and> is_transient_bq e")
      case True
      then have "retry_job_call (bv_get sv rf) left s1 = (s', r)" using Suc.prems a by auto
      from Suc.IH[OF this] show ?thesis using one goes_on_trans by metis
    next
      case False
      then have "s' = s1" "r = a" using Suc.prems a by (auto split: sum.splits)
      then show ?thesis using one by simp
    qed
  qed
  then show "get_job sv rf s = (s', r) \<Longrightarrow> ?thesis" unfolding get_job_def by blast
qed

lemma look_up_job_tells:
  assumes law: "jobs_once sub app dead sv" and r: "look_up_job sv i s = (s', r)"
  shows "goes_on sub app dead s s' \<and> sub s' = sub s \<and> tells sub app dead i r s'"
proof -
  obtain s1 l where l: "bv_location sv s = (s1, l)" by (cases "bv_location sv s")
  then have one: "goes_on sub app dead s s1" "sub s1 = sub s" using jobs_once_location[OF law l] by auto
  have "get_job sv \<lparr>jr_id = i, jr_location = l\<rparr> s1 = (s', r)" using r l by (simp add: look_up_job_def)
  from get_job_tells[OF law this] one show ?thesis using goes_on_trans by fastforce
qed

lemma submit_attempts_once:
  assumes law: "jobs_once sub app dead sv"
  shows "submit_attempts (bv_create sv i q) (look_up_job sv i) again left s = (s', r) \<Longrightarrow> sub s i \<in> {None, Some q}
    \<Longrightarrow> goes_on sub app dead s s' \<and> (\<forall>j. j \<noteq> i \<longrightarrow> sub s' j = sub s j) \<and> sub s' i \<in> {None, Some q} \<and> tells sub app dead i r s'"
proof (induction left arbitrary: again s)
  case (0 again s)
  obtain s1 a where a: "bv_create sv i q s = (s1, a)" by (cases "bv_create sv i q s")
  have one: "goes_on sub app dead s s1" "\<forall>j. j \<noteq> i \<longrightarrow> sub s1 j = sub s j" "tells sub app dead i a s1"
    using jobs_once_create[OF law a] by auto
  have q1: "sub s1 i \<in> {None, Some q}"
    using jobs_once_create[OF law a] 0(2) one(1) by (cases "sub s i = None") (auto simp: goes_on_def)
  show ?case
  proof (cases "\<exists>e. a = Inl e \<and> again \<and> is_conflict e")
    case True
    then have "look_up_job sv i s1 = (s', r)" using 0 a by auto
    from look_up_job_tells[OF law this] one q1 show ?thesis using goes_on_trans by metis
  next
    case False
    then have "s' = s1" "r = a" using 0 a by (auto split: sum.splits)
    then show ?thesis using one q1 by simp
  qed
next
  case (Suc left again s)
  obtain s1 a where a: "bv_create sv i q s = (s1, a)" by (cases "bv_create sv i q s")
  have one: "goes_on sub app dead s s1" "\<forall>j. j \<noteq> i \<longrightarrow> sub s1 j = sub s j" "tells sub app dead i a s1"
    using jobs_once_create[OF law a] by auto
  have q1: "sub s1 i \<in> {None, Some q}"
    using jobs_once_create[OF law a] Suc.prems(2) one(1) by (cases "sub s i = None") (auto simp: goes_on_def)
  consider (conflict) e where "a = Inl e" "again" "is_conflict e"
    | (again) e where "a = Inl e" "\<not> (again \<and> is_conflict e)" "is_transient_bq e"
    | (over) "s' = s1" "r = a"
    using Suc.prems(1) a by (cases a) (auto split: if_splits)
  then show ?case
  proof cases
    case conflict
    then have "look_up_job sv i s1 = (s', r)" using Suc.prems(1) a by auto
    from look_up_job_tells[OF law this] one q1 show ?thesis using goes_on_trans by metis
  next
    case again
    then have "submit_attempts (bv_create sv i q) (look_up_job sv i) True left s1 = (s', r)" using Suc.prems(1) a by auto
    from Suc.IH[OF this q1] one show ?thesis using goes_on_trans by metis
  next
    case over
    then show ?thesis using one q1 by simp
  qed
qed

lemma create_job_once:
  assumes law: "jobs_once sub app dead sv" and r: "create_job sv i q what s = (s', r)" and fresh: "sub s i = None"
  shows "goes_on sub app dead s s' \<and> (\<forall>j. j \<noteq> i \<longrightarrow> sub s' j = sub s j) \<and> sub s' i \<in> {None, Some q} \<and> tells sub app dead i r s'"
proof -
  obtain a where a: "submit_attempts (bv_create sv i q) (look_up_job sv i) False (JOB_HTTP_ATTEMPTS - 1) s = (s', a)"
    and ra: "r = job_error_as (''bigquery '' @ what @ '' job error'') a"
    using r by (auto simp: create_job_def submit_job_def split: prod.splits)
  have "tells sub app dead i a s' \<Longrightarrow> tells sub app dead i r s'" by (cases a) (simp_all add: ra tells_def job_error_as_def)
  then show ?thesis using submit_attempts_once[OF law a] fresh by simp
qed

lemma wait_for_job_reports:
  assumes law: "jobs_once sub app dead sv" and valid: "goes_on sub app dead s s"
  shows "wait_for_job sv polls job s = (s', r) \<Longrightarrow> reports app dead job s
    \<Longrightarrow> goes_on sub app dead s s' \<and> sub s' = sub s
      \<and> (\<forall>job'. r = Inr (Some job') \<longrightarrow> jb_done job' \<and> jr_id (jb_ref job') = jr_id (jb_ref job) \<and> reports app dead job' s')"
  using valid
proof (induction polls arbitrary: job s)
  case 0
  then show ?case by (auto split: if_splits)
next
  case (Suc polls)
  show ?case
  proof (cases "jb_done job")
    case True
    then show ?thesis using Suc.prems by auto
  next
    case False
    obtain s1 a where a: "get_job sv (jb_ref job) s = (s1, a)" by (cases "get_job sv (jb_ref job) s")
    have one: "goes_on sub app dead s s1" "sub s1 = sub s" "tells sub app dead (jr_id (jb_ref job)) a s1"
      using get_job_tells[OF law a] by auto
    show ?thesis
    proof (cases a)
      case (Inl e)
      then show ?thesis using Suc.prems(1) False a one by auto
    next
      case (Inr job1)
      then have step: "wait_for_job sv polls job1 s1 = (s', r)" using Suc.prems(1) False a by simp
      have told: "jr_id (jb_ref job1) = jr_id (jb_ref job)" "reports app dead job1 s1"
        using one(3) Inr by (auto simp: tells_def)
      have valid1: "goes_on sub app dead s1 s1" using one(1) by (simp add: goes_on_def)
      from Suc.IH[OF step told(2) valid1] show ?thesis
        using one(2) told(1) goes_on_trans[OF one(1)] by simp
    qed
  qed
qed

text \<open>The ids a call has used, \<open>ids\<close>, were free; nothing else was submitted, nor is any other statement
  under them.  Together they apply it at most once, then and at any later time.\<close>

definition applied_at_most_once :: "('s \<Rightarrow> string \<Rightarrow> string option) \<Rightarrow> ('s \<Rightarrow> string \<Rightarrow> nat) \<Rightarrow> ('s \<Rightarrow> string \<Rightarrow> bool) \<Rightarrow> string \<Rightarrow> string set \<Rightarrow> 's \<Rightarrow> 's \<Rightarrow> bool" where
  "applied_at_most_once sub app dead q ids s s' \<longleftrightarrow>
     finite ids \<and> (\<forall>i\<in>ids. sub s i = None \<and> sub s' i \<in> {None, Some q}) \<and> (\<forall>i. i \<notin> ids \<longrightarrow> sub s' i = sub s i)
     \<and> (\<forall>later. goes_on sub app dead s' later \<longrightarrow> (\<Sum>i\<in>ids. app later i) \<le> 1)"

lemma goes_on_le: "goes_on sub app dead s s' \<Longrightarrow> app s' i \<le> 1"
  by (simp add: goes_on_def)

lemma goes_on_fresh: "goes_on sub app dead s s' \<Longrightarrow> sub s' i = None \<Longrightarrow> sub s i = None"
  by (metis goes_on_def option.exhaust)

lemma goes_on_dead: "goes_on sub app dead s s' \<Longrightarrow> dead s i \<Longrightarrow> app s' i = 0"
  by (metis goes_on_def)

lemma applied_single:
  assumes "sub s i = None" "sub s' i \<in> {None, Some q}" "\<forall>j. j \<noteq> i \<longrightarrow> sub s' j = sub s j"
  shows "applied_at_most_once sub app dead q {i} s s'"
  using assms goes_on_le[of sub app dead s' _ i] by (simp add: applied_at_most_once_def)

lemma applied_insert:
  assumes first: "sub s i = None" "\<forall>j. j \<noteq> i \<longrightarrow> sub s1 j = sub s j" "sub s1 i = Some q"
    and failed: "dead s1 i" and on: "goes_on sub app dead s s1" "goes_on sub app dead s1 s'"
    and rest: "applied_at_most_once sub app dead q ids s1 s'"
  shows "i \<notin> ids" "applied_at_most_once sub app dead q (insert i ids) s s'"
proof -
  note r = rest[unfolded applied_at_most_once_def]
  show i: "i \<notin> ids" using r first(3) by auto
  have stays: "sub s' i = Some q" using on(2) first(3) by (metis goes_on_def option.distinct(1))
  have "(\<Sum>j\<in>insert i ids. app later j) \<le> 1" if "goes_on sub app dead s' later" for later
  proof -
    have "app later i = 0" using goes_on_dead[OF goes_on_trans[OF on(2) that] failed] .
    then show ?thesis using r i that by simp
  qed
  then show "applied_at_most_once sub app dead q (insert i ids) s s'"
    using r i first stays goes_on_fresh[OF on(1)] by (auto simp: applied_at_most_once_def)
qed

lemma job_attempts_once:
  assumes law: "jobs_once sub app dead sv"
  shows "job_attempts sv polls q prefix t left s = (s', r) \<Longrightarrow> goes_on sub app dead s s
    \<Longrightarrow> \<exists>ids. goes_on sub app dead s s' \<and> applied_at_most_once sub app dead q ids s s'
      \<and> (\<forall>job. r = Inr (Some job) \<longrightarrow> (\<Sum>i\<in>ids. app s' i) = 1 \<and> jr_id (jb_ref job) \<in> ids)"
proof (induction left arbitrary: s rule: less_induct)
  case (less left s)
  note valid = less.prems(2) and IH = less.IH
  note run = less.prems(1)[unfolded job_attempts.simps[of sv polls q prefix t left s]]
  obtain s1 now where now: "bv_now sv s = (s1, now)" by (cases "bv_now sv s")
  define i where "i = unique_job_id prefix t now"
  obtain s2 a where a: "create_job sv i q prefix s1 = (s2, a)" by (cases "create_job sv i q prefix s1")
  have g1: "goes_on sub app dead s s1" "sub s1 = sub s" "sub s1 i = None"
    using jobs_once_now[OF law now] by (auto simp: i_def)
  have g2: "goes_on sub app dead s1 s2" "\<forall>j. j \<noteq> i \<longrightarrow> sub s2 j = sub s1 j" "sub s2 i \<in> {None, Some q}" "tells sub app dead i a s2"
    using create_job_once[OF law a g1(3)] by auto
  show "\<exists>ids. goes_on sub app dead s s' \<and> applied_at_most_once sub app dead q ids s s'
      \<and> (\<forall>job. r = Inr (Some job) \<longrightarrow> (\<Sum>i\<in>ids. app s' i) = 1 \<and> jr_id (jb_ref job) \<in> ids)"
  proof (cases a)
    case (Inl e)
    then have "s' = s2" "r = Inl e" using run now a by (auto simp: i_def)
    then show ?thesis
      using goes_on_trans[OF g1(1) g2(1)] applied_single[of sub s i s2 q app dead] g1 g2 by (intro exI[of _ "{i}"]) simp
  next
    case (Inr created)
    obtain s3 b where b: "wait_for_job sv polls created s2 = (s3, b)" by (cases "wait_for_job sv polls created s2")
    have told: "jr_id (jb_ref created) = i" "reports app dead created s2" "sub s2 i = Some q"
      using g2(3,4) Inr by (auto simp: tells_def)
    have valid2: "goes_on sub app dead s2 s2" using g2(1) by (simp add: goes_on_def)
    have g3: "goes_on sub app dead s2 s3" "sub s3 = sub s2"
      "\<And>job. b = Inr (Some job) \<Longrightarrow> jb_done job \<and> jr_id (jb_ref job) = i \<and> reports app dead job s3"
      using wait_for_job_reports[OF law valid2 b told(2)] told(1) by auto
    have on: "goes_on sub app dead s s3" using goes_on_trans[OF goes_on_trans[OF g1(1) g2(1)] g3(1)] .
    have single: "applied_at_most_once sub app dead q {i} s s3"
      using applied_single[of sub s i s3 q app dead] g1 g2 g3(2) by simp
    consider (again) e left' job where "b = Inr (Some job)" "jb_error job = Some e" "left = Suc left'"
        "job_attempts sv polls q prefix t left' s3 = (s', r)"
      | (over) job where "b = Inr (Some job)" "s' = s3" "r = map_sum (\<lambda>x. x) Some (job_outcome job)"
      | (stopped) "s' = s3" "\<forall>job. r \<noteq> Inr (Some job)"
    proof -
      assume c: "\<And>job e left'. b = Inr (Some job) \<Longrightarrow> jb_error job = Some e \<Longrightarrow> left = Suc left'
            \<Longrightarrow> job_attempts sv polls q prefix t left' s3 = (s', r) \<Longrightarrow> thesis"
          "\<And>job. b = Inr (Some job) \<Longrightarrow> s' = s3 \<Longrightarrow> r = map_sum (\<lambda>x. x) Some (job_outcome job) \<Longrightarrow> thesis"
          "s' = s3 \<Longrightarrow> \<forall>job. r \<noteq> Inr (Some job) \<Longrightarrow> thesis"
      note step = run[unfolded now prod.case, folded i_def, unfolded a prod.case Inr sum.case b]
      show thesis
      proof (cases b)
        case b1: (Inl e)
        show ?thesis by (rule c(3)) (use step b1 in auto)
      next
        case b1: (Inr j)
        show ?thesis
        proof (cases j)
          case None
          show ?thesis by (rule c(3)) (use step b1 None in auto)
        next
          case (Some job)
          have b': "b = Inr (Some job)" using b1 Some by simp
          note step = step[unfolded b' sum.case option.case]
          show ?thesis
          proof (cases "\<exists>e left'. jb_error job = Some e \<and> left = Suc left' \<and> is_retryable_job_error e")
            case True
            then obtain e left' where e: "jb_error job = Some e" "left = Suc left'" "is_retryable_job_error e" by blast
            show ?thesis by (rule c(1)[OF b' e(1,2)]) (insert step e, simp)
          next
            case False
            have "(s3, map_sum (\<lambda>x. x) Some (job_outcome job)) = (s', r)"
              using step False by (auto split: option.splits nat.splits if_splits)
            then show ?thesis by (intro c(2)[OF b']) simp_all
          qed
        qed
      qed
    qed
    then show ?thesis
    proof cases
      case again
      have failed: "dead s3 i" using g3(3)[OF again(1)] again(2) by (auto simp: reports_def)
      have valid3: "goes_on sub app dead s3 s3" using g3(1) by (simp add: goes_on_def)
      have less: "left' < left" using again(3) by simp
      from IH[OF less again(4) valid3] obtain ids where ids: "goes_on sub app dead s3 s'" "applied_at_most_once sub app dead q ids s3 s'"
          "\<forall>job. r = Inr (Some job) \<longrightarrow> (\<Sum>i\<in>ids. app s' i) = 1 \<and> jr_id (jb_ref job) \<in> ids" by blast
      have f: "sub s i = None" "\<forall>j. j \<noteq> i \<longrightarrow> sub s3 j = sub s j" "sub s3 i = Some q"
        using g1 g2 g3(2) told(3) by auto
      note both = applied_insert[OF f failed on ids(1,2)]
      have "app s' i = 0" using goes_on_dead[OF ids(1) failed] .
      moreover have "finite ids" using ids(2) by (simp add: applied_at_most_once_def)
      ultimately show ?thesis
        using both ids(3) goes_on_trans[OF on ids(1)] by (intro exI[of _ "insert i ids"]) auto
    next
      case over
      have "app s3 i = 1 \<and> jr_id (jb_ref job) = i" if "r = Inr (Some job')" for job'
        using that over(3) g3(3)[OF over(1)] by (auto simp: job_outcome_def reports_def split: option.splits if_splits)
      then show ?thesis
        using over on single by (intro exI[of _ "{i}"]) (auto simp: job_outcome_def split: option.splits)
    next
      case stopped
      then show ?thesis using on single by (intro exI[of _ "{i}"]) auto
    qed
  qed
qed

text \<open>C36. A statement run as a query job is applied at most once, at the return of the call and at any later time,
  over all the ids the call used, and exactly once when the call returns a job: though a create whose answer
  was lost is sent again under the same id, and a job that failed on a rate limit is followed by a new one.\<close>

theorem statement_applied_once:
  assumes "jobs_once sub app dead sv" and "goes_on sub app dead s s"
    and "run_query_job sv polls q prefix t s = (s', r)"
  shows "\<exists>ids. applied_at_most_once sub app dead q ids s s'
      \<and> (\<forall>job. r = Inr (Some job) \<longrightarrow> (\<Sum>i\<in>ids. app s' i) = 1 \<and> jr_id (jb_ref job) \<in> ids)"
  using job_attempts_once[OF assms(1) assms(3)[unfolded run_query_job_def] assms(2)] by blast

text \<open>A service that keeps its jobs in a list, with the number of times the clock was read.  The answer to its
  first create is lost, the first job it is asked about fails on a rate limit, the others succeed.\<close>

datatype ref_status = RefRunning | RefFailed | RefSucceeded

type_synonym ref_jobs = "nat \<times> (string \<times> string \<times> ref_status) list"

definition id_stamp :: "string \<Rightarrow> string" where
  "id_stamp i = rev (takeWhile (\<lambda>c. c \<noteq> CHR ''_'') (rev i))"

definition id_issued :: "nat \<Rightarrow> string \<Rightarrow> bool" where
  "id_issued n i \<longleftrightarrow> id_stamp i \<in> set (map show_nat [0..<n])"

definition ref_found :: "ref_jobs \<Rightarrow> string \<Rightarrow> (string \<times> ref_status) option" where
  "ref_found s i = (if id_issued (fst s) i then map_of (snd s) i else None)"

definition ref_sub :: "ref_jobs \<Rightarrow> string \<Rightarrow> string option" where
  "ref_sub s i = map_option fst (ref_found s i)"

definition ref_app :: "ref_jobs \<Rightarrow> string \<Rightarrow> nat" where
  "ref_app s i = (if map_option snd (ref_found s i) = Some RefSucceeded then 1 else 0)"

definition ref_dead :: "ref_jobs \<Rightarrow> string \<Rightarrow> bool" where
  "ref_dead s i \<longleftrightarrow> map_option snd (ref_found s i) = Some RefFailed"

definition ref_clock :: "ref_jobs \<Rightarrow> ref_jobs \<times> int" where
  "ref_clock s = ((Suc (fst s), filter (\<lambda>j. id_issued (fst s) (fst j)) (snd s)), int (fst s))"

definition ref_job :: "string \<Rightarrow> ref_status \<Rightarrow> bq_job" where
  "ref_job i st = \<lparr>jb_ref = \<lparr>jr_id = i, jr_location = Some ''US''\<rparr>, jb_done = (st \<noteq> RefRunning),
     jb_error = (if st = RefFailed then Some \<lparr>je_reason = Some ''rateLimitExceeded'', je_message = None\<rparr> else None), jb_affected = None\<rparr>"

definition ref_create :: "string \<Rightarrow> string \<Rightarrow> ref_jobs \<Rightarrow> ref_jobs \<times> (bq_error + bq_job)" where
  "ref_create i q s =
     (if \<not> id_issued (fst s) i then (s, Inl (BqResponse 400 ''bad id''))
      else if ref_found s i \<noteq> None then (s, Inl (BqResponse 409 ''already exists''))
      else ((fst s, (i, q, RefRunning) # snd s),
        if snd s = [] then Inl (BqResponse 502 ''no answer'') else Inr (ref_job i RefRunning)))"

definition ref_get :: "job_reference \<Rightarrow> ref_jobs \<Rightarrow> ref_jobs \<times> (bq_error + bq_job)" where
  "ref_get rf s =
     (case ref_found s (jr_id rf) of
        None \<Rightarrow> (s, Inl (BqResponse 404 ''not found''))
      | Some (q, RefRunning) \<Rightarrow>
          let st = (if length (snd s) = 1 then RefFailed else RefSucceeded)
          in ((fst s, (jr_id rf, q, st) # snd s), Inr (ref_job (jr_id rf) st))
      | Some (q, st) \<Rightarrow> (s, Inr (ref_job (jr_id rf) st)))"

definition ref_service :: "ref_jobs bq_service" where
  "ref_service = \<lparr>bv_project = ''p'', bv_dataset = ''d'', bv_now = ref_clock, bv_create = ref_create, bv_get = ref_get,
     bv_location = (\<lambda>s. (s, None))\<rparr>"

lemma show_nat_no_underscore: "CHR ''_'' \<notin> set (show_nat n)"
  using all_digits_show_nat[of n] by (auto simp: list_all_iff is_digit_def code_def)

lemma stamp_of_id: "id_stamp (unique_job_id prefix t (int n)) = show_nat n"
proof -
  have "takeWhile (\<lambda>c. c \<noteq> CHR ''_'') (rev (show_nat n) @ CHR ''_'' # x) = rev (show_nat n)" for x
    using show_nat_no_underscore[of n] by (subst takeWhile_append2) auto
  then show ?thesis by (simp add: id_stamp_def unique_job_id_def show_int_def)
qed

lemma ref_found_same:
  assumes "\<And>i. ref_found s' i = ref_found s i"
  shows "goes_on ref_sub ref_app ref_dead s s'" "ref_sub s' = ref_sub s"
  using assms by (auto simp: goes_on_def ref_sub_def ref_app_def ref_dead_def)

lemma ref_found_more:
  assumes "\<And>j. j \<noteq> i \<Longrightarrow> ref_found s' j = ref_found s j" "ref_found s' i = Some (q, st)"
    "ref_found s i = None \<or> ref_found s i = Some (q, RefRunning)"
  shows "goes_on ref_sub ref_app ref_dead s s'"
  unfolding goes_on_def
proof
  fix j
  show "(ref_sub s j \<noteq> None \<longrightarrow> ref_sub s' j = ref_sub s j) \<and> (ref_dead s j \<longrightarrow> ref_dead s' j) \<and> (ref_dead s' j \<longrightarrow> ref_app s' j = 0)
      \<and> ref_app s' j \<le> 1 \<and> (ref_sub s' j = None \<longrightarrow> ref_app s' j = 0) \<and> ref_app s j \<le> ref_app s' j"
    using assms by (cases "j = i") (auto simp: ref_sub_def ref_app_def ref_dead_def)
qed

lemma ref_service_jobs_once: "jobs_once ref_sub ref_app ref_dead ref_service"
  unfolding jobs_once_def
proof (intro conjI allI impI)
  fix s s' :: ref_jobs and n p t
  assume r: "bv_now ref_service s = (s', n)"
  then have s': "s' = (Suc (fst s), filter (\<lambda>j. id_issued (fst s) (fst j)) (snd s))" and n: "n = int (fst s)"
    by (auto simp: ref_service_def ref_clock_def)
  have grows: "id_issued (fst s) i \<Longrightarrow> id_issued (Suc (fst s)) i" for i by (auto simp: id_issued_def)
  have found: "map_of (filter (\<lambda>j. id_issued (fst s) (fst j)) xs) i = (if id_issued (fst s) i then map_of xs i else None)"
    for i and xs :: "(string \<times> string \<times> ref_status) list" by (induction xs) auto
  have same: "ref_found s' i = ref_found s i" for i using grows[of i] by (auto simp: ref_found_def s' found)
  then show "goes_on ref_sub ref_app ref_dead s s'" "ref_sub s' = ref_sub s" by (rule ref_found_same)+
  have "\<not> id_issued (fst s) (unique_job_id p t n)" by (auto simp: id_issued_def n stamp_of_id)
  then show "ref_sub s' (unique_job_id p t n) = None" by (simp add: ref_sub_def same) (simp add: ref_found_def)
next
  fix s s' :: ref_jobs and l
  assume "bv_location ref_service s = (s', l)"
  then have "s' = s" by (simp add: ref_service_def)
  then show "goes_on ref_sub ref_app ref_dead s s'" "ref_sub s' = ref_sub s" using ref_found_same[of s s] by simp_all
next
  fix i q and s s' :: ref_jobs and r
  assume "bv_create ref_service i q s = (s', r)"
  then have c: "ref_create i q s = (s', r)" by (simp add: ref_service_def)
  consider (refused) e where "s' = s" "r = Inl e"
    | (taken) "s' = (fst s, (i, q, RefRunning) # snd s)" "id_issued (fst s) i" "ref_found s i = None" "r = Inr (ref_job i RefRunning) \<or> (\<exists>e. r = Inl e)"
    using c by (cases "ref_found s i = None") (auto simp: ref_create_def split: if_splits)
  then have "goes_on ref_sub ref_app ref_dead s s' \<and> (\<forall>j. j \<noteq> i \<longrightarrow> ref_sub s' j = ref_sub s j)
      \<and> (ref_sub s i = None \<longrightarrow> ref_sub s' i \<in> {None, Some q})
      \<and> (\<forall>job. r = Inr job \<longrightarrow> ref_sub s i = None \<and> ref_sub s' i = Some q \<and> jr_id (jb_ref job) = i \<and> reports ref_app ref_dead job s')"
  proof cases
    case refused
    then show ?thesis using ref_found_same[of s s] by simp
  next
    case taken
    have other: "ref_found s' j = ref_found s j" if "j \<noteq> i" for j using that by (simp add: taken(1) ref_found_def)
    have self: "ref_found s' i = Some (q, RefRunning)" using taken(2) by (simp add: taken(1) ref_found_def)
    have g: "goes_on ref_sub ref_app ref_dead s s'" by (rule ref_found_more[OF other self]) (use taken(3) in auto)
    have "reports ref_app ref_dead (ref_job i RefRunning) s'" by (simp add: reports_def ref_job_def)
    then show ?thesis using g other self taken(3,4) by (auto simp: ref_sub_def ref_job_def)
  qed
  then show "goes_on ref_sub ref_app ref_dead s s'" "\<And>j. j \<noteq> i \<Longrightarrow> ref_sub s' j = ref_sub s j"
    "ref_sub s i = None \<Longrightarrow> ref_sub s' i \<in> {None, Some q}"
    "\<And>job. r = Inr job \<Longrightarrow> ref_sub s i = None" "\<And>job. r = Inr job \<Longrightarrow> ref_sub s' i = Some q"
    "\<And>job. r = Inr job \<Longrightarrow> jr_id (jb_ref job) = i" "\<And>job. r = Inr job \<Longrightarrow> reports ref_app ref_dead job s'" by blast+
next
  fix rf and s s' :: ref_jobs and r
  assume "bv_get ref_service rf s = (s', r)"
  then have c: "ref_get rf s = (s', r)" by (simp add: ref_service_def)
  define i where "i = jr_id rf"
  consider (none) e where "s' = s" "r = Inl e"
    | (finished) q st where "ref_found s i = Some (q, st)" "st \<noteq> RefRunning" "s' = s" "r = Inr (ref_job i st)"
    | (running) q st where "ref_found s i = Some (q, RefRunning)" "st \<noteq> RefRunning" "s' = (fst s, (i, q, st) # snd s)" "r = Inr (ref_job i st)"
    using c by (auto simp: ref_get_def i_def Let_def split: option.splits prod.splits ref_status.splits if_splits)
  then have "goes_on ref_sub ref_app ref_dead s s' \<and> ref_sub s' = ref_sub s
      \<and> (\<forall>job. r = Inr job \<longrightarrow> ref_sub s' i \<noteq> None \<and> jr_id (jb_ref job) = i \<and> reports ref_app ref_dead job s')"
  proof cases
    case none
    then show ?thesis using ref_found_same[of s s] by simp
  next
    case finished
    then show ?thesis using ref_found_same[of s s]
      by (cases st) (auto simp: ref_sub_def reports_def ref_job_def ref_app_def ref_dead_def)
  next
    case running
    have other: "ref_found s' j = ref_found s j" if "j \<noteq> i" for j using that by (simp add: running(3) ref_found_def)
    have self: "ref_found s' i = Some (q, st)" using running(1) by (auto simp: running(3) ref_found_def split: if_splits)
    have g: "goes_on ref_sub ref_app ref_dead s s'" by (rule ref_found_more[OF other self]) (use running(1) in auto)
    have "ref_sub s' = ref_sub s"
    proof
      fix j show "ref_sub s' j = ref_sub s j" using other self running(1) by (cases "j = i") (auto simp: ref_sub_def)
    qed
    then show ?thesis using g running self
      by (cases st) (auto simp: ref_sub_def reports_def ref_job_def ref_app_def ref_dead_def)
  qed
  then show "goes_on ref_sub ref_app ref_dead s s'" "ref_sub s' = ref_sub s" "\<And>job. r = Inr job \<Longrightarrow> ref_sub s' (jr_id rf) \<noteq> None"
    "\<And>job. r = Inr job \<Longrightarrow> jr_id (jb_ref job) = jr_id rf" "\<And>job. r = Inr job \<Longrightarrow> reports ref_app ref_dead job s'" by (auto simp: i_def)
qed

lemma ref_job_run:
  "run_query_job ref_service 3 ''DELETE'' ''compact'' ''t'' (0, []) =
     ((2, [(''quickhouse_compact_t_1'', ''DELETE'', RefSucceeded), (''quickhouse_compact_t_1'', ''DELETE'', RefRunning),
        (''quickhouse_compact_t_0'', ''DELETE'', RefFailed), (''quickhouse_compact_t_0'', ''DELETE'', RefRunning)]),
      Inr (Some (ref_job ''quickhouse_compact_t_1'' RefSucceeded)))"
  by code_simp

theorem statement_applied_once_witness:
  "\<exists>ids s' job. run_query_job ref_service 3 ''DELETE'' ''compact'' ''t'' (0, []) = (s', Inr (Some job))
     \<and> applied_at_most_once ref_sub ref_app ref_dead ''DELETE'' ids (0, []) s' \<and> (\<Sum>i\<in>ids. ref_app s' i) = 1"
proof -
  have "goes_on ref_sub ref_app ref_dead (0, []) (0, [])" by (rule ref_found_same) simp
  from statement_applied_once[OF ref_service_jobs_once this ref_job_run] show ?thesis using ref_job_run by blast
qed

end
