(* ===== verification/QH_Bq_Sink.thy ===== *)
theory QH_Bq_Sink
  imports QH_Bq_Jobs QH_Transfer QH_Ch_Sink QH_Ddl
begin

text \<open>
  The BigQuery destination (\<open>sink/bigquery.rs\<close>): its tables and their metadata, the state table, the keys of a
  table, the merge, and the operations of the trait.  The service is an argument: the metadata calls, the
  queries and the jobs.  A table's \<open>etag\<close> goes back with a patch; an answer to a patch that comes too
  late is an error.
\<close>

section \<open>Tables\<close>

datatype field_mode = Nullable | Required

record table_field =
  tf_name :: string
  tf_type :: bq_type
  tf_mode :: "field_mode option"
  tf_default :: "string option"

record bq_table =
  tb_id :: string
  tb_schema :: "table_field list option"
  tb_partition :: "string option"
  tb_clustering :: "string list option"
  tb_rows :: nat
  tb_etag :: nat

text \<open>\<open>bk_polls\<close> bounds how long a job is waited for: a process that would still be polling is one stopped there.
  \<open>bn_spelled\<close> is the client library's reading of a type's name, \<open>bn_debug\<close> the Arrow library's text of a type.\<close>

record bq_names =
  bn_spelled :: "string \<Rightarrow> bq_type option"
  bn_debug :: "data_type \<Rightarrow> string"

record 's bq_sink =
  bk_writer :: "'s bq_writer"
  bk_jobs :: "'s bq_service"
  bk_polls :: nat
  bk_names :: bq_names
  bk_is_number :: "string \<Rightarrow> bool"
  bk_elapsed :: "'s \<Rightarrow> 's \<times> int"
  bk_get :: "string \<Rightarrow> 's \<Rightarrow> 's \<times> (bq_error + bq_table)"
  bk_create :: "bq_table \<Rightarrow> 's \<Rightarrow> 's \<times> (bq_error + unit)"
  bk_patch :: "bq_table \<Rightarrow> 's \<Rightarrow> 's \<times> (bq_error + unit)"
  bk_delete :: "string \<Rightarrow> 's \<Rightarrow> 's \<times> (bq_error + unit)"
  bk_query :: "string \<Rightarrow> 's \<Rightarrow> 's \<times> (bq_error + (string option list list \<times> bq_error option))"

text \<open>The state of a process: what the writes keep, and the clustering read of each table with the time of the reading.\<close>

record 's bq_process =
  bp_writes :: "'s bq_world"
  bp_clustering :: "(string \<times> int \<times> string list option) list"

definition on_writes :: "('s bq_world, 'a) act \<Rightarrow> ('s bq_process, 'a) act" where
  "on_writes m = act_on bp_writes (\<lambda>w p. p\<lparr>bp_writes := w\<rparr>) m"

definition call_service :: "('s \<Rightarrow> 's \<times> 'a) \<Rightarrow> ('s bq_process, 'a) act" where
  "call_service f = on_writes (\<lambda>w. case ask_service f w of (w', a) \<Rightarrow> (w', Inr a))"

definition call_failed :: "string \<Rightarrow> bq_error \<Rightarrow> etl_error" where
  "call_failed what e = Other (''bigquery '' @ what @ '' error: '' @ bq_error_text e)"

definition or_failed :: "string \<Rightarrow> (bq_error + 'a) \<Rightarrow> 'a res" where
  "or_failed what r = (case r of Inl e \<Rightarrow> Inl (call_failed what e) | Inr a \<Rightarrow> Inr a)"

definition project_of :: "'s bq_sink \<Rightarrow> string" where "project_of sk = bw_project (bk_writer sk)"
definition dataset_of :: "'s bq_sink \<Rightarrow> string" where "dataset_of sk = bw_dataset (bk_writer sk)"

definition get_table :: "'s bq_sink \<Rightarrow> string \<Rightarrow> ('s bq_process, bq_table option) act" where
  "get_table sk t =
     act_seq (call_service (bk_get sk t)) (\<lambda>r. act_lift (case r of
        Inr tb \<Rightarrow> Inr (Some tb)
      | Inl e \<Rightarrow> if is_not_found e then Inr None else Inl (call_failed ''table get'' e)))"

definition bq_table_exists :: "'s bq_sink \<Rightarrow> string \<Rightarrow> ('s bq_process, bool) act" where
  "bq_table_exists sk t = act_seq (get_table sk t) (\<lambda>r. act_ok (r \<noteq> None))"

definition schema_fields :: "bq_table \<Rightarrow> table_field list" where
  "schema_fields tb = (case tb_schema tb of Some fs \<Rightarrow> fs | None \<Rightarrow> [])"

definition bq_column_types :: "'s bq_sink \<Rightarrow> string \<Rightarrow> ('s bq_process, (string \<times> string) list option) act" where
  "bq_column_types sk t =
     act_seq (get_table sk t) (\<lambda>r. act_ok (map_option (\<lambda>tb. map (\<lambda>f. (tf_name f, bq_api_name (tf_type f))) (schema_fields tb)) r))"

definition bq_current_row_count :: "'s bq_sink \<Rightarrow> string \<Rightarrow> ('s bq_process, nat option) act" where
  "bq_current_row_count sk t = act_seq (get_table sk t) (\<lambda>r. act_ok (map_option tb_rows r))"

section \<open>Creating a table\<close>

definition bq_field_data_type :: "bq_names \<Rightarrow> column_type \<Rightarrow> transfer_config \<Rightarrow> bq_type res" where
  "bq_field_data_type names c cfg =
     (case map_of (cfg_type_overrides cfg) (ct_name c) of
        Some ov \<Rightarrow>
          (case bn_spelled names ov of
             Some t \<Rightarrow> Inr t
           | None \<Rightarrow> Inl (Config (''invalid BigQuery type override '' @ quoted ov @ '' for column '' @ quoted (ct_name c)
               @ '': expected a BigQuery type name like NUMERIC or BIGNUMERIC'')))
      | None \<Rightarrow>
          (case arrow_to_bigquery_type (ct_arrow c) of
             Some t \<Rightarrow> Inr t
           | None \<Rightarrow> Inl (UnsupportedType ''BigQuery'' (ct_name c) (bn_debug names (ct_arrow c)))))"

definition cluster_columns :: "transfer_config \<Rightarrow> string list" where
  "cluster_columns cfg =
     foldl (\<lambda>cs c. if c \<in> set cs then cs else cs @ [c]) []
       (if cfg_mode cfg = Incremental then cfg_key cfg @ cfg_order_by cfg else cfg_order_by cfg @ cfg_key cfg)"

definition day_partition :: "column_type list \<Rightarrow> string option \<Rightarrow> string option res" where
  "day_partition columns part =
     (case part of
        None \<Rightarrow> Inr None
      | Some name \<Rightarrow>
          (case find (\<lambda>c. ct_name c = name) columns of
             None \<Rightarrow> Inl (Config (''partition_by '' @ quoted name @ '' does not match any destination column''))
           | Some c \<Rightarrow>
               if arrow_to_bigquery_type (ct_arrow c) \<in> {Some BqDate, Some BqDatetime, Some BqTimestamp} then Inr (Some name)
               else Inl (Config (''partition_by column '' @ quoted name
                 @ '' must be a DATE/DATETIME/TIMESTAMP column for a BigQuery destination''))))"

definition build_table :: "bq_names \<Rightarrow> string \<Rightarrow> column_type list \<Rightarrow> transfer_config \<Rightarrow> bq_table res" where
  "build_table names t columns cfg =
     and_then (try_map (\<lambda>c. and_then (bq_field_data_type names c cfg) (\<lambda>ty.
         Inr \<lparr>tf_name = ct_name c, tf_type = ty, tf_mode = Some (if ct_nullable c then Nullable else Required), tf_default = None\<rparr>)) columns)
       (\<lambda>fields. and_then (day_partition columns (cfg_partition_by cfg)) (\<lambda>part.
       let cluster = cluster_columns cfg in
       if 4 < length cluster
       then Inl (Config (''BigQuery clustering supports at most 4 columns; order_by + key together supplied '' @ show_nat (length cluster)))
       else Inr \<lparr>tb_id = t, tb_schema = Some fields, tb_partition = part,
              tb_clustering = (if cluster = [] then None else Some cluster), tb_rows = 0, tb_etag = 0\<rparr>))"

text \<open>What a process knows of a table is dropped when it creates or drops the table.\<close>

definition table_key :: "'s bq_sink \<Rightarrow> string \<Rightarrow> string" where
  "table_key sk t = project_of sk @ ''.'' @ dataset_of sk @ ''.'' @ t"

definition forget_table :: "'s bq_sink \<Rightarrow> string \<Rightarrow> ('s bq_process, unit) act" where
  "forget_table sk t = act_modify (\<lambda>p. p\<lparr>bp_clustering := filter (\<lambda>e. fst e \<noteq> table_key sk t) (bp_clustering p)\<rparr>)"

definition bq_create_table :: "'s bq_sink \<Rightarrow> transfer_config \<Rightarrow> string \<Rightarrow> column_type list \<Rightarrow> ('s bq_process, unit) act" where
  "bq_create_table sk cfg t columns =
     act_seq (forget_table sk t) (\<lambda>_.
     act_seq (act_lift (build_table (bk_names sk) t columns cfg)) (\<lambda>tb.
     act_seq (call_service (bk_create sk tb)) (\<lambda>r. act_lift (or_failed ''table create'' r))))"

definition bq_drop_table :: "'s bq_sink \<Rightarrow> string \<Rightarrow> ('s bq_process, unit) act" where
  "bq_drop_table sk t =
     act_seq (forget_table sk t) (\<lambda>_.
     act_seq (call_service (bk_delete sk t)) (\<lambda>r. act_lift (case r of
        Inl e \<Rightarrow> if is_not_found e then Inr () else Inl (call_failed ''table delete'' e)
      | Inr _ \<Rightarrow> Inr ())))"

definition build_evolved_fields :: "bq_names \<Rightarrow> table_field list \<Rightarrow> column_type list \<Rightarrow> transfer_config
    \<Rightarrow> (table_field list \<times> string list) res" where
  "build_evolved_fields names existing desired cfg =
     (let missing = missing_columns (map tf_name existing) desired True in
      and_then (try_map (\<lambda>c. and_then (bq_field_data_type names c cfg) (\<lambda>ty.
          Inr \<lparr>tf_name = ct_name c, tf_type = ty, tf_mode = Some Nullable, tf_default = None\<rparr>)) missing)
        (\<lambda>fields. Inr (existing @ fields, map ct_name missing)))"

definition bq_add_missing :: "'s bq_sink \<Rightarrow> transfer_config \<Rightarrow> string \<Rightarrow> column_type list \<Rightarrow> ('s bq_process, string list) act" where
  "bq_add_missing sk cfg t columns =
     act_seq (call_service (bk_get sk t)) (\<lambda>r.
     act_seq (act_lift (or_failed ''table get (evolve)'' r)) (\<lambda>tb.
     act_seq (act_lift (build_evolved_fields (bk_names sk) (schema_fields tb) columns cfg)) (\<lambda>(fields, added).
       if added = [] then act_ok []
       else act_seq (call_service (bk_patch sk (tb\<lparr>tb_schema := Some fields\<rparr>))) (\<lambda>r.
            act_seq (act_lift (or_failed ''schema patch (evolve)'' r)) (\<lambda>_. act_ok added)))))"

definition bq_unsourced :: "'s bq_sink \<Rightarrow> string \<Rightarrow> column_type list \<Rightarrow> ('s bq_process, string list) act" where
  "bq_unsourced sk t columns =
     act_seq (get_table sk t) (\<lambda>r. act_ok (case r of
        None \<Rightarrow> []
      | Some tb \<Rightarrow> unsourced_columns (map tf_name (filter (\<lambda>f. tf_default f = None) (schema_fields tb))) columns True))"

section \<open>Queries and jobs\<close>

text \<open>The first column of every row; a NULL is left out, a row with no column is an error.\<close>

definition first_column :: "string \<Rightarrow> string option list list \<times> bq_error option \<Rightarrow> string list res" where
  "first_column what = (\<lambda>(rows, broken).
     and_then (try_map (\<lambda>r. case r of v # _ \<Rightarrow> Inr v | [] \<Rightarrow> Inl (Other (''bigquery '' @ what @ '' column error''))) rows) (\<lambda>vs.
       case broken of Some e \<Rightarrow> Inl (call_failed (what @ '' row'') e) | None \<Rightarrow> Inr (List.map_filter (\<lambda>v. v) vs)))"

definition query_rows :: "'s bq_sink \<Rightarrow> string \<Rightarrow> string \<Rightarrow> ('s bq_process, string option list list \<times> bq_error option) act" where
  "query_rows sk q what = act_seq (call_service (bk_query sk q)) (\<lambda>r. act_lift (or_failed (what @ '' query'') r))"

definition query_strings :: "'s bq_sink \<Rightarrow> string \<Rightarrow> string \<Rightarrow> ('s bq_process, string list) act" where
  "query_strings sk q what = act_seq (query_rows sk q what) (\<lambda>rows. act_lift (first_column what rows))"

definition on_jobs :: "('s, bq_job option) act \<Rightarrow> ('s bq_process, bq_job) act" where
  "on_jobs m =
     act_seq (on_writes (act_on bs_server (\<lambda>s w. w\<lparr>bs_server := s\<rparr>) m)) (\<lambda>r.
       case r of Some job \<Rightarrow> act_ok job | None \<Rightarrow> act_err (Internal ''stopped while the job was still running''))"

definition run_statement :: "'s bq_sink \<Rightarrow> string \<Rightarrow> string \<Rightarrow> string \<Rightarrow> ('s bq_process, bq_job) act" where
  "run_statement sk query prefix t = on_jobs (run_query_job (bk_jobs sk) (bk_polls sk) query prefix t)"

definition CLUSTERING_CACHE_TTL :: int where "CLUSTERING_CACHE_TTL = 600"

definition schema_filter :: "'s bq_sink \<Rightarrow> string \<Rightarrow> string" where
  "schema_filter sk t =
     '' FROM '' @ bt (project_of sk) @ ''.'' @ bt (dataset_of sk) @ ''.INFORMATION_SCHEMA.COLUMNS WHERE table_name = ''
     @ [APOS] @ escape_bigquery_string t @ [APOS]"

definition read_clustering :: "'s bq_sink \<Rightarrow> string \<Rightarrow> ('s bq_process, string list option) act" where
  "read_clustering sk t =
     act_seq (query_strings sk (''SELECT column_name'' @ schema_filter sk t
       @ '' AND clustering_ordinal_position IS NOT NULL ORDER BY clustering_ordinal_position'') ''clustering columns'') (\<lambda>cols.
     act_seq (call_service (bk_elapsed sk)) (\<lambda>now.
     let cols = (if cols = [] then None else Some cols) in
     act_seq (act_modify (\<lambda>p. p\<lparr>bp_clustering := (table_key sk t, now, cols) # filter (\<lambda>e. fst e \<noteq> table_key sk t) (bp_clustering p)\<rparr>)) (\<lambda>_.
       act_ok cols)))"

definition bq_clustering_columns :: "'s bq_sink \<Rightarrow> string \<Rightarrow> ('s bq_process, string list option) act" where
  "bq_clustering_columns sk t =
     act_seq (act_get (\<lambda>p. map_of (bp_clustering p) (table_key sk t))) (\<lambda>known.
       case known of
         None \<Rightarrow> read_clustering sk t
       | Some (read_at, cols) \<Rightarrow>
           act_seq (call_service (bk_elapsed sk)) (\<lambda>now.
             if now - read_at < CLUSTERING_CACHE_TTL then act_ok cols else read_clustering sk t))"

definition bq_swap :: "'s bq_sink \<Rightarrow> string \<Rightarrow> string \<Rightarrow> column_type list \<Rightarrow> ('s bq_process, unit) act" where
  "bq_swap sk dest staging columns =
     act_seq (on_jobs (bq_atomic_swap (bk_jobs sk) (bk_polls sk) dest staging (map ct_name columns))) (\<lambda>_. act_ok ())"

definition bq_clone :: "'s bq_sink \<Rightarrow> string \<Rightarrow> string \<Rightarrow> ('s bq_process, unit) act" where
  "bq_clone sk new_table like_table =
     act_seq (on_jobs (bq_clone_structure (bk_jobs sk) (bk_polls sk) new_table like_table)) (\<lambda>_. act_ok ())"

section \<open>The merge\<close>

text \<open>The bounds come back as literals; the bare word \<open>NULL\<close> is no bound.\<close>

definition NULL_WORD :: string where "NULL_WORD = ''NULL''"

definition bounds_column :: "string option list \<Rightarrow> nat \<Rightarrow> string option res" where
  "bounds_column row i = (if i < length row then Inr (row ! i) else Inl (Other ''bigquery staging bounds column error''))"

definition bounds_of_row :: "string option list \<Rightarrow> string list \<Rightarrow> staging_bounds res" where
  "bounds_of_row row columns =
     and_then (try_map (\<lambda>(i, c).
         and_then (bounds_column row (i * 2)) (\<lambda>lo. and_then (bounds_column row (i * 2 + 1)) (\<lambda>hi.
           Inr (case (lo, hi) of
               (Some lo, Some hi) \<Rightarrow> if lo \<noteq> NULL_WORD \<and> hi \<noteq> NULL_WORD then Some (c, lo, hi) else None
             | _ \<Rightarrow> None)))) (enumerate 0 columns))
       (\<lambda>bounds. Inr (List.map_filter (\<lambda>b. b) bounds))"

definition read_staging_bounds :: "'s bq_sink \<Rightarrow> string \<Rightarrow> string list \<Rightarrow> ('s bq_process, staging_bounds) act" where
  "read_staging_bounds sk staging columns =
     (if columns = [] then act_ok []
      else act_seq (query_rows sk (build_staging_bounds_sql (project_of sk) (dataset_of sk) staging columns) ''staging bounds'') (\<lambda>(rows, broken).
        act_lift (case rows of
            row # _ \<Rightarrow> bounds_of_row row columns
          | [] \<Rightarrow> (case broken of Some e \<Rightarrow> Inl (call_failed ''staging bounds row'' e) | None \<Rightarrow> Inr []))))"

text \<open>One value more than asked for, or a \<open>NULL\<close>, ends the reading with no list.\<close>

fun key_list_of :: "nat \<Rightarrow> string list \<Rightarrow> string option list list \<Rightarrow> bq_error option \<Rightarrow> string list option res" where
  "key_list_of max_keys out [] broken =
     (case broken of Some e \<Rightarrow> Inl (call_failed ''staging key list row'' e)
      | None \<Rightarrow> Inr (if out = [] then None else Some out))"
| "key_list_of max_keys out ([] # rows) broken = Inl (Other ''bigquery staging key list column error'')"
| "key_list_of max_keys out ((v # _) # rows) broken =
     (case v of
        None \<Rightarrow> Inr None
      | Some x \<Rightarrow>
          if x = NULL_WORD then Inr None
          else if max_keys < length (out @ [x]) then Inr None
          else key_list_of max_keys (out @ [x]) rows broken)"

definition read_staging_key_list :: "'s bq_sink \<Rightarrow> string \<Rightarrow> string \<Rightarrow> nat \<Rightarrow> ('s bq_process, string list option) act" where
  "read_staging_key_list sk staging key max_keys =
     act_seq (query_rows sk (build_staging_key_list_sql (project_of sk) (dataset_of sk) staging key (min (max_keys + 1) (2 ^ 64 - 1))) ''staging key list'') (\<lambda>(rows, broken).
       act_lift (key_list_of max_keys [] rows broken))"

definition bq_merge_into :: "'s bq_sink \<Rightarrow> string \<Rightarrow> string \<Rightarrow> string list \<Rightarrow> string list \<Rightarrow> string option \<Rightarrow> bool \<Rightarrow> nat \<Rightarrow> bool
    \<Rightarrow> string option \<Rightarrow> ('s bq_process, unit) act" where
  "bq_merge_into sk dest staging key columns prune_partition prune_key_range key_list_max delete_stale dedup_order =
     act_seq (if key_list_max = 0 \<or> delete_stale \<or> length key \<noteq> 1 then act_ok None
              else act_seq (act_result (read_staging_key_list sk staging (hd key) key_list_max)) (\<lambda>r.
                act_ok (case r of Inr l \<Rightarrow> l | Inl _ \<Rightarrow> None))) (\<lambda>key_list.
     act_seq (act_result (read_staging_bounds sk staging
       (bounded_columns key prune_partition (prune_key_range \<and> key_list = None) delete_stale))) (\<lambda>r.
     act_seq (case r of
         Inr b \<Rightarrow> act_ok b
       | Inl e \<Rightarrow> if \<not> delete_stale then act_ok [] else act_err e) (\<lambda>bounds.
     act_seq (act_lift (build_merge_sql (project_of sk) (dataset_of sk) dest staging key columns prune_partition prune_key_range
       delete_stale dedup_order bounds key_list)) (\<lambda>query.
     act_seq (run_statement sk query ''merge'' dest) (\<lambda>_. act_ok ())))))"

section \<open>Keys\<close>

text \<open>The caller's window is a predicate of its own: an \<open>OR\<close> in it must not take in what is ANDed to it.\<close>

definition window_predicate :: "string option \<Rightarrow> string" where
  "window_predicate window = (case window of Some w \<Rightarrow> [CHR ''('', LF] @ w @ [LF, CHR '')''] | None \<Rightarrow> ''TRUE'')"

definition distinct_keys_sql :: "'s bq_sink \<Rightarrow> string \<Rightarrow> string \<Rightarrow> string option \<Rightarrow> string" where
  "distinct_keys_sql sk t key window =
     ''SELECT DISTINCT CAST('' @ bt key @ '' AS STRING) FROM '' @ table_ref (project_of sk) (dataset_of sk) t
     @ '' WHERE '' @ window_predicate window @ '' AND '' @ bt key @ '' IS NOT NULL''"

definition bq_distinct_keys :: "'s bq_sink \<Rightarrow> string \<Rightarrow> string \<Rightarrow> string option \<Rightarrow> ('s bq_process, string list) act" where
  "bq_distinct_keys sk t key window = query_strings sk (distinct_keys_sql sk t key window) ''distinct keys''"

definition column_data_type :: "'s bq_sink \<Rightarrow> string \<Rightarrow> string \<Rightarrow> ('s bq_process, string) act" where
  "column_data_type sk t column =
     act_seq (query_strings sk (''SELECT data_type'' @ schema_filter sk t @ '' AND column_name = '' @ [APOS]
       @ escape_bigquery_string column @ [APOS]) ''column data type'') (\<lambda>types.
       case types of
         ty # _ \<Rightarrow> act_ok ty
       | [] \<Rightarrow> act_err (Config (''column '' @ quoted column @ '' not found on '' @ project_of sk @ ''.'' @ dataset_of sk @ ''.'' @ t)))"

definition numeric_names :: "string list" where
  "numeric_names = [''INT64'', ''INTEGER'', ''NUMERIC'', ''BIGNUMERIC'', ''DECIMAL'', ''BIGDECIMAL'', ''FLOAT64'']"

definition literal_prefixes :: "(string \<times> string) list" where
  "literal_prefixes = [(''STRING'', []), (''DATE'', ''DATE ''), (''DATETIME'', ''DATETIME ''), (''TIMESTAMP'', ''TIMESTAMP '')]"

definition bq_key_literals :: "(string \<Rightarrow> bool) \<Rightarrow> string \<Rightarrow> string \<Rightarrow> string list \<Rightarrow> string list res" where
  "bq_key_literals is_number data_type column vals =
     (let t = uppercase (trim data_type) in
      if t \<in> set numeric_names
      then try_map (\<lambda>v. if is_number v \<and> \<not> list_ex is_ws v then Inr v
        else Inl (Config (''key value '' @ quoted v @ '' is not a valid literal for the numeric column '' @ quoted column))) vals
      else case map_of literal_prefixes t of
        Some prefix \<Rightarrow> Inr (map (\<lambda>v. prefix @ [APOS] @ escape_bigquery_string v @ [APOS]) vals)
      | None \<Rightarrow> Inl (Config (''column '' @ quoted column @ '' has BigQuery type '' @ data_type
          @ '', which reconcile_keys cannot write as a literal'')))"

definition parsed_count :: "string list \<Rightarrow> nat" where
  "parsed_count vals = (case vals of v # _ \<Rightarrow> (case parse_unsigned 64 v of Some n \<Rightarrow> nat n | None \<Rightarrow> 0) | [] \<Rightarrow> 0)"

definition keys_predicate :: "string option \<Rightarrow> string \<Rightarrow> string list \<Rightarrow> string" where
  "keys_predicate window key lits = window_predicate window @ '' AND '' @ bt key @ '' IN ('' @ join '', '' lits @ '')''"

definition count_keys_sql :: "'s bq_sink \<Rightarrow> string \<Rightarrow> string \<Rightarrow> string option \<Rightarrow> string list \<Rightarrow> string" where
  "count_keys_sql sk t key window lits =
     ''SELECT CAST(COUNT(*) AS STRING) FROM '' @ table_ref (project_of sk) (dataset_of sk) t @ '' WHERE '' @ keys_predicate window key lits"

definition delete_statement :: "'s bq_sink \<Rightarrow> string \<Rightarrow> string \<Rightarrow> string option \<Rightarrow> string list \<Rightarrow> string" where
  "delete_statement sk t key window lits =
     ''DELETE FROM '' @ table_ref (project_of sk) (dataset_of sk) t @ '' WHERE '' @ keys_predicate window key lits"

fun bq_delete_chunks :: "'s bq_sink \<Rightarrow> string \<Rightarrow> string \<Rightarrow> string \<Rightarrow> string option \<Rightarrow> nat \<Rightarrow> string list list \<Rightarrow> ('s bq_process, nat) act" where
  "bq_delete_chunks sk t key data_type window deleted [] = act_ok deleted"
| "bq_delete_chunks sk t key data_type window deleted (chunk # rest) =
     act_seq (act_lift (bq_key_literals (bk_is_number sk) data_type key chunk)) (\<lambda>lits.
     act_seq (query_strings sk (count_keys_sql sk t key window lits) ''delete key count'') (\<lambda>n.
     act_seq (run_statement sk (delete_statement sk t key window lits) ''delete'' t) (\<lambda>_.
       bq_delete_chunks sk t key data_type window (deleted + parsed_count n) rest)))"

definition bq_delete_keys :: "'s bq_sink \<Rightarrow> string \<Rightarrow> string \<Rightarrow> string list \<Rightarrow> string option \<Rightarrow> ('s bq_process, nat) act" where
  "bq_delete_keys sk t key vals window =
     (if vals = [] then act_ok 0
      else act_seq (column_data_type sk t key) (\<lambda>data_type.
        bq_delete_chunks sk t key data_type window 0 (chunks_of DELETE_KEY_CHUNK vals)))"

section \<open>The state table\<close>

definition required_field :: "string \<Rightarrow> bq_type \<Rightarrow> table_field" where
  "required_field name ty = \<lparr>tf_name = name, tf_type = ty, tf_mode = Some Required, tf_default = None\<rparr>"

definition state_chunk_fields :: "table_field list" where
  "state_chunk_fields =
     map (\<lambda>name. \<lparr>tf_name = name, tf_type = BqString, tf_mode = Some Nullable, tf_default = None\<rparr>)
       [''chunk_cursor'', ''chunk_upper'', ''chunk_read'']"

definition missing_state_chunk_fields :: "table_field list \<Rightarrow> table_field list" where
  "missing_state_chunk_fields fs =
     filter (\<lambda>c. \<not> list_ex (\<lambda>f. eq_ignore_case (tf_name f) (tf_name c)) fs) state_chunk_fields"

definition state_clustering :: "string list" where
  "state_clustering = [''source_table'', ''dest_table'']"

definition state_clustered :: "string list option \<Rightarrow> bool" where
  "state_clustered clustering =
     (case clustering of
        Some (a # b # _) \<Rightarrow> eq_ignore_case a ''source_table'' \<and> eq_ignore_case b ''dest_table''
      | _ \<Rightarrow> False)"

definition new_state_table :: "string \<Rightarrow> bq_table" where
  "new_state_table st =
     \<lparr>tb_id = st,
      tb_schema = Some ([required_field ''source_table'' BqString, required_field ''dest_table'' BqString,
        required_field ''last_watermark'' BqString, required_field ''rows'' BqInteger, required_field ''run_ts'' BqTimestamp]
        @ state_chunk_fields),
      tb_partition = None, tb_clustering = Some state_clustering, tb_rows = 0, tb_etag = 0\<rparr>"

text \<open>A patch that another run's patch overtook is an error; the table it left may have the columns all the same.\<close>

definition bq_migrate_state_table :: "'s bq_sink \<Rightarrow> bq_table \<Rightarrow> ('s bq_process, unit) act" where
  "bq_migrate_state_table sk tb =
     (let missing = missing_state_chunk_fields (schema_fields tb); unclustered = \<not> state_clustered (tb_clustering tb) in
      if missing = [] \<and> \<not> unclustered then act_ok ()
      else let tb' = tb\<lparr>tb_schema := Some (schema_fields tb @ missing),
                 tb_clustering := (if unclustered then Some state_clustering else tb_clustering tb)\<rparr> in
        act_seq (call_service (bk_patch sk tb')) (\<lambda>r.
          case r of
            Inr _ \<Rightarrow> act_ok ()
          | Inl e \<Rightarrow>
              act_seq (get_table sk (tb_id tb)) (\<lambda>now.
                if missing_state_chunk_fields (case now of Some t \<Rightarrow> schema_fields t | None \<Rightarrow> []) = [] then act_ok ()
                else act_err (call_failed ''state table migration'' e))))"

definition bq_ensure_state :: "'s bq_sink \<Rightarrow> string \<Rightarrow> ('s bq_process, unit) act" where
  "bq_ensure_state sk st =
     act_seq (get_table sk st) (\<lambda>r.
       case r of
         Some tb \<Rightarrow> bq_migrate_state_table sk tb
       | None \<Rightarrow> act_seq (call_service (bk_create sk (new_state_table st))) (\<lambda>r. act_lift (or_failed ''state table create'' r)))"

definition bq_quoted :: "string \<Rightarrow> string" where
  "bq_quoted s = [APOS] @ escape_bigquery_string s @ [APOS]"

definition stale_state_rows :: "string \<Rightarrow> string" where
  "stale_state_rows t =
     ''EXISTS (SELECT 1 FROM '' @ t @ '' AS n WHERE n.source_table = s.source_table AND n.dest_table = s.dest_table AND n.run_ts > s.run_ts)''"

definition build_compact_state_sql :: "string \<Rightarrow> string \<Rightarrow> string \<Rightarrow> string \<times> string" where
  "build_compact_state_sql project dataset st =
     (let t = table_ref project dataset st in
      (''SELECT CAST(COUNT(*) AS STRING) FROM '' @ t @ '' AS s WHERE '' @ stale_state_rows t,
       ''DELETE FROM '' @ t @ '' AS s WHERE '' @ stale_state_rows t))"

definition build_state_keys_sql :: "string \<Rightarrow> string \<Rightarrow> string \<Rightarrow> nat option \<Rightarrow> string" where
  "build_state_keys_sql project dataset st idle =
     ''SELECT source_table, dest_table, ARRAY_AGG(last_watermark ORDER BY run_ts DESC LIMIT 1)[OFFSET(0)], FORMAT_TIMESTAMP(''
     @ quoted ''%Y-%m-%d %H:%M:%E6S'' @ '', MAX(run_ts)), CAST(COUNT(*) AS STRING) FROM '' @ table_ref project dataset st
     @ '' GROUP BY source_table, dest_table''
     @ (case idle of
          Some d \<Rightarrow> '' HAVING MAX(run_ts) < TIMESTAMP_SUB(CURRENT_TIMESTAMP(), INTERVAL '' @ show_nat d @ '' DAY)'' | None \<Rightarrow> [])
     @ '' ORDER BY MAX(run_ts), source_table, dest_table''"

definition state_row_filter :: "string \<Rightarrow> string \<Rightarrow> string" where
  "state_row_filter source_id dest =
     '' WHERE source_table = '' @ bq_quoted source_id @ '' AND dest_table = '' @ bq_quoted dest @ '' ORDER BY run_ts DESC LIMIT 1''"

definition build_read_chunk_state_sql :: "string \<Rightarrow> string \<Rightarrow> string \<Rightarrow> string \<Rightarrow> string \<Rightarrow> bool \<Rightarrow> string" where
  "build_read_chunk_state_sql project dataset st source_id dest with_read =
     ''SELECT chunk_cursor, chunk_upper'' @ (if with_read then '', chunk_read'' else []) @ '' FROM ''
     @ table_ref project dataset st @ state_row_filter source_id dest"

definition build_persist_watermark_sql :: "string \<Rightarrow> string \<Rightarrow> string \<Rightarrow> string \<Rightarrow> string \<Rightarrow> string \<Rightarrow> nat \<Rightarrow> string" where
  "build_persist_watermark_sql project dataset st source_id dest watermark rows =
     ''INSERT INTO '' @ table_ref project dataset st @ '' (source_table, dest_table, last_watermark, '' @ bt ''rows''
     @ '', run_ts) VALUES ('' @ bq_quoted source_id @ '', '' @ bq_quoted dest @ '', '' @ bq_quoted watermark @ '', ''
     @ show_nat rows @ '', CURRENT_TIMESTAMP())''"

definition build_persist_chunk_cursor_sql :: "string \<Rightarrow> string \<Rightarrow> string \<Rightarrow> string \<Rightarrow> string \<Rightarrow> string \<Rightarrow> string \<Rightarrow> string \<Rightarrow> string
    \<Rightarrow> nat \<Rightarrow> string" where
  "build_persist_chunk_cursor_sql project dataset st source_id dest committed cursor upper read rows =
     ''INSERT INTO '' @ table_ref project dataset st @ '' (source_table, dest_table, last_watermark, '' @ bt ''rows''
     @ '', run_ts, chunk_cursor, chunk_upper, chunk_read) VALUES ('' @ bq_quoted source_id @ '', '' @ bq_quoted dest @ '', ''
     @ bq_quoted committed @ '', '' @ show_nat rows @ '', CURRENT_TIMESTAMP(), '' @ bq_quoted cursor @ '', '' @ bq_quoted upper
     @ '', '' @ bq_quoted read @ '')''"

definition bq_compact_state :: "'s bq_sink \<Rightarrow> string \<Rightarrow> ('s bq_process, nat) act" where
  "bq_compact_state sk st =
     act_seq (get_table sk st) (\<lambda>there.
       if there = None then act_ok 0
       else let (count_sql, delete_sql) = build_compact_state_sql (project_of sk) (dataset_of sk) st in
         act_seq (query_strings sk count_sql ''stale state rows'') (\<lambda>n.
           if parsed_count n = 0 then act_ok 0
           else act_seq (run_statement sk delete_sql ''compact_state'' st) (\<lambda>job.
             act_ok (case jb_affected job of Some k \<Rightarrow> if 0 \<le> k then nat k else parsed_count n | None \<Rightarrow> parsed_count n))))"

definition text_column :: "string \<Rightarrow> string option list \<Rightarrow> nat \<Rightarrow> string option res" where
  "text_column what row i = (if i < length row then Inr (row ! i) else Inl (Other (''bigquery '' @ what @ '' column error'')))"

definition state_key_of_row :: "string option list \<Rightarrow> state_key res" where
  "state_key_of_row row =
     (let column = (\<lambda>i. and_then (text_column ''state_keys'' row i) (\<lambda>v. Inr (unwrap_or_default v))) in
      and_then (column 0) (\<lambda>key. and_then (column 1) (\<lambda>dest. and_then (column 2) (\<lambda>wm. and_then (column 3) (\<lambda>run.
      and_then (column 4) (\<lambda>n. Inr \<lparr>sk_state_key = key, sk_dest = dest, sk_watermark = wm, sk_last_run = run,
        sk_rows = (case parse_unsigned 64 n of Some k \<Rightarrow> nat k | None \<Rightarrow> 0)\<rparr>))))))"

definition bq_state_keys :: "'s bq_sink \<Rightarrow> string \<Rightarrow> nat option \<Rightarrow> ('s bq_process, state_key list) act" where
  "bq_state_keys sk st idle =
     act_seq (get_table sk st) (\<lambda>there.
       if there = None then act_ok []
       else act_seq (query_rows sk (build_state_keys_sql (project_of sk) (dataset_of sk) st idle) ''state_keys'') (\<lambda>(rows, broken).
         act_lift (and_then (try_map state_key_of_row rows) (\<lambda>keys.
           case broken of Some e \<Rightarrow> Inl (call_failed ''state_keys row'' e) | None \<Rightarrow> Inr keys))))"

text \<open>The row of a query that has one at most.\<close>

definition newest_of :: "string option list list \<times> bq_error option \<Rightarrow> string option list option res" where
  "newest_of = (\<lambda>(rows, broken).
     case rows of
       row # _ \<Rightarrow> Inr (Some row)
     | [] \<Rightarrow> (case broken of Some e \<Rightarrow> Inl (call_failed ''row'' e) | None \<Rightarrow> Inr None))"

definition one_row :: "'s bq_sink \<Rightarrow> string \<Rightarrow> ('s bq_process, string option list option) act" where
  "one_row sk q =
     act_seq (call_service (bk_query sk q)) (\<lambda>r.
     act_seq (act_lift (or_failed ''query'' r)) (\<lambda>rows. act_lift (newest_of rows)))"

definition bq_read_last_watermark :: "'s bq_sink \<Rightarrow> transfer_config \<Rightarrow> ('s bq_process, string option) act" where
  "bq_read_last_watermark sk cfg =
     act_seq (bq_table_exists sk (cfg_state_table_name cfg)) (\<lambda>there.
       if \<not> there then act_ok None
       else act_seq (one_row sk (''SELECT last_watermark FROM '' @ table_ref (project_of sk) (dataset_of sk) (cfg_state_table_name cfg)
           @ state_row_filter (effective_state_key cfg) (cfg_dest_table cfg))) (\<lambda>r. act_lift (case r of
           None \<Rightarrow> Inr None
         | Some row \<Rightarrow> and_then (text_column [] row 0) (\<lambda>w. Inr (if w = Some [] then None else w)))))"

definition bq_read_chunk_state :: "'s bq_sink \<Rightarrow> transfer_config \<Rightarrow> ('s bq_process, (string \<times> string \<times> string) option) act" where
  "bq_read_chunk_state sk cfg =
     act_seq (get_table sk (cfg_state_table_name cfg)) (\<lambda>there.
       case there of
         None \<Rightarrow> act_ok None
       | Some tb \<Rightarrow>
           let missing = missing_state_chunk_fields (schema_fields tb);
               with_read = (\<not> list_ex (\<lambda>f. tf_name f = ''chunk_read'') missing)
           in if (if with_read then 0 else 1) < length missing then act_ok None
              else act_seq (one_row sk (build_read_chunk_state_sql (project_of sk) (dataset_of sk) (cfg_state_table_name cfg)
                  (effective_state_key cfg) (cfg_dest_table cfg) with_read)) (\<lambda>r. act_lift (case r of
                  None \<Rightarrow> Inr None
                | Some row \<Rightarrow>
                    and_then (if with_read then text_column [] row 2 else Inr None) (\<lambda>read.
                    and_then (text_column [] row 0) (\<lambda>cursor.
                    and_then (text_column [] row 1) (\<lambda>upper.
                      Inr (case cursor of
                          Some c \<Rightarrow> if c = [] then None else Some (c, unwrap_or_default upper, unwrap_or_default read)
                        | None \<Rightarrow> None)))))))"

definition bq_persist_chunk_cursor :: "'s bq_sink \<Rightarrow> transfer_config \<Rightarrow> string option \<Rightarrow> string \<Rightarrow> string \<Rightarrow> nat \<Rightarrow> ('s bq_process, unit) act" where
  "bq_persist_chunk_cursor sk cfg committed cursor upper rows =
     act_seq (run_statement sk (build_persist_chunk_cursor_sql (project_of sk) (dataset_of sk) (cfg_state_table_name cfg)
       (effective_state_key cfg) (cfg_dest_table cfg) (unwrap_or_default committed) cursor upper (chunk_read_id cfg) rows)
       ''persist_chunk'' (cfg_dest_table cfg)) (\<lambda>_. act_ok ())"

definition bq_persist_watermark :: "'s bq_sink \<Rightarrow> transfer_config \<Rightarrow> string \<Rightarrow> nat \<Rightarrow> ('s bq_process, unit) act" where
  "bq_persist_watermark sk cfg watermark rows =
     act_seq (run_statement sk (build_persist_watermark_sql (project_of sk) (dataset_of sk) (cfg_state_table_name cfg)
       (effective_state_key cfg) (cfg_dest_table cfg) watermark rows) ''persist_watermark'' (cfg_dest_table cfg)) (\<lambda>_. act_ok ())"

section \<open>The trait\<close>

text \<open>The schema of an insert is that of its batches; what a merge is passed is what \<open>sync.rs\<close> passes from the configuration.\<close>

definition batch_schema :: "batch list \<Rightarrow> batch_field list" where
  "batch_schema bs = (case bs of b # _ \<Rightarrow> bt_fields b | [] \<Rightarrow> [])"

definition bq_ops :: "'s bq_sink \<Rightarrow> 's bq_process sink_ops" where
  "bq_ops sk =
     \<lparr>so_kind = DestBigQuery, so_namespace = dataset_of sk, so_requires_staging = True,
      so_refresh_names_columns = True, so_stages_direct_writes = False, so_stages_from_destination = True,
      so_deletes_within_merge = True, so_supports_row_delete = True,
      so_table_exists = bq_table_exists sk, so_column_types = bq_column_types sk,
      so_create_table = bq_create_table sk, so_clone_structure = bq_clone sk,
      so_insert = (\<lambda>t stream bs. on_writes (bq_insert_batches (bk_writer sk) t (batch_schema bs) bs)), so_atomic_swap = bq_swap sk,
      so_row_count = bq_current_row_count sk, so_merged_count = (\<lambda>_. act_ok None), so_drop_table = bq_drop_table sk,
      so_ensure_state = bq_ensure_state sk, so_persist_watermark = bq_persist_watermark sk,
      so_add_missing = bq_add_missing sk, so_unsourced = bq_unsourced sk, so_dropped = (\<lambda>_ _. act_ok []),
      so_non_replacing = (\<lambda>_ _. act_ok None), so_canonical_type = (\<lambda>_. act_ok None),
      so_check_write = (\<lambda>cfg t cols. act_ok ()),
      so_merge_into = (\<lambda>cfg dest staging cols. bq_merge_into sk dest staging (cfg_key cfg) (map ct_name cols)
        (cfg_merge_prune_partition_by cfg) (cfg_merge_prune_key_range cfg) (cfg_merge_prune_key_list_max cfg)
        (cfg_delete_stale_in_window cfg) (cfg_watermark cfg)),
      so_write_warnings = on_writes take_write_warnings, so_stage_for_retries = (\<lambda>_ _. act_ok False),
      so_insert_select = (\<lambda>dest staging cols. unsupported ''insert_select''), so_clustering = bq_clustering_columns sk,
      so_delete_stale = (\<lambda>dest staging key window. unsupported ''delete_stale_against_staging'')\<rparr>"

section \<open>A renamed watermark\<close>

text \<open>The configured watermark is the source's name of the column, and both destinations take it for their own.  Renamed,
  it is no column of the staging table: the merge then orders the copies of a key by nothing and may keep the older one,
  and the version column of the table ClickHouse is asked for does not exist.\<close>

definition renamed_config :: transfer_config where
  "renamed_config = sample_config\<lparr>cfg_watermark := Some ''write_date'', cfg_rename := [(''write_date'', ''updated'')]\<rparr>"

theorem renamed_watermark_merges_any_row:
  "landed renamed_config ''write_date'' = ''updated''
   \<and> (\<exists>m. build_merge (cfg_key renamed_config) [''id'', ''updated''] None True False (cfg_watermark renamed_config) [] None = Inr m
        \<and> mg_order m = None
        \<and> deduplicated en m [[CInt 1, CTs 10], [CInt 1, CTs 5]] [[CInt 1, CTs 5]])"
  by (simp add: landed_def renamed_config_def sample_config_def build_merge_def deduplicated_def key_of_def col_def)

theorem renamed_watermark_version_column:
  "engine_clause renamed_config = ''ReplacingMergeTree('' @ quote_ident ''write_date'' @ '')'' \<and> landed renamed_config ''write_date'' = ''updated''"
  by code_simp

end
