(* ===== verification/QH_Reconcile.thy ===== *)
theory QH_Reconcile
  imports QH_Bq_Sink
begin

text \<open>
  The drift between a source's keys and a destination's, measured and repaired (\<open>reconcile.rs\<close>).  The destination
  is a record of the three operations used of it, the source's keys are read by an action on the same world, so a
  sync that runs meanwhile may land rows at any step.  The promises of a destination are the locale
  \<open>key_store\<close>, interpreted on the ClickHouse sink.
\<close>

section \<open>Configuration\<close>

datatype source_engine = FromPostgres | FromMySql | FromBigQuery | FromClickHouse | FromCleverTap | FromAppsFlyer | FromHttpApi | FromArrow

fun engine_kind :: "source_engine \<Rightarrow> string" where
  "engine_kind FromPostgres = ''postgres''"
| "engine_kind FromMySql = ''mysql''"
| "engine_kind FromBigQuery = ''bigquery''"
| "engine_kind FromClickHouse = ''clickhouse''"
| "engine_kind FromCleverTap = ''clevertap''"
| "engine_kind FromAppsFlyer = ''appsflyer''"
| "engine_kind FromHttpApi = ''http''"
| "engine_kind FromArrow = ''arrow''"

record reconcile_config =
  rc_source_table :: "string option"
  rc_source_query :: "string option"
  rc_dest_table :: string
  rc_key :: string
  rc_window :: "string option"
  rc_dest_window :: "string option"
  rc_delete :: bool
  rc_max_delete_keys :: nat
  rc_sample_limit :: nat

record reconcile_result =
  rr_source_keys :: nat
  rr_dest_keys :: nat
  rr_orphan_keys :: nat
  rr_missing_keys :: nat
  rr_rows_deleted :: nat
  rr_orphan_sample :: "string list"
  rr_missing_sample :: "string list"

definition effective_dest_window :: "reconcile_config \<Rightarrow> string option" where
  "effective_dest_window cfg = or_else (rc_dest_window cfg) (rc_window cfg)"

definition reconcile_validate :: "reconcile_config \<Rightarrow> unit res" where
  "reconcile_validate cfg =
     (if trim (rc_dest_table cfg) = [] then Inl (Config ''reconcile_keys requires dest_table'')
      else if trim (rc_key cfg) = [] then Inl (Config ''reconcile_keys requires key'')
      else case (rc_source_table cfg, rc_source_query cfg) of
        (Some _, Some _) \<Rightarrow> Inl (Config ''reconcile_keys takes source_table or source_query, not both'')
      | (None, None) \<Rightarrow> Inl (Config ''reconcile_keys requires source_table or source_query'')
      | _ \<Rightarrow>
          if rc_delete cfg \<and> effective_dest_window cfg = None
          then Inl (Config ''reconcile_keys with delete=True requires a window'')
          else Inr ())"

definition ensure_keyset_source :: "source_engine \<Rightarrow> unit res" where
  "ensure_keyset_source src =
     (if src \<in> {FromPostgres, FromMySql, FromClickHouse} then Inr ()
      else Inl (Config (''reconcile_keys does not support a '' @ engine_kind src @ '' source'')))"

text \<open>The statements that read a source's keys: each value in the text form the destination has it in, compared byte by byte.\<close>

definition keys_filter :: "string \<Rightarrow> string option \<Rightarrow> string" where
  "keys_filter k window = (case window of Some w \<Rightarrow> ''WHERE ('' @ w @ '') AND '' @ k @ '' IS NOT NULL'' | None \<Rightarrow> ''WHERE '' @ k @ '' IS NOT NULL'')"

definition quote_ch_table :: "string \<Rightarrow> string" where
  "quote_ch_table table =
     (case split_once CHR ''.'' table of
        Some (d, t) \<Rightarrow> quote_ident (trim_matches (CHR 0x60) (trim d)) @ ''.'' @ quote_ident (trim_matches (CHR 0x60) (trim t))
      | None \<Rightarrow> quote_ident (trim_matches (CHR 0x60) (trim table)))"

definition from_source :: "string \<Rightarrow> string option \<Rightarrow> bool \<Rightarrow> string" where
  "from_source table query final =
     (case query of Some q \<Rightarrow> ''('' @ q @ '') AS _src'' | None \<Rightarrow> quote_ch_table table @ (if final then '' FINAL'' else []))"

definition ch_distinct_keys_sql :: "string \<Rightarrow> string option \<Rightarrow> bool \<Rightarrow> string \<Rightarrow> string option \<Rightarrow> string" where
  "ch_distinct_keys_sql table query final key window =
     ''SELECT DISTINCT toString('' @ quote_ident key @ '') FROM '' @ from_source table query final @ '' ''
     @ keys_filter (quote_ident key) window @ '' FORMAT TabSeparated''"

definition pg_distinct_keys_sql :: "string \<Rightarrow> string option \<Rightarrow> string \<Rightarrow> string option \<Rightarrow> string" where
  "pg_distinct_keys_sql table query key window =
     ''SELECT DISTINCT format('' @ [APOS] @ ''%s'' @ [APOS] @ '', '' @ quote_pg key @ '') FROM ''
     @ (case query of Some q \<Rightarrow> ''('' @ q @ '') AS _src'' | None \<Rightarrow> quote_pg_table table) @ '' '' @ keys_filter (quote_pg key) window"

definition my_distinct_keys_sql :: "string \<Rightarrow> string option \<Rightarrow> string \<Rightarrow> string option \<Rightarrow> string" where
  "my_distinct_keys_sql table query key window =
     ''SELECT DISTINCT CAST(CONVERT('' @ quote_my key @ '' USING utf8mb4) AS BINARY) FROM ''
     @ (case query of Some q \<Rightarrow> ''('' @ q @ '') AS _src'' | None \<Rightarrow> quote_my_table table) @ '' '' @ keys_filter (quote_my key) window"

section \<open>The diff\<close>

record 'w key_dest =
  kd_kind :: dest_kind
  kd_connect :: "('w, unit) act"
  kd_supports_row_delete :: bool
  kd_distinct_keys :: "string \<Rightarrow> string \<Rightarrow> string option \<Rightarrow> ('w, string list) act"
  kd_delete_keys :: "string \<Rightarrow> string \<Rightarrow> string list \<Rightarrow> string option \<Rightarrow> ('w, nat) act"

definition not_in :: "string list \<Rightarrow> string list \<Rightarrow> string list" where
  "not_in ys xs = filter (\<lambda>k. k \<notin> set ys) xs"

definition measured :: "reconcile_config \<Rightarrow> string list \<Rightarrow> string list \<Rightarrow> reconcile_result" where
  "measured cfg dest_keys source_keys =
     (let orphans = not_in source_keys dest_keys; missing = not_in dest_keys source_keys in
      \<lparr>rr_source_keys = card (set source_keys), rr_dest_keys = card (set dest_keys), rr_orphan_keys = length orphans,
       rr_missing_keys = length missing, rr_rows_deleted = 0, rr_orphan_sample = take (rc_sample_limit cfg) orphans,
       rr_missing_sample = take (rc_sample_limit cfg) missing\<rparr>)"

definition zero_overlap :: "string list \<Rightarrow> string list \<Rightarrow> bool" where
  "zero_overlap dest_keys source_keys \<longleftrightarrow>
     source_keys \<noteq> [] \<and> dest_keys \<noteq> [] \<and> length (not_in source_keys dest_keys) = card (set dest_keys)
     \<and> length (not_in dest_keys source_keys) = card (set source_keys)"

definition repair :: "'w key_dest \<Rightarrow> reconcile_config \<Rightarrow> string list \<Rightarrow> string list \<Rightarrow> ('w, reconcile_result) act" where
  "repair kd cfg dest_keys source_keys =
     (let result = measured cfg dest_keys source_keys; orphans = not_in source_keys dest_keys in
      if zero_overlap dest_keys source_keys
      then act_err (Config (''reconcile found NO keys in common between source and destination ('' @ show_nat (rr_source_keys result)
        @ '' vs '' @ show_nat (rr_dest_keys result) @ '' distinct '' @ quoted (rc_key cfg) @ '' value(s), zero overlap)''))
      else if rc_delete cfg \<and> orphans \<noteq> [] then
        if 0 < rc_max_delete_keys cfg \<and> rc_max_delete_keys cfg < rr_orphan_keys result
        then act_err (Config (''reconcile found '' @ show_nat (rr_orphan_keys result) @ '' orphan key(s) in '' @ quoted (rc_dest_table cfg)
          @ '', above the max_delete_keys ceiling of '' @ show_nat (rc_max_delete_keys cfg) @ ''; refusing to delete''))
        else act_seq (kd_delete_keys kd (rc_dest_table cfg) (rc_key cfg) orphans (effective_dest_window cfg)) (\<lambda>n.
          act_ok (result\<lparr>rr_rows_deleted := n\<rparr>))
      else act_ok result)"

definition reconcile_keys :: "source_engine \<Rightarrow> ('w, string list) act \<Rightarrow> 'w key_dest \<Rightarrow> reconcile_config \<Rightarrow> ('w, reconcile_result) act" where
  "reconcile_keys src read_source_keys kd cfg =
     (if kd_kind kd = DestCsv
      then act_err (Config ''reconcile_keys is not supported for a CSV destination'')
      else act_seq (act_lift (reconcile_validate cfg)) (\<lambda>_.
        act_seq (act_lift (ensure_keyset_source src)) (\<lambda>_.
        act_seq (kd_connect kd) (\<lambda>_.
          if rc_delete cfg \<and> \<not> kd_supports_row_delete kd
          then act_err (Config ''this destination cannot delete individual rows, so reconcile_keys can only measure against it (delete=False)'')
          else act_seq (kd_distinct_keys kd (rc_dest_table cfg) (rc_key cfg) (effective_dest_window cfg)) (\<lambda>dest_keys.
            act_seq read_source_keys (\<lambda>source_keys. repair kd cfg dest_keys source_keys))))))"

section \<open>What a destination promises\<close>

text \<open>\<open>removed t w w'\<close> is what table \<open>t\<close> lost on the way from \<open>w\<close> to \<open>w'\<close>; others may add rows meanwhile.  \<open>rendered\<close>
  says of a text that it is how the destination writes a key of the column, \<open>predicate\<close> of a window that its text is one
  condition of the destination's dialect, so that parentheses around it hold it together.  A row removed by a reconcile: the
  destination's keys were read, then the source's, and the row's key is in the first and not in the second; the run
  was to delete, inside a window, and no guard stood against it.\<close>

lemma set_not_in [simp]: "set (not_in ys xs) = set xs - set ys"
  by (auto simp: not_in_def)

lemma length_not_in: "distinct xs \<Longrightarrow> length (not_in ys xs) = card (set xs - set ys)"
  by (metis distinct_card distinct_filter not_in_def set_not_in)

lemma no_common_key:
  assumes "distinct dest_keys" "distinct source_keys"
  shows "zero_overlap dest_keys source_keys \<longleftrightarrow> source_keys \<noteq> [] \<and> dest_keys \<noteq> [] \<and> set dest_keys \<inter> set source_keys = {}"
proof -
  have eq: "card (A - B) = card A \<longleftrightarrow> A \<inter> B = {}" if "finite A" for A B :: "string set"
    using that by (metis Diff_disjoint Diff_triv card_subset_eq Diff_subset Int_commute)
  show ?thesis using assms by (auto simp: zero_overlap_def length_not_in eq)
qed

text \<open>A row removed by a reconcile: the destination's key set was read, then the source's, and the row's key is in the
  first and not in the second; the run was to delete, inside a window, and no guard stood against it.\<close>

definition orphaned :: "('w, string list) act \<Rightarrow> 'w key_dest \<Rightarrow> reconcile_config \<Rightarrow> (string \<Rightarrow> 'r \<Rightarrow> string option)
    \<Rightarrow> (string option \<Rightarrow> 'r \<Rightarrow> bool) \<Rightarrow> 'r \<Rightarrow> bool" where
  "orphaned read kd cfg key_text inside x \<longleftrightarrow>
     (\<exists>w1 w2 w3 dest_keys source_keys.
        kd_distinct_keys kd (rc_dest_table cfg) (rc_key cfg) (effective_dest_window cfg) w1 = (w2, Inr dest_keys)
        \<and> read w2 = (w3, Inr source_keys)
        \<and> key_text (rc_key cfg) x \<in> Some ` (set dest_keys - set source_keys)
        \<and> (rc_max_delete_keys cfg = 0 \<or> card (set dest_keys - set source_keys) \<le> rc_max_delete_keys cfg)
        \<and> (source_keys = [] \<or> set dest_keys \<inter> set source_keys \<noteq> {}))
     \<and> rc_delete cfg \<and> effective_dest_window cfg \<noteq> None \<and> inside (effective_dest_window cfg) x"

locale key_store =
  fixes kd :: "'w key_dest" and good :: "'w \<Rightarrow> bool" and removed :: "string \<Rightarrow> 'w \<Rightarrow> 'w \<Rightarrow> 'r set"
    and key_text :: "string \<Rightarrow> 'r \<Rightarrow> string option" and inside :: "string option \<Rightarrow> 'r \<Rightarrow> bool"
    and rendered :: "string \<Rightarrow> string \<Rightarrow> string \<Rightarrow> bool" and predicate :: "string option \<Rightarrow> bool"
  assumes removed_refl: "removed t w w = {}"
    and removed_step: "x \<in> removed t w w'' \<Longrightarrow> x \<in> removed t w w' \<or> x \<in> removed t w' w''"
    and connects: "good w \<Longrightarrow> kd_connect kd w = (w', c) \<Longrightarrow> good w' \<and> removed t w w' = {}"
    and reads: "good w \<Longrightarrow> kd_distinct_keys kd u k win w = (w', r)
        \<Longrightarrow> good w' \<and> removed t w w' = {} \<and> (\<forall>ks. r = Inr ks \<longrightarrow> distinct ks \<and> list_all (rendered u k) ks)"
    and deletes: "good w \<Longrightarrow> kd_delete_keys kd u k ks win w = (w', n) \<Longrightarrow> list_all (rendered u k) ks
        \<Longrightarrow> predicate win \<Longrightarrow> x \<in> removed t w w' \<Longrightarrow> t = u \<and> inside win x \<and> key_text k x \<in> Some ` set ks"
begin

lemma repair_removes:
  assumes "good w" "repair kd cfg dest_keys source_keys w = (w', r)" "distinct dest_keys" "distinct source_keys"
    and shown: "list_all (rendered (rc_dest_table cfg) (rc_key cfg)) dest_keys" and win: "predicate (effective_dest_window cfg)"
    and x: "x \<in> removed t w w'"
  shows "t = rc_dest_table cfg \<and> rc_delete cfg \<and> inside (effective_dest_window cfg) x
    \<and> key_text (rc_key cfg) x \<in> Some ` (set dest_keys - set source_keys)
    \<and> (rc_max_delete_keys cfg = 0 \<or> card (set dest_keys - set source_keys) \<le> rc_max_delete_keys cfg)
    \<and> (source_keys = [] \<or> set dest_keys \<inter> set source_keys \<noteq> {})"
proof -
  have orphans: "length (not_in source_keys dest_keys) = card (set dest_keys - set source_keys)"
    by (rule length_not_in[OF assms(3)])
  have moved: "w' \<noteq> w" using x removed_refl by auto
  then have go: "\<not> zero_overlap dest_keys source_keys" "rc_delete cfg" "not_in source_keys dest_keys \<noteq> []"
      "\<not> (0 < rc_max_delete_keys cfg \<and> rc_max_delete_keys cfg < rr_orphan_keys (measured cfg dest_keys source_keys))"
    using assms(2) by (auto simp: repair_def Let_def act_err_def act_ok_def split: if_splits)
  obtain n where d: "kd_delete_keys kd (rc_dest_table cfg) (rc_key cfg) (not_in source_keys dest_keys) (effective_dest_window cfg) w = (w', n)"
    using assms(2) go by (auto simp: repair_def Let_def act_seq_def act_ok_def split: prod.splits sum.splits)
  have "set dest_keys \<noteq> {}" using go(3) by (auto simp: not_in_def)
  then have common: "source_keys = [] \<or> set dest_keys \<inter> set source_keys \<noteq> {}"
    using go(1) no_common_key[OF assms(3,4)] by auto
  have ceiling: "rc_max_delete_keys cfg = 0 \<or> card (set dest_keys - set source_keys) \<le> rc_max_delete_keys cfg"
    using go(4) orphans by (auto simp: measured_def Let_def)
  have "list_all (rendered (rc_dest_table cfg) (rc_key cfg)) (not_in source_keys dest_keys)"
    using shown by (auto simp: list_all_iff)
  from deletes[OF assms(1) d this win x] show ?thesis using go(2) common ceiling by simp
qed

lemma reconcile_removes:
  assumes "good w" and run: "reconcile_keys src read kd cfg w = (w', r)"
    and read: "\<And>w w' r. good w \<Longrightarrow> read w = (w', r) \<Longrightarrow> good w' \<and> removed t w w' = {} \<and> (\<forall>ks. r = Inr ks \<longrightarrow> distinct ks)"
    and whole: "predicate (effective_dest_window cfg)" and x: "x \<in> removed t w w'"
  shows "t = rc_dest_table cfg \<and> orphaned read kd cfg key_text inside x"
proof -
  obtain w1 c where c: "kd_connect kd w = (w1, c)" by (cases "kd_connect kd w")
  have g1: "good w1" "removed t w w1 = {}" using connects[OF assms(1) c] by auto
  have moved: "w' \<noteq> w" using x removed_refl by auto
  note step = removed_step[OF x]
  have v: "reconcile_validate cfg = Inr ()" "ensure_keyset_source src = Inr ()"
    using run moved by (auto simp: reconcile_keys_def act_seq_def act_lift_def act_err_def split: if_splits sum.splits)
  have away: "w' \<noteq> w1" using step[of w1] g1(2) removed_refl by auto
  obtain w2 d where d: "kd_distinct_keys kd (rc_dest_table cfg) (rc_key cfg) (effective_dest_window cfg) w1 = (w2, d)"
    by (cases "kd_distinct_keys kd (rc_dest_table cfg) (rc_key cfg) (effective_dest_window cfg) w1")
  have g2: "good w2" "removed t w1 w2 = {}" "\<And>ks. d = Inr ks \<Longrightarrow> distinct ks \<and> list_all (rendered (rc_dest_table cfg) (rc_key cfg)) ks" using reads[OF g1(1) d] by auto
  obtain w3 s where s: "read w2 = (w3, s)" by (cases "read w2")
  have g3: "good w3" "removed t w2 w3 = {}" "\<And>ks. s = Inr ks \<Longrightarrow> distinct ks" using read[OF g2(1) s] by auto
  have none: "removed t w w3 = {}"
    using removed_step[of _ t w w3 w1] removed_step[of _ t w1 w3 w2] g1(2) g2(2) g3(2) by blast
  have "removed t w w2 = {}" using removed_step[of _ t w w2 w1] g1(2) g2(2) by blast
  then have past: "w' \<noteq> w2" "w' \<noteq> w3" using x none by auto
  obtain dest_keys source_keys where k: "d = Inr dest_keys" "s = Inr source_keys" "repair kd cfg dest_keys source_keys w3 = (w', r)"
    using run moved away past v c d s
    by (auto simp: reconcile_keys_def act_seq_def act_lift_def act_err_def split: if_splits sum.splits prod.splits)
  have x3: "x \<in> removed t w3 w'" using removed_step[OF x, of w3] none by blast
  have win: "rc_delete cfg \<Longrightarrow> effective_dest_window cfg \<noteq> None"
    using v(1) by (auto simp: reconcile_validate_def split: if_splits option.splits)
  show ?thesis
    using repair_removes[OF g3(1) k(3) g2(3)[OF k(1), THEN conjunct1] g3(3)[OF k(2)] g2(3)[OF k(1), THEN conjunct2] whole x3] win d s k(1,2)
    unfolding orphaned_def by blast
qed

end

section \<open>The destinations\<close>

definition ch_key_dest :: "(string \<Rightarrow> bool) \<Rightarrow> ('s ch_world, unit) act \<Rightarrow> 's ch_sink \<Rightarrow> 's ch_world key_dest" where
  "ch_key_dest is_number connect sk =
     \<lparr>kd_kind = DestClickHouse, kd_connect = connect, kd_supports_row_delete = so_supports_row_delete (ch_ops sk),
      kd_distinct_keys = ch_distinct_keys sk, kd_delete_keys = ch_delete_keys is_number sk\<rparr>"

definition bq_key_dest :: "('s bq_process, unit) act \<Rightarrow> 's bq_sink \<Rightarrow> 's bq_process key_dest" where
  "bq_key_dest connect sk =
     \<lparr>kd_kind = DestBigQuery, kd_connect = connect, kd_supports_row_delete = so_supports_row_delete (bq_ops sk),
      kd_distinct_keys = bq_distinct_keys sk, kd_delete_keys = bq_delete_keys sk\<rparr>"

text \<open>What ClickHouse documents of the statements a reconcile sends: only a \<open>DELETE\<close> removes rows, those its condition
  selects (a row counts as it stands after the merges); a \<open>DISTINCT\<close> column has no line twice, each the text of a
  key; a condition made by \<open>and_where\<close> of texts that are conditions themselves (\<open>kv_predicate\<close>) selects what all its parts do, and of a column compared with literals of such
  texts the rows that have one of them.\<close>

record ('s, 'r) keys_view =
  kv_rows :: "'s \<Rightarrow> string \<Rightarrow> 'r multiset"
  kv_selects :: "string \<Rightarrow> string \<Rightarrow> 'r \<Rightarrow> bool"
  kv_key :: "string \<Rightarrow> 'r \<Rightarrow> string option"
  kv_inside :: "string option \<Rightarrow> 'r \<Rightarrow> bool"
  kv_rendered :: "string \<Rightarrow> string \<Rightarrow> string \<Rightarrow> bool"
  kv_predicate :: "string option \<Rightarrow> bool"

definition lost :: "('s \<Rightarrow> string \<Rightarrow> 'r multiset) \<Rightarrow> string \<Rightarrow> 's \<Rightarrow> 's \<Rightarrow> 'r set" where
  "lost rows t s s' = set_mset (rows s t - rows s' t)"

definition keys_server :: "('s, 'r) keys_view \<Rightarrow> (string \<Rightarrow> bool) \<Rightarrow> (request \<Rightarrow> 's \<Rightarrow> 's \<times> reply) \<Rightarrow> bool" where
  "keys_server v is_number ask \<longleftrightarrow>
     (\<forall>rq s s' rp t x. ask rq s = (s', rp) \<longrightarrow> x \<in> lost (kv_rows v) t s s' \<longrightarrow> (\<exists>c. rq_statement rq = DeleteWhere t c \<and> kv_selects v t c x))
     \<and> (\<forall>rq s s' status b t k c. ask rq s = (s', Reply status (Some b)) \<longrightarrow> succeeded status \<longrightarrow> rq_statement rq = DistinctKeys t k c
          \<longrightarrow> distinct (body_lines b) \<and> list_all (kv_rendered v t k) (body_lines b))
     \<and> (\<forall>bare t k ks lits win x. key_literals is_number bare k ks = Inr lits \<longrightarrow> list_all (kv_rendered v t k) ks \<longrightarrow> kv_predicate v win
          \<longrightarrow> kv_selects v t (and_where [win, Some (quote_ident k @ '' IN ('' @ join '', '' lits @ '')'')]) x
          \<longrightarrow> kv_inside v win x \<and> kv_key v k x \<in> Some ` set ks)"

lemma lost_refl: "lost rows t s s = {}"
  by (simp add: lost_def)

lemma lost_step: "x \<in> lost rows t s s'' \<Longrightarrow> x \<in> lost rows t s s' \<or> x \<in> lost rows t s' s''"
  by (auto simp: lost_def in_diff_count)

definition ch_lost :: "('s, 'r) keys_view \<Rightarrow> string \<Rightarrow> 's ch_world \<Rightarrow> 's ch_world \<Rightarrow> 'r set" where
  "ch_lost v t w w' = lost (kv_rows v) t (cw_server w) (cw_server w')"

lemma ask_loses:
  assumes "keys_server v is_number (cs_ask sk)" "ask_body sk st w = (w', r)" "x \<in> ch_lost v t w w'"
  shows "\<exists>c. st = DeleteWhere t c \<and> kv_selects v t c x"
proof -
  obtain s rp where "cs_ask sk (base_request sk st) (cw_server w) = (s, rp)" "w' = w\<lparr>cw_server := s\<rparr>"
    using assms(2) by (auto simp: ask_body_def send_request_def act_seq_def act_lift_def split: prod.splits)
  then show ?thesis
    using assms(1,3) unfolding keys_server_def ch_lost_def by (fastforce simp: base_request_def)
qed

lemma questions_lose:
  assumes "keys_server v is_number (cs_ask sk)" "\<And>t c. st \<noteq> DeleteWhere t c"
  shows "query_scalar sk st w = (w', r) \<Longrightarrow> ch_lost v t w w' = {}"
    and "query_column sk st w = (w', r2) \<Longrightarrow> ch_lost v t w w' = {}"
proof -
  have q: "ch_lost v t w w1 = {}" if "ask_body sk st w = (w1, r1)" for w1 r1
    using ask_loses[OF assms(1) that] assms(2) by blast
  show "query_scalar sk st w = (w', r) \<Longrightarrow> ch_lost v t w w' = {}"
    by (cases "ask_body sk st w") (auto simp: query_scalar_def act_seq_def act_ok_def q split: sum.splits)
  show "query_column sk st w = (w', r2) \<Longrightarrow> ch_lost v t w w' = {}"
    by (cases "ask_body sk st w") (auto simp: query_column_def act_seq_def act_ok_def q split: sum.splits)
qed

lemma ch_lost_refl: "ch_lost v t w w = {}"
  by (simp add: ch_lost_def lost_refl)

lemma ch_lost_step: "x \<in> ch_lost v t w w'' \<Longrightarrow> x \<in> ch_lost v t w w' \<or> x \<in> ch_lost v t w' w''"
  unfolding ch_lost_def by (rule lost_step)

lemma ch_lost_trans: "ch_lost v t w w' = {} \<Longrightarrow> x \<in> ch_lost v t w w'' \<Longrightarrow> x \<in> ch_lost v t w' w''"
  using ch_lost_step by fastforce

lemma delete_chunks_lose:
  assumes law: "keys_server v is_number (cs_ask sk)"
  shows "delete_chunks is_number sk t k bare win n chunks w = (w', r) \<Longrightarrow> list_all (list_all (kv_rendered v t k)) chunks
    \<Longrightarrow> kv_predicate v win \<Longrightarrow> x \<in> ch_lost v u w w' \<Longrightarrow> u = t \<and> kv_inside v win x \<and> kv_key v k x \<in> Some ` set (concat chunks)"
proof (induction chunks arbitrary: n w)
  case Nil
  then show ?case by (simp add: act_ok_def ch_lost_refl)
next
  case (Cons chunk rest)
  show ?case
  proof (cases "key_literals is_number bare k chunk")
    case (Inl e)
    then show ?thesis using Cons.prems by (simp add: act_seq_def act_lift_def ch_lost_refl)
  next
    case (Inr lits)
    define c where "c = and_where [win, Some (quote_ident k @ '' IN ('' @ join '', '' lits @ '')'')]"
    obtain w1 n1 where count: "count_where sk t c w = (w1, n1)" by (cases "count_where sk t c w")
    have none: "ch_lost v u w w1 = {}"
    proof -
      obtain r1 where "query_scalar sk (CountWhere t c) w = (w1, r1)"
        using count by (auto simp: count_where_def act_seq_def act_ok_def split: prod.splits sum.splits)
      then show ?thesis using questions_lose(1)[OF law] by blast
    qed
    have x1: "x \<in> ch_lost v u w1 w'" using ch_lost_trans[OF none Cons.prems(4)] .
    show ?thesis
    proof (cases n1)
      case n: (Inl e)
      then show ?thesis using Cons.prems(1) Inr count x1 by (simp add: act_seq_def act_lift_def Let_def c_def ch_lost_refl)
    next
      case n: (Inr k1)
      obtain w2 d where del: "execute sk (DeleteWhere t c) w1 = (w2, d)" by (cases "execute sk (DeleteWhere t c) w1")
      obtain d1 where ask: "ask_body sk (DeleteWhere t c) w1 = (w2, d1)"
        using del by (auto simp: execute_def act_seq_def act_ok_def split: prod.splits sum.splits)
      have gone: "u = t \<and> kv_inside v win x \<and> kv_key v k x \<in> Some ` set chunk" if "x \<in> ch_lost v u w1 w2"
      proof -
        have "t = u" "kv_selects v t c x" using ask_loses[OF law ask that] by auto
        moreover have "list_all (kv_rendered v t k) chunk" using Cons.prems(2) by simp
        ultimately show ?thesis using law Inr Cons.prems(3) unfolding keys_server_def c_def by (elim conjE) metis
      qed
      show ?thesis
      proof (cases d)
        case (Inl e)
        then have "w' = w2" using Cons.prems(1) Inr count n del by (simp add: act_seq_def act_lift_def Let_def c_def)
        then show ?thesis using gone x1 by auto
      next
        case d: (Inr z)
        have rec: "delete_chunks is_number sk t k bare win (n + k1) rest w2 = (w', r)"
          using Cons.prems(1) Inr count n del d by (simp add: act_seq_def act_lift_def Let_def c_def)
        show ?thesis
          using gone Cons.IH[OF rec] Cons.prems(2,3) ch_lost_step[OF x1, of w2] by auto
      qed
    qed
  qed
qed

lemma list_all_chunks: "0 < n \<Longrightarrow> list_all (list_all P) (chunks_of n xs) \<longleftrightarrow> list_all P xs"
  using chunks_of_concat[of n xs] by (metis (no_types, lifting) list_all_iff set_concat UN_iff)

definition ch_keys_good :: "('s, 'r) keys_view \<Rightarrow> (string \<Rightarrow> bool) \<Rightarrow> ('s ch_world, unit) act \<Rightarrow> 's ch_sink \<Rightarrow> 's ch_world \<Rightarrow> bool" where
  "ch_keys_good v is_number connect sk w \<longleftrightarrow> keys_server v is_number (cs_ask sk) \<and> (\<forall>w t. ch_lost v t w (fst (connect w)) = {})"

interpretation ch_keys: key_store "ch_key_dest is_number connect sk" "ch_keys_good v is_number connect sk" "ch_lost v"
  "kv_key v" "kv_inside v" "kv_rendered v" "kv_predicate v"
proof (unfold_locales)
  fix t w show "ch_lost v t w w = {}" by (rule ch_lost_refl)
next
  fix x t w w'' w' assume "x \<in> ch_lost v t w w''"
  then show "x \<in> ch_lost v t w w' \<or> x \<in> ch_lost v t w' w''" by (rule ch_lost_step)
next
  fix w w' c t assume g: "ch_keys_good v is_number connect sk w" and "kd_connect (ch_key_dest is_number connect sk) w = (w', c)"
  then have "fst (connect w) = w'" by (simp add: ch_key_dest_def)
  then show "ch_keys_good v is_number connect sk w' \<and> ch_lost v t w w' = {}" using g by (auto simp: ch_keys_good_def)
next
  fix w w' r t u k win
  assume g: "ch_keys_good v is_number connect sk w" and q: "kd_distinct_keys (ch_key_dest is_number connect sk) u k win w = (w', r)"
  have law: "keys_server v is_number (cs_ask sk)" using g by (simp add: ch_keys_good_def)
  let ?st = "DistinctKeys u k (and_where [win, Some (quote_ident k @ '' IS NOT NULL'')])"
  have q: "query_column sk ?st w = (w', r)" using q by (simp add: ch_key_dest_def ch_distinct_keys_def)
  have "distinct ks \<and> list_all (kv_rendered v u k) ks" if ks: "r = Inr ks" for ks
  proof -
    obtain s rp where ask: "cs_ask sk (base_request sk ?st) (cw_server w) = (s, rp)"
      by (cases "cs_ask sk (base_request sk ?st) (cw_server w)")
    show ?thesis
    proof (cases rp)
      case (Lost e)
      then show ?thesis using q ks ask by (simp add: query_column_def ask_body_def send_request_def act_seq_def act_lift_def act_ok_def)
    next
      case (Reply status b)
      then have ok: "succeeded status" and "ks = body_lines (body_text b)"
        using q ks ask by (auto simp: query_column_def ask_body_def send_request_def act_seq_def act_lift_def act_ok_def split: if_splits)
      then show ?thesis
        using law ask Reply unfolding keys_server_def
        by (cases b) (auto simp: base_request_def body_text_def body_lines_def strip_cr_def)
    qed
  qed
  then show "ch_keys_good v is_number connect sk w' \<and> ch_lost v t w w' = {} \<and> (\<forall>ks. r = Inr ks \<longrightarrow> distinct ks \<and> list_all (kv_rendered v u k) ks)"
    using questions_lose(2)[OF law _ q] g by (auto simp: ch_keys_good_def)
next
  fix w w' n t u k ks win x
  assume g: "ch_keys_good v is_number connect sk w" and d: "kd_delete_keys (ch_key_dest is_number connect sk) u k ks win w = (w', n)"
    and shown: "list_all (kv_rendered v u k) ks" and win: "kv_predicate v win" and x: "x \<in> ch_lost v t w w'"
  have law: "keys_server v is_number (cs_ask sk)" using g by (simp add: ch_keys_good_def)
  have d: "ch_delete_keys is_number sk u k ks win w = (w', n)" using d by (simp add: ch_key_dest_def)
  obtain w1 b where b: "bare_column_type sk u k w = (w1, b)" by (cases "bare_column_type sk u k w")
  have none: "ch_lost v t w w1 = {}"
  proof -
    obtain r1 where "query_scalar sk (ReadColumnType u k) w = (w1, r1)"
      using b by (auto simp: bare_column_type_def act_seq_def act_ok_def act_err_def split: prod.splits sum.splits option.splits)
    then show ?thesis using questions_lose(1)[OF law] by blast
  qed
  have x1: "x \<in> ch_lost v t w1 w'" using ch_lost_trans[OF none x] .
  have "w' \<noteq> w" "w' \<noteq> w1" using x x1 by (auto simp: ch_lost_refl)
  then obtain bare where del: "delete_chunks is_number sk u k bare win 0 (chunks_of DELETE_KEY_CHUNK ks) w1 = (w', n)"
    using d b by (auto simp: ch_delete_keys_def act_seq_def act_ok_def split: if_splits sum.splits)
  have pos: "0 < DELETE_KEY_CHUNK" by (simp add: DELETE_KEY_CHUNK_def)
  show "t = u \<and> kv_inside v win x \<and> kv_key v k x \<in> Some ` set ks"
    using delete_chunks_lose[OF law del _ win x1] shown by (simp add: list_all_chunks[OF pos] conjunct1[OF chunks_of_concat[OF pos]] del: set_concat)
qed

text \<open>On BigQuery, what jobs have removed is \<open>gone\<close>: a row of a table goes by a statement of one of this process's jobs
  (\<open>takes\<close>), at any time after it was submitted.\<close>

record ('s, 'r) bq_keys_view =
  qv_sub :: "'s \<Rightarrow> string \<Rightarrow> string option"
  qv_app :: "'s \<Rightarrow> string \<Rightarrow> nat"
  qv_dead :: "'s \<Rightarrow> string \<Rightarrow> bool"
  qv_gone :: "'s \<Rightarrow> (string \<times> 'r) set"
  qv_takes :: "string \<Rightarrow> string \<Rightarrow> 'r \<Rightarrow> bool"
  qv_key :: "string \<Rightarrow> 'r \<Rightarrow> string option"
  qv_inside :: "string option \<Rightarrow> 'r \<Rightarrow> bool"
  qv_rendered :: "string \<Rightarrow> string \<Rightarrow> string \<Rightarrow> bool"
  qv_predicate :: "string option \<Rightarrow> bool"

definition qv_goes_on :: "('s, 'r) bq_keys_view \<Rightarrow> 's \<Rightarrow> 's \<Rightarrow> bool" where
  "qv_goes_on v = goes_on (qv_sub v) (qv_app v) (qv_dead v)"

definition bq_keys_service :: "('s, 'r) bq_keys_view \<Rightarrow> 's bq_sink \<Rightarrow> bool" where
  "bq_keys_service v sk \<longleftrightarrow>
     jobs_once (qv_sub v) (qv_app v) (qv_dead v) (bk_jobs sk)
     \<and> (\<forall>s t x. (t, x) \<in> qv_gone v s \<longrightarrow> (\<exists>i st. qv_sub v s i = Some st \<and> qv_takes v st t x))
     \<and> (\<forall>q s s' r. bk_query sk q s = (s', r) \<longrightarrow> qv_goes_on v s s' \<and> qv_sub v s' = qv_sub v s \<and> qv_gone v s \<subseteq> qv_gone v s')
     \<and> (\<forall>t k win s s' rows ks. bk_query sk (distinct_keys_sql sk t k win) s = (s', Inr rows)
          \<longrightarrow> first_column ''distinct keys'' rows = Inr ks \<longrightarrow> distinct ks \<and> list_all (qv_rendered v t k) ks)
     \<and> (\<forall>ty k ks lits u win t x. bq_key_literals (bk_is_number sk) ty k ks = Inr lits \<longrightarrow> list_all (qv_rendered v u k) ks \<longrightarrow> qv_predicate v win
          \<longrightarrow> qv_takes v (delete_statement sk u k win lits) t x \<longrightarrow> t = u \<and> qv_inside v win x \<and> qv_key v k x \<in> Some ` set ks)"

definition bq_state :: "'s bq_process \<Rightarrow> 's" where
  "bq_state p = bs_server (bp_writes p)"

definition bq_lost :: "('s, 'r) bq_keys_view \<Rightarrow> string \<Rightarrow> 's bq_process \<Rightarrow> 's bq_process \<Rightarrow> 'r set" where
  "bq_lost v t p p' = {x. (t, x) \<in> qv_gone v (bq_state p') \<and> (t, x) \<notin> qv_gone v (bq_state p)}"

text \<open>Nothing is under way when the reconcile starts.\<close>

definition bq_settled :: "('s, 'r) bq_keys_view \<Rightarrow> 's \<Rightarrow> bool" where
  "bq_settled v s \<longleftrightarrow> qv_goes_on v s s \<and> (\<forall>i st t x. qv_sub v s i = Some st \<longrightarrow> qv_takes v st t x \<longrightarrow> (t, x) \<in> qv_gone v s)"

definition bq_keys_good :: "('s, 'r) bq_keys_view \<Rightarrow> ('s bq_process, unit) act \<Rightarrow> 's bq_sink \<Rightarrow> 's bq_process \<Rightarrow> bool" where
  "bq_keys_good v connect sk p \<longleftrightarrow> bq_keys_service v sk \<and> bq_settled v (bq_state p) \<and> (\<forall>q. bq_state (fst (connect q)) = bq_state q)"

lemma qv_valid: "qv_goes_on v s s' \<Longrightarrow> qv_goes_on v s' s'"
  by (simp add: qv_goes_on_def goes_on_def)

lemma query_strings_asks:
  assumes "query_strings sk q what p = (p', r)"
  shows "\<exists>s a. bk_query sk q (bq_state p) = (s, a) \<and> bq_state p' = s
    \<and> (\<forall>ks. r = Inr ks \<longrightarrow> (\<exists>rows. a = Inr rows \<and> first_column what rows = Inr ks))"
  using assms
  by (auto simp: query_strings_def query_rows_def call_service_def on_writes_def act_on_def ask_service_def act_seq_def act_lift_def
      or_failed_def bq_state_def split: prod.splits sum.splits)

lemma query_keeps:
  assumes "bq_keys_service v sk" "query_strings sk q what p = (p', r)"
  shows "qv_goes_on v (bq_state p) (bq_state p') \<and> qv_sub v (bq_state p') = qv_sub v (bq_state p) \<and> qv_gone v (bq_state p) \<subseteq> qv_gone v (bq_state p')"
proof -
  obtain a where a: "bk_query sk q (bq_state p) = (bq_state p', a)" using query_strings_asks[OF assms(2)] by auto
  note law = assms(1)[unfolded bq_keys_service_def, THEN conjunct2, THEN conjunct2, THEN conjunct1]
  show ?thesis by (rule law[THEN spec, THEN spec, THEN spec, THEN spec, THEN mp, OF a])
qed

lemma query_settled:
  assumes law: "bq_keys_service v sk" and q: "query_strings sk q what p = (p', r)" and s: "bq_settled v (bq_state p)"
  shows "bq_settled v (bq_state p')" "bq_lost v t p p' = {}"
proof -
  note k = query_keeps[OF law q]
  show "bq_settled v (bq_state p')" using k s qv_valid unfolding bq_settled_def by (metis subsetD)
  have "\<exists>i st. qv_sub v (bq_state p') i = Some st \<and> qv_takes v st t x" if "(t, x) \<in> qv_gone v (bq_state p')" for x
    using law that unfolding bq_keys_service_def by (elim conjE) blast
  then show "bq_lost v t p p' = {}" using k s unfolding bq_settled_def bq_lost_def by fastforce
qed

text \<open>What a call has submitted: nothing but statements of the list.\<close>

definition submits :: "('s, 'r) bq_keys_view \<Rightarrow> string set \<Rightarrow> 's \<Rightarrow> 's \<Rightarrow> bool" where
  "submits v sts s s' \<longleftrightarrow> qv_goes_on v s s' \<and> (\<forall>i st. qv_sub v s' i = Some st \<longrightarrow> qv_sub v s i = Some st \<or> st \<in> sts)"

lemma qv_trans: "qv_goes_on v s t \<Longrightarrow> qv_goes_on v t u \<Longrightarrow> qv_goes_on v s u"
  unfolding qv_goes_on_def by (rule goes_on_trans)

lemma submits_trans:
  assumes "submits v A s s1" "submits v B s1 s2" shows "submits v (A \<union> B) s s2"
  unfolding submits_def
proof (intro conjI allI impI)
  show "qv_goes_on v s s2" using assms qv_trans[of v s s1 s2] by (simp add: submits_def)
  fix i st assume "qv_sub v s2 i = Some st"
  then have "qv_sub v s1 i = Some st \<or> st \<in> B" using assms(2) by (simp add: submits_def)
  then show "qv_sub v s i = Some st \<or> st \<in> A \<union> B" using assms(1) by (auto simp: submits_def)
qed

lemma submits_more: "submits v A s s' \<Longrightarrow> A \<subseteq> B \<Longrightarrow> submits v B s s'"
  by (auto simp: submits_def)

lemma run_statement_submits:
  assumes law: "bq_keys_service v sk" and valid: "qv_goes_on v (bq_state p) (bq_state p)"
    and run: "run_statement sk query prefix t p = (p', r)"
  shows "submits v {query} (bq_state p) (bq_state p')"
proof -
  obtain s' a where j: "run_query_job (bk_jobs sk) (bk_polls sk) query prefix t (bq_state p) = (s', a)"
    by (cases "run_query_job (bk_jobs sk) (bk_polls sk) query prefix t (bq_state p)")
  have s': "bq_state p' = s'"
    using run j by (auto simp: run_statement_def on_jobs_def on_writes_def act_on_def act_seq_def act_ok_def act_err_def bq_state_def
        split: prod.splits sum.splits option.splits)
  have "jobs_once (qv_sub v) (qv_app v) (qv_dead v) (bk_jobs sk)" using law by (simp add: bq_keys_service_def)
  from job_attempts_once[OF this j[unfolded run_query_job_def] valid[unfolded qv_goes_on_def]]
  obtain ids where "qv_goes_on v (bq_state p) s'" and ids: "applied_at_most_once (qv_sub v) (qv_app v) (qv_dead v) query ids (bq_state p) s'"
    unfolding qv_goes_on_def by blast
  moreover have "qv_sub v (bq_state p) i = Some st \<or> st = query" if "qv_sub v s' i = Some st" for i st
    using ids that unfolding applied_at_most_once_def by (cases "i \<in> ids") auto
  ultimately show ?thesis by (auto simp: submits_def s')
qed

definition chunk_statements :: "'s bq_sink \<Rightarrow> string \<Rightarrow> string \<Rightarrow> string \<Rightarrow> string option \<Rightarrow> string list list \<Rightarrow> string set" where
  "chunk_statements sk t key ty window chunks =
     {delete_statement sk t key window lits | lits chunk. chunk \<in> set chunks \<and> bq_key_literals (bk_is_number sk) ty key chunk = Inr lits}"

lemma delete_chunks_submit:
  assumes law: "bq_keys_service v sk"
  shows "bq_delete_chunks sk t k ty win n chunks p = (p', r) \<Longrightarrow> qv_goes_on v (bq_state p) (bq_state p)
    \<Longrightarrow> submits v (chunk_statements sk t k ty win chunks) (bq_state p) (bq_state p')"
proof (induction chunks arbitrary: n p)
  case Nil
  then show ?case by (simp add: act_ok_def submits_def)
next
  case (Cons chunk rest)
  show ?case
  proof (cases "bq_key_literals (bk_is_number sk) ty k chunk")
    case (Inl e)
    then show ?thesis using Cons.prems by (simp add: act_seq_def act_lift_def submits_def)
  next
    case (Inr lits)
    let ?st = "delete_statement sk t k win lits"
    let ?q = "count_keys_sql sk t k win lits"
    obtain p1 c where q: "query_strings sk ?q ''delete key count'' p = (p1, c)" by (cases "query_strings sk ?q ''delete key count'' p")
    have one: "submits v {} (bq_state p) (bq_state p1)" using query_keeps[OF law q] by (auto simp: submits_def)
    have valid1: "qv_goes_on v (bq_state p1) (bq_state p1)" by (rule qv_valid[OF conjunct1[OF query_keeps[OF law q]]])
    have sts1: "?st \<in> chunk_statements sk t k ty win (chunk # rest)"
      unfolding chunk_statements_def using Inr by (intro CollectI exI[of _ lits] exI[of _ chunk] conjI) simp_all
    have sts2: "chunk_statements sk t k ty win rest \<subseteq> chunk_statements sk t k ty win (chunk # rest)"
      by (rule subsetI, unfold chunk_statements_def mem_Collect_eq, elim exE conjE, intro exI conjI, assumption, rule list.set_intros(2))
    show ?thesis
    proof (cases c)
      case c: (Inl e)
      then have "p' = p1" using Cons.prems(1) Inr q by (simp add: act_seq_def act_lift_def)
      then show ?thesis using submits_more[OF one] by simp
    next
      case c: (Inr counts)
      obtain p2 j where j: "run_statement sk ?st ''delete'' t p1 = (p2, j)" by (cases "run_statement sk ?st ''delete'' t p1")
      have two: "submits v {?st} (bq_state p) (bq_state p2)"
        using submits_trans[OF one run_statement_submits[OF law valid1 j]] by simp
      show ?thesis
      proof (cases j)
        case (Inl e)
        then have "p' = p2" using Cons.prems(1) Inr q c j by (simp add: act_seq_def act_lift_def)
        then show ?thesis using submits_more[OF two] sts1 by simp
      next
        case j2: (Inr job)
        have rec: "bq_delete_chunks sk t k ty win (n + parsed_count counts) rest p2 = (p', r)"
          using Cons.prems(1) Inr q c j j2 by (simp add: act_seq_def act_lift_def)
        have "qv_goes_on v (bq_state p2) (bq_state p2)" using two qv_valid by (auto simp: submits_def)
        from submits_trans[OF two Cons.IH[OF rec this]] show ?thesis by (rule submits_more) (use sts1 sts2 in blast)
      qed
    qed
  qed
qed

lemma connect_keeps:
  assumes "bq_keys_good v connect sk p" "connect p = (p', c)"
  shows "bq_keys_good v connect sk p' \<and> bq_lost v t p p' = {}"
proof -
  have "bq_state p' = bq_state p" using assms by (metis bq_keys_good_def fst_conv)
  then show ?thesis using assms(1) by (simp add: bq_keys_good_def bq_lost_def)
qed

lemma statement_of_chunk:
  assumes law: "bq_keys_service v sk" and st: "st \<in> chunk_statements sk u k ty win (chunks_of DELETE_KEY_CHUNK ks)"
    and shown: "list_all (qv_rendered v u k) ks" and win: "qv_predicate v win" and takes: "qv_takes v st t x"
  shows "t = u \<and> qv_inside v win x \<and> qv_key v k x \<in> Some ` set ks"
proof -
  have pos: "0 < DELETE_KEY_CHUNK" by (simp add: DELETE_KEY_CHUNK_def)
  obtain lits chunk where c: "st = delete_statement sk u k win lits" "chunk \<in> set (chunks_of DELETE_KEY_CHUNK ks)"
      "bq_key_literals (bk_is_number sk) ty k chunk = Inr lits"
    using st unfolding chunk_statements_def by blast
  have "list_all (qv_rendered v u k) chunk" using c(2) shown list_all_chunks[OF pos, of "qv_rendered v u k" ks] by (simp add: list_all_iff)
  moreover have "\<forall>ty k ks lits u win t x. bq_key_literals (bk_is_number sk) ty k ks = Inr lits \<longrightarrow> list_all (qv_rendered v u k) ks \<longrightarrow> qv_predicate v win
      \<longrightarrow> qv_takes v (delete_statement sk u k win lits) t x \<longrightarrow> t = u \<and> qv_inside v win x \<and> qv_key v k x \<in> Some ` set ks"
    using law unfolding bq_keys_service_def by (elim conjE) assumption
  ultimately have "t = u \<and> qv_inside v win x \<and> qv_key v k x \<in> Some ` set chunk" using c(1,3) takes win by blast
  moreover have "set chunk \<subseteq> set ks" using c(2) conjunct1[OF chunks_of_concat[OF pos, of ks]] by (metis UN_upper set_concat)
  ultimately show ?thesis by blast
qed

interpretation bq_keys: key_store "bq_key_dest connect sk" "bq_keys_good v connect sk" "bq_lost v" "qv_key v" "qv_inside v" "qv_rendered v" "qv_predicate v"
proof (unfold_locales)
  fix t p show "bq_lost v t p p = {}" by (simp add: bq_lost_def)
next
  fix x t p p'' p' assume "x \<in> bq_lost v t p p''"
  then show "x \<in> bq_lost v t p p' \<or> x \<in> bq_lost v t p' p''" by (auto simp: bq_lost_def)
next
  fix p p' c t assume g: "bq_keys_good v connect sk p" and c: "kd_connect (bq_key_dest connect sk) p = (p', c)"
  have "connect p = (p', c)" using c by (simp add: bq_key_dest_def)
  from connect_keeps[OF g this] show "bq_keys_good v connect sk p' \<and> bq_lost v t p p' = {}" .
next
  fix p p' r t u k win
  assume g: "bq_keys_good v connect sk p" and q: "kd_distinct_keys (bq_key_dest connect sk) u k win p = (p', r)"
  have law: "bq_keys_service v sk" and settled: "bq_settled v (bq_state p)" using g by (simp_all add: bq_keys_good_def)
  have q: "bq_distinct_keys sk u k win p = (p', r)" using q by (simp add: bq_key_dest_def)
  note s = query_settled[OF law q[unfolded bq_distinct_keys_def] settled]
  have "distinct ks \<and> list_all (qv_rendered v u k) ks" if "r = Inr ks" for ks
  proof -
    obtain a where a: "bk_query sk (distinct_keys_sql sk u k win) (bq_state p) = (bq_state p', a)"
        "\<forall>ks. r = Inr ks \<longrightarrow> (\<exists>rows. a = Inr rows \<and> first_column ''distinct keys'' rows = Inr ks)"
      using query_strings_asks[OF q[unfolded bq_distinct_keys_def]] by metis
    then obtain rows where a: "bk_query sk (distinct_keys_sql sk u k win) (bq_state p) = (bq_state p', Inr rows)"
        "first_column ''distinct keys'' rows = Inr ks"
      using \<open>r = Inr ks\<close> by metis
    note read = law[unfolded bq_keys_service_def, THEN conjunct2, THEN conjunct2, THEN conjunct2, THEN conjunct1]
    show ?thesis
      by (rule read[THEN spec, THEN spec, THEN spec, THEN spec, THEN spec, THEN spec, THEN spec, THEN mp, THEN mp, OF a])
  qed
  then show "bq_keys_good v connect sk p' \<and> bq_lost v t p p' = {} \<and> (\<forall>ks. r = Inr ks \<longrightarrow> distinct ks \<and> list_all (qv_rendered v u k) ks)"
    using s g by (simp add: bq_keys_good_def)
next
  fix p p' n t u k ks win x
  assume g: "bq_keys_good v connect sk p" and d: "kd_delete_keys (bq_key_dest connect sk) u k ks win p = (p', n)"
    and shown: "list_all (qv_rendered v u k) ks" and win: "qv_predicate v win" and x: "x \<in> bq_lost v t p p'"
  have law: "bq_keys_service v sk" and settled: "bq_settled v (bq_state p)" using g by (simp_all add: bq_keys_good_def)
  have d: "bq_delete_keys sk u k ks win p = (p', n)" using d by (simp add: bq_key_dest_def)
  obtain p1 ty where ty: "column_data_type sk u k p = (p1, ty)" by (cases "column_data_type sk u k p")
  obtain q a where q: "query_strings sk q ''column data type'' p = (p1, a)"
    using ty by (auto simp: column_data_type_def act_seq_def act_ok_def act_err_def split: prod.splits sum.splits list.splits)
  note one = query_keeps[OF law q] query_settled[OF law q settled]
  have "p' \<noteq> p" "p' \<noteq> p1" using x one(3) by (auto simp: bq_lost_def)
  then obtain name where del: "bq_delete_chunks sk u k name win 0 (chunks_of DELETE_KEY_CHUNK ks) p1 = (p', n)"
    using d ty by (auto simp: bq_delete_keys_def act_seq_def act_ok_def split: if_splits sum.splits)
  have sub: "submits v (chunk_statements sk u k name win (chunks_of DELETE_KEY_CHUNK ks)) (bq_state p1) (bq_state p')"
    by (rule delete_chunks_submit[OF law del qv_valid[OF conjunct1[OF one(1)]]])
  obtain i st where st: "qv_sub v (bq_state p') i = Some st" "qv_takes v st t x"
    using law[unfolded bq_keys_service_def, THEN conjunct2, THEN conjunct1, THEN spec, THEN spec, THEN spec, THEN mp] x unfolding bq_lost_def by blast
  have "qv_sub v (bq_state p) i \<noteq> Some st" using st settled x unfolding bq_settled_def bq_lost_def by blast
  then have "st \<in> chunk_statements sk u k name win (chunks_of DELETE_KEY_CHUNK ks)"
    using sub st(1) one(1) unfolding submits_def by metis
  from statement_of_chunk[OF law this shown win st(2)] show "t = u \<and> qv_inside v win x \<and> qv_key v k x \<in> Some ` set ks" .
qed

section \<open>What a reconcile does\<close>

text \<open>C37. A reconcile against ClickHouse, whose window is a condition of its own, removes only orphans: the key of every row it
  takes out of any table was read in the destination table and was not among the source's keys read after that; and it takes
  one out only when told to delete, inside the window, of no more keys than the ceiling allows, and never when both sides
  have keys and none in common.  (When the source has none, every key of the window is an orphan.)\<close>

theorem reconcile_removes_only_orphans:
  assumes "ch_keys_good v is_number connect sk w"
    and "reconcile_keys src read (ch_key_dest is_number connect sk) cfg w = (w', r)"
    and "\<And>w w' r t. read w = (w', r) \<Longrightarrow> ch_lost v t w w' = {} \<and> (\<forall>ks. r = Inr ks \<longrightarrow> distinct ks)"
    and "kv_predicate v (effective_dest_window cfg)" and "x \<in> ch_lost v t w w'"
  shows "t = rc_dest_table cfg \<and> orphaned read (ch_key_dest is_number connect sk) cfg (kv_key v) (kv_inside v) x"
proof (rule ch_keys.reconcile_removes[OF assms(1,2) _ assms(4,5)])
  fix t w w' r assume "ch_keys_good v is_number connect sk w" "read w = (w', r)"
  then show "ch_keys_good v is_number connect sk w' \<and> ch_lost v t w w' = {} \<and> (\<forall>ks. r = Inr ks \<longrightarrow> distinct ks)"
    using assms(3) by (auto simp: ch_keys_good_def)
qed

text \<open>A table of two rows, of keys 1 and 3; the source has key 1.\<close>

definition two_condition :: string where
  "two_condition = and_where [Some ''day = 1'', Some (quote_ident ''id'' @ '' IN ('' @ ''3'' @ '')'')]"

definition two_ask :: "request \<Rightarrow> string list \<Rightarrow> string list \<times> reply" where
  "two_ask rq s =
     (case rq_statement rq of
        DistinctKeys t k c \<Rightarrow>
          let b = concat (map (\<lambda>x. x @ [LF]) s) in
          if distinct (body_lines b) \<and> list_all (\<lambda>x. x \<in> {''1'', ''3''}) (body_lines b) then (s, Reply 200 (Some b)) else (s, Lost [])
      | ReadColumnType t c \<Rightarrow> (s, Reply 200 (Some ''UInt64''))
      | CountWhere t c \<Rightarrow> (s, Reply 200 (Some ''1''))
      | DeleteWhere t c \<Rightarrow> if t = ''t'' \<and> c = two_condition then (removeAll ''3'' s, Reply 200 (Some [])) else (s, Lost [])
      | _ \<Rightarrow> (s, Lost []))"

definition two_view :: "(string list, string) keys_view" where
  "two_view = \<lparr>kv_rows = (\<lambda>s t. if t = ''t'' then mset s else {#}), kv_selects = (\<lambda>t c x. t = ''t'' \<and> c = two_condition \<and> x = ''3''),
     kv_key = (\<lambda>k x. Some x), kv_inside = (\<lambda>_ _. True), kv_rendered = (\<lambda>t k x. x \<in> {''1'', ''3''}),
     kv_predicate = (\<lambda>win. win = Some ''day = 1'')\<rparr>"

definition two_sink :: "string list ch_sink" where
  "two_sink = \<lparr>cs_cfg = \<lparr>cc_database = ''db'', cc_insert_dedup_token = True, cc_settings = []\<rparr>, cs_run_token = ''run'',
     cs_ask = two_ask, cs_wire = (\<lambda>_. 0)\<rparr>"

definition two_world :: "string list \<Rightarrow> string list ch_world" where
  "two_world s = \<lparr>cw_server = s, cw_insert_epoch = 0, cw_state_epoch = 0, cw_ready = []\<rparr>"

definition two_config :: reconcile_config where
  "two_config = \<lparr>rc_source_table = Some ''orders'', rc_source_query = None, rc_dest_table = ''t'', rc_key = ''id'', rc_window = Some ''day = 1'',
     rc_dest_window = None, rc_delete = True, rc_max_delete_keys = 1, rc_sample_limit = 10\<rparr>"

lemma third_from_end:
  "rev (and_where [win, Some (p @ '')'')]) ! 2 = (if p = [] then rev (and_where [win, Some (p @ '')'')]) ! 2 else List.last p)"
  by (cases win; cases p rule: rev_cases) (auto simp: and_where_def List.map_filter_def nth_Cons')

lemma last_join: "xs \<noteq> [] \<Longrightarrow> List.last xs \<noteq> [] \<Longrightarrow> join sep xs \<noteq> [] \<and> List.last (join sep xs) = List.last (List.last xs)"
  by (induction sep xs rule: join.induct) auto

lemma two_view_condition:
  assumes lits: "key_literals (\<lambda>_. True) bare k ks = Inr lits" and shown: "list_all (\<lambda>x. x \<in> {''1'', ''3''}) ks"
    and c: "two_condition = and_where [win, Some (quote_ident k @ '' IN ('' @ join '', '' lits @ '')'')]"
  shows "''3'' \<in> set ks"
proof (rule ccontr)
  assume "''3'' \<notin> set ks"
  then have ones: "set ks \<subseteq> {''1''}" using shown by (auto simp: list_all_iff)
  have one: "set lits \<subseteq> {''1'', literal ''1''}"
  proof (cases "list_ex (\<lambda>p. starts_with p bare) [''Int'', ''UInt'', ''Float'', ''Decimal'']")
    case True
    then have "try_map (\<lambda>v. if \<not> list_ex is_ws v then Inr v else Inl (Config (''key value '' @ quoted v @ '' is not a valid literal for the numeric column '' @ quoted k))) ks = Inr lits"
      using lits unfolding key_literals_def Let_def by simp
    from try_map_set[OF this] show ?thesis using ones by (metis (no_types, lifting) insertCI subset_singletonD empty_iff insert_iff sum.inject(2) sum.distinct(1) subsetI)
  next
    case False
    then have "try_map (\<lambda>v. Inr (literal v) :: string res) ks = Inr lits" using lits unfolding key_literals_def Let_def by simp
    from try_map_set[OF this] show ?thesis using ones by auto
  qed
  have "rev two_condition ! 2 = CHR ''3''" by code_simp
  then have "List.last (quote_ident k @ '' IN ('' @ join '', '' lits) = CHR ''3''"
    using third_from_end[of win "quote_ident k @ '' IN ('' @ join '', '' lits"] c by simp
  then show False
  proof (cases lits rule: rev_cases)
    case (snoc ys y)
    then have y: "y = ''1'' \<or> y = literal ''1''" using one by auto
    then have "y \<noteq> []" by (auto simp: literal_def)
    then have "List.last (quote_ident k @ '' IN ('' @ join '', '' lits) = List.last y"
      using last_join[of lits "'', ''"] snoc by (simp add: last_append)
    then show False using y \<open>List.last (quote_ident k @ '' IN ('' @ join '', '' lits) = CHR ''3''\<close> by (auto simp: literal_def char_defs)
  qed simp
qed

lemma removed_all: "count (mset (removeAll a s)) x < count (mset s) x \<Longrightarrow> x = a"
  by (cases "x = a") (simp_all add: removeAll_filter_not_eq)

lemma two_server: "keys_server two_view (\<lambda>_. True) two_ask"
  unfolding keys_server_def
proof (intro conjI allI impI)
  fix rq s s' rp t x
  assume "two_ask rq s = (s', rp)" "x \<in> lost (kv_rows two_view) t s s'"
  then show "\<exists>c. rq_statement rq = DeleteWhere t c \<and> kv_selects two_view t c x"
    by (auto simp: two_ask_def two_view_def lost_def Let_def in_diff_count dest: removed_all split: statement.splits if_splits)
next
  fix rq s s' status b t k c
  assume "two_ask rq s = (s', Reply status (Some b))" "rq_statement rq = DistinctKeys t k c"
  then show "distinct (body_lines b)" "list_all (kv_rendered two_view t k) (body_lines b)"
    by (auto simp: two_ask_def two_view_def Let_def split: if_splits)
next
  fix bare t k ks lits win x
  assume "key_literals (\<lambda>_. True) bare k ks = Inr lits" "list_all (kv_rendered two_view t k) ks"
    "kv_selects two_view t (and_where [win, Some (quote_ident k @ '' IN ('' @ join '', '' lits @ '')'')]) x"
  then show "kv_inside two_view win x" "kv_key two_view k x \<in> Some ` set ks"
    using two_view_condition[of bare k ks lits win] by (auto simp: two_view_def)
qed

lemma two_run:
  "reconcile_keys FromPostgres (\<lambda>w. (w, Inr [''1''])) (ch_key_dest (\<lambda>_. True) (act_ok ()) two_sink) two_config (two_world [''1'', ''3''])
     = (two_world [''1''], Inr \<lparr>rr_source_keys = 1, rr_dest_keys = 2, rr_orphan_keys = 1, rr_missing_keys = 0, rr_rows_deleted = 1,
          rr_orphan_sample = [''3''], rr_missing_sample = []\<rparr>)"
  by code_simp

theorem reconcile_removes_only_orphans_witness:
  "\<exists>w' r. reconcile_keys FromPostgres (\<lambda>w. (w, Inr [''1''])) (ch_key_dest (\<lambda>_. True) (act_ok ()) two_sink) two_config (two_world [''1'', ''3'']) = (w', Inr r)
     \<and> ''3'' \<in> ch_lost two_view ''t'' (two_world [''1'', ''3'']) w'
     \<and> orphaned (\<lambda>w. (w, Inr [''1''])) (ch_key_dest (\<lambda>_. True) (act_ok ()) two_sink) two_config (kv_key two_view) (kv_inside two_view) ''3''"
proof -
  have good: "ch_keys_good two_view (\<lambda>_. True) (act_ok ()) two_sink (two_world [''1'', ''3''])"
    using two_server by (simp add: ch_keys_good_def two_sink_def act_ok_def ch_lost_refl)
  have gone: "''3'' \<in> ch_lost two_view ''t'' (two_world [''1'', ''3'']) (two_world [''1''])"
    by (simp add: ch_lost_def lost_def two_view_def two_world_def)
  have win: "kv_predicate two_view (effective_dest_window two_config)"
    by (simp add: two_view_def two_config_def effective_dest_window_def)
  from reconcile_removes_only_orphans[OF good two_run _ win gone] show ?thesis
    using two_run gone by (simp add: ch_lost_refl)
qed

text \<open>An empty source keyset is not refused: with \<open>delete\<close> set and no ceiling every row of the window goes.\<close>

definition all_condition :: string where
  "all_condition = and_where [Some ''day = 1'', Some (quote_ident ''id'' @ '' IN (1, 3)'')]"

definition all_ask :: "request \<Rightarrow> string list \<Rightarrow> string list \<times> reply" where
  "all_ask rq s =
     (case rq_statement rq of
        DistinctKeys t k c \<Rightarrow> (s, Reply 200 (Some (concat (map (\<lambda>x. x @ [LF]) s))))
      | ReadColumnType t c \<Rightarrow> (s, Reply 200 (Some ''UInt64''))
      | CountWhere t c \<Rightarrow> (s, Reply 200 (Some ''2''))
      | DeleteWhere t c \<Rightarrow> if c = all_condition then ([], Reply 200 (Some [])) else (s, Lost [])
      | _ \<Rightarrow> (s, Lost []))"

theorem empty_source_removes_all:
  "reconcile_keys FromPostgres (\<lambda>w. (w, Inr [])) (ch_key_dest (\<lambda>_. True) (act_ok ()) (two_sink\<lparr>cs_ask := all_ask\<rparr>))
       (two_config\<lparr>rc_max_delete_keys := 0\<rparr>) (two_world [''1'', ''3''])
   = (two_world [], Inr \<lparr>rr_source_keys = 0, rr_dest_keys = 2, rr_orphan_keys = 2, rr_missing_keys = 0, rr_rows_deleted = 2,
        rr_orphan_sample = [''1'', ''3''], rr_missing_sample = []\<rparr>)"
  by code_simp

text \<open>C38. A reconcile that returns has counted the drift: for key lists without repetition, the counts are the sizes of the two key
  sets, of the keys only the destination has and of those only the source has, and each sample holds that many distinct
  keys of its difference, up to the limit; when both sides have keys they have one in common; rows are deleted only when told
  to, and a measurement leaves the destination as the source's reading left it.\<close>

theorem reconcile_counts_drift:
  assumes "kd_distinct_keys kd (rc_dest_table cfg) (rc_key cfg) (effective_dest_window cfg) wa = (wb, Inr dest_keys)"
    and "read wb = (wc, Inr source_keys)" and "kd_connect kd w = (wa, Inr ())"
    and "distinct dest_keys" "distinct source_keys" and "reconcile_keys src read kd cfg w = (w', Inr r)"
  shows "rr_source_keys r = card (set source_keys) \<and> rr_dest_keys r = card (set dest_keys)
      \<and> rr_orphan_keys r = card (set dest_keys - set source_keys) \<and> rr_missing_keys r = card (set source_keys - set dest_keys)
      \<and> set (rr_orphan_sample r) \<subseteq> set dest_keys - set source_keys
      \<and> distinct (rr_orphan_sample r) \<and> length (rr_orphan_sample r) = min (rc_sample_limit cfg) (rr_orphan_keys r)
      \<and> set (rr_missing_sample r) \<subseteq> set source_keys - set dest_keys
      \<and> distinct (rr_missing_sample r) \<and> length (rr_missing_sample r) = min (rc_sample_limit cfg) (rr_missing_keys r)
      \<and> (set dest_keys \<inter> set source_keys = {} \<longrightarrow> dest_keys = [] \<or> source_keys = [])
      \<and> (\<not> rc_delete cfg \<or> rr_orphan_keys r = 0 \<longrightarrow> w' = wc \<and> rr_rows_deleted r = 0)"
proof -
  have rep: "repair kd cfg dest_keys source_keys wc = (w', Inr r)"
    using assms(6) by (auto simp: reconcile_keys_def act_seq_def act_lift_def act_err_def assms(1-3) split: if_splits sum.splits)
  have zero: "\<not> zero_overlap dest_keys source_keys"
    using rep by (auto simp: repair_def Let_def act_err_def)
  then have common: "set dest_keys \<inter> set source_keys = {} \<longrightarrow> dest_keys = [] \<or> source_keys = []"
    using no_common_key[OF assms(4,5)] by blast
  obtain n where n: "r = (measured cfg dest_keys source_keys)\<lparr>rr_rows_deleted := n\<rparr>"
    using rep zero by (auto simp: repair_def Let_def act_seq_def act_ok_def act_err_def measured_def split: if_splits prod.splits sum.splits)
  have quiet: "\<not> rc_delete cfg \<or> not_in source_keys dest_keys = [] \<Longrightarrow> w' = wc \<and> n = 0"
    using rep zero n by (auto simp: repair_def Let_def act_ok_def measured_def)
  note len = length_not_in[OF assms(4), of source_keys] length_not_in[OF assms(5), of dest_keys]
  have sub: "set (rr_orphan_sample r) \<subseteq> set dest_keys - set source_keys"
    using set_take_subset[of "rc_sample_limit cfg" "not_in source_keys dest_keys"] by (simp add: n measured_def Let_def)
  have sub2: "set (rr_missing_sample r) \<subseteq> set source_keys - set dest_keys"
    using set_take_subset[of "rc_sample_limit cfg" "not_in dest_keys source_keys"] by (simp add: n measured_def Let_def)
  have dist: "distinct (rr_orphan_sample r)" "distinct (rr_missing_sample r)"
    using assms(4,5) by (simp_all add: n measured_def Let_def not_in_def)
  have none: "rr_orphan_keys r = 0 \<longleftrightarrow> not_in source_keys dest_keys = []"
    by (simp add: n measured_def Let_def)
  have rest: "rr_source_keys r = card (set source_keys)" "rr_dest_keys r = card (set dest_keys)"
    "rr_orphan_keys r = card (set dest_keys - set source_keys)" "rr_missing_keys r = card (set source_keys - set dest_keys)"
    "length (rr_orphan_sample r) = min (rc_sample_limit cfg) (rr_orphan_keys r)" "rr_rows_deleted r = n"
    "length (rr_missing_sample r) = min (rc_sample_limit cfg) (rr_missing_keys r)"
    using len by (simp_all add: n measured_def Let_def min.commute)
  show ?thesis using rest common quiet none sub sub2 dist by metis
qed

theorem reconcile_counts_drift_witness:
  "\<exists>w' r. reconcile_keys FromPostgres (\<lambda>w. (w, Inr [''1''])) (ch_key_dest (\<lambda>_. True) (act_ok ()) two_sink) two_config (two_world [''1'', ''3'']) = (w', Inr r)
     \<and> rr_orphan_keys r = card ({''1'', ''3''} - {''1''} :: string set) \<and> set (rr_orphan_sample r) \<subseteq> {''1'', ''3''} - {''1''}
     \<and> rr_missing_keys r = card ({''1''} - {''1'', ''3''} :: string set)"
proof -
  let ?kd = "ch_key_dest (\<lambda>_. True) (act_ok ()) two_sink" and ?w = "two_world [''1'', ''3'']"
  have d: "kd_distinct_keys ?kd (rc_dest_table two_config) (rc_key two_config) (effective_dest_window two_config) ?w = (?w, Inr [''1'', ''3''])"
    by code_simp
  have s: "(\<lambda>w. (w, Inr [''1''])) ?w = (?w, Inr [''1''] :: string list res)" by simp
  have c: "kd_connect ?kd ?w = (?w, Inr ())" by code_simp
  from reconcile_counts_drift[OF d s c _ _ two_run] two_run show ?thesis by (intro exI conjI) auto
qed

text \<open>A key with a quote, which the server writes with a backslash before it: the destination has the source's keys, and one
  of them counts on both sides.\<close>

definition quoted_key :: string where "quoted_key = ''it'' @ [APOS] @ ''s''"

definition quoted_ask :: "request \<Rightarrow> unit \<Rightarrow> unit \<times> reply" where
  "quoted_ask rq s =
     (case rq_statement rq of
        DistinctKeys t k c \<Rightarrow> (s, Reply 200 (Some (''it'' @ [BSL, APOS] @ ''s'' @ [LF] @ ''2'' @ [LF])))
      | _ \<Rightarrow> (s, Lost []))"

definition quoted_sink :: "unit ch_sink" where
  "quoted_sink = \<lparr>cs_cfg = \<lparr>cc_database = ''db'', cc_insert_dedup_token = True, cc_settings = []\<rparr>, cs_run_token = ''run'',
     cs_ask = quoted_ask, cs_wire = (\<lambda>_. 0)\<rparr>"

theorem quoted_key_is_drift:
  "map tsv_field (body_lines (''it'' @ [BSL, APOS] @ ''s'' @ [LF] @ ''2'' @ [LF])) = [Some quoted_key, Some ''2'']
   \<and> map_sum (\<lambda>_. ()) (\<lambda>r. (rr_orphan_keys r, rr_missing_keys r))
       (snd (reconcile_keys FromPostgres (\<lambda>w. (w, Inr [quoted_key, ''2''])) (ch_key_dest (\<lambda>_. True) (act_ok ()) quoted_sink)
         (two_config\<lparr>rc_delete := False\<rparr>) \<lparr>cw_server = (), cw_insert_epoch = 0, cw_state_epoch = 0, cw_ready = []\<rparr>)) = Inr (1, 1)"
  by code_simp

end
