(* ===== verification/QH_Ch_Laws.thy ===== *)
theory QH_Ch_Laws
  imports QH_Ch_Sink QH_Transfer_Cursor
begin

text \<open>
  What ClickHouse documents of the statements, as a condition on the server, and the sink's operations
  under it: they keep the promises of a destination (\<open>load_sink\<close>, \<open>cursor_sink\<close>).
\<close>

section \<open>The server\<close>

text \<open>What is seen of a server: the rows of each table (before any background merge, each row by the
  columns of the run that it does not hold NULL in), the structure of each table, the rows a table of
  that structure makes of Arrow batches, what inserts with a token have put into a table, whether
  tables drop what they have seen under a token, and the cursor in the newest state row.\<close>

record ('s, 'r, 'c) ch_view =
  cv_rows :: "'s \<Rightarrow> string \<Rightarrow> 'r multiset option"
  cv_shape :: "'s \<Rightarrow> string \<Rightarrow> 'c"
  cv_image :: "'c \<Rightarrow> batch list \<Rightarrow> 'r multiset"
  cv_landed :: "'s \<Rightarrow> string \<Rightarrow> string \<Rightarrow> 'r multiset"
  cv_dedups :: bool
  cv_cursor :: "'s \<Rightarrow> string \<Rightarrow> string \<times> string \<Rightarrow> string option"

fun writes :: "statement \<Rightarrow> string set" where
  "writes (CreateTable t _) = {t}"
| "writes (CreateLike t _) = {t}"
| "writes (AddColumn t _) = {t}"
| "writes (CreateState st) = {st}"
| "writes (MigrateState st) = {st}"
| "writes (OptimizeFinal st) = {st}"
| "writes (ExchangeTables t u) = {t, u}"
| "writes (DropTable t) = {t}"
| "writes (InsertArrow t) = {t}"
| "writes (InsertSelect t _ _) = {t}"
| "writes (DeleteWhere t _) = {t}"
| "writes (InsertState st _ _) = {st}"
| "writes _ = {}"

definition done_ok :: "reply \<Rightarrow> bool" where
  "done_ok rp \<longleftrightarrow> (case rp of Reply status _ \<Rightarrow> succeeded status | Lost _ \<Rightarrow> False)"

definition token_of :: "request \<Rightarrow> string option" where
  "token_of rq = map_of (rq_settings rq) DEDUP_TOKEN_SETTING"

definition already :: "('s, 'r, 'c) ch_view \<Rightarrow> 's \<Rightarrow> string \<Rightarrow> string option \<Rightarrow> 'r multiset" where
  "already v s t token = (case token of Some k \<Rightarrow> if cv_dedups v then cv_landed v s t k else {#} | None \<Rightarrow> {#})"

text \<open>A statement that fails, or whose response is lost, may have run, in part where it moves rows; one
  that succeeds has run.\<close>

fun statement_effect :: "('s, 'r, 'c) ch_view \<Rightarrow> request \<Rightarrow> bool \<Rightarrow> reply \<Rightarrow> 's \<Rightarrow> 's \<Rightarrow> statement \<Rightarrow> bool" where
  "statement_effect v rq ok rp s s' (ExistsTable t) \<longleftrightarrow>
     (\<forall>status b. rp = Reply status (Some b) \<and> succeeded status \<and> trim b = ''1'' \<longrightarrow> cv_rows v s t \<noteq> None)"
| "statement_effect v rq ok rp s s' (CreateTable t _) \<longleftrightarrow>
     same_or_created (cv_rows v s t) (cv_rows v s' t) \<and> (ok \<longrightarrow> cv_rows v s' t \<noteq> None)"
| "statement_effect v rq ok rp s s' (CreateLike t _) \<longleftrightarrow>
     same_or_created (cv_rows v s t) (cv_rows v s' t) \<and> (ok \<longrightarrow> cv_rows v s' t \<noteq> None)"
| "statement_effect v rq ok rp s s' (AddColumn t _) \<longleftrightarrow> cv_rows v s' t = cv_rows v s t"
| "statement_effect v rq ok rp s s' (ExchangeTables t u) \<longleftrightarrow>
     cv_rows v s' t = cv_rows v s u \<and> cv_rows v s' u = cv_rows v s t
     \<or> \<not> ok \<and> cv_rows v s' t = cv_rows v s t \<and> cv_rows v s' u = cv_rows v s u"
| "statement_effect v rq ok rp s s' (DropTable t) \<longleftrightarrow> (ok \<longrightarrow> cv_rows v s' t = None)"
| "statement_effect v rq ok rp s s' (InsertArrow t) \<longleftrightarrow>
     (\<forall>R. cv_rows v s t = Some R \<longrightarrow>
       (let rest = cv_image v (cv_shape v s t) (rq_body rq) - already v s t (token_of rq)
        in \<exists>X. X \<subseteq># rest \<and> (ok \<longrightarrow> X = rest) \<and> cv_rows v s' t = Some (R + X) \<and> cv_shape v s' t = cv_shape v s t
             \<and> already v s' t (token_of rq) = already v s t (token_of rq)
                 + (if cv_dedups v \<and> token_of rq \<noteq> None then X else {#})))"
| "statement_effect v rq ok rp s s' (InsertSelect t u _) \<longleftrightarrow>
     (\<forall>D R. t \<noteq> u \<and> ok \<and> cv_rows v s t = Some D \<and> cv_rows v s u = Some R \<longrightarrow> cv_rows v s' t = Some (D + R))"
| "statement_effect v rq ok rp s s' (DeleteWhere t _) \<longleftrightarrow>
     (\<forall>D. cv_rows v s t = Some D \<longrightarrow> (\<exists>D'. D' \<subseteq># D \<and> cv_rows v s' t = Some D'))"
| "statement_effect v rq ok rp s s' (InsertState st _ row) \<longleftrightarrow>
     (let k = (cr_source row, cr_dest row) in
      (\<forall>st' k'. (st', k') \<noteq> (st, k) \<longrightarrow> cv_cursor v s' st' k' = cv_cursor v s st' k')
      \<and> (cv_cursor v s' st k = stored (cr_watermark row) \<or> \<not> ok \<and> cv_cursor v s' st k = cv_cursor v s st k))"
| "statement_effect v rq ok rp s s' _ \<longleftrightarrow> True"

definition is_state_write :: "statement \<Rightarrow> bool" where
  "is_state_write st \<longleftrightarrow> (case st of InsertState _ _ _ \<Rightarrow> True | _ \<Rightarrow> False)"

definition answers :: "('s, 'r, 'c) ch_view \<Rightarrow> request \<Rightarrow> 's \<Rightarrow> 's \<Rightarrow> reply \<Rightarrow> bool" where
  "answers v rq s s' rp \<longleftrightarrow>
     statement_effect v rq (done_ok rp) rp s s' (rq_statement rq)
     \<and> (\<forall>t. t \<notin> writes (rq_statement rq) \<longrightarrow> cv_rows v s' t = cv_rows v s t)
     \<and> (\<not> is_state_write (rq_statement rq) \<longrightarrow> cv_cursor v s' = cv_cursor v s)
     \<and> (\<forall>t k. cv_landed v s' t k \<noteq> {#} \<longrightarrow> (\<exists>u. cv_landed v s u k \<noteq> {#}) \<or> token_of rq = Some k)"

definition clickhouse :: "('s, 'r, 'c) ch_view \<Rightarrow> (request \<Rightarrow> 's \<Rightarrow> 's \<times> reply) \<Rightarrow> bool" where
  "clickhouse v ask \<longleftrightarrow>
     (\<forall>rq s s' rp. ask rq s = (s', rp) \<longrightarrow> answers v rq s s' rp)
     \<and> (\<forall>c bs. size (cv_image v c bs) = sum_list (map (\<lambda>b. length (bt_rows b)) bs))"

text \<open>The sink's side: the caller has not set the token itself, and no token it will take is used.\<close>

definition ch_good :: "('s, 'r, 'c) ch_view \<Rightarrow> 's ch_sink \<Rightarrow> 's ch_world \<Rightarrow> bool" where
  "ch_good v sk w \<longleftrightarrow>
     clickhouse v (cs_ask sk) \<and> map_of (cc_settings (cs_cfg sk)) DEDUP_TOKEN_SETTING = None
     \<and> (\<forall>n t. cw_insert_epoch w \<le> n \<longrightarrow> cv_landed v (cw_server w) t (cs_run_token sk @ ''-'' @ show_nat n) = {#})"

definition ch_held :: "('s, 'r, 'c) ch_view \<Rightarrow> transfer_config \<Rightarrow> 's ch_world \<Rightarrow> string \<Rightarrow> 'r multiset option" where
  "ch_held v cfg w t = (if t = cfg_state_table_name cfg then Some {#} else cv_rows v (cw_server w) t)"

definition ch_staged :: "('s, 'r, 'c) ch_view \<Rightarrow> transfer_config \<Rightarrow> 's ch_world \<Rightarrow> string \<Rightarrow> 'r multiset option" where
  "ch_staged v cfg w t = (if t = cfg_state_table_name cfg then None else cv_rows v (cw_server w) t)"

definition ch_saved :: "('s, 'r, 'c) ch_view \<Rightarrow> transfer_config \<Rightarrow> 's ch_world \<Rightarrow> string option" where
  "ch_saved v cfg w = cv_cursor v (cw_server w) (cfg_state_table_name cfg) (effective_state_key cfg, cfg_dest_table cfg)"

text \<open>How often an insert may land: once where tokens are sent and honoured, else once per attempt.\<close>

definition ch_copies :: "('s, 'r, 'c) ch_view \<Rightarrow> 's ch_sink \<Rightarrow> nat" where
  "ch_copies v sk = (if cc_insert_dedup_token (cs_cfg sk) \<and> cv_dedups v then 1 else MAX_INSERT_ATTEMPTS)"

definition ch_lands :: "('s, 'r, 'c) ch_view \<Rightarrow> nat \<Rightarrow> batch list \<Rightarrow> 'r multiset \<Rightarrow> bool" where
  "ch_lands v copies bs X \<longleftrightarrow> (\<exists>c. cv_image v c bs \<subseteq># X \<and> X \<subseteq># repeat_mset copies (cv_image v c bs))"

section \<open>Keeping, composed\<close>

named_theorems keeps_intros

lemma keeps_same: "(\<And>w. fst (m w) = w) \<Longrightarrow> keeps g h s c T m"
  by (simp add: keeps_def)

lemma keeps_ok [keeps_intros]: "keeps g h s c T (act_ok a)"
  and keeps_err [keeps_intros]: "keeps g h s c T (act_err e)"
  and keeps_lift [keeps_intros]: "keeps g h s c T (act_lift r)"
  and keeps_get [keeps_intros]: "keeps g h s c T (act_get f)"
  by (simp_all add: keeps_same act_ok_def act_err_def act_lift_def act_get_def)

lemma keeps_seq [keeps_intros]:
  assumes "keeps g h s c T m" "\<And>a. keeps g h s c T (f a)"
  shows "keeps g h s c T (act_seq m f)"
  unfolding keeps_def
proof (intro allI impI)
  fix w assume w: "g w"
  obtain w1 r where m: "m w = (w1, r)" by (cases "m w")
  have one: "g w1 \<and> c w1 = c w \<and> (\<forall>t. t \<notin> T \<longrightarrow> h w1 t = h w t \<and> s w1 t = s w t)"
    by (rule keepsD[OF assms(1) w m])
  show "g (fst (act_seq m f w)) \<and> c (fst (act_seq m f w)) = c w
      \<and> (\<forall>t. t \<notin> T \<longrightarrow> h (fst (act_seq m f w)) t = h w t \<and> s (fst (act_seq m f w)) t = s w t)"
  proof (cases r)
    case (Inr a)
    show ?thesis
      using one keepsD[OF assms(2)[of a], of w1 "fst (f a w1)" "snd (f a w1)"] by (simp add: act_seq_def m Inr)
  qed (use one in \<open>simp add: act_seq_def m\<close>)
qed

lemma keeps_result [keeps_intros]: "keeps g h s c T m \<Longrightarrow> keeps g h s c T (act_result m)"
  by (simp add: keeps_def act_result_def case_prod_beta)

lemma keeps_if [keeps_intros]: "(b \<Longrightarrow> keeps g h s c T m) \<Longrightarrow> (\<not> b \<Longrightarrow> keeps g h s c T n) \<Longrightarrow> keeps g h s c T (if b then m else n)"
  by simp

lemma keeps_option [keeps_intros]:
  "keeps g h s c T m \<Longrightarrow> (\<And>a. keeps g h s c T (f a)) \<Longrightarrow> keeps g h s c T (case x of None \<Rightarrow> m | Some a \<Rightarrow> f a)"
  by (cases x) auto

lemma keeps_sum [keeps_intros]:
  "(\<And>e. keeps g h s c T (m e)) \<Longrightarrow> (\<And>a. keeps g h s c T (f a)) \<Longrightarrow> keeps g h s c T (case x of Inl e \<Rightarrow> m e | Inr a \<Rightarrow> f a)"
  by (cases x) auto

lemma keeps_each [keeps_intros]: "(\<And>x. keeps g h s c T (f x)) \<Longrightarrow> keeps g h s c T (act_each f xs)"
  by (induction xs) (auto intro: keeps_intros)

lemma keeps_more: "keeps g h s c T m \<Longrightarrow> T \<subseteq> T' \<Longrightarrow> keeps g h s c T' m"
  by (auto simp: keeps_def)

section \<open>One request\<close>

text \<open>A request that is not a state write, and carries no token that was set here, changes only what its
  statement writes, and the state table does not count.\<close>

lemma sent_keeps:
  fixes v :: "('s, 'r, 'c) ch_view"
  assumes "\<not> is_state_write (rq_statement rq)" "token_of rq = map_of (cc_settings (cs_cfg sk)) DEDUP_TOKEN_SETTING"
    and "\<And>s s' rp t. answers v rq s s' rp \<Longrightarrow> t \<notin> T \<Longrightarrow> t \<noteq> cfg_state_table_name cfg \<Longrightarrow> cv_rows v s' t = cv_rows v s t"
  shows "keeps (ch_good v sk) (ch_held v cfg) (ch_staged v cfg) (ch_saved v cfg) T (send_request sk rq)"
  unfolding keeps_def
proof (intro allI impI)
  fix w assume good: "ch_good v sk w"
  obtain s' rp where ask: "cs_ask sk rq (cw_server w) = (s', rp)" by (cases "cs_ask sk rq (cw_server w)")
  have ans: "answers v rq (cw_server w) s' rp" using good ask by (auto simp: ch_good_def clickhouse_def)
  have "token_of rq = None" using good assms(2) by (simp add: ch_good_def)
  then have "cv_landed v s' t k \<noteq> {#} \<Longrightarrow> \<exists>u. cv_landed v (cw_server w) u k \<noteq> {#}" for t k
    using ans unfolding answers_def by (metis option.distinct(1))
  then have "ch_good v sk (w\<lparr>cw_server := s'\<rparr>)"
    using good unfolding ch_good_def by auto
  moreover have "cv_cursor v s' = cv_cursor v (cw_server w)"
    using ans assms(1) by (simp add: answers_def)
  ultimately show "ch_good v sk (fst (send_request sk rq w)) \<and> ch_saved v cfg (fst (send_request sk rq w)) = ch_saved v cfg w
      \<and> (\<forall>t. t \<notin> T \<longrightarrow> ch_held v cfg (fst (send_request sk rq w)) t = ch_held v cfg w t \<and> ch_staged v cfg (fst (send_request sk rq w)) t = ch_staged v cfg w t)"
    using assms(3)[OF ans] by (auto simp: send_request_def ask ch_saved_def ch_held_def ch_staged_def)
qed

lemma asked_keeps:
  assumes "\<not> is_state_write st" "writes st \<subseteq> insert (cfg_state_table_name cfg) T"
  shows "keeps (ch_good v sk) (ch_held v cfg) (ch_staged v cfg) (ch_saved v cfg) T (ask_body sk st)"
  unfolding ask_body_def
  by (intro keeps_intros sent_keeps) (use assms in \<open>auto simp: base_request_def token_of_def answers_def\<close>)

lemma column_added_keeps:
  "keeps (ch_good v sk) (ch_held v cfg) (ch_staged v cfg) (ch_saved v cfg) T (ask_body sk (AddColumn t c))"
  unfolding ask_body_def
proof (intro keeps_intros sent_keeps)
  fix s s' rp u assume "answers v (base_request sk (AddColumn t c)) s s' rp"
  then show "cv_rows v s' u = cv_rows v s u" by (cases "u = t") (auto simp: answers_def base_request_def)
qed (auto simp: base_request_def token_of_def is_state_write_def)

lemma ask_inv:
  assumes "ch_good v sk w" "ask_body sk st w = (w', r)"
  shows "\<exists>s' rp. w' = w\<lparr>cw_server := s'\<rparr> \<and> r = check_reply rp \<and> done_ok rp = is_ok r
    \<and> answers v (base_request sk st) (cw_server w) s' rp"
proof -
  obtain s' rp where ask: "cs_ask sk (base_request sk st) (cw_server w) = (s', rp)"
    by (cases "cs_ask sk (base_request sk st) (cw_server w)")
  have "answers v (base_request sk st) (cw_server w) s' rp"
    using assms(1) ask by (auto simp: ch_good_def clickhouse_def)
  moreover have "w' = w\<lparr>cw_server := s'\<rparr>" "r = check_reply rp"
    using assms(2) ask by (simp_all add: ask_body_def send_request_def act_seq_def act_lift_def)
  ultimately show ?thesis by (intro exI[of _ s'] exI[of _ rp]) (cases rp, auto simp: done_ok_def)
qed


lemmas ch_op_defs = ch_table_exists_def ch_column_types_def ch_canonical_type_def ch_table_engine_def ch_stage_for_retries_def
  ch_non_replacing_engine_def ch_row_count_def ch_merged_count_def ch_unsourced_def ch_dropped_def ch_primary_key_columns_def
  ch_add_missing_def ch_create_table_def ch_clone_structure_def ch_atomic_swap_def ch_drop_table_def ch_insert_select_def
  ch_delete_stale_def ch_ensure_state_def execute_def query_scalar_def query_column_def count_where_def

abbreviation ch_keeps :: "('s, 'r, 'c) ch_view \<Rightarrow> 's ch_sink \<Rightarrow> transfer_config \<Rightarrow> string set \<Rightarrow> ('s ch_world, 'a) act \<Rightarrow> bool" where
  "ch_keeps v sk cfg T m \<equiv> keeps (ch_good v sk) (ch_held v cfg) (ch_staged v cfg) (ch_saved v cfg) T m"

lemma ready_keeps [keeps_intros]:
  "ch_keeps v sk cfg T (mark_ready st)" "ch_keeps v sk cfg T (forget_state_table st)" "ch_keeps v sk cfg T (state_table_ready st)"
  by (simp_all add: keeps_def mark_ready_def forget_state_table_def state_table_ready_def act_modify_def act_get_def
      ch_good_def ch_held_def ch_staged_def ch_saved_def)

lemma questions_keep:
  "ch_keeps v sk cfg {} (ch_table_exists sk t)"
  "ch_keeps v sk cfg {} (ch_column_types sk t)"
  "ch_keeps v sk cfg {} (ch_row_count sk t)"
  "ch_keeps v sk cfg {} (ch_merged_count sk t)"
  "ch_keeps v sk cfg {} (ch_unsourced sk t cols)"
  "ch_keeps v sk cfg {} (ch_dropped sk t cols)"
  "ch_keeps v sk cfg {} (ch_non_replacing_engine sk cfg' t)"
  "ch_keeps v sk cfg {} (ch_canonical_type sk t)"
  "ch_keeps v sk cfg {} (ch_primary_key_columns sk t)"
  "ch_keeps v sk cfg {} (ch_stage_for_retries sk cfg' t)"
  "ch_keeps v sk cfg {} (count_where sk t cond)"
  unfolding ch_op_defs by (intro keeps_intros asked_keeps; simp add: is_state_write_def)+

lemma ensure_state_keeps: "ch_keeps v sk cfg T (ch_ensure_state sk (cfg_state_table_name cfg))"
  unfolding ch_op_defs by (intro keeps_intros asked_keeps; simp add: is_state_write_def)

lemma add_missing_keeps: "ch_keeps v sk cfg {} (ch_add_missing sk t cols)"
  unfolding ch_op_defs Let_def by (intro keeps_intros asked_keeps column_added_keeps; simp add: is_state_write_def)

lemma changes_keep:
  "ch_keeps v sk cfg {t} (ch_create_table sk cfg' t cols)"
  "ch_keeps v sk cfg {t} (ch_clone_structure sk t like)"
  "ch_keeps v sk cfg {t, u} (ch_atomic_swap sk t u cols)"
  "ch_keeps v sk cfg {t} (ch_drop_table sk t)"
  "ch_keeps v sk cfg {t, u} (ch_insert_select sk t u cols)"
  "ch_keeps v sk cfg {t} (ch_delete_stale sk t u key window)"
  unfolding ch_op_defs Let_def by (intro keeps_intros asked_keeps; simp add: is_state_write_def)+

section \<open>What each operation does\<close>

lemma execute_inv:
  assumes "ch_good v sk w" "execute sk st w = (w', r)"
  shows "\<exists>s' rp. w' = w\<lparr>cw_server := s'\<rparr> \<and> done_ok rp = is_ok r \<and> answers v (base_request sk st) (cw_server w) s' rp"
proof -
  obtain r1 where "ask_body sk st w = (w', r1)" "is_ok r = is_ok r1"
    using assms(2) by (auto simp: execute_def act_seq_def act_ok_def split: prod.splits sum.splits)
  then show ?thesis using ask_inv[OF assms(1), of st w' r1] by metis
qed

lemma exists_says:
  assumes "ch_good v sk w" "ch_table_exists sk t w = (w', Inr True)"
  shows "ch_held v cfg w t \<noteq> None"
proof -
  obtain body where b: "ask_body sk (ExistsTable t) w = (w', Inr body)" "trim body = ''1''"
    using assms(2) by (auto simp: ch_table_exists_def query_scalar_def act_seq_def act_ok_def split: prod.splits sum.splits if_splits)
  obtain s' rp where rp: "w' = w\<lparr>cw_server := s'\<rparr>" "Inr body = check_reply rp" "answers v (base_request sk (ExistsTable t)) (cw_server w) s' rp"
    using ask_inv[OF assms(1) b(1)] by blast
  then obtain status where "rp = Reply status (Some body)" "succeeded status"
    using b(2) by (cases rp) (auto simp: body_text_def trim_def trim_start_def split: if_splits option.splits)
  then show ?thesis using rp(3) b(2) by (auto simp: answers_def base_request_def ch_held_def)
qed

lemma created_or_cloned:
  assumes "ch_good v sk w" "execute sk st w = (w', r)" "st = CreateTable t ddl \<or> st = CreateLike t like"
  shows "same_or_created (ch_held v cfg w t) (ch_held v cfg w' t)"
    and "is_ok r \<Longrightarrow> ch_held v cfg w' t = Some (rows_before (ch_held v cfg w t))"
    and "is_ok r \<Longrightarrow> ch_held v cfg w t = None \<Longrightarrow> ch_staged v cfg w' t = Some {#}"
proof -
  obtain s' rp where "w' = w\<lparr>cw_server := s'\<rparr>" "done_ok rp = is_ok r" "answers v (base_request sk st) (cw_server w) s' rp"
    using execute_inv[OF assms(1,2)] by blast
  then have "w' = w\<lparr>cw_server := s'\<rparr>" "same_or_created (cv_rows v (cw_server w) t) (cv_rows v s' t)" "is_ok r \<longrightarrow> cv_rows v s' t \<noteq> None"
    using assms(3) by (auto simp: answers_def base_request_def)
  then show "same_or_created (ch_held v cfg w t) (ch_held v cfg w' t)"
    "is_ok r \<Longrightarrow> ch_held v cfg w' t = Some (rows_before (ch_held v cfg w t))"
    "is_ok r \<Longrightarrow> ch_held v cfg w t = None \<Longrightarrow> ch_staged v cfg w' t = Some {#}"
    by (auto simp: ch_held_def ch_staged_def same_or_created_def rows_before_def split: option.splits)
qed

lemma create_inv:
  assumes "ch_create_table sk cfg t cols w = (w', r)"
  shows "w' = w \<and> \<not> is_ok r \<or> (\<exists>ddl. execute sk (CreateTable t ddl) w = (w', r))"
  using assms by (auto simp: ch_create_table_def act_seq_def act_lift_def split: sum.splits)


lemma swap_effect:
  assumes "ch_good v sk w" "t \<noteq> u" "ch_staged v cfg w u = Some R" "ch_atomic_swap sk t u cols w = (w', r)"
  shows "is_ok r \<Longrightarrow> t \<noteq> cfg_state_table_name cfg \<Longrightarrow> ch_held v cfg w' t = Some R"
    and "ch_held v cfg w' t = ch_held v cfg w t \<or> ch_held v cfg w' t = Some R"
proof -
  obtain s' rp where "w' = w\<lparr>cw_server := s'\<rparr>" "done_ok rp = is_ok r"
      "answers v (base_request sk (ExchangeTables t u)) (cw_server w) s' rp"
    using execute_inv[OF assms(1) assms(4)[unfolded ch_atomic_swap_def]] by blast
  then show "is_ok r \<Longrightarrow> t \<noteq> cfg_state_table_name cfg \<Longrightarrow> ch_held v cfg w' t = Some R"
    "ch_held v cfg w' t = ch_held v cfg w t \<or> ch_held v cfg w' t = Some R"
    using assms(3) by (auto simp: answers_def base_request_def ch_held_def ch_staged_def split: if_splits)
qed

lemma drop_effect:
  assumes "ch_good v sk w" "t \<noteq> cfg_state_table_name cfg" "ch_drop_table sk t w = (w', Inr ())"
  shows "ch_held v cfg w' t = None"
  using execute_inv[OF assms(1) assms(3)[unfolded ch_drop_table_def]] assms(2)
  by (auto simp: answers_def base_request_def ch_held_def)

lemma move_effect:
  assumes "ch_good v sk w" "t \<noteq> u" "t \<noteq> cfg_state_table_name cfg" "ch_staged v cfg w u = Some R" "ch_held v cfg w t = Some D"
    and "ch_insert_select sk t u cols w = (w', Inr ())"
  shows "ch_held v cfg w' t = Some (D + R)"
  using execute_inv[OF assms(1) assms(6)[unfolded ch_insert_select_def]] assms(2-5)
  by (auto simp: answers_def base_request_def ch_held_def ch_staged_def split: if_splits)

lemma delete_effect:
  assumes "ch_good v sk w" "ch_held v cfg w t = Some D" "ch_delete_stale sk t u key window w = (w', r)"
  shows "\<exists>D'. D' \<subseteq># D \<and> ch_held v cfg w' t = Some D'"
proof -
  have counted: "ch_good v sk w2 \<and> ch_held v cfg w2 = ch_held v cfg w1"
    if "ch_good v sk w1" "count_where sk x cond w1 = (w2, y)" for x cond w1 w2 y
    using keeps_nothing[OF questions_keep(11)[where cfg = cfg] that] by simp
  have deleted: "\<exists>D'. D' \<subseteq># D \<and> ch_held v cfg w2 t = Some D'"
    if "ch_good v sk w1" "ch_held v cfg w1 t = Some D" "execute sk (DeleteWhere t cond) w1 = (w2, y)" for w1 w2 cond y
    using execute_inv[OF that(1,3)] that(2) by (auto simp: answers_def base_request_def ch_held_def split: if_splits)
  show ?thesis
    using assms(3) counted deleted assms(1,2)
    unfolding ch_delete_stale_def act_seq_def act_err_def act_ok_def Let_def
    by (auto split: if_splits prod.splits sum.splits; metis subset_mset.order_refl)
qed

section \<open>Inserts\<close>

lemma send_insert_done: "send_insert rp = Sent \<longleftrightarrow> done_ok rp"
  by (cases rp) (auto simp: done_ok_def)

text \<open>What one attempt adds, and what its token has landed by then.\<close>

lemma attempt_effect:
  assumes "clickhouse v (cs_ask sk)" "map_of (cc_settings (cs_cfg sk)) DEDUP_TOKEN_SETTING = None"
    and "send_request sk (insert_request sk t bs token) w = (w', r)" "cv_rows v (cw_server w) t = Some R"
  defines "rest \<equiv> cv_image v (cv_shape v (cw_server w) t) bs - already v (cw_server w) t token"
  shows "\<exists>rp X. r = Inr rp \<and> X \<subseteq># rest \<and> (send_insert rp = Sent \<longrightarrow> X = rest) \<and> cv_rows v (cw_server w') t = Some (R + X)
     \<and> cv_shape v (cw_server w') t = cv_shape v (cw_server w) t
     \<and> already v (cw_server w') t token = already v (cw_server w) t token + (if cv_dedups v \<and> token \<noteq> None then X else {#})"
proof -
  let ?rq = "insert_request sk t bs token"
  obtain s' rp where ask: "cs_ask sk ?rq (cw_server w) = (s', rp)" by (cases "cs_ask sk ?rq (cw_server w)")
  then have "answers v ?rq (cw_server w) s' rp" using assms(1) by (auto simp: clickhouse_def)
  moreover have "token_of ?rq = token"
    using assms(2) by (cases token) (auto simp: insert_request_def token_of_def map_add_def)
  ultimately have "\<exists>X. X \<subseteq># rest \<and> (done_ok rp \<longrightarrow> X = rest) \<and> cv_rows v s' t = Some (R + X) \<and> cv_shape v s' t = cv_shape v (cw_server w) t
       \<and> already v s' t token = already v (cw_server w) t token + (if cv_dedups v \<and> token \<noteq> None then X else {#})"
    using assms(4) unfolding rest_def answers_def by (simp add: insert_request_def Let_def)
  moreover have "w' = w\<lparr>cw_server := s'\<rparr>" "r = Inr rp"
    using assms(3) ask by (simp_all add: send_request_def)
  ultimately show ?thesis by (auto simp: send_insert_done)
qed

text \<open>The attempts from number \<open>k\<close> on: what is added is at most one copy for each attempt left, and with
  a token that is honoured exactly what is still missing.\<close>

lemma attempts_effect:
  assumes "clickhouse v (cs_ask sk)" "map_of (cc_settings (cs_cfg sk)) DEDUP_TOKEN_SETTING = None"
    and "insert_attempts sk t bs token k w = (w', Inr n)" "cv_rows v (cw_server w) t = Some R" "1 \<le> k" "k \<le> MAX_INSERT_ATTEMPTS"
  defines "img \<equiv> cv_image v (cv_shape v (cw_server w) t) bs"
  shows "\<exists>X. cv_rows v (cw_server w') t = Some (R + X)
     \<and> (if cv_dedups v \<and> token \<noteq> None then X = img - already v (cw_server w) t token
        else img \<subseteq># X \<and> X \<subseteq># repeat_mset (Suc MAX_INSERT_ATTEMPTS - k) img)"
  using assms(3-6) unfolding img_def
proof (induction "MAX_INSERT_ATTEMPTS - k" arbitrary: k w R rule: less_induct)
  case less
  let ?img = "cv_image v (cv_shape v (cw_server w) t) bs" and ?old = "already v (cw_server w) t token"
  let ?exact = "cv_dedups v \<and> token \<noteq> None"
  obtain w1 r where sent: "send_request sk (insert_request sk t bs token) w = (w1, r)" by (cases "send_request sk (insert_request sk t bs token) w")
  obtain rp X where X: "r = Inr rp" "X \<subseteq># ?img - ?old" "send_insert rp = Sent \<longrightarrow> X = ?img - ?old"
      "cv_rows v (cw_server w1) t = Some (R + X)" "cv_shape v (cw_server w1) t = cv_shape v (cw_server w) t"
      "already v (cw_server w1) t token = ?old + (if ?exact then X else {#})"
    using attempt_effect[OF assms(1,2) sent less.prems(2)] by blast
  have fresh: "\<not> ?exact \<Longrightarrow> ?old = {#}" by (auto simp: already_def split: option.splits)
  show ?case
  proof (cases "send_insert rp")
    case Sent
    then have "w' = w1" using less.prems(1) sent X(1) by (simp add: insert_attempts.simps[of _ _ _ _ k])
    moreover have "?img \<subseteq># repeat_mset (Suc MAX_INSERT_ATTEMPTS - k) ?img"
      using less.prems(4) by (simp add: Suc_diff_le)
    ultimately show ?thesis using X(3,4) Sent fresh by (intro exI[of _ X]) auto
  next
    case (Permanent e)
    then show ?thesis using less.prems(1) sent X(1) by (simp add: insert_attempts.simps[of _ _ _ _ k])
  next
    case (Transient e)
    then have more: "\<not> MAX_INSERT_ATTEMPTS \<le> k" "insert_attempts sk t bs token (Suc k) w1 = (w', Inr n)"
      using less.prems(1) sent X(1) by (simp_all add: insert_attempts.simps[of _ _ _ _ k] split: if_splits)
    have left: "MAX_INSERT_ATTEMPTS - Suc k < MAX_INSERT_ATTEMPTS - k" "1 \<le> Suc k" "Suc k \<le> MAX_INSERT_ATTEMPTS"
      using more(1) by simp_all
    from less.hyps[OF left(1) more(2) X(4) left(2,3), unfolded X(5)]
    obtain Y where Y: "cv_rows v (cw_server w') t = Some (R + X + Y)"
        "if ?exact then Y = ?img - already v (cw_server w1) t token
         else ?img \<subseteq># Y \<and> Y \<subseteq># repeat_mset (Suc MAX_INSERT_ATTEMPTS - Suc k) ?img" by blast
    show ?thesis
    proof (cases ?exact)
      case True
      then have "Y = ?img - ?old - X" using Y(2) X(6) by (simp add: diff_diff_add_mset)
      then have "X + Y = ?img - ?old" using X(2) by (metis subset_mset.add_diff_inverse)
      then show ?thesis using True Y(1) by (intro exI[of _ "X + Y"]) (simp add: add.assoc)
    next
      case False
      then have "X \<subseteq># ?img" "?img \<subseteq># Y" "Y \<subseteq># repeat_mset (MAX_INSERT_ATTEMPTS - k) ?img"
        using X(2) fresh Y(2) by auto
      then have "?img \<subseteq># X + Y" "X + Y \<subseteq># ?img + repeat_mset (MAX_INSERT_ATTEMPTS - k) ?img"
        by (auto intro: subset_mset.add_mono subset_mset.order_trans)
      then show ?thesis
        using False Y(1) more(1) by (intro exI[of _ "X + Y"]) (auto simp: add.assoc Suc_diff_le)
    qed
  qed
qed


definition taken :: "'s ch_sink \<Rightarrow> 's ch_world \<Rightarrow> string option \<Rightarrow> bool" where
  "taken sk w token \<longleftrightarrow> (case token of None \<Rightarrow> True
     | Some k \<Rightarrow> \<exists>j < cw_insert_epoch w. k = cs_run_token sk @ ''-'' @ show_nat j)"

lemma insert_sent_keeps:
  assumes "ch_good v sk w" "taken sk w token" "send_request sk (insert_request sk t bs token) w = (w', r)"
  shows "ch_good v sk w' \<and> taken sk w' token \<and> ch_saved v cfg w' = ch_saved v cfg w
    \<and> (\<forall>u. u \<noteq> t \<longrightarrow> cv_rows v (cw_server w') u = cv_rows v (cw_server w) u)"
proof -
  let ?rq = "insert_request sk t bs token"
  obtain s' rp where ask: "cs_ask sk ?rq (cw_server w) = (s', rp)" by (cases "cs_ask sk ?rq (cw_server w)")
  then have w': "w' = w\<lparr>cw_server := s'\<rparr>" using assms(3) by (simp add: send_request_def)
  have ans: "answers v ?rq (cw_server w) s' rp" using assms(1) ask by (auto simp: ch_good_def clickhouse_def)
  have tok: "token_of ?rq = token"
    using assms(1) by (cases token) (auto simp: insert_request_def token_of_def map_add_def ch_good_def)
  have "cv_landed v s' u (cs_run_token sk @ ''-'' @ show_nat n) = {#}" if "cw_insert_epoch w \<le> n" for n u
  proof (rule ccontr)
    assume "cv_landed v s' u (cs_run_token sk @ ''-'' @ show_nat n) \<noteq> {#}"
    then have "token = Some (cs_run_token sk @ ''-'' @ show_nat n)"
      using ans tok assms(1) that unfolding answers_def ch_good_def by metis
    then show False using assms(2) that by (auto simp: taken_def)
  qed
  then have "ch_good v sk w'" using assms(1) w' by (simp add: ch_good_def)
  moreover have "cv_cursor v s' = cv_cursor v (cw_server w)"
    using ans by (simp add: answers_def insert_request_def is_state_write_def)
  ultimately show ?thesis
    using ans assms(2) w' by (auto simp: answers_def insert_request_def ch_saved_def taken_def split: option.splits)
qed

lemma attempts_keep:
  assumes "ch_good v sk w" "taken sk w token" "insert_attempts sk t bs token k w = (w', r)"
  shows "ch_good v sk w' \<and> ch_saved v cfg w' = ch_saved v cfg w
    \<and> (\<forall>u. u \<noteq> t \<longrightarrow> cv_rows v (cw_server w') u = cv_rows v (cw_server w) u)"
  using assms
proof (induction "MAX_INSERT_ATTEMPTS - k" arbitrary: k w rule: less_induct)
  case less
  obtain w1 rp where sent: "send_request sk (insert_request sk t bs token) w = (w1, Inr rp)"
    by (cases "cs_ask sk (insert_request sk t bs token) (cw_server w)") (simp add: send_request_def)
  note one = insert_sent_keeps[OF less.prems(1,2) sent, where cfg = cfg]
  show ?case
  proof (cases "\<exists>e. send_insert rp = Transient e \<and> k < MAX_INSERT_ATTEMPTS")
    case True
    then have "insert_attempts sk t bs token (Suc k) w1 = (w', r)" "MAX_INSERT_ATTEMPTS - Suc k < MAX_INSERT_ATTEMPTS - k"
      using less.prems(3) sent by (auto simp: insert_attempts.simps[of _ _ _ _ k])
    then show ?thesis using less.hyps[of "Suc k" w1] one by auto
  next
    case False
    then have "w' = w1"
      using less.prems(3) sent by (auto simp: insert_attempts.simps[of _ _ _ _ k] split: send_outcome.splits)
    then show ?thesis using one by simp
  qed
qed

lemma token_taken:
  assumes "ch_good v sk w" "next_dedup_token sk w = (w1, Inr token)"
  shows "ch_good v sk w1 \<and> taken sk w1 token \<and> cw_server w1 = cw_server w
    \<and> (token \<noteq> None \<longleftrightarrow> cc_insert_dedup_token (cs_cfg sk)) \<and> already v (cw_server w1) t token = {#}"
  using assms by (auto simp: next_dedup_token_def ch_good_def taken_def already_def split: if_splits)

lemma token_always: "\<exists>w1 token. next_dedup_token sk w = (w1, Inr token)"
  by (simp add: next_dedup_token_def)

lemma insert_keeps_rest: "ch_keeps v sk cfg {t} (ch_insert_batches sk t bs)"
  unfolding keeps_def
proof (intro allI impI)
  fix w assume good: "ch_good v sk w"
  obtain w1 token where took: "next_dedup_token sk w = (w1, Inr token)" using token_always by blast
  obtain w' r where ran: "insert_attempts sk t bs token 1 w1 = (w', r)" by (cases "insert_attempts sk t bs token 1 w1")
  have "ch_good v sk w' \<and> ch_saved v cfg w' = ch_saved v cfg w1
      \<and> (\<forall>u. u \<noteq> t \<longrightarrow> cv_rows v (cw_server w') u = cv_rows v (cw_server w1) u)"
    by (rule attempts_keep[OF _ _ ran]) (use token_taken[OF good took] in auto)
  moreover have "cw_server w1 = cw_server w" using token_taken[OF good took] by simp
  ultimately show "ch_good v sk (fst (ch_insert_batches sk t bs w))
      \<and> ch_saved v cfg (fst (ch_insert_batches sk t bs w)) = ch_saved v cfg w
      \<and> (\<forall>u. u \<notin> {t} \<longrightarrow> ch_held v cfg (fst (ch_insert_batches sk t bs w)) u = ch_held v cfg w u
          \<and> ch_staged v cfg (fst (ch_insert_batches sk t bs w)) u = ch_staged v cfg w u)"
    using good by (auto simp: ch_insert_batches_def act_ok_def act_seq_def took ran ch_held_def ch_staged_def ch_saved_def
        simp del: One_nat_def)
qed

lemma inserted_rows:
  assumes "ch_good v sk w" "cv_rows v (cw_server w) t = Some R" "ch_insert_batches sk t bs w = (w', Inr n)"
  shows "\<exists>X. ch_lands v (ch_copies v sk) bs X \<and> cv_rows v (cw_server w') t = Some (R + X)"
proof (cases "list_all (\<lambda>b. bt_rows b = []) bs")
  case True
  then have "sum_list (map (\<lambda>b. length (bt_rows b)) bs) = 0" by (induction bs) auto
  then have "cv_image v c bs = {#}" for c
    using assms(1) by (metis ch_good_def clickhouse_def size_eq_0_iff_empty)
  then show ?thesis using True assms(2,3) by (auto simp: ch_insert_batches_def act_ok_def ch_lands_def)
next
  case False
  obtain w1 token where took: "next_dedup_token sk w = (w1, Inr token)" using token_always by blast
  then have ran: "insert_attempts sk t bs token 1 w1 = (w', Inr n)"
    using False assms(3) by (simp add: ch_insert_batches_def act_seq_def)
  have same: "cw_server w1 = cw_server w" "already v (cw_server w1) t token = {#}" "token \<noteq> None \<longleftrightarrow> cc_insert_dedup_token (cs_cfg sk)"
    using token_taken[OF assms(1) took, of t] by auto
  let ?img = "cv_image v (cv_shape v (cw_server w) t) bs"
  have srv: "clickhouse v (cs_ask sk)" "map_of (cc_settings (cs_cfg sk)) DEDUP_TOKEN_SETTING = None"
    using assms(1) by (simp_all add: ch_good_def)
  have rows: "cv_rows v (cw_server w1) t = Some R" and k: "1 \<le> (1 :: nat)" "1 \<le> MAX_INSERT_ATTEMPTS"
    using assms(2) same(1) by (simp_all add: MAX_INSERT_ATTEMPTS_def)
  obtain X where X: "cv_rows v (cw_server w') t = Some (R + X)"
      "if cv_dedups v \<and> token \<noteq> None then X = ?img - already v (cw_server w1) t token
       else ?img \<subseteq># X \<and> X \<subseteq># repeat_mset (Suc MAX_INSERT_ATTEMPTS - 1) ?img"
    using attempts_effect[OF srv ran rows k, unfolded same(1)] unfolding same(1) by blast
  have "ch_lands v (ch_copies v sk) bs X"
    unfolding ch_lands_def
    using X(2) same(2,3) by (intro exI[of _ "cv_shape v (cw_server w) t"]) (auto simp: ch_copies_def split: if_splits)
  then show ?thesis using X(1) by blast
qed

section \<open>The state row\<close>

lemma state_row_written:
  assumes "ch_good v sk w" "execute sk (InsertState (cfg_state_table_name cfg) token row) w = (w', r)"
    and "cr_source row = effective_state_key cfg" "cr_dest row = cfg_dest_table cfg"
  shows "ch_good v sk w' \<and> ch_held v cfg w' = ch_held v cfg w \<and> ch_staged v cfg w' = ch_staged v cfg w
    \<and> (ch_saved v cfg w' = stored (cr_watermark row) \<or> \<not> is_ok r \<and> ch_saved v cfg w' = ch_saved v cfg w)"
proof -
  let ?st = "InsertState (cfg_state_table_name cfg) token row"
  obtain s' rp where ran: "w' = w\<lparr>cw_server := s'\<rparr>" "done_ok rp = is_ok r" "answers v (base_request sk ?st) (cw_server w) s' rp"
    using execute_inv[OF assms(1,2)] by blast
  have "token_of (base_request sk ?st) = None"
    using assms(1) by (simp add: base_request_def token_of_def ch_good_def)
  then have "cv_landed v s' t k \<noteq> {#} \<Longrightarrow> \<exists>u. cv_landed v (cw_server w) u k \<noteq> {#}" for t k
    using ran(3) unfolding answers_def by (metis option.distinct(1))
  then have "ch_good v sk w'" using assms(1) ran(1) unfolding ch_good_def by auto
  then show ?thesis
    using ran assms(3,4) by (auto simp: answers_def base_request_def ch_held_def ch_staged_def ch_saved_def Let_def)
qed

lemma state_token: "\<exists>w1 token. state_dedup_token sk w = (w1, Inr token) \<and> cw_server w1 = cw_server w \<and> cw_insert_epoch w1 = cw_insert_epoch w"
  by (simp add: state_dedup_token_def)

lemma persist_effect:
  assumes "ch_good v sk w" "ch_persist_watermark sk cfg x n w = (w', r)"
  shows "ch_good v sk w' \<and> ch_held v cfg w' = ch_held v cfg w \<and> ch_staged v cfg w' = ch_staged v cfg w
    \<and> (ch_saved v cfg w' = stored x \<or> \<not> is_ok r \<and> ch_saved v cfg w' = ch_saved v cfg w)"
proof -
  let ?st = "cfg_state_table_name cfg"
  let ?row = "\<lparr>cr_source = effective_state_key cfg, cr_dest = cfg_dest_table cfg, cr_watermark = x, cr_rows = n,
       cr_chunk_cursor = [], cr_chunk_upper = [], cr_chunk_read = []\<rparr>"
  obtain w1 token where tok: "state_dedup_token sk w = (w1, Inr token)" "cw_server w1 = cw_server w" "cw_insert_epoch w1 = cw_insert_epoch w"
    using state_token by blast
  have w1: "ch_good v sk w1" "ch_held v cfg w1 = ch_held v cfg w" "ch_staged v cfg w1 = ch_staged v cfg w" "ch_saved v cfg w1 = ch_saved v cfg w"
    using assms(1) tok(2,3) by (auto simp: ch_good_def ch_held_def ch_staged_def ch_saved_def)
  obtain w2 r2 where one: "execute sk (InsertState ?st token ?row) w1 = (w2, r2)" by (cases "execute sk (InsertState ?st token ?row) w1")
  note first = state_row_written[OF w1(1) one, simplified]
  have run: "(case r2 of Inr _ \<Rightarrow> (w2, Inr ()) | Inl e \<Rightarrow> if is_unknown_table e
      then act_seq (forget_state_table ?st) (\<lambda>_. act_seq (ch_ensure_state sk ?st) (\<lambda>_. execute sk (InsertState ?st token ?row))) w2
      else (w2, Inl e)) = (w', r)"
    using assms(2) tok(1) one unfolding ch_persist_watermark_def insert_state_row_def Let_def
    by (auto simp: act_seq_def act_result_def act_ok_def act_err_def split: sum.splits if_splits)
  show ?thesis
  proof (cases "\<exists>e. r2 = Inl e \<and> is_unknown_table e")
    case True
    let ?m = "act_seq (forget_state_table ?st) (\<lambda>_. ch_ensure_state sk ?st)"
    have again: "act_seq ?m (\<lambda>_. execute sk (InsertState ?st token ?row)) w2 = (w', r)"
      using run True by (auto simp: act_seq_def split: prod.splits sum.splits)
    obtain w3 r3 where m: "?m w2 = (w3, r3)" by (cases "?m w2")
    have "ch_keeps v sk cfg {} ?m" by (intro keeps_intros ensure_state_keeps)
    from keeps_nothing[OF this _ m] first have w3: "ch_good v sk w3" "ch_held v cfg w3 = ch_held v cfg w2"
        "ch_staged v cfg w3 = ch_staged v cfg w2" "ch_saved v cfg w3 = ch_saved v cfg w2" by auto
    show ?thesis
    proof (cases r3)
      case (Inl e)
      then have "w' = w3 \<and> \<not> is_ok r" using again unfolding act_seq_def[of ?m] m by auto
      then show ?thesis using w3 first w1 True by auto
    next
      case (Inr u)
      then have "execute sk (InsertState ?st token ?row) w3 = (w', r)" using again unfolding act_seq_def[of ?m] m by simp
      from state_row_written[OF w3(1) this, simplified] show ?thesis using w3 first w1 by auto
    qed
  next
    case False
    then have "w' = w2 \<and> is_ok r = is_ok r2" using run by (auto split: sum.splits)
    then show ?thesis using first w1 by auto
  qed
qed

section \<open>The promises of a destination\<close>

lemma plain_ops_keep:
  "ch_keeps v sk cfg T (act_ok a)" "ch_keeps v sk cfg T (unsupported what)"
  by (auto simp: unsupported_def intro: keeps_intros)

interpretation ch: cursor_sink "ch_ops sk" cfg "ch_good v sk" "ch_held v cfg" "ch_staged v cfg" "ch_saved v cfg"
  "ch_lands v (ch_copies v sk)" "\<lambda>D R. R"
  for sk :: "'s ch_sink" and cfg :: transfer_config and v :: "('s, 'r, 'c) ch_view"
proof (unfold_locales, goal_cases)
  case (19 w t w')
  then show ?case using exists_says[of v sk w t w' cfg] by (simp add: ch_ops_def)
next
  case (20 w t cols w')
  then show ?case using create_inv[of sk cfg t cols w w' "Inr ()"] created_or_cloned(2)[of v sk w _ w' "Inr ()" t] by (auto simp: ch_ops_def)
next
  case (21 w t cols w')
  then show ?case using create_inv[of sk cfg t cols w w' "Inr ()"] created_or_cloned(3)[of v sk w _ w' "Inr ()" t] by (auto simp: ch_ops_def)
next
  case (22 w t cols w' e)
  then show ?case using create_inv[of sk cfg t cols w w' "Inl e"] created_or_cloned(1)[of v sk w _ w' "Inl e" t]
    by (auto simp: ch_ops_def same_or_created_def)
next
  case (23 w t like w')
  then show ?case using created_or_cloned(3)[of v sk w _ w' "Inr ()" t] by (auto simp: ch_ops_def ch_clone_structure_def)
next
  case (24 w t R stream bs w' n)
  then show ?case using inserted_rows[of v sk w t R bs w' n] by (auto simp: ch_ops_def ch_staged_def split: if_splits)
next
  case (25 w t u R cols w')
  then show ?case using swap_effect(1)[of v sk w t u cfg R cols w' "Inr ()"] by (simp add: ch_ops_def)
next
  case (26 w t u R cols w' e)
  then show ?case using swap_effect(2)[of v sk w t u cfg R cols w' "Inl e"] by (simp add: ch_ops_def)
next
  case (27 w t w')
  then show ?case using drop_effect[of v sk w t cfg w'] by (simp add: ch_ops_def)
next
  case (28 w x n w' r)
  then show ?case using persist_effect[of v sk w cfg x n w' r] by (simp add: ch_ops_def)
next
  case (29 w x n w')
  then show ?case using persist_effect[of v sk w cfg x n w' "Inr ()"] by (simp add: ch_ops_def)
next
  case (30 w x n w' e)
  then show ?case using persist_effect[of v sk w cfg x n w' "Inl e"] by (auto simp: ch_ops_def)
next
  case (32 w t u R D cols w')
  then show ?case using move_effect[of v sk w t u cfg R D cols w'] by (simp add: ch_ops_def)
next
  case (36 w t D u key col w' n)
  then show ?case using delete_effect[of v sk w cfg t D u key col w' "Inr n"] by (simp add: ch_ops_def)
next
  case (34 w t u R D cols w')
  then show ?case by (simp add: ch_ops_def unsupported_def act_err_def)
next
  case (37 w t u key col w' dr)
  then show ?case
    using keepsD[OF changes_keep(6)[of v sk cfg t u key col], of w w' dr] by (simp add: ch_ops_def)
next
  case (38 t w D stream bs w' n)
  then show ?case using inserted_rows[of v sk w t D bs w' n] by (auto simp: ch_ops_def ch_held_def)
qed (simp_all add: ch_ops_def questions_keep ensure_state_keeps add_missing_keeps changes_keep insert_keeps_rest plain_ops_keep)

end
