(* ===== verification/QH_Ch_Runs.thy ===== *)
theory QH_Ch_Runs
  imports QH_Ch_Laws
begin

text \<open>
  Runs into ClickHouse: a full refresh replaces the destination whole or not at all, and a saved cursor
  covers only rows that are in the destination.  A small server keeps the documented promises, so they
  can hold; the properties are instantiated on it.  Then what the sink makes of a response it could
  not read, or has to unescape.
\<close>

section \<open>How much of a read lands\<close>

lemma ch_lands_size:
  assumes "clickhouse v ask" "ch_lands v copies bs X"
  shows "sum_list (map (\<lambda>b. length (bt_rows b)) bs) \<le> size X \<and> size X \<le> copies * sum_list (map (\<lambda>b. length (bt_rows b)) bs)"
proof -
  obtain c where c: "cv_image v c bs \<subseteq># X" "X \<subseteq># repeat_mset copies (cv_image v c bs)"
    using assms(2) by (auto simp: ch_lands_def)
  have "size (cv_image v c bs) = sum_list (map (\<lambda>b. length (bt_rows b)) bs)"
    using assms(1) by (simp add: clickhouse_def)
  then show ?thesis using size_mset_mono[OF c(1)] size_mset_mono[OF c(2)] by simp
qed

lemma ch_lands_all_size:
  assumes "clickhouse v ask"
  shows "lands_all (ch_lands v copies) evs X \<Longrightarrow> event_total evs \<le> size X \<and> size X \<le> copies * event_total evs"
proof (induction rule: lands_all.induct)
  case (lands_event ev X evs Y)
  then show ?case
    using ch_lands_size[OF assms lands_event.hyps(1)] by (simp add: event_total_def event_rows_def add_mult_distrib2)
qed (simp add: event_total_def)

section \<open>A server\<close>

text \<open>Tables as lists of rows, each row its non-NULL cells; requests are numbered, and the response of some
  is lost after the statement has run.\<close>

record ref_server =
  rs_tables :: "(string \<times> (string \<times> cell) list list) list"
  rs_cursors :: "((string \<times> string \<times> string) \<times> string option) list"
  rs_clock :: nat
  rs_lost :: "nat list"

definition batch_maps :: "batch \<Rightarrow> (string \<times> cell) list list" where
  "batch_maps b = map (\<lambda>r. filter (\<lambda>(_, x). x \<noteq> CNull) (zip (map bf_name (bt_fields b)) r)) (bt_rows b)"

definition new_table :: "string \<Rightarrow> ref_server \<Rightarrow> ref_server" where
  "new_table t s = (if map_of (rs_tables s) t = None then s\<lparr>rs_tables := (t, []) # rs_tables s\<rparr> else s)"

definition swapped_name :: "string \<Rightarrow> string \<Rightarrow> string \<Rightarrow> string" where
  "swapped_name t u k = (if k = t then u else if k = u then t else k)"

definition append_rows :: "string \<Rightarrow> (string \<times> cell) list list \<Rightarrow> ref_server \<Rightarrow> ref_server" where
  "append_rows t rows s = s\<lparr>rs_tables := map (\<lambda>(k, rs). (k, if k = t then rs @ rows else rs)) (rs_tables s)\<rparr>"

fun ref_run :: "batch list \<Rightarrow> statement \<Rightarrow> ref_server \<Rightarrow> ref_server" where
  "ref_run bs (CreateTable t _) s = new_table t s"
| "ref_run bs (CreateLike t _) s = new_table t s"
| "ref_run bs (ExchangeTables t u) s = s\<lparr>rs_tables := map (\<lambda>(k, rs). (swapped_name t u k, rs)) (rs_tables s)\<rparr>"
| "ref_run bs (DropTable t) s = s\<lparr>rs_tables := filter (\<lambda>(k, _). k \<noteq> t) (rs_tables s)\<rparr>"
| "ref_run bs (InsertArrow t) s = append_rows t (concat (map batch_maps bs)) s"
| "ref_run bs (InsertSelect t u _) s = (case map_of (rs_tables s) u of Some rows \<Rightarrow> append_rows t rows s | None \<Rightarrow> s)"
| "ref_run bs (InsertState st _ row) s = s\<lparr>rs_cursors := ((st, cr_source row, cr_dest row), stored (cr_watermark row)) # rs_cursors s\<rparr>"
| "ref_run bs _ s = s"

fun ref_body :: "statement \<Rightarrow> ref_server \<Rightarrow> string" where
  "ref_body (ExistsTable t) s = (if map_of (rs_tables s) t = None then ''0'' else ''1'')"
| "ref_body (CountRows t) s = (case map_of (rs_tables s) t of Some rows \<Rightarrow> show_nat (length rows) | None \<Rightarrow> [])"
| "ref_body _ s = []"

definition ref_ask :: "request \<Rightarrow> ref_server \<Rightarrow> ref_server \<times> reply" where
  "ref_ask rq s =
     ((ref_run (rq_body rq) (rq_statement rq) s)\<lparr>rs_clock := Suc (rs_clock s)\<rparr>,
      if rs_clock s \<in> set (rs_lost s) then Lost ''connection reset'' else Reply 200 (Some (ref_body (rq_statement rq) s)))"

definition ref_view :: "(ref_server, (string \<times> cell) list, unit) ch_view" where
  "ref_view = \<lparr>cv_rows = (\<lambda>s t. map_option mset (map_of (rs_tables s) t)), cv_shape = (\<lambda>s t. ()),
     cv_image = (\<lambda>c bs. mset (concat (map batch_maps bs))), cv_landed = (\<lambda>s t k. {#}), cv_dedups = False,
     cv_cursor = (\<lambda>s st (source, dest). Option.bind (map_of (rs_cursors s) (st, source, dest)) (\<lambda>c. c))\<rparr>"

lemma new_table_rows: "map_of (rs_tables (new_table t s)) = (if map_of (rs_tables s) t = None then (map_of (rs_tables s))(t \<mapsto> []) else map_of (rs_tables s))"
  by (simp add: new_table_def)

lemma map_of_values: "map_of (map (\<lambda>(k, rs). (k, f k rs)) xs) k = map_option (f k) (map_of xs k)"
  by (induction xs) auto

lemma append_rows_tables:
  "map_of (rs_tables (append_rows t rows s)) k
     = (if k = t then map_option (\<lambda>rs. rs @ rows) (map_of (rs_tables s) k) else map_of (rs_tables s) k)"
  by (simp add: append_rows_def map_of_values option.map_ident)

lemma swapped_name_simps [simp]:
  "swapped_name t u t = u" "swapped_name t u u = t" "k \<noteq> t \<Longrightarrow> k \<noteq> u \<Longrightarrow> swapped_name t u k = k"
  "swapped_name t u (swapped_name t u k) = k"
  by (simp_all add: swapped_name_def)

lemma swapped_tables: "map_of (map (\<lambda>(k, rs). (swapped_name t u k, rs)) xs) k = map_of xs (swapped_name t u k)"
proof (induction xs)
  case (Cons x xs)
  have "swapped_name t u (fst x) = k \<longleftrightarrow> fst x = swapped_name t u k" by (metis swapped_name_simps(4))
  then show ?case using Cons by (cases x) auto
qed simp

lemma kept_tables: "map_of (filter (\<lambda>(k, _). k \<noteq> t) xs) k = (if k = t then None else map_of xs k)"
  by (induction xs) auto

lemma run_keeps_cursor: "\<not> is_state_write st \<Longrightarrow> rs_cursors (ref_run bs st s) = rs_cursors s"
  by (cases st) (auto simp: is_state_write_def new_table_def append_rows_def split: option.split)

lemma run_frame: "t \<notin> writes st \<Longrightarrow> map_of (rs_tables (ref_run bs st s)) t = map_of (rs_tables s) t"
  by (cases st) (simp_all add: new_table_rows append_rows_tables swapped_tables kept_tables split: option.split)

lemma image_size: "size (mset (concat (map batch_maps bs))) = sum_list (map (\<lambda>b. length (bt_rows b)) bs)"
  by (induction bs) (auto simp: batch_maps_def)

lemma run_effect:
  assumes "ref_ask rq s = (s', rp)"
  shows "statement_effect ref_view rq (done_ok rp) rp s s' (rq_statement rq)"
proof -
  have s': "rs_tables s' = rs_tables (ref_run (rq_body rq) (rq_statement rq) s)"
      "rs_cursors s' = rs_cursors (ref_run (rq_body rq) (rq_statement rq) s)"
    and rp: "\<And>status b. rp = Reply status (Some b) \<Longrightarrow> b = ref_body (rq_statement rq) s"
    using assms by (auto simp: ref_ask_def split: if_splits)
  show ?thesis
  proof (cases "rq_statement rq")
    case (ExistsTable t)
    have zero: "trim ''0'' \<noteq> ''1''" by (simp add: trim_def trim_start_def is_ws_def code_def)
    have "cv_rows ref_view s t \<noteq> None" if r: "rp = Reply status (Some b)" and one: "trim b = ''1''" for status b
    proof (rule ccontr)
      assume "\<not> cv_rows ref_view s t \<noteq> None"
      then have "map_of (rs_tables s) t = None" by (simp add: ref_view_def)
      then have "b = ''0''" using rp[OF r] ExistsTable by simp
      then show False using zero one by simp
    qed
    then show ?thesis unfolding ExistsTable statement_effect.simps by blast
  next
    case (CreateTable t ddl)
    then show ?thesis by (simp add: ref_view_def s' same_or_created_def new_table_rows)
  next
    case (CreateLike t like)
    then show ?thesis by (simp add: ref_view_def s' same_or_created_def new_table_rows)
  next
    case (AddColumn t c)
    then show ?thesis by (simp add: ref_view_def s')
  next
    case (ExchangeTables t u)
    then show ?thesis by (simp add: ref_view_def s' swapped_tables)
  next
    case (DropTable t)
    then show ?thesis by (simp add: ref_view_def s' kept_tables)
  next
    case (InsertArrow t)
    then show ?thesis by (auto simp: ref_view_def s' append_rows_tables already_def split: option.splits)
  next
    case (InsertState st token row)
    then show ?thesis by (auto simp: ref_view_def s')
  next
    case (InsertSelect t u cols)
    then show ?thesis by (auto simp: ref_view_def s' append_rows_tables)
  next
    case (DeleteWhere t cond)
    then show ?thesis by (auto simp: ref_view_def s')
  qed simp_all
qed

lemma ref_server_is_clickhouse: "clickhouse ref_view ref_ask"
proof -
  have "answers ref_view rq s s' rp" if ask: "ref_ask rq s = (s', rp)" for rq s s' rp
  proof -
    have s': "rs_tables s' = rs_tables (ref_run (rq_body rq) (rq_statement rq) s)"
      "rs_cursors s' = rs_cursors (ref_run (rq_body rq) (rq_statement rq) s)"
      using ask by (auto simp: ref_ask_def)
    show ?thesis
      unfolding answers_def using run_effect[OF ask]
      by (auto simp: ref_view_def s' run_frame run_keeps_cursor)
  qed
  then show ?thesis by (simp add: clickhouse_def ref_view_def image_size[simplified])
qed

definition sample_server :: ref_server where
  "sample_server = \<lparr>rs_tables = [(''orders'', [[(''id'', CInt 7)]])], rs_cursors = [], rs_clock = 0, rs_lost = []\<rparr>"

definition sample_sink :: "ref_server ch_sink" where
  "sample_sink = \<lparr>cs_cfg = \<lparr>cc_database = ''db'', cc_insert_dedup_token = False, cc_settings = []\<rparr>, cs_run_token = ''1'',
     cs_ask = ref_ask, cs_wire = length\<rparr>"

definition sample_world :: "nat list \<Rightarrow> ref_server ch_world" where
  "sample_world lost = \<lparr>cw_server = sample_server\<lparr>rs_lost := lost\<rparr>, cw_insert_epoch = 0, cw_state_epoch = 0, cw_ready = []\<rparr>"

definition sample_ids :: "int list \<Rightarrow> batch" where
  "sample_ids ks = \<lparr>bt_fields = [\<lparr>bf_name = ''id'', bf_type = Int64, bf_nullable = False\<rparr>], bt_rows = map (\<lambda>k. [CInt k]) ks\<rparr>"

definition sample_column :: column_type where
  "sample_column = \<lparr>ct_name = ''id'', ct_type_id = 20, ct_nullable = False, ct_arrow = Int64, ct_clickhouse_inner = ''Int64'',
     ct_arbitrary_precision_decimal = False, ct_declared_decimal = None\<rparr>"

definition sample_transfer :: "int list list \<Rightarrow> nat \<Rightarrow> transfer_plan" where
  "sample_transfer kss k =
     \<lparr>tp_select = \<lparr>sp_source_columns = [''id''], sp_source_select_exprs = [None], sp_dest_columns = [sample_column]\<rparr>,
      tp_staging = staging_name ''orders'' ''_staging'' (show_nat k), tp_force_stage = False, tp_gate = None, tp_overrides = [],
      tp_from_start = False, tp_discarded = False,
      tp_read = \<lparr>rp_events = map (\<lambda>ks. \<lparr>ev_stream = ''s'', ev_read = length ks, ev_batches = [sample_ids ks]\<rparr>) kss,
        rp_collected = [], rp_error = None\<rparr>,
      tp_watermark_read = True, tp_bounded_below = False, tp_cursor = Some ''9'', tp_cursor_warnings = []\<rparr>"

lemma sample_good: "ch_good ref_view sample_sink (sample_world lost)"
  using ref_server_is_clickhouse by (simp add: ch_good_def sample_sink_def ref_view_def)

section \<open>A full refresh\<close>

text \<open>The destination holds what attempt \<open>k\<close> staged, which passed the gate.\<close>

definition refreshed_by :: "('s, 'r, 'c) ch_view \<Rightarrow> 's ch_sink \<Rightarrow> string \<Rightarrow> transfer_plan \<Rightarrow> 's ch_world \<Rightarrow> bool" where
  "refreshed_by v sk d tp w \<longleftrightarrow>
     (let evs = rp_events (tp_read tp) in
      gate_passes (tp_gate tp) (ch_ops sk) (tp_staging tp) (event_total evs)
      \<and> (\<exists>X. lands_all (ch_lands v (ch_copies v sk)) evs X \<and> cv_rows v (cw_server w) d = Some X
            \<and> event_total evs \<le> size X \<and> size X \<le> ch_copies v sk * event_total evs))"

text \<open>C32. A full refresh of a ClickHouse table, whatever requests fail, whatever responses are lost and however
  often it is tried: the destination is left as it was (empty if the run created it), or holds what one attempt
  staged after the gate passed it, no row of its read missing; it holds that when the run succeeds.  The cursor
  and every other table but the run's staging tables are as before.\<close>

theorem clickhouse_refresh_all_or_nothing:
  assumes "ch_good v sk w0" and "run_transfer (ch_ops sk) cfg ctx tps w0 = (w', res)"
    and "cfg_mode cfg = Full" and "d = cfg_dest_table cfg" and "st = cfg_state_table_name cfg" and "d \<noteq> st"
    and "\<And>k. \<not> tp_discarded (tps k) \<and> tp_staging (tps k) \<notin> {d, st} \<and> cv_rows v (cw_server w0) (tp_staging (tps k)) = None"
    and "inj (\<lambda>k. tp_staging (tps k))"
  shows "(same_or_created (cv_rows v (cw_server w0) d) (cv_rows v (cw_server w') d) \<or> (\<exists>k. refreshed_by v sk d (tps k) w'))
    \<and> (is_ok res \<longrightarrow> (\<exists>k. refreshed_by v sk d (tps k) w'))
    \<and> ch_saved v cfg w' = ch_saved v cfg w0
    \<and> (\<forall>t. t \<noteq> d \<and> t \<noteq> st \<and> (\<forall>k. t \<noteq> tp_staging (tps k)) \<longrightarrow> cv_rows v (cw_server w') t = cv_rows v (cw_server w0) t)"
proof -
  let ?done = "\<lambda>k H. gate_passes (tp_gate (tps k)) (ch_ops sk) (tp_staging (tps k)) (event_total (rp_events (tp_read (tps k))))
      \<and> (\<exists>X. lands_all (ch_lands v (ch_copies v sk)) (rp_events (tp_read (tps k))) X \<and> H d = Some X)"
  have srv: "clickhouse v (cs_ask sk)" using assms(1) by (simp add: ch_good_def)
  have none: "ch_held v cfg w0 (tp_staging (tps k)) = None" for k using assms(7)[of k] assms(5) by (simp add: ch_held_def)
  have apart: "cfg_state_table_name cfg \<noteq> tp_staging (tps k)" "tp_staging (tps k) \<noteq> d" "\<not> tp_discarded (tps k)" for k
    using assms(7)[of k] assms(5) by auto
  have run: "ch_good v sk w' \<and> ch_saved v cfg w' = ch_saved v cfg w0
      \<and> (\<forall>t. t \<noteq> d \<and> (\<forall>k. t \<noteq> tp_staging (tps k)) \<longrightarrow> ch_held v cfg w' t = ch_held v cfg w0 t)
      \<and> (same_or_created (ch_held v cfg w0 d) (ch_held v cfg w' d) \<or> (\<exists>k. ?done k (ch_held v cfg w')))
      \<and> (is_ok res \<longrightarrow> (\<exists>k. ?done k (ch_held v cfg w')))"
    by (rule ch.refresh_run[OF assms(2,1,3,4)]) (use apart none assms(5,6,8) in auto)
  have held: "ch_held v cfg w t = cv_rows v (cw_server w) t" if "t \<noteq> st" for w t
    using that assms(5) by (simp add: ch_held_def)
  have "refreshed_by v sk d (tps k) w'" if "?done k (ch_held v cfg w')" for k
    using that ch_lands_all_size[OF srv] held[OF assms(6)] unfolding refreshed_by_def Let_def by metis
  then have "(\<exists>k. ?done k (ch_held v cfg w')) \<Longrightarrow> \<exists>k. refreshed_by v sk d (tps k) w'" by blast
  then show ?thesis using run held assms(6) by metis
qed

definition sample_refresh :: "nat list \<Rightarrow> ref_server ch_world \<times> transfer_result res" where
  "sample_refresh lost = run_transfer (ch_ops sample_sink) (sample_config\<lparr>cfg_mode := Full\<rparr>) ''orders'' (sample_transfer [[7], [8, 9]]) (sample_world lost)"

lemma sample_setting:
  "cfg_dest_table sample_config = ''orders''" "cfg_state_table_name sample_config = ''_quickhouse_state''" "cfg_mode sample_config = Incremental"
  "\<not> tp_discarded (sample_transfer kss k)" "tp_staging (sample_transfer kss k) \<noteq> ''orders''"
  "tp_staging (sample_transfer kss k) \<noteq> ''_quickhouse_state''" "inj (\<lambda>k. tp_staging (sample_transfer kss k))"
  "cv_rows ref_view (cw_server (sample_world lost)) (tp_staging (sample_transfer kss k)) = None"
  by (simp_all add: sample_config_def sample_transfer_def staging_name_def inj_def ref_view_def sample_world_def sample_server_def)

text \<open>The response of the second insert is lost, so its two rows land twice.\<close>

theorem clickhouse_refresh_all_or_nothing_witness:
  "map_of (rs_tables (cw_server (fst (sample_refresh [5])))) ''orders'' = Some (map (\<lambda>k. [(''id'', CInt k)]) [7, 8, 9, 8, 9])
    \<and> (\<exists>k. refreshed_by ref_view sample_sink ''orders'' (sample_transfer [[7], [8, 9]] k) (fst (sample_refresh [5])))"
proof -
  have ok: "is_ok (snd (sample_refresh [5]))" by code_simp
  have rows: "map_of (rs_tables (cw_server (fst (sample_refresh [5])))) ''orders'' = Some (map (\<lambda>k. [(''id'', CInt k)]) [7, 8, 9, 8, 9])"
    by code_simp
  have "run_transfer (ch_ops sample_sink) (sample_config\<lparr>cfg_mode := Full\<rparr>) ''orders'' (sample_transfer [[7], [8, 9]]) (sample_world [5])
      = (fst (sample_refresh [5]), snd (sample_refresh [5]))" by (simp add: sample_refresh_def)
  then have "is_ok (snd (sample_refresh [5])) \<longrightarrow> (\<exists>k. refreshed_by ref_view sample_sink ''orders'' (sample_transfer [[7], [8, 9]] k) (fst (sample_refresh [5])))"
    by (rule clickhouse_refresh_all_or_nothing[OF sample_good, where st = "''_quickhouse_state''", THEN conjunct2, THEN conjunct1])
      (simp_all add: sample_setting)
  then show ?thesis using ok rows by blast
qed

section \<open>The cursor\<close>

text \<open>The rows of the attempt's read are in the destination, beside what it held, less what a window-scoped delete took.\<close>

definition written_by :: "('s, 'r, 'c) ch_view \<Rightarrow> 's ch_sink \<Rightarrow> transfer_config \<Rightarrow> transfer_plan \<Rightarrow> 's ch_world \<Rightarrow> 's ch_world \<Rightarrow> bool" where
  "written_by v sk cfg tp w w' \<longleftrightarrow>
     (\<exists>D X. lands_all (ch_lands v (ch_copies v sk)) (rp_events (tp_read tp)) X
        \<and> D \<subseteq># rows_before (cv_rows v (cw_server w) (cfg_dest_table cfg))
        \<and> (\<not> cfg_delete_stale_in_window cfg \<longrightarrow> D = rows_before (cv_rows v (cw_server w) (cfg_dest_table cfg)))
        \<and> cv_rows v (cw_server w') (cfg_dest_table cfg) = Some (D + X))"

text \<open>C33. The cursor of an incremental or append run into ClickHouse moves only when every row it covers is in the
  destination: whatever fails in an attempt, the saved cursor is afterwards what it was (none, if the attempt
  discarded the stored one), or it is the attempt's and the rows of its read are there, one to four times each;
  after a success the latter.\<close>

theorem clickhouse_cursor_covers_written_rows:
  assumes "ch_good v sk w" and "attempt_once (ch_ops sk) cfg tps k carried w = (w', n, res)"
    and "keeps_cursor (cfg_mode cfg)" and "cfg_dest_table cfg \<noteq> cfg_state_table_name cfg"
    and "tp_staging (tps k) \<notin> {cfg_dest_table cfg, cfg_state_table_name cfg}"
    and "cv_rows v (cw_server w) (tp_staging (tps k)) = None"
  shows "\<exists>c. (c = ch_saved v cfg w \<or> tp_discarded (tps k) \<and> c = None)
    \<and> (\<not> is_ok res \<and> ch_saved v cfg w' = c \<or> written_by v sk cfg (tps k) w w' \<and> ch_saved v cfg w' = advanced cfg (tps k) c)"
proof -
  let ?tp = "tps k" and ?d = "cfg_dest_table cfg" and ?g = "tp_staging (tps k)"
  let ?S = "snap (ch_good v sk) (ch_held v cfg) (ch_staged v cfg) (ch_saved v cfg)"
  obtain r' where r': "transfer_attempt (ch_ops sk) cfg ?tp (new_run w carried) = (r', res)" "w' = rn_sink r'"
    using assms(2) by (auto simp: attempt_once_def split: prod.splits)
  have start: "?S (\<lambda>H S c n. H = ch_held v cfg w \<and> S = ch_staged v cfg w \<and> n = 0 \<and> c = ch_saved v cfg w) (new_run w carried)"
    using assms(1) by (simp add: snap_def new_run_def)
  have held: "ch_held v cfg u ?d = cv_rows v (cw_server u) ?d" for u using assms(4) by (simp add: ch_held_def)
  have none: "ch_held v cfg w ?g = None" using assms(5,6) by (simp add: ch_held_def)
  let ?reach = "\<lambda>x. reached (ch_lands v (ch_copies v sk)) (\<lambda>D R. R) (rp_events (tp_read ?tp)) False (cfg_delete_stale_in_window cfg)
      (rows_before (ch_held v cfg w ?d)) x"
  have "\<not> so_stages_direct_writes (ch_ops sk)" "\<not> so_requires_staging (ch_ops sk)" by (simp_all add: ch_ops_def)
  then have at: "triple (?S (\<lambda>H S c n. H = ch_held v cfg w \<and> S = ch_staged v cfg w \<and> n = 0 \<and> c = ch_saved v cfg w))
      (transfer_attempt (ch_ops sk) cfg ?tp)
      (\<lambda>_. ?S (\<lambda>H S c n. outside (ch_held v cfg w) (ch_staged v cfg w) {?d, ?g} H S \<and> ?reach (H ?d)
          \<and> (c = advanced cfg ?tp (ch_saved v cfg w) \<or> tp_discarded ?tp \<and> c = advanced cfg ?tp None)))
      (\<lambda>_. ?S (\<lambda>H S c n. outside (ch_held v cfg w) (ch_staged v cfg w) {?d, ?g} H S
          \<and> (c = ch_saved v cfg w \<or> tp_discarded ?tp \<and> c = None
             \<or> ?reach (H ?d) \<and> (c = advanced cfg ?tp (ch_saved v cfg w) \<or> tp_discarded ?tp \<and> c = advanced cfg ?tp None))))"
    using ch.cursor_attempt[of ?d cfg ?g ?tp "ch_held v cfg w" sk "cfg_mode cfg = Incremental" v] assms(3-5) none by simp
  have there: "written_by v sk cfg ?tp w w'" if "?reach (ch_held v cfg w' ?d)"
    using that by (auto simp: reached_def written_by_def held)
  show ?thesis
  proof (cases res)
    case (Inl e)
    have "?S (\<lambda>H S c n. outside (ch_held v cfg w) (ch_staged v cfg w) {?d, ?g} H S
          \<and> (c = ch_saved v cfg w \<or> tp_discarded ?tp \<and> c = None
             \<or> ?reach (H ?d) \<and> (c = advanced cfg ?tp (ch_saved v cfg w) \<or> tp_discarded ?tp \<and> c = advanced cfg ?tp None))) r'"
      using tripleD(2)[OF at start] r'(1) Inl by simp
    then show ?thesis using there r'(2) Inl by (auto simp: snap_def)
  next
    case (Inr a)
    have "?S (\<lambda>H S c n. outside (ch_held v cfg w) (ch_staged v cfg w) {?d, ?g} H S \<and> ?reach (H ?d)
          \<and> (c = advanced cfg ?tp (ch_saved v cfg w) \<or> tp_discarded ?tp \<and> c = advanced cfg ?tp None)) r'"
      using tripleD(1)[OF at start] r'(1) Inr by simp
    then show ?thesis using there r'(2) by (auto simp: snap_def)
  qed
qed

definition sample_append :: "nat list \<Rightarrow> ref_server ch_world \<times> nat \<times> transfer_result res" where
  "sample_append lost = attempt_once (ch_ops sample_sink) (sample_config\<lparr>cfg_delete_stale_in_window := False\<rparr>)
     (sample_transfer [[7], [8, 9]]) 1 [] (sample_world lost)"

text \<open>The response of the state row's insert is lost: the attempt fails, but the cursor it saved covers rows
  that are there.\<close>

theorem clickhouse_cursor_covers_written_rows_witness:
  "ch_saved ref_view sample_config (fst (sample_append [9])) = Some ''9''
    \<and> written_by ref_view sample_sink (sample_config\<lparr>cfg_delete_stale_in_window := False\<rparr>) (sample_transfer [[7], [8, 9]] 1)
        (sample_world [9]) (fst (sample_append [9]))"
proof -
  let ?cfg = "sample_config\<lparr>cfg_delete_stale_in_window := False\<rparr>"
  have after: "ch_saved ref_view sample_config (fst (sample_append [9])) = Some ''9''" by code_simp
  have before: "ch_saved ref_view sample_config (sample_world [9]) = None"
    by (simp add: ch_saved_def sample_world_def sample_server_def ref_view_def)
  have kept: "\<not> tp_discarded (sample_transfer [[7], [8, 9]] 1)" by (simp add: sample_transfer_def)
  have same: "ch_saved ref_view ?cfg = ch_saved ref_view sample_config"
    by (rule ext) (simp add: ch_saved_def effective_state_key_def sample_config_def)
  have "attempt_once (ch_ops sample_sink) ?cfg (sample_transfer [[7], [8, 9]]) 1 [] (sample_world [9])
      = (fst (sample_append [9]), fst (snd (sample_append [9])), snd (snd (sample_append [9])))" by (simp add: sample_append_def)
  then have "\<exists>c. (c = ch_saved ref_view ?cfg (sample_world [9]) \<or> tp_discarded (sample_transfer [[7], [8, 9]] 1) \<and> c = None)
      \<and> (\<not> is_ok (snd (snd (sample_append [9]))) \<and> ch_saved ref_view ?cfg (fst (sample_append [9])) = c
        \<or> written_by ref_view sample_sink ?cfg (sample_transfer [[7], [8, 9]] 1) (sample_world [9]) (fst (sample_append [9]))
          \<and> ch_saved ref_view ?cfg (fst (sample_append [9])) = advanced ?cfg (sample_transfer [[7], [8, 9]] 1) c)"
    by (rule clickhouse_cursor_covers_written_rows[OF sample_good]) (simp_all add: sample_setting)
  then show ?thesis using after before kept unfolding same by auto
qed

section \<open>Responses that were not read\<close>

text \<open>The body of a successful response is taken for empty when it cannot be read: a table that exists is
  then taken for missing, its row count for none, and the guard against a shrinking refresh lets it pass.\<close>

lemma cut_reply_hides_table:
  assumes "cs_ask sk (base_request sk (ExistsTable t)) (cw_server w) = (s', Reply 200 None)"
  shows "snd (ch_table_exists sk t w) = Inr False" "snd (ch_row_count sk t w) = Inr None"
    "full_refresh_shrink_verdict None n False = Proceed"
  using assms by (simp_all add: ch_row_count_def ch_table_exists_def query_scalar_def ask_body_def send_request_def act_seq_def act_lift_def act_ok_def
      succeeded_def body_text_def trim_def trim_start_def full_refresh_shrink_verdict_def)

text \<open>A text cursor is saved as it is and read back as \<open>TabSeparated\<close> spells it, unlike every other text the
  sink reads: one with a quote comes back with a backslash before it.\<close>

lemma cursor_read_escaped:
  fixes s :: 's
  assumes "cs_ask sk (base_request sk (ReadCursor (cfg_state_table_name cfg) (effective_state_key cfg) (cfg_dest_table cfg))) (cw_server w)
      = (s, Reply 200 (Some (''O'' @ [BSL, APOS] @ ''Brien'')))" and "cfg_state_table_name cfg \<in> set (cw_ready w)"
  shows "snd (ch_read_last_watermark sk cfg w) = Inr (Some (''O'' @ [BSL, APOS] @ ''Brien''))"
    and "tsv_field (''O'' @ [BSL, APOS] @ ''Brien'') = Some (''O'' @ [APOS] @ ''Brien'')"
proof -
  have "trim (''O'' @ [BSL, APOS] @ ''Brien'') = ''O'' @ [BSL, APOS] @ ''Brien''" by code_simp
  then show "snd (ch_read_last_watermark sk cfg w) = Inr (Some (''O'' @ [BSL, APOS] @ ''Brien''))"
    using assms by (simp add: ch_read_last_watermark_def Let_def act_seq_def state_table_ready_def act_get_def act_ok_def or_no_table_def
        act_result_def query_scalar_def ask_body_def send_request_def act_lift_def succeeded_def body_text_def)
  show "tsv_field (''O'' @ [BSL, APOS] @ ''Brien'') = Some (''O'' @ [APOS] @ ''Brien'')" by code_simp
qed

text \<open>The clean-up covers what follows the preparation of the target: a failure inside it, here a response to
  the staging table's creation that is lost, leaves the staging table behind.\<close>

lemma staging_left_behind:
  "map fst (rs_tables (cw_server (fst (sample_refresh [3])))) = [''orders_staging_1'', ''orders'']"
  by code_simp

end
