(* ===== verification/Spec2Isabelle.thy ===== *)
theory Spec2Isabelle
  imports QH_Error QH_Warning_Kind QH_Decimal QH_Memory QH_Sql QH_Partition QH_Types QH_Ch_Types
    QH_Copy_Values QH_Copy_Decode QH_Copy_Laws QH_Copy_Typed QH_Host QH_Config QH_Ddl QH_Transform QH_Null_Guard QH_Warnings QH_Explain QH_Sweep QH_Chunk QH_Merge QH_Csv
    QH_Proto QH_Effects QH_Sink QH_Transfer QH_Transfer_Laws QH_Transfer_Cursor QH_Ch_Sink QH_Bq_Write QH_Bq_Jobs QH_Bq_Sink QH_Reconcile QH_Ch_Laws QH_Ch_Runs
begin

text \<open>Header.\<close>

end
